(* ===== verification/Dfs_Prelude.thy ===== *)
theory Dfs_Prelude
  imports Main "HOL-Library.Word"
begin

unbundle bit_operations_syntax

text \<open>
  Shared vocabulary of the development: the machine types of the C++ sources as words, the
  errno values the sources return, byte arrays as lists with block reads (\<open>slice\<close>) and block
  writes (\<open>memcpy_at\<close>), the C library calls the sources rely on, and the lemmas on them that
  the component theories use.
\<close>

section \<open>Machine types and error numbers\<close>

type_synonym u8 = "8 word"
type_synonym u16 = "16 word"
type_synonym u32 = "32 word"
type_synonym u64 = "64 word"

text \<open>
  A C \<open>char\<close> buffer and a \<open>uint8_t\<close> name or id buffer hold raw bytes; both are lists of
  HOL's 8-bit \<open>char\<close>. The values are those of the C library's errno header on Linux.
\<close>

abbreviation (input) E_OK :: int where "E_OK \<equiv> 0"
abbreviation (input) ENOENT :: int where "ENOENT \<equiv> 2"
abbreviation (input) EIO :: int where "EIO \<equiv> 5"
abbreviation (input) EEXIST :: int where "EEXIST \<equiv> 17"
abbreviation (input) EINVAL :: int where "EINVAL \<equiv> 22"
abbreviation (input) ENOSPC :: int where "ENOSPC \<equiv> 28"
abbreviation (input) ENAMETOOLONG :: int where "ENAMETOOLONG \<equiv> 36"

abbreviation (input) NUL :: char where "NUL \<equiv> CHR 0x00"

named_theorems io_defs \<open>definitions of the file operations, unfolded together\<close>
named_theorems geometry \<open>closed forms of the bucket arithmetic\<close>

section \<open>Byte arrays\<close>

definition slice :: "nat \<Rightarrow> nat \<Rightarrow> 'a list \<Rightarrow> 'a list" where
  "slice off n xs = take n (drop off xs)"

definition memcpy_at :: "nat \<Rightarrow> 'a list \<Rightarrow> 'a list \<Rightarrow> 'a list" where
  "memcpy_at off src dst = take off dst @ src @ drop (off + length src) dst"

text \<open>
  \<open>memcpy_s (dst, dstMax, src, count)\<close> of C11 Annex K on a whole destination buffer: a zero
  or too small destination size is an error, and on an error with a non-zero size the
  destination is set to zero bytes.
\<close>

definition memcpy_s_ok :: "nat \<Rightarrow> nat \<Rightarrow> bool" where
  "memcpy_s_ok destMax count \<longleftrightarrow> destMax \<noteq> 0 \<and> count \<le> destMax"

definition memcpy_s :: "char list \<Rightarrow> char list \<Rightarrow> bool \<times> char list" where
  "memcpy_s dst src =
     (if memcpy_s_ok (length dst) (length src) then (True, memcpy_at 0 src dst)
      else (False, replicate (length dst) NUL))"

lemma length_slice [simp]: "length (slice off n xs) = min n (length xs - off)"
  by (simp add: slice_def)

lemma length_memcpy_at [simp]:
  "off + length src \<le> length dst \<Longrightarrow> length (memcpy_at off src dst) = length dst"
  by (simp add: memcpy_at_def)

lemma nth_slice: "i < n \<Longrightarrow> off + i < length xs \<Longrightarrow> slice off n xs ! i = xs ! (off + i)"
  by (simp add: slice_def)

lemma nth_memcpy_at:
  assumes "off + length src \<le> length dst" and "i < length dst"
  shows "memcpy_at off src dst ! i =
    (if off \<le> i \<and> i < off + length src then src ! (i - off) else dst ! i)"
  using assms by (auto simp: memcpy_at_def nth_append)

lemma slice_memcpy_same:
  "off + length src \<le> length dst \<Longrightarrow> slice off (length src) (memcpy_at off src dst) = src"
  by (simp add: slice_def memcpy_at_def)

lemma slice_memcpy_disjoint:
  assumes "off + length src \<le> length dst" and "p + n \<le> off \<or> off + length src \<le> p"
  shows "slice p n (memcpy_at off src dst) = slice p n dst"
proof (rule nth_equalityI)
  show "length (slice p n (memcpy_at off src dst)) = length (slice p n dst)"
    using assms(1) by simp
next
  fix i assume i: "i < length (slice p n (memcpy_at off src dst))"
  then have "i < n" "p + i < length dst" using assms(1) by auto
  then show "slice p n (memcpy_at off src dst) ! i = slice p n dst ! i"
    using assms by (auto simp: nth_slice nth_memcpy_at)
qed

lemma length_memcpy_s [simp]: "length (snd (memcpy_s dst src)) = length dst"
  by (simp add: memcpy_s_def memcpy_s_ok_def)

lemma fst_memcpy_s: "fst (memcpy_s dst src) \<longleftrightarrow> memcpy_s_ok (length dst) (length src)"
  by (simp add: memcpy_s_def)

lemma memcpy_s_zero:
  "length src \<le> n \<Longrightarrow> snd (memcpy_s (replicate n NUL) src) = src @ replicate (n - length src) NUL"
  by (cases "n = 0") (auto simp: memcpy_s_def memcpy_s_ok_def memcpy_at_def)

section \<open>Decimal rendering\<close>

text \<open>\<open>std::to_string\<close> on unsigned and on signed values.\<close>

fun to_string_nat :: "nat \<Rightarrow> string" where
  "to_string_nat n =
     (if n < 10 then [char_of (48 + n)] else to_string_nat (n div 10) @ [char_of (48 + n mod 10)])"

declare to_string_nat.simps [simp del]

definition to_string :: "int \<Rightarrow> string" where
  "to_string i = (if i < 0 then CHR ''-'' # to_string_nat (nat (- i)) else to_string_nat (nat i))"

fun parse_nat :: "nat \<Rightarrow> string \<Rightarrow> nat" where
  "parse_nat acc [] = acc"
| "parse_nat acc (c # cs) = parse_nat (10 * acc + (of_char c - 48)) cs"

lemma parse_nat_append: "parse_nat acc (xs @ ys) = parse_nat (parse_nat acc xs) ys"
  by (induction acc xs rule: parse_nat.induct) auto

lemma parse_to_string_nat: "parse_nat 0 (to_string_nat n) = n"
proof (induction n rule: to_string_nat.induct)
  case (1 n)
  show ?case
  proof (cases "n < 10")
    case True
    then show ?thesis by (simp add: to_string_nat.simps [of n])
  next
    case False
    have "(48 + n mod 10) mod 256 = 48 + n mod 10" by simp
    with False "1.IH" show ?thesis
      by (simp add: to_string_nat.simps [of n] parse_nat_append)
  qed
qed

lemma to_string_nat_inj: "to_string_nat m = to_string_nat n \<longleftrightarrow> m = n"
  by (metis parse_to_string_nat)

lemma to_string_nat_neq_Nil [simp]: "to_string_nat n \<noteq> []"
  by (simp add: to_string_nat.simps [of n])

section \<open>Positions in a string\<close>

text \<open>
  \<open>std::string::find_last_of (c)\<close>: the largest index holding the character, \<open>None\<close> for
  \<open>npos\<close>.
\<close>

fun find_last_of :: "'a \<Rightarrow> 'a list \<Rightarrow> nat option" where
  "find_last_of c [] = None"
| "find_last_of c (x # xs) =
     (case find_last_of c xs of Some i \<Rightarrow> Some (Suc i) | None \<Rightarrow> if x = c then Some 0 else None)"

lemma find_last_of_None: "find_last_of c xs = None \<longleftrightarrow> c \<notin> set xs"
  by (induction xs) (auto split: option.splits)

lemma find_last_of_Some:
  "find_last_of c xs = Some i \<Longrightarrow> i < length xs \<and> xs ! i = c \<and> c \<notin> set (drop (Suc i) xs)"
  by (induction xs arbitrary: i) (auto simp: find_last_of_None split: option.splits if_splits)

end
