(* ===== verification/File_Transfer.thy ===== *)
theory File_Transfer
  imports Dfs_Prelude
begin

text \<open>
  How a block of a dentry file is read and written, \<open>utils/dentry/src/file_utils.cpp\<close>: a seek and a
  loop of \<open>read\<close> or \<open>write\<close> calls. A call that moves the whole block, or a first call that fails, does
  what the dentry files rely on. The loops never advance the buffer, so a transfer in two calls does
  not: the block comes out as two prefixes of itself.
\<close>

section \<open>The two functions\<close>

text \<open>
  The outcome of the n-th call: an error, or a bound on the bytes it moves. \<open>seek\<close> is the error number
  of \<open>lseek\<close>, \<open>None\<close> the null buffer. The position of the descriptor is the offset plus the bytes moved.
\<close>

datatype io_call = IoError | IoMoved nat

definition put_front :: "u8 list \<Rightarrow> u8 list \<Rightarrow> u8 list" where
  "put_front bytes buf = bytes @ drop (length bytes) buf"

definition overwrite :: "nat \<Rightarrow> u8 list \<Rightarrow> u8 list \<Rightarrow> u8 list" where
  "overwrite pos bytes data = take pos (data @ replicate (pos - length data) 0) @ bytes @ drop (pos + length bytes) data"

function read_block_loop :: "(nat \<Rightarrow> io_call) \<Rightarrow> u8 list \<Rightarrow> nat \<Rightarrow> nat \<Rightarrow> nat \<Rightarrow> nat \<Rightarrow> u8 list \<Rightarrow> int \<times> u8 list" where
  "read_block_loop calls content offset len k readLen buf =
     (if readLen < len
      then case calls k of
          IoError \<Rightarrow> (-1, buf)
        | IoMoved n \<Rightarrow>
            let got = take (min n (len - readLen)) (drop (offset + readLen) content)
            in if got = [] then (int readLen, buf)
               else read_block_loop calls content offset len (k + 1) (readLen + length got) (put_front got buf)
      else (int readLen, buf))"
  by pat_completeness auto
termination
  by (relation "measure (\<lambda>(calls, content, offset, len, k, readLen, buf). len - readLen)") (auto simp: length_greater_0_conv [symmetric] simp del: length_greater_0_conv)

definition ReadFile :: "(nat \<Rightarrow> io_call) \<Rightarrow> int \<Rightarrow> u8 list \<Rightarrow> int \<Rightarrow> int \<Rightarrow> nat \<Rightarrow> u8 list option \<Rightarrow> int \<times> u8 list option" where
  "ReadFile calls seek content fd offset len data =
     (case data of
        None \<Rightarrow> (-1, data)
      | Some buf \<Rightarrow>
          if fd < 0 \<or> offset < 0 then (-1, data)
          else if seek \<noteq> 0 then (- seek, data)
          else map_prod id Some (read_block_loop calls content (nat offset) len 0 0 buf))"

function write_block_loop :: "(nat \<Rightarrow> io_call) \<Rightarrow> nat \<Rightarrow> nat \<Rightarrow> u8 list \<Rightarrow> nat \<Rightarrow> nat \<Rightarrow> u8 list \<Rightarrow> int \<times> u8 list" where
  "write_block_loop calls offset len buf k writeLen content =
     (if writeLen < len
      then case calls k of
          IoError \<Rightarrow> (-1, content)
        | IoMoved n \<Rightarrow>
            let ret = min n (len - writeLen)
            in if ret = 0 then (0, content)
               else write_block_loop calls offset len buf (k + 1) (writeLen + ret) (overwrite (offset + writeLen) (take ret buf) content)
      else (int writeLen, content))"
  by pat_completeness auto
termination
  by (relation "measure (\<lambda>(calls, offset, len, buf, k, writeLen, content). len - writeLen)") auto

definition WriteFile :: "(nat \<Rightarrow> io_call) \<Rightarrow> int \<Rightarrow> int \<Rightarrow> u8 list option \<Rightarrow> int \<Rightarrow> nat \<Rightarrow> u8 list \<Rightarrow> int \<times> u8 list" where
  "WriteFile calls seek fd data offset len content =
     (case data of
        None \<Rightarrow> (-1, content)
      | Some buf \<Rightarrow>
          if fd < 0 \<or> offset < 0 then (-1, content)
          else if seek \<noteq> 0 then (- seek, content)
          else write_block_loop calls (nat offset) len buf 0 0 content)"

declare read_block_loop.simps [simp del] write_block_loop.simps [simp del]

section \<open>The count that is returned\<close>

text \<open>What is returned is an error or a number of bytes up to the size asked for.\<close>

lemma read_block_loop_count: "readLen \<le> len \<Longrightarrow> fst (read_block_loop calls content offset len k readLen buf) \<in> {-1} \<union> {int readLen..int len}"
proof (induction calls content offset len k readLen buf rule: read_block_loop.induct)
  case (1 calls content offset len k readLen buf)
  show ?case
  proof (cases "readLen < len")
    case True
    show ?thesis
    proof (cases "calls k")
      case (IoMoved n)
      let ?got = "take (min n (len - readLen)) (drop (offset + readLen) content)"
      have "readLen + length ?got \<le> len" using True by simp
      then have "?got \<noteq> [] \<Longrightarrow> fst (read_block_loop calls content offset len (k + 1) (readLen + length ?got) (put_front ?got buf)) \<in>
          {-1} \<union> {int (readLen + length ?got)..int len}"
        using "1.IH" [OF True IoMoved refl] by blast
      then show ?thesis using True IoMoved by (subst read_block_loop.simps) (auto simp: Let_def)
    qed (use True in \<open>simp add: read_block_loop.simps [of calls]\<close>)
  qed (use 1 in \<open>simp add: read_block_loop.simps [of calls]\<close>)
qed

text \<open>A write of the whole size is reported only when the calls moved that many bytes.\<close>

lemma write_block_loop_count: "writeLen \<le> len \<Longrightarrow> fst (write_block_loop calls offset len buf k writeLen content) \<in> {-1, 0, int len}"
proof (induction calls offset len buf k writeLen content rule: write_block_loop.induct)
  case (1 calls offset len buf k writeLen content)
  show ?case
  proof (cases "writeLen < len")
    case True
    show ?thesis
    proof (cases "calls k")
      case (IoMoved n)
      have "writeLen + min n (len - writeLen) \<le> len" using True by simp
      then show ?thesis using "1.IH" [OF True IoMoved refl] True IoMoved by (subst write_block_loop.simps) (simp add: Let_def)
    qed (use True in \<open>simp add: write_block_loop.simps [of calls]\<close>)
  qed (use 1 in \<open>simp add: write_block_loop.simps [of calls]\<close>)
qed

section \<open>Whole transfers\<close>

text \<open>One call that moves everything: the buffer holds the block, and the file holds the buffer.\<close>

lemma read_whole:
  assumes "0 \<le> fd" "calls 0 = IoMoved n" "len \<le> n" "0 < len" "offset + len \<le> length content" "length buf = len"
  shows "ReadFile calls 0 content fd (int offset) len (Some buf) = (int len, Some (take len (drop offset content)))"
proof -
  let ?got = "take len (drop offset content)"
  have l: "length ?got = len" using assms(5) by simp
  have "read_block_loop calls content offset len 0 0 buf = read_block_loop calls content offset len 1 len (put_front ?got buf)"
    using assms l by (subst read_block_loop.simps) (auto simp: Let_def min_def)
  also have "\<dots> = (int len, put_front ?got buf)" by (subst read_block_loop.simps) simp
  finally show ?thesis using assms l by (simp add: ReadFile_def put_front_def)
qed

lemma write_whole:
  assumes "0 \<le> fd" "calls 0 = IoMoved n" "len \<le> n" "0 < len" "length buf = len"
  shows "WriteFile calls 0 fd (Some buf) (int offset) len content = (int len, overwrite offset buf content)"
proof -
  have "write_block_loop calls offset len buf 0 0 content = write_block_loop calls offset len buf 1 len (overwrite offset buf content)"
    using assms by (subst write_block_loop.simps) (simp add: Let_def min_def)
  also have "\<dots> = (int len, overwrite offset buf content)" by (subst write_block_loop.simps) simp
  finally show ?thesis using assms(1) by (simp add: WriteFile_def)
qed

text \<open>Reading back what was written whole.\<close>

lemma overwrite_read: "take (length bytes) (drop pos (overwrite pos bytes data)) = bytes"
  by (simp add: overwrite_def)

text \<open>A first call that fails leaves the buffer and the file as they were.\<close>

lemma first_call_fails:
  assumes "calls 0 = IoError" "0 < len" "0 \<le> fd" "0 \<le> offset"
  shows "ReadFile calls 0 content fd offset len (Some buf) = (-1, Some buf)"
    and "WriteFile calls 0 fd (Some buf) offset len content = (-1, content)"
  using assms by (simp_all add: ReadFile_def WriteFile_def read_block_loop.simps [of calls] write_block_loop.simps [of calls])

section \<open>Transfers in two calls\<close>

text \<open>
  The second call works on the start of the buffer again. A write in two calls reports success and
  leaves the first part of the block where its second part belongs; a read in two calls reports
  success with the second part over the first.
\<close>

lemma write_two_calls:
  assumes "0 \<le> fd" "calls 0 = IoMoved n" "0 < n" "n < len" "calls 1 = IoMoved (len - n)" "length buf = len"
  shows "WriteFile calls 0 fd (Some buf) (int offset) len content =
    (int len, overwrite (offset + n) (take (len - n) buf) (overwrite offset (take n buf) content))"
proof -
  let ?c = "overwrite offset (take n buf) content"
  have "write_block_loop calls offset len buf 0 0 content = write_block_loop calls offset len buf 1 n ?c"
    using assms by (subst write_block_loop.simps) (simp add: Let_def min_def)
  also have "\<dots> = write_block_loop calls offset len buf 2 len (overwrite (offset + n) (take (len - n) buf) ?c)"
    using assms by (subst write_block_loop.simps) (simp add: Let_def numeral_2_eq_2)
  also have "\<dots> = (int len, overwrite (offset + n) (take (len - n) buf) ?c)" by (subst write_block_loop.simps) simp
  finally show ?thesis using assms(1) by (simp add: WriteFile_def)
qed

lemma write_two_calls_bytes:
  assumes "0 < n" "n < len" "length buf = len" "offset \<le> length content"
  shows "take len (drop offset (overwrite (offset + n) (take (len - n) buf) (overwrite offset (take n buf) content))) =
    take n buf @ take (len - n) buf"
  using assms by (simp add: overwrite_def)

lemma read_two_calls:
  assumes "0 \<le> fd" "calls 0 = IoMoved n" "0 < n" "n < len" "calls 1 = IoMoved (len - n)" "offset + len \<le> length content" "length buf = len"
  shows "ReadFile calls 0 content fd (int offset) len (Some buf) =
    (int len, Some (put_front (take (len - n) (drop (offset + n) content)) (put_front (take n (drop offset content)) buf)))"
proof -
  let ?b = "put_front (take n (drop offset content)) buf" and ?got = "take (len - n) (drop (offset + n) content)"
  have l: "length (take n (drop offset content)) = n" "length ?got = len - n" using assms(4, 6) by simp_all
  then have ne: "take n (drop offset content) \<noteq> []" "?got \<noteq> []" using assms(3, 4) by auto
  have "read_block_loop calls content offset len 0 0 buf = read_block_loop calls content offset len 1 n ?b"
    using assms l ne by (subst read_block_loop.simps) (simp add: Let_def min_def)
  also have "\<dots> = read_block_loop calls content offset len 2 len (put_front ?got ?b)"
    using assms l ne by (subst read_block_loop.simps) (simp add: Let_def numeral_2_eq_2)
  also have "\<dots> = (int len, put_front ?got ?b)" by (subst read_block_loop.simps) simp
  finally show ?thesis using assms(1) by (simp add: ReadFile_def)
qed

text \<open>Four bytes written and read in two halves, and a write whose second call fails.\<close>

lemma short_transfers:
  defines "halves \<equiv> (\<lambda>_. IoMoved 2)" and "fails \<equiv> (\<lambda>k. if k = 0 then IoMoved 2 else IoError)"
  shows "WriteFile halves 0 3 (Some [1, 2, 3, 4]) 0 4 [] = (4, [1, 2, 1, 2])"
    and "ReadFile halves 0 [1, 2, 3, 4] 3 0 4 (Some [0, 0, 0, 0]) = (4, Some [3, 4, 0, 0])"
    and "WriteFile fails 0 3 (Some [1, 2, 3, 4]) 0 4 [9, 9, 9, 9] = (-1, [1, 2, 9, 9])"
  unfolding halves_def fails_def by code_simp+

end
