(* ===== verification/Bit_Ops.thy ===== *)
theory Bit_Ops
  imports Dfs_Prelude
begin

text \<open>
  The slot bitmap of a dentry block: the \<open>BitOps\<close> helpers of \<open>utils/dentry/include/meta_file.h\<close>
  (repeated in \<open>services/clouddiskservice/sync_folder/include/bit_ops.h\<close>) and the search for a
  run of free slots (\<open>RoomForFilename\<close>). A bitmap is its byte array, a list of 8-bit words.
\<close>

section \<open>Bit operations on a byte array\<close>

definition TestBit :: "nat \<Rightarrow> u8 list \<Rightarrow> bool" where
  "TestBit nr addr = (1 AND drop_bit (nr mod 8) (addr ! (nr div 8)) \<noteq> 0)"

definition ClearBit :: "nat \<Rightarrow> u8 list \<Rightarrow> u8 list" where
  "ClearBit nr addr =
     addr[nr div 8 := addr ! (nr div 8) AND NOT (push_bit (nr mod 8) 1)]"

definition SetBit :: "nat \<Rightarrow> u8 list \<Rightarrow> u8 list" where
  "SetBit nr addr =
     addr[nr div 8 := addr ! (nr div 8) OR push_bit (nr mod 8) 1]"

function FindNextBit :: "u8 list \<Rightarrow> nat \<Rightarrow> nat \<Rightarrow> nat" where
  "FindNextBit addr maxSlots start =
     (if start < maxSlots
      then if TestBit start addr then start else FindNextBit addr maxSlots (start + 1)
      else maxSlots)"
  by pat_completeness auto
termination by (relation "measure (\<lambda>(addr, m, s). m - s)") auto

function FindNextZeroBit :: "u8 list \<Rightarrow> nat \<Rightarrow> nat \<Rightarrow> nat" where
  "FindNextZeroBit addr maxSlots start =
     (if start < maxSlots
      then if \<not> TestBit start addr then start else FindNextZeroBit addr maxSlots (start + 1)
      else maxSlots)"
  by pat_completeness auto
termination by (relation "measure (\<lambda>(addr, m, s). m - s)") auto

declare FindNextBit.simps [simp del] FindNextZeroBit.simps [simp del]

lemma TestBit_iff: "TestBit nr addr \<longleftrightarrow> bit (addr ! (nr div 8)) (nr mod 8)"
proof -
  have "(1 AND drop_bit k w \<noteq> (0::u8)) = bit w k" for w :: u8 and k
    by (simp add: and_one_eq bit_iff_odd_drop_bit odd_iff_mod_2_eq_one one_and_eq)
  then show ?thesis by (simp add: TestBit_def)
qed

lemma length_SetBit [simp]: "length (SetBit nr addr) = length addr"
  by (simp add: SetBit_def)

lemma length_ClearBit [simp]: "length (ClearBit nr addr) = length addr"
  by (simp add: ClearBit_def)

lemma div_mod_8_eq: "m div 8 = n div 8 \<Longrightarrow> m mod 8 = n mod 8 \<Longrightarrow> m = (n::nat)"
  by (metis mult_div_mod_eq)

lemma bit_exp_u8: "k < 8 \<Longrightarrow> bit (2 ^ k :: u8) j \<longleftrightarrow> j = k"
  by (auto simp: bit_exp_iff possible_bit_word)

lemma TestBit_SetBit:
  assumes "m < 8 * length addr"
  shows "TestBit n (SetBit m addr) \<longleftrightarrow> n = m \<or> TestBit n addr"
proof (cases "n div 8 = m div 8")
  case True
  have "m div 8 < length addr" using assms by auto
  moreover have "n = m \<longleftrightarrow> n mod 8 = m mod 8" using True div_mod_8_eq by blast
  ultimately show ?thesis using True
    by (auto simp: TestBit_iff SetBit_def bit_or_iff bit_exp_u8)
next
  case False
  then show ?thesis by (auto simp: TestBit_iff SetBit_def)
qed

lemma TestBit_ClearBit:
  assumes "m < 8 * length addr"
  shows "TestBit n (ClearBit m addr) \<longleftrightarrow> n \<noteq> m \<and> TestBit n addr"
proof (cases "n div 8 = m div 8")
  case True
  have "m div 8 < length addr" using assms by auto
  moreover have "n = m \<longleftrightarrow> n mod 8 = m mod 8" using True div_mod_8_eq by blast
  ultimately show ?thesis using True
    by (auto simp: TestBit_iff ClearBit_def bit_and_iff bit_not_iff bit_exp_u8)
next
  case False
  then show ?thesis by (auto simp: TestBit_iff ClearBit_def)
qed

section \<open>Runs of bits\<close>

text \<open>The loops \<open>for (i = 0; i < slots; i++) SetBit (bitPos + i, bitmap)\<close> and their converse.\<close>

primrec set_bits :: "nat \<Rightarrow> nat \<Rightarrow> u8 list \<Rightarrow> u8 list" where
  "set_bits p 0 addr = addr"
| "set_bits p (Suc n) addr = SetBit (p + n) (set_bits p n addr)"

primrec clear_bits :: "nat \<Rightarrow> nat \<Rightarrow> u8 list \<Rightarrow> u8 list" where
  "clear_bits p 0 addr = addr"
| "clear_bits p (Suc n) addr = ClearBit (p + n) (clear_bits p n addr)"

lemma length_set_bits [simp]: "length (set_bits p n addr) = length addr"
  by (induction n) auto

lemma length_clear_bits [simp]: "length (clear_bits p n addr) = length addr"
  by (induction n) auto

lemma TestBit_set_bits:
  "p + n \<le> 8 * length addr \<Longrightarrow>
   TestBit i (set_bits p n addr) \<longleftrightarrow> (p \<le> i \<and> i < p + n) \<or> TestBit i addr"
  by (induction n) (auto simp: TestBit_SetBit)

lemma TestBit_clear_bits:
  "p + n \<le> 8 * length addr \<Longrightarrow>
   TestBit i (clear_bits p n addr) \<longleftrightarrow> \<not> (p \<le> i \<and> i < p + n) \<and> TestBit i addr"
  by (induction n) (auto simp: TestBit_ClearBit)

section \<open>Searching\<close>

lemma FindNextBit_spec:
  assumes "start \<le> maxSlots"
  shows "start \<le> FindNextBit addr maxSlots start \<and> FindNextBit addr maxSlots start \<le> maxSlots \<and>
    (\<forall>i. start \<le> i \<and> i < FindNextBit addr maxSlots start \<longrightarrow> \<not> TestBit i addr) \<and>
    (FindNextBit addr maxSlots start < maxSlots \<longrightarrow> TestBit (FindNextBit addr maxSlots start) addr)"
  using assms
proof (induction addr maxSlots start rule: FindNextBit.induct)
  case (1 addr m s)
  show ?case
  proof (cases "s < m \<and> \<not> TestBit s addr")
    case True
    with "1.IH" have IH: "s + 1 \<le> FindNextBit addr m (s + 1) \<and> FindNextBit addr m (s + 1) \<le> m \<and>
      (\<forall>i. s + 1 \<le> i \<and> i < FindNextBit addr m (s + 1) \<longrightarrow> \<not> TestBit i addr) \<and>
      (FindNextBit addr m (s + 1) < m \<longrightarrow> TestBit (FindNextBit addr m (s + 1)) addr)" by simp
    have eq: "FindNextBit addr m s = FindNextBit addr m (s + 1)"
      using True by (simp add: FindNextBit.simps [of addr m s])
    have "\<not> TestBit i addr" if "s \<le> i" "i < FindNextBit addr m s" for i
      using IH True that eq by (cases "i = s") auto
    with IH eq show ?thesis by auto
  next
    case False
    with "1.prems" show ?thesis by (auto simp: FindNextBit.simps [of addr m s])
  qed
qed

lemma FindNextZeroBit_spec:
  assumes "start \<le> maxSlots"
  shows "start \<le> FindNextZeroBit addr maxSlots start \<and> FindNextZeroBit addr maxSlots start \<le> maxSlots \<and>
    (\<forall>i. start \<le> i \<and> i < FindNextZeroBit addr maxSlots start \<longrightarrow> TestBit i addr) \<and>
    (FindNextZeroBit addr maxSlots start < maxSlots \<longrightarrow>
       \<not> TestBit (FindNextZeroBit addr maxSlots start) addr)"
  using assms
proof (induction addr maxSlots start rule: FindNextZeroBit.induct)
  case (1 addr m s)
  show ?case
  proof (cases "s < m \<and> TestBit s addr")
    case True
    with "1.IH" have IH: "s + 1 \<le> FindNextZeroBit addr m (s + 1) \<and> FindNextZeroBit addr m (s + 1) \<le> m \<and>
      (\<forall>i. s + 1 \<le> i \<and> i < FindNextZeroBit addr m (s + 1) \<longrightarrow> TestBit i addr) \<and>
      (FindNextZeroBit addr m (s + 1) < m \<longrightarrow> \<not> TestBit (FindNextZeroBit addr m (s + 1)) addr)" by simp
    have eq: "FindNextZeroBit addr m s = FindNextZeroBit addr m (s + 1)"
      using True by (simp add: FindNextZeroBit.simps [of addr m s])
    have "TestBit i addr" if "s \<le> i" "i < FindNextZeroBit addr m s" for i
      using IH True that eq by (cases "i = s") auto
    with IH eq show ?thesis by auto
  next
    case False
    with "1.prems" show ?thesis by (auto simp: FindNextZeroBit.simps [of addr m s])
  qed
qed

text \<open>The \<open>while\<close> loop of \<open>RoomForFilename\<close>, from a given \<open>bitStart\<close>.\<close>

function RoomForFilename_from :: "u8 list \<Rightarrow> nat \<Rightarrow> nat \<Rightarrow> nat \<Rightarrow> nat" where
  "RoomForFilename_from bm slots maxSlots bitStart =
     (let zeroStart = FindNextZeroBit bm maxSlots bitStart in
      if zeroStart \<ge> maxSlots then maxSlots
      else let zeroEnd = FindNextBit bm maxSlots zeroStart in
        if zeroEnd - zeroStart \<ge> slots then zeroStart
        else if zeroEnd + 1 \<ge> maxSlots then maxSlots
        else RoomForFilename_from bm slots maxSlots (zeroEnd + 1))"
  by pat_completeness auto
termination
proof (relation "measure (\<lambda>(bm, sl, m, b). m - b)", goal_cases)
  case 1
  show ?case by simp
next
  case (2 bm sl m b zs ze)
  have "b \<le> zs" if "b \<le> m"
    using FindNextZeroBit_spec [OF that, of bm] 2(1) by simp
  moreover have "zs \<le> ze" using FindNextBit_spec [of zs m bm] 2 by simp
  moreover have "b \<le> m"
    using 2 by (cases "b \<le> m") (auto simp: FindNextZeroBit.simps [of bm m b])
  ultimately show ?case using 2 by simp
qed

declare RoomForFilename_from.simps [simp del]

definition RoomForFilename :: "u8 list \<Rightarrow> nat \<Rightarrow> nat \<Rightarrow> nat" where
  "RoomForFilename bm slots maxSlots = RoomForFilename_from bm slots maxSlots 0"

definition free_run :: "u8 list \<Rightarrow> nat \<Rightarrow> nat \<Rightarrow> nat \<Rightarrow> bool" where
  "free_run bm maxSlots p n \<longleftrightarrow> p + n \<le> maxSlots \<and> (\<forall>i. p \<le> i \<and> i < p + n \<longrightarrow> \<not> TestBit i bm)"

lemma RoomForFilename_from_sound:
  assumes "bitStart \<le> maxSlots"
  shows "RoomForFilename_from bm slots maxSlots bitStart \<le> maxSlots \<and>
    (RoomForFilename_from bm slots maxSlots bitStart < maxSlots \<longrightarrow>
       free_run bm maxSlots (RoomForFilename_from bm slots maxSlots bitStart) slots)"
  using assms
proof (induction bm slots maxSlots bitStart rule: RoomForFilename_from.induct)
  case (1 bm sl m b)
  let ?zs = "FindNextZeroBit bm m b"
  let ?ze = "FindNextBit bm m ?zs"
  have zs: "b \<le> ?zs" "?zs \<le> m" using FindNextZeroBit_spec [OF "1.prems", of bm] by auto
  have ze: "?zs \<le> ?ze" "?ze \<le> m" "\<And>i. ?zs \<le> i \<Longrightarrow> i < ?ze \<Longrightarrow> \<not> TestBit i bm"
    using FindNextBit_spec [OF zs(2), of bm] by auto
  consider (full) "?zs \<ge> m" | (fits) "?zs < m" "?ze - ?zs \<ge> sl"
    | (stop) "?zs < m" "?ze - ?zs < sl" "?ze + 1 \<ge> m"
    | (again) "?zs < m" "?ze - ?zs < sl" "?ze + 1 < m" by linarith
  then show ?case
  proof cases
    case again
    then have "RoomForFilename_from bm sl m b = RoomForFilename_from bm sl m (?ze + 1)"
      by (simp add: RoomForFilename_from.simps [of bm sl m b] Let_def)
    with "1.IH" [OF refl _ refl] again show ?thesis by simp
  next
    case fits
    then show ?thesis using ze
      by (auto simp: RoomForFilename_from.simps [of bm sl m b] Let_def free_run_def)
  qed (auto simp: RoomForFilename_from.simps [of bm sl m b] Let_def)
qed

lemma RoomForFilename_from_least:
  assumes "bitStart \<le> maxSlots" and "0 < slots" and "bitStart \<le> p"
    and "p < RoomForFilename_from bm slots maxSlots bitStart"
  shows "\<not> free_run bm maxSlots p slots"
  using assms
proof (induction bm slots maxSlots bitStart rule: RoomForFilename_from.induct)
  case (1 bm sl m b)
  let ?zs = "FindNextZeroBit bm m b"
  let ?ze = "FindNextBit bm m ?zs"
  have zs: "b \<le> ?zs" "?zs \<le> m" "\<And>i. b \<le> i \<Longrightarrow> i < ?zs \<Longrightarrow> TestBit i bm"
    using FindNextZeroBit_spec [OF "1.prems"(1), of bm] by auto
  have ze: "?zs \<le> ?ze" "?ze \<le> m" "?ze < m \<Longrightarrow> TestBit ?ze bm"
    using FindNextBit_spec [OF zs(2), of bm] by auto
  have low: "\<not> free_run bm m q sl" if "b \<le> q" "q < ?zs" for q
    using zs(3) [OF that] "1.prems"(2) by (auto simp: free_run_def)
  have mid: "\<not> free_run bm m q sl" if "?zs \<le> q" "q \<le> ?ze" "?ze - ?zs < sl" for q
  proof
    assume r: "free_run bm m q sl"
    then have "q + sl \<le> m" by (simp add: free_run_def)
    moreover have "?ze < q + sl" using that ze(1) "1.prems"(2) by linarith
    ultimately have "TestBit ?ze bm" using ze(3) by linarith
    with r that \<open>?ze < q + sl\<close> show False by (auto simp: free_run_def)
  qed
  consider (full) "?zs \<ge> m" | (fits) "?zs < m" "?ze - ?zs \<ge> sl"
    | (stop) "?zs < m" "?ze - ?zs < sl" "?ze + 1 \<ge> m"
    | (again) "?zs < m" "?ze - ?zs < sl" "?ze + 1 < m" by linarith
  then show ?case
  proof cases
    case full
    with low "1.prems" zs show ?thesis
      by (auto simp: RoomForFilename_from.simps [of bm sl m b] Let_def)
  next
    case fits
    with low "1.prems" show ?thesis
      by (auto simp: RoomForFilename_from.simps [of bm sl m b] Let_def)
  next
    case stop
    then have "p < m" using "1.prems"
      by (auto simp: RoomForFilename_from.simps [of bm sl m b] Let_def)
    with stop have "p \<le> ?ze" by linarith
    with low mid stop "1.prems"(3) show ?thesis by (cases "p < ?zs") auto
  next
    case again
    then have eq: "RoomForFilename_from bm sl m b = RoomForFilename_from bm sl m (?ze + 1)"
      by (simp add: RoomForFilename_from.simps [of bm sl m b] Let_def)
    show ?thesis
    proof (cases "p \<le> ?ze")
      case True
      with low mid again "1.prems"(3) show ?thesis by (cases "p < ?zs") auto
    next
      case False
      with "1.IH" [OF refl _ refl] again eq "1.prems" show ?thesis by simp
    qed
  qed
qed

lemma RoomForFilename_le: "RoomForFilename bm slots maxSlots \<le> maxSlots"
  using RoomForFilename_from_sound [of 0] by (simp add: RoomForFilename_def)

lemma RoomForFilename_free:
  "RoomForFilename bm slots maxSlots < maxSlots \<Longrightarrow>
   free_run bm maxSlots (RoomForFilename bm slots maxSlots) slots"
  using RoomForFilename_from_sound [of 0] by (simp add: RoomForFilename_def)

lemma RoomForFilename_least:
  "0 < slots \<Longrightarrow> p < RoomForFilename bm slots maxSlots \<Longrightarrow> \<not> free_run bm maxSlots p slots"
  using RoomForFilename_from_least [of 0] by (simp add: RoomForFilename_def)

end
