(* ===== verification/Bucket_Levels.thy ===== *)
theory Bucket_Levels
  imports Dfs_Prelude
begin

text \<open>
  The geometry of a dentry file: after a 4096-byte header come 4096-byte blocks, two per
  bucket, with \<open>2 ^ level\<close> buckets on each level. These are the static helpers of
  \<open>utils/dentry/src/meta_file.cpp\<close>; \<open>meta_file_clouddisk.cpp\<close> and
  \<open>cloud_disk_service_metafile.cpp\<close> carry the same text, with 16-byte slots in the last.
  \<open>uint32_t\<close> results are reduced modulo \<open>2 ^ 32\<close> where the source truncates.
\<close>

abbreviation (input) DENTRYGROUP_SIZE :: nat where "DENTRYGROUP_SIZE \<equiv> 4096"
abbreviation (input) DENTRYGROUP_HEADER :: nat where "DENTRYGROUP_HEADER \<equiv> 4096"
abbreviation (input) MAX_BUCKET_LEVEL :: nat where "MAX_BUCKET_LEVEL \<equiv> 63"
abbreviation (input) BUCKET_BLOCKS :: nat where "BUCKET_BLOCKS \<equiv> 2"

definition GetDentrySlots :: "nat \<Rightarrow> nat \<Rightarrow> nat" where
  "GetDentrySlots slotLenBits nameLen =
     drop_bit slotLenBits (nameLen + 2 ^ slotLenBits - 1) mod 2 ^ 32"

definition GetDentryGroupPos :: "nat \<Rightarrow> nat" where
  "GetDentryGroupPos bidx = bidx * DENTRYGROUP_SIZE + DENTRYGROUP_HEADER"

definition GetDentryGroupCnt :: "nat \<Rightarrow> nat" where
  "GetDentryGroupCnt sz =
     (if sz \<ge> DENTRYGROUP_HEADER then (sz - DENTRYGROUP_HEADER) div DENTRYGROUP_SIZE else 0)"

definition GetOverallBucket :: "nat \<Rightarrow> nat" where
  "GetOverallBucket level =
     (if level \<ge> MAX_BUCKET_LEVEL then 0 else (2 ^ (level + 1) - 1) mod 2 ^ 32)"

definition GetDcacheFileSize :: "nat \<Rightarrow> nat" where
  "GetDcacheFileSize level =
     GetOverallBucket level * DENTRYGROUP_SIZE * BUCKET_BLOCKS + DENTRYGROUP_HEADER"

definition GetBucketaddr :: "nat \<Rightarrow> nat \<Rightarrow> nat" where
  "GetBucketaddr level buckoffset =
     (if level \<ge> MAX_BUCKET_LEVEL then 0
      else if buckoffset \<ge> 2 ^ level then 0
      else (2 ^ level mod 2 ^ 32 + buckoffset + (2 ^ 32 - 1)) mod 2 ^ 32)"

definition GetBucketByLevel :: "nat \<Rightarrow> nat" where
  "GetBucketByLevel level = (if level \<ge> MAX_BUCKET_LEVEL then 0 else 2 ^ level mod 2 ^ 32)"

text \<open>\<open>GetBidxFromLevel\<close>: the first block of the bucket a hash has on a level.\<close>

definition GetBidxFromLevel :: "nat \<Rightarrow> u32 \<Rightarrow> nat" where
  "GetBidxFromLevel level namehash =
     (let bucket = GetBucketByLevel level in
      if bucket = 0 then 0
      else BUCKET_BLOCKS * GetBucketaddr level (unat namehash mod bucket) mod 2 ^ 32)"

text \<open>\<open>GetMaxLevel\<close>: the levels a file of the given size holds; \<open>st_size\<close> is cut to 32 bits.\<close>

fun max_level_loop :: "nat \<Rightarrow> nat" where
  "max_level_loop blkNum = (if blkNum > 1 then max_level_loop (blkNum div 2) + 1 else 0)"

declare max_level_loop.simps [simp del]

definition GetMaxLevel :: "bool \<Rightarrow> nat \<Rightarrow> nat" where
  "GetMaxLevel fstat_ok sz =
     (if \<not> fstat_ok then MAX_BUCKET_LEVEL
      else max_level_loop ((sz mod 2 ^ 32 div DENTRYGROUP_SIZE + 1) div 2))"

section \<open>Closed forms below the 32-bit limits\<close>

lemma GetDentrySlots_eq [geometry]:
  "n < 2 ^ 32 \<Longrightarrow> k < 32 \<Longrightarrow> GetDentrySlots k n = (n + 2 ^ k - 1) div 2 ^ k"
proof -
  assume n: "n < 2 ^ 32" and "k < 32"
  have "(n + 2 ^ k - 1) div 2 ^ k \<le> n"
    by (cases n) (auto simp: div_add_self2 intro!: order_trans [OF div_le_dividend])
  with n show ?thesis by (simp add: GetDentrySlots_def drop_bit_eq_div)
qed

lemma GetDentrySlots_0 [simp]: "GetDentrySlots k 0 = 0"
  by (simp add: GetDentrySlots_def drop_bit_eq_div)

lemma GetDentrySlots_cover:
  assumes "n < 2 ^ 32" and "k < 32"
  shows "n \<le> GetDentrySlots k n * 2 ^ k"
proof -
  let ?m = "(2::nat) ^ k"
  have m: "0 < ?m" by simp
  have "(n + ?m - 1) div ?m * ?m + (n + ?m - 1) mod ?m = n + ?m - 1"
    by (rule div_mult_mod_eq)
  moreover have "(n + ?m - 1) mod ?m < ?m" using m by (rule mod_less_divisor)
  ultimately have "n \<le> (n + ?m - 1) div ?m * ?m" by linarith
  then show ?thesis using assms by (simp only: GetDentrySlots_eq)
qed

lemma GetDentrySlots_pos: "0 < n \<Longrightarrow> n < 2 ^ 32 \<Longrightarrow> k < 32 \<Longrightarrow> 0 < GetDentrySlots k n"
  using GetDentrySlots_cover [of n k] by (cases "GetDentrySlots k n") auto

lemma power_level_less: "level < n \<Longrightarrow> (2::nat) ^ level < 2 ^ n"
  by (rule power_strict_increasing) auto

lemma GetBucketByLevel_eq [geometry]: "level < 32 \<Longrightarrow> GetBucketByLevel level = 2 ^ level"
  using power_level_less [of level 32] by (simp add: GetBucketByLevel_def)

lemma GetBucketByLevel_high: "32 \<le> level \<Longrightarrow> GetBucketByLevel level = 0"
proof -
  assume "32 \<le> level"
  then have "(2::nat) ^ level = 2 ^ 32 * 2 ^ (level - 32)"
    by (metis le_add_diff_inverse power_add)
  then show ?thesis by (simp add: GetBucketByLevel_def)
qed

lemma GetBucketaddr_eq [geometry]:
  assumes "level < 32" and "off < 2 ^ level"
  shows "GetBucketaddr level off = 2 ^ level - 1 + off"
proof -
  define P :: nat where "P = 2 ^ level"
  have P: "P \<le> 2147483648" "1 \<le> P" "off < P"
    using assms power_increasing [of level 31 "2::nat"] by (auto simp: P_def)
  then have "P mod 4294967296 + off + 4294967295 = (P - 1 + off) + 4294967296" by simp
  then have "(P mod 4294967296 + off + 4294967295) mod 4294967296 = (P - 1 + off) mod 4294967296"
    by (simp only: mod_add_self2)
  also have "\<dots> = P - 1 + off" using P by (intro mod_less) linarith
  finally show ?thesis using assms by (simp add: GetBucketaddr_def P_def)
qed

lemma GetBidxFromLevel_eq [geometry]:
  assumes "level \<le> 30"
  shows "GetBidxFromLevel level h = 2 * (2 ^ level - 1 + unat h mod 2 ^ level)"
proof -
  have le: "(2::nat) ^ level \<le> 1073741824"
    using assms power_increasing [of level 30 "2::nat"] by simp
  have lt: "unat h mod 2 ^ level < (2::nat) ^ level" by simp
  have "GetBucketaddr level (unat h mod 2 ^ level) = 2 ^ level - 1 + unat h mod 2 ^ level"
    using assms lt by (intro GetBucketaddr_eq) auto
  moreover have "2 * (2 ^ level - 1 + unat h mod 2 ^ level) < (4294967296::nat)"
  proof -
    have "2 * (P - 1 + R) < 4294967296" if "P \<le> 1073741824" "R < P" for P R :: nat
      using that by arith
    with le lt show ?thesis by blast
  qed
  ultimately show ?thesis
    using assms by (simp add: GetBidxFromLevel_def GetBucketByLevel_eq Let_def)
qed

lemma GetOverallBucket_eq [geometry]: "level \<le> 30 \<Longrightarrow> GetOverallBucket level = 2 ^ (level + 1) - 1"
proof -
  assume "level \<le> 30"
  then have "(2::nat) ^ (level + 1) \<le> 2 ^ 31" by (intro power_increasing) auto
  with \<open>level \<le> 30\<close> show ?thesis by (simp add: GetOverallBucket_def)
qed

lemma GetDcacheFileSize_eq [geometry]:
  "level \<le> 30 \<Longrightarrow> GetDcacheFileSize level = (2 ^ (level + 2) - 1) * 4096"
  by (simp add: GetDcacheFileSize_def GetOverallBucket_eq algebra_simps diff_mult_distrib2)

lemma GetDentryGroupCnt_file [geometry]:
  "level \<le> 30 \<Longrightarrow> GetDentryGroupCnt (GetDcacheFileSize level) = 2 * (2 ^ (level + 1) - 1)"
  by (simp add: GetDcacheFileSize_def GetOverallBucket_eq GetDentryGroupCnt_def)

lemma GetDentryGroupPos_in_file:
  "GetDentryGroupPos idx + 4096 \<le> sz \<longleftrightarrow> idx < GetDentryGroupCnt sz"
proof -
  have "4096 * (idx + 1) \<le> m \<longleftrightarrow> idx + 1 \<le> m div 4096" for m :: nat
    by (simp add: less_eq_div_iff_mult_less_eq mult.commute)
  from this [of "sz - 4096"] show ?thesis
    by (auto simp: GetDentryGroupPos_def GetDentryGroupCnt_def)
qed

lemma max_level_loop_power: "max_level_loop (2 ^ k) = k"
proof (induction k)
  case 0
  show ?case by (simp add: max_level_loop.simps)
next
  case (Suc k)
  have "(2::nat) ^ Suc k > 1" using power_level_less [of 0 "Suc k"] by simp
  then have "max_level_loop (2 ^ Suc k) = max_level_loop (2 ^ Suc k div 2) + 1"
    by (subst max_level_loop.simps) simp
  then show ?case using Suc by simp
qed

lemma GetDcacheFileSize_mod:
  assumes "18 \<le> level" and "level \<le> 30"
  shows "GetDcacheFileSize level mod 2 ^ 32 = (2 ^ 20 - 1) * 4096"
proof -
  have p: "(2::nat) ^ (level + 2) = 2 ^ 20 * 2 ^ (level - 18)"
  proof -
    have "level + 2 = 20 + (level - 18)" using assms by simp
    then show ?thesis by (metis power_add)
  qed
  have "GetDcacheFileSize level = (2 ^ (level - 18) - 1) * 2 ^ 32 + (2 ^ 20 - 1) * 4096"
  proof -
    define Q :: nat where "Q = 2 ^ (level - 18)"
    have "1 \<le> Q" by (simp add: Q_def)
    then have "(1048576 * Q - 1) * 4096 = (Q - 1) * 4294967296 + 1048575 * 4096" by simp
    then show ?thesis
      using assms(2) by (simp only: GetDcacheFileSize_eq p Q_def) simp
  qed
  then show ?thesis by simp
qed

lemma GetMaxLevel_file:
  assumes "level \<le> 18"
  shows "GetMaxLevel True (GetDcacheFileSize level) = level + 1"
proof -
  have le: "(2::nat) ^ (level + 2) \<le> 2 ^ 20" using assms by (intro power_increasing) auto
  have "GetDcacheFileSize level = (2 ^ (level + 2) - 1) * 4096"
    using assms by (intro GetDcacheFileSize_eq) auto
  moreover have "(2 ^ (level + 2) - 1) * 4096 < (2::nat) ^ 32" using le by simp
  ultimately have "GetDcacheFileSize level mod 2 ^ 32 div 4096 + 1 = 2 ^ (level + 2)" by simp
  moreover have "(2::nat) ^ (level + 2) div 2 = 2 ^ (level + 1)" by simp
  ultimately show ?thesis by (simp add: GetMaxLevel_def max_level_loop_power del: power_Suc)
qed

lemma GetMaxLevel_large:
  assumes "18 \<le> level" and "level \<le> 30"
  shows "GetMaxLevel True (GetDcacheFileSize level) = 19"
proof -
  have "GetDcacheFileSize level mod 2 ^ 32 div 4096 + 1 = 2 ^ 20"
    by (simp only: GetDcacheFileSize_mod [OF assms]) simp
  then have "(GetDcacheFileSize level mod 2 ^ 32 div 4096 + 1) div 2 = 2 ^ 19" by simp
  then show ?thesis unfolding GetMaxLevel_def using max_level_loop_power [of 19] by simp
qed

lemma GetMaxLevel_empty [simp]: "GetMaxLevel True 0 = 0"
  by (simp add: GetMaxLevel_def max_level_loop.simps)

lemma GetMaxLevel_header: "GetMaxLevel True DENTRYGROUP_HEADER = 0"
  by (simp add: GetMaxLevel_def max_level_loop.simps)

end
