(* ===== verification/Dentry_Group.thy ===== *)
theory Dentry_Group
  imports Bit_Ops Bucket_Levels
begin

text \<open>
  One 4096-byte block of a dentry file (\<open>HmdfsDentryGroup\<close>, \<open>CloudDiskServiceDentryGroup\<close>): a
  slot bitmap, an array of fixed-size entries and the array of name slots. The three stores of
  the repository differ in the entry type and in the number and size of the slots, so a block
  is polymorphic in the entry and the differing constants are a \<open>layout\<close>. A name occupies
  consecutive slots; its entry is at the first, the entries of the others have length zero.
\<close>

section \<open>Blocks\<close>

record 'd dentry_group =
  dentryVersion :: u8
  bitmap :: "u8 list"
  nsl :: "'d list"
  fileName :: "char list"

record 'd layout =
  per_group :: nat                  \<comment> \<open>\<open>DENTRY_PER_GROUP\<close>\<close>
  slot_bits :: nat                  \<comment> \<open>\<open>HMDFS_SLOT_LEN_BITS\<close>\<close>
  bitmap_len :: nat                 \<comment> \<open>\<open>DENTRY_BITMAP_LENGTH\<close>\<close>
  namelen_of :: "'d \<Rightarrow> u16"
  hash_of :: "'d \<Rightarrow> u32"
  clear_namelen :: "'d \<Rightarrow> 'd"
  zero_dentry :: 'd

definition zero_group :: "'d layout \<Rightarrow> 'd dentry_group" where
  "zero_group L = \<lparr>dentryVersion = 0, bitmap = replicate (bitmap_len L) 0,
     nsl = replicate (per_group L) (zero_dentry L),
     fileName = replicate (per_group L * 2 ^ slot_bits L) NUL\<rparr>"

definition wf_layout :: "'d layout \<Rightarrow> bool" where
  "wf_layout L \<longleftrightarrow> slot_bits L < 32 \<and> per_group L \<le> 8 * bitmap_len L \<and>
     (\<forall>d. namelen_of L (clear_namelen L d) = 0)"

definition slots_at :: "'d layout \<Rightarrow> 'd \<Rightarrow> nat" where
  "slots_at L d = GetDentrySlots (slot_bits L) (unat (namelen_of L d))"

definition name_at :: "'d layout \<Rightarrow> 'd dentry_group \<Rightarrow> nat \<Rightarrow> string" where
  "name_at L g i = slice (i * 2 ^ slot_bits L) (unat (namelen_of L (nsl g ! i))) (fileName g)"

definition head :: "'d layout \<Rightarrow> 'd dentry_group \<Rightarrow> nat \<Rightarrow> bool" where
  "head L g i \<longleftrightarrow> i < per_group L \<and> TestBit i (bitmap g) \<and> namelen_of L (nsl g ! i) \<noteq> 0"

text \<open>The block invariant: array sizes, and every entry owns the slots its name needs.\<close>

definition wf_group :: "'d layout \<Rightarrow> 'd dentry_group \<Rightarrow> bool" where
  "wf_group L g \<longleftrightarrow>
     length (bitmap g) = bitmap_len L \<and> length (nsl g) = per_group L \<and>
     length (fileName g) = per_group L * 2 ^ slot_bits L \<and>
     (\<forall>i. head L g i \<longrightarrow> i + slots_at L (nsl g ! i) \<le> per_group L \<and>
        (\<forall>j. i < j \<and> j < i + slots_at L (nsl g ! i) \<longrightarrow>
           TestBit j (bitmap g) \<and> namelen_of L (nsl g ! j) = 0))"

lemma wf_groupD:
  assumes "wf_group L g"
  shows "length (bitmap g) = bitmap_len L" and "length (nsl g) = per_group L"
    and "length (fileName g) = per_group L * 2 ^ slot_bits L"
  using assms by (simp_all add: wf_group_def)

lemma unat_lt2p_u16: "unat (w :: u16) < 2 ^ 16"
proof -
  have "unat w < 2 ^ LENGTH(16)" by (rule unsigned_less)
  then show ?thesis by simp
qed

lemma unat_u16_less: "unat (w :: u16) < 2 ^ 32"
  using unat_lt2p_u16 [of w] by simp

lemma slots_at_pos: "slot_bits L < 32 \<Longrightarrow> namelen_of L d \<noteq> 0 \<Longrightarrow> 0 < slots_at L d"
  unfolding slots_at_def
  by (intro GetDentrySlots_pos) (use unat_u16_less in \<open>auto simp: unat_gt_0 simp del: power_numeral\<close>)

lemma slots_at_cover: "slot_bits L < 32 \<Longrightarrow> unat (namelen_of L d) \<le> slots_at L d * 2 ^ slot_bits L"
  unfolding slots_at_def
  by (intro GetDentrySlots_cover) (use unat_u16_less in auto)

lemma TestBit_replicate_0: "i < 8 * n \<Longrightarrow> \<not> TestBit i (replicate n 0)"
  by (auto simp: TestBit_iff less_mult_imp_div_less mult.commute)

lemma head_zero_group [simp]: "wf_layout L \<Longrightarrow> \<not> head L (zero_group L) i"
  by (auto simp: head_def zero_group_def wf_layout_def dest!: TestBit_replicate_0 [rotated])
    (meson TestBit_replicate_0 less_le_trans)

lemma wf_zero_group: "wf_layout L \<Longrightarrow> wf_group L (zero_group L)"
  by (simp add: wf_group_def) (simp add: zero_group_def)

text \<open>Two entries of a block own disjoint slots.\<close>

lemma heads_disjoint:
  assumes "wf_group L g" and "head L g i" and "head L g j" and "i < j"
  shows "i + slots_at L (nsl g ! i) \<le> j"
proof (rule leI, rule notI)
  assume "j < i + slots_at L (nsl g ! i)"
  with assms have "namelen_of L (nsl g ! j) = 0" by (simp add: wf_group_def)
  with assms(3) show False by (simp add: head_def)
qed

lemma length_name_at:
  assumes "slot_bits L < 32" and "wf_group L g" and "head L g i"
  shows "length (name_at L g i) = unat (namelen_of L (nsl g ! i))"
proof -
  let ?n = "unat (namelen_of L (nsl g ! i))" and ?s = "slots_at L (nsl g ! i)" and ?z = "(2::nat) ^ slot_bits L"
  have "i + ?s \<le> per_group L" using assms(2,3) by (simp add: wf_group_def)
  then have "(i + ?s) * ?z \<le> length (fileName g)"
    using wf_groupD(3) [OF assms(2)] by (simp only: mult_le_mono1)
  moreover have "?n \<le> ?s * ?z" using assms(1) by (rule slots_at_cover)
  ultimately have "i * ?z + ?n \<le> length (fileName g)" by (simp add: add_mult_distrib)
  then show ?thesis by (simp add: name_at_def)
qed

section \<open>Scanning a block\<close>

text \<open>
  The loop shared by every \<open>FindInBlock\<close>: free slots and continuation slots are stepped over
  one by one, an entry that does not match is jumped over by its slot count.
\<close>

function scan_block :: "'d layout \<Rightarrow> (nat \<Rightarrow> 'd \<Rightarrow> bool) \<Rightarrow> 'd dentry_group \<Rightarrow> nat \<Rightarrow> nat option" where
  "scan_block L hit g bitPos =
     (if bitPos < per_group L \<and> slot_bits L < 32 then
        if \<not> TestBit bitPos (bitmap g) then scan_block L hit g (bitPos + 1)
        else if namelen_of L (nsl g ! bitPos) = 0 then scan_block L hit g (bitPos + 1)
        else if hit bitPos (nsl g ! bitPos) then Some bitPos
        else scan_block L hit g (bitPos + slots_at L (nsl g ! bitPos))
      else None)"
  by pat_completeness auto
termination
  by (relation "measure (\<lambda>(L, hit, g, p). per_group L - p)") (auto dest: slots_at_pos)

declare scan_block.simps [simp del]

lemma scan_block_end: "\<not> p < per_group L \<Longrightarrow> scan_block L hit g p = None"
  by (simp add: scan_block.simps)

lemma scan_block_skip:
  "p < per_group L \<Longrightarrow> slot_bits L < 32 \<Longrightarrow> \<not> head L g p \<Longrightarrow>
   scan_block L hit g p = scan_block L hit g (p + 1)"
  by (auto simp: scan_block.simps [of L hit g p] head_def)

lemma scan_block_hit:
  "slot_bits L < 32 \<Longrightarrow> head L g p \<Longrightarrow> hit p (nsl g ! p) \<Longrightarrow> scan_block L hit g p = Some p"
  by (auto simp: scan_block.simps [of L hit g p] head_def)

lemma scan_block_jump:
  "slot_bits L < 32 \<Longrightarrow> head L g p \<Longrightarrow> \<not> hit p (nsl g ! p) \<Longrightarrow>
   scan_block L hit g p = scan_block L hit g (p + slots_at L (nsl g ! p))"
  by (auto simp: scan_block.simps [of L hit g p] head_def)

lemma scan_block_sound:
  assumes "slot_bits L < 32" and "scan_block L hit g p = Some i"
  shows "p \<le> i \<and> head L g i \<and> hit i (nsl g ! i)"
  using assms(2)
proof (induction "per_group L - p" arbitrary: p rule: less_induct)
  case less
  have p: "p < per_group L" using less.prems scan_block_end [of p L] by force
  show ?case
  proof (cases "head L g p")
    case False
    then have "scan_block L hit g (p + 1) = Some i"
      using scan_block_skip [OF p assms(1) False] less.prems by simp
    moreover have "per_group L - (p + 1) < per_group L - p" using p by simp
    ultimately show ?thesis using less.hyps [of "p + 1"] by simp
  next
    case True
    then have pos: "0 < slots_at L (nsl g ! p)"
      using assms(1) by (intro slots_at_pos) (auto simp: head_def)
    show ?thesis
    proof (cases "hit p (nsl g ! p)")
      case hit: True
      with True scan_block_hit [of L g p hit, OF assms(1) True hit] less.prems show ?thesis by simp
    next
      case False
      then have "scan_block L hit g (p + slots_at L (nsl g ! p)) = Some i"
        using scan_block_jump [of L g p hit, OF assms(1) True False] less.prems by simp
      moreover have "per_group L - (p + slots_at L (nsl g ! p)) < per_group L - p"
        using p pos by simp
      ultimately show ?thesis using less.hyps [of "p + slots_at L (nsl g ! p)"] by simp
    qed
  qed
qed

lemma scan_block_complete:
  assumes "slot_bits L < 32" and "wf_group L g" and "scan_block L hit g p = None"
    and "p \<le> i" and "head L g i"
  shows "\<not> hit i (nsl g ! i)"
  using assms(3,4)
proof (induction "per_group L - p" arbitrary: p rule: less_induct)
  case less
  have p: "p < per_group L" using less.prems(2) assms(5) by (simp add: head_def)
  show ?case
  proof (cases "head L g p")
    case False
    then have "scan_block L hit g (p + 1) = None"
      using scan_block_skip [OF p assms(1) False] less.prems by simp
    moreover have "p + 1 \<le> i" using False less.prems(2) assms(5) by (cases "p = i") auto
    ultimately show ?thesis using less.hyps [of "p + 1"] p by auto
  next
    case True
    then have pos: "0 < slots_at L (nsl g ! p)"
      using assms(1) by (intro slots_at_pos) (auto simp: head_def)
    have nohit: "\<not> hit p (nsl g ! p)"
      using scan_block_hit [of L g p hit, OF assms(1) True] less.prems(1) by auto
    then have rest: "scan_block L hit g (p + slots_at L (nsl g ! p)) = None"
      using scan_block_jump [of L g p hit, OF assms(1) True nohit] less.prems(1) by simp
    show ?thesis
    proof (cases "p = i")
      case True
      with nohit show ?thesis by simp
    next
      case False
      then have "p + slots_at L (nsl g ! p) \<le> i"
        using heads_disjoint [OF assms(2) True assms(5)] less.prems(2) by simp
      with less.hyps [OF _ rest] p pos show ?thesis by simp
    qed
  qed
qed

section \<open>Writing entries\<close>

text \<open>
  The effect of \<open>UpdateDentry\<close> and \<open>CreateDentry\<close> on a block: the loop over the slots sets the
  bitmap and clears the name length of the continuation entries.
\<close>

primrec clear_tail :: "'d layout \<Rightarrow> nat \<Rightarrow> nat \<Rightarrow> 'd list \<Rightarrow> 'd list" where
  "clear_tail L p 0 ds = ds"
| "clear_tail L p (Suc n) ds =
     (let ds' = clear_tail L p n ds
      in if n \<noteq> 0 then ds'[p + n := clear_namelen L (ds' ! (p + n))] else ds')"

definition place_dentry :: "'d layout \<Rightarrow> 'd dentry_group \<Rightarrow> nat \<Rightarrow> string \<Rightarrow> 'd \<Rightarrow> 'd dentry_group" where
  "place_dentry L g p name de =
     (let slots = GetDentrySlots (slot_bits L) (length name)
      in g\<lparr>nsl := clear_tail L p slots ((nsl g)[p := de]),
           fileName := memcpy_at (p * 2 ^ slot_bits L) name (fileName g),
           bitmap := set_bits p slots (bitmap g)\<rparr>)"

definition free_dentry :: "'d layout \<Rightarrow> 'd dentry_group \<Rightarrow> nat \<Rightarrow> 'd dentry_group" where
  "free_dentry L g p = g\<lparr>bitmap := clear_bits p (slots_at L (nsl g ! p)) (bitmap g)\<rparr>"

definition set_dentry :: "'d dentry_group \<Rightarrow> nat \<Rightarrow> 'd \<Rightarrow> 'd dentry_group" where
  "set_dentry g p de = g\<lparr>nsl := (nsl g)[p := de]\<rparr>"

lemma length_clear_tail [simp]: "length (clear_tail L p n ds) = length ds"
  by (induction n) (auto simp: Let_def)

lemma nth_clear_tail:
  "p + n \<le> length ds \<Longrightarrow> i < length ds \<Longrightarrow>
   clear_tail L p n ds ! i =
     (if p < i \<and> i < p + n then clear_namelen L (ds ! i) else ds ! i)"
  by (induction n) (auto simp: Let_def nth_list_update)

text \<open>Placing an entry on a free run keeps the block's other entries and adds the new one.\<close>

lemma place_dentry:
  assumes wfl: "wf_layout L" and wf: "wf_group L g"
    and free: "free_run (bitmap g) (per_group L) p (GetDentrySlots (slot_bits L) (length name))"
    and name: "name \<noteq> []" "length name < 2 ^ 16" and len: "namelen_of L de = word_of_nat (length name)"
  defines "g' \<equiv> place_dentry L g p name de"
  shows "wf_group L g'" and "head L g' i \<longleftrightarrow> i = p \<or> head L g i"
    and "nsl g' ! p = de" and "name_at L g' p = name"
    and "head L g i \<Longrightarrow> nsl g' ! i = nsl g ! i \<and> name_at L g' i = name_at L g i \<and> i \<noteq> p"
proof -
  let ?s = "GetDentrySlots (slot_bits L) (length name)"
  let ?sz = "(2::nat) ^ slot_bits L"
  have sb: "slot_bits L < 32" and cap: "per_group L \<le> 8 * bitmap_len L"
    and clr: "\<And>d. namelen_of L (clear_namelen L d) = 0"
    using wfl by (auto simp: wf_layout_def)
  have nl: "unat (namelen_of L de) = length name"
    using name(2) by (simp add: len unat_of_nat)
  have s: "slots_at L de = ?s" by (simp add: slots_at_def nl)
  have spos: "0 < ?s" using name sb by (intro GetDentrySlots_pos) auto
  have run: "p + ?s \<le> per_group L" "\<And>i. p \<le> i \<Longrightarrow> i < p + ?s \<Longrightarrow> \<not> TestBit i (bitmap g)"
    using free by (auto simp: free_run_def)
  have lens: "length (bitmap g) = bitmap_len L" "length (nsl g) = per_group L"
    "length (fileName g) = per_group L * ?sz" using wf by (auto simp: wf_group_def)
  have cover: "length name \<le> ?s * ?sz" using name sb by (intro GetDentrySlots_cover) auto
  have fits: "p * ?sz + length name \<le> length (fileName g)"
  proof -
    have "(p + ?s) * ?sz \<le> per_group L * ?sz" using run(1) by (rule mult_le_mono1)
    with cover show ?thesis by (simp add: lens add_mult_distrib)
  qed
  have bits: "TestBit i (bitmap g') \<longleftrightarrow> (p \<le> i \<and> i < p + ?s) \<or> TestBit i (bitmap g)" for i
    using run(1) cap lens(1) by (simp add: g'_def place_dentry_def Let_def TestBit_set_bits)
  have nth: "nsl g' ! i = (if i = p then de else if p < i \<and> i < p + ?s
      then clear_namelen L (nsl g ! i) else nsl g ! i)" if "i < per_group L" for i
    using that run(1) lens(2) by (auto simp: g'_def place_dentry_def Let_def nth_clear_tail)
  have p: "p < per_group L" using run(1) spos by simp
  show nthp: "nsl g' ! p = de" using nth [OF p] by simp
  have fn: "fileName g' = memcpy_at (p * ?sz) name (fileName g)"
    by (simp add: g'_def place_dentry_def Let_def)
  show "name_at L g' p = name"
    unfolding name_at_def nthp nl fn by (rule slice_memcpy_same [OF fits])
  have owned: "i + slots_at L (nsl g ! i) \<le> p \<or> p + ?s \<le> i" if "head L g i" for i
  proof (rule ccontr)
    assume "\<not> ?thesis"
    then have lt: "p < i + slots_at L (nsl g ! i)" "i < p + ?s" by auto
    have "\<exists>j. p \<le> j \<and> j < p + ?s \<and> TestBit j (bitmap g)"
    proof (cases "p \<le> i")
      case True
      with lt that show ?thesis by (auto simp: head_def)
    next
      case False
      with wf that lt have "TestBit p (bitmap g)" by (auto simp: wf_group_def)
      with spos show ?thesis by auto
    qed
    with run(2) show False by blast
  qed
  have same: "nsl g' ! i = nsl g ! i \<and> i \<noteq> p" if "head L g i" for i
    using that nth [of i] run(2) [of i] spos by (auto simp: head_def)
  have hd: "head L g' i \<longleftrightarrow> i = p \<or> head L g i" for i
  proof (cases "i < per_group L")
    case True
    with bits [of i] nth [OF True] run(2) [of i] spos clr show ?thesis
      using name nl by (auto simp: head_def)
  next
    case False
    with p show ?thesis by (auto simp: head_def)
  qed
  then show "head L g' i \<longleftrightarrow> i = p \<or> head L g i" .
  show "nsl g' ! i = nsl g ! i \<and> name_at L g' i = name_at L g i \<and> i \<noteq> p" if h: "head L g i"
  proof -
    let ?n = "unat (namelen_of L (nsl g ! i))"
    have "?n \<le> slots_at L (nsl g ! i) * ?sz" using sb by (rule slots_at_cover)
    moreover have "(i + slots_at L (nsl g ! i)) * ?sz \<le> p * ?sz \<or> (p + ?s) * ?sz \<le> i * ?sz"
      using owned [OF h] by auto
    ultimately have "i * ?sz + ?n \<le> p * ?sz \<or> p * ?sz + length name \<le> i * ?sz"
      using cover by (auto simp: add_mult_distrib)
    then have "slice (i * ?sz) ?n (fileName g') = slice (i * ?sz) ?n (fileName g)"
      unfolding fn by (rule slice_memcpy_disjoint [OF fits])
    with same [OF h] show ?thesis by (simp add: name_at_def)
  qed
  show "wf_group L g'"
  proof -
    have "i + slots_at L (nsl g' ! i) \<le> per_group L \<and>
      (\<forall>j. i < j \<and> j < i + slots_at L (nsl g' ! i) \<longrightarrow>
         TestBit j (bitmap g') \<and> namelen_of L (nsl g' ! j) = 0)" if "head L g' i" for i
    proof (cases "i = p")
      case True
      have "TestBit j (bitmap g') \<and> namelen_of L (nsl g' ! j) = 0" if "p < j" "j < p + ?s" for j
        using that run(1) nth [of j] clr bits [of j] by simp
      then show ?thesis using run(1) by (simp add: True nthp s)
    next
      case False
      with that hd have h: "head L g i" by auto
      then have old: "i + slots_at L (nsl g ! i) \<le> per_group L"
        "\<And>j. i < j \<Longrightarrow> j < i + slots_at L (nsl g ! i) \<Longrightarrow>
           TestBit j (bitmap g) \<and> namelen_of L (nsl g ! j) = 0"
        using wf by (auto simp: wf_group_def)
      have "namelen_of L (nsl g' ! j) = 0"
        if "i < j" "j < i + slots_at L (nsl g ! i)" for j
      proof -
        have "\<not> (p \<le> j \<and> j < p + ?s)" using owned [OF h] that by linarith
        then have "nsl g' ! j = nsl g ! j" using nth [of j] that old(1) spos by auto
        with old(2) [OF that] show ?thesis by simp
      qed
      with old same [OF h] bits show ?thesis by simp
    qed
    moreover have "length (bitmap g') = bitmap_len L" "length (nsl g') = per_group L"
      "length (fileName g') = per_group L * ?sz"
      using lens fits by (auto simp: g'_def place_dentry_def Let_def)
    ultimately show ?thesis by (simp add: wf_group_def)
  qed
qed

text \<open>Freeing an entry removes exactly that entry.\<close>

lemma free_dentry:
  assumes wfl: "wf_layout L" and wf: "wf_group L g" and h: "head L g p"
  defines "g' \<equiv> free_dentry L g p"
  shows "wf_group L g'" and "head L g' i \<longleftrightarrow> i \<noteq> p \<and> head L g i"
    and "nsl g' = nsl g" and "name_at L g' i = name_at L g i"
proof -
  let ?s = "slots_at L (nsl g ! p)"
  have cap: "per_group L \<le> 8 * bitmap_len L" and sb: "slot_bits L < 32"
    using wfl by (auto simp: wf_layout_def)
  have spos: "0 < ?s" using sb h by (intro slots_at_pos) (auto simp: head_def)
  have run: "p + ?s \<le> per_group L" using wf h by (auto simp: wf_group_def)
  have lens: "length (bitmap g) = bitmap_len L" using wf by (auto simp: wf_group_def)
  have bits: "TestBit i (bitmap g') \<longleftrightarrow> \<not> (p \<le> i \<and> i < p + ?s) \<and> TestBit i (bitmap g)" for i
    using run cap lens by (simp add: g'_def free_dentry_def TestBit_clear_bits)
  show n: "nsl g' = nsl g" by (simp add: g'_def free_dentry_def)
  show "name_at L g' i = name_at L g i" by (simp add: name_at_def g'_def free_dentry_def)
  have out: "i + slots_at L (nsl g ! i) \<le> p \<or> p + ?s \<le> i" if "head L g i" "i \<noteq> p" for i
    using heads_disjoint [OF wf that(1) h] heads_disjoint [OF wf h that(1)] that(2) by linarith
  have hd: "head L g' i \<longleftrightarrow> i \<noteq> p \<and> head L g i" for i
    using bits [of i] spos n out [of i] by (auto simp: head_def)
  then show "head L g' i \<longleftrightarrow> i \<noteq> p \<and> head L g i" .
  have "TestBit j (bitmap g')"
    if "head L g i" "i \<noteq> p" "i < j" "j < i + slots_at L (nsl g ! i)" for i j
    using bits [of j] out [OF that(1,2)] that wf by (auto simp: wf_group_def)
  moreover have "length (bitmap g') = length (bitmap g)" "fileName g' = fileName g"
    by (simp_all add: g'_def free_dentry_def)
  ultimately show "wf_group L g'"
    using wf unfolding wf_group_def hd n by (simp only:) blast
qed

text \<open>Overwriting the attributes of an entry, its name length kept.\<close>

lemma set_dentry:
  assumes wf: "wf_group L g" and h: "head L g p" and len: "namelen_of L de = namelen_of L (nsl g ! p)"
  shows "wf_group L (set_dentry g p de)" and "head L (set_dentry g p de) i = head L g i"
    and "name_at L (set_dentry g p de) i = name_at L g i"
    and "nsl (set_dentry g p de) ! p = de"
    and "i \<noteq> p \<Longrightarrow> nsl (set_dentry g p de) ! i = nsl g ! i"
proof -
  let ?g = "set_dentry g p de"
  have p: "p < length (nsl g)" using wf_groupD(2) [OF wf] h by (simp add: head_def)
  then have nth: "nsl ?g ! j = (if j = p then de else nsl g ! j)" for j
    by (simp add: set_dentry_def nth_list_update)
  then have nl: "namelen_of L (nsl ?g ! j) = namelen_of L (nsl g ! j)" for j
    by (simp add: len)
  have b: "bitmap ?g = bitmap g" "fileName ?g = fileName g" "length (nsl ?g) = length (nsl g)"
    by (simp_all add: set_dentry_def)
  have hd: "head L ?g j = head L g j" for j by (simp add: head_def nl b)
  then show "head L ?g i = head L g i" .
  show "wf_group L ?g"
    using wf unfolding wf_group_def hd slots_at_def nl b .
  show "name_at L ?g i = name_at L g i" by (simp add: name_at_def nl b)
  show "nsl ?g ! p = de" by (simp add: nth)
  show "i \<noteq> p \<Longrightarrow> nsl ?g ! i = nsl g ! i" by (simp add: nth)
qed

end
