(* ===== verification/Cloud_File_Utils.thy ===== *)
theory Cloud_File_Utils
  imports Dfs_Prelude
begin

text \<open>
  The name hash and the path helpers of \<open>utils/cloud_disk/src/cloud_file_utils.cpp\<close>: the TEA
  based \<open>DentryHash\<close> that places a name in a dentry file, the bucket of a cloud id, and the
  local path layout. Arithmetic on \<open>uint32_t\<close> is arithmetic on 32-bit words.
\<close>

section \<open>Characters\<close>

text \<open>
  Whether plain \<open>char\<close> is signed depends on the target, so the integer value of a \<open>char\<close>
  takes that as a parameter. \<open>tolower\<close> is the C locale's.
\<close>

definition char_val :: "bool \<Rightarrow> char \<Rightarrow> int" where
  "char_val char_signed c =
     (if char_signed \<and> (128::int) \<le> of_char c then of_char c - 256 else of_char c)"

definition tolower :: "char \<Rightarrow> char" where
  "tolower c = (if (65::nat) \<le> of_char c \<and> (of_char c :: nat) \<le> 90 then char_of (of_char c + 32 :: nat) else c)"

definition char_u8 :: "char \<Rightarrow> u32" where
  "char_u8 c = word_of_nat (of_char c)"

lemma tolower_idem [simp]: "tolower (tolower c) = tolower c"
  by (auto simp: tolower_def)

section \<open>DentryHash\<close>

definition IsDotDotdot :: "string \<Rightarrow> bool" where
  "IsDotDotdot name \<longleftrightarrow> name = ''.'' \<or> name = ''..''"

definition hash_pad :: "nat \<Rightarrow> u32" where
  "hash_pad len =
     (let pad = word_of_nat len OR push_bit 8 (word_of_nat len) in pad OR push_bit 16 pad)"

text \<open>The \<open>for\<close> loop of \<open>Str2HashBuf\<close>: index, running word, words still to write, words written.\<close>

fun str2hash_loop :: "bool \<Rightarrow> u32 \<Rightarrow> string \<Rightarrow> nat \<Rightarrow> u32 \<Rightarrow> int \<Rightarrow> u32 list \<Rightarrow> u32 \<times> int \<times> u32 list" where
  "str2hash_loop caseSense pad [] i val num buf = (val, num, buf)"
| "str2hash_loop caseSense pad (ch # msg) i val num buf =
     (let val0 = (if i mod 4 = 0 then pad else val);
          c = char_u8 (if caseSense then ch else tolower ch);
          val1 = c + push_bit 8 val0
      in if i mod 4 = 3 then str2hash_loop caseSense pad msg (i + 1) pad (num - 1) (buf @ [val1])
         else str2hash_loop caseSense pad msg (i + 1) val1 num buf)"

definition Str2HashBuf :: "string \<Rightarrow> nat \<Rightarrow> bool \<Rightarrow> u32 list" where
  "Str2HashBuf msg num caseSense =
     (let pad = hash_pad (length msg);
          (val, n, buf) = str2hash_loop caseSense pad (take (num * 4) msg) 0 pad (int num) [];
          n1 = n - 1;
          buf1 = (if n1 \<ge> 0 then buf @ [val] else buf)
      in buf1 @ replicate (nat n1) pad)"

definition DELTA_DISK :: u32 where "DELTA_DISK = 0x9E3779B9"

text \<open>One round of the \<open>do ... while (--n)\<close> loop, and the loop.\<close>

definition tea_round :: "u32 \<Rightarrow> u32 \<Rightarrow> u32 \<Rightarrow> u32 \<Rightarrow> u32 \<times> u32 \<times> u32 \<Rightarrow> u32 \<times> u32 \<times> u32" where
  "tea_round a b c d st =
     (case st of (sm, b0, b1) \<Rightarrow>
       let sum1 = sm + DELTA_DISK;
           b0' = b0 + ((push_bit 4 b1 + a) XOR (b1 + sum1) XOR (drop_bit 5 b1 + b));
           b1' = b1 + ((push_bit 4 b0' + c) XOR (b0' + sum1) XOR (drop_bit 5 b0' + d))
       in (sum1, b0', b1'))"

definition TeaTransform :: "u32 list \<Rightarrow> u32 list \<Rightarrow> u32 list" where
  "TeaTransform buf inp =
     (case (tea_round (inp ! 0) (inp ! 1) (inp ! 2) (inp ! 3) ^^ 16) (0, buf ! 0, buf ! 1) of
        (sm, b0, b1) \<Rightarrow> buf[0 := buf ! 0 + b0, 1 := buf ! 1 + b1])"

definition hash_init :: "u32 list" where
  "hash_init = [0x67452301, 0xefcdab89, 0x98badcfe, 0x10325476]"

function dentry_hash_loop :: "bool \<Rightarrow> string \<Rightarrow> u32 list \<Rightarrow> u32 list" where
  "dentry_hash_loop caseSense p buf =
     (let buf' = TeaTransform buf (Str2HashBuf p 4 caseSense)
      in if length p \<le> 16 then buf' else dentry_hash_loop caseSense (drop 16 p) buf')"
  by pat_completeness auto
termination by (relation "measure (\<lambda>(c, p, b). length p)") auto

declare dentry_hash_loop.simps [simp del]

definition HMDFS_HASH_COL_BIT_DISK :: u64 where
  "HMDFS_HASH_COL_BIT_DISK = push_bit 63 1"

definition DentryHash :: "string \<Rightarrow> bool \<Rightarrow> u32" where
  "DentryHash inputStr caseSense =
     (if IsDotDotdot inputStr then 0
      else let hash = dentry_hash_loop caseSense inputStr hash_init ! 0
           in ucast ((ucast hash :: u64) AND NOT HMDFS_HASH_COL_BIT_DISK))"

text \<open>
  \<open>Str2HashBuf\<close> fills exactly \<open>num\<close> words: the loop writes one word per four characters and
  never more than \<open>num\<close>, the tail writes the rest.
\<close>

lemma str2hash_loop_balance:
  "str2hash_loop cs pad msg i val num buf = (v, n, out) \<Longrightarrow>
   n + int (length out) = num + int (length buf)"
  by (induction cs pad msg i val num buf arbitrary: v n out rule: str2hash_loop.induct)
    (auto simp: Let_def split: if_splits)

lemma str2hash_loop_count:
  "str2hash_loop cs pad msg i val num buf = (v, n, out) \<Longrightarrow>
   length out = length buf + (i + length msg) div 4 - i div 4"
proof (induction cs pad msg i val num buf arbitrary: v n out rule: str2hash_loop.induct)
  case (1 cs pad i val num buf)
  then show ?case by simp
next
  case (2 cs pad ch msg i val num buf)
  have "(i + 1) div 4 = i div 4 + 1" if "i mod 4 = 3" using that by presburger
  moreover have "(i + 1) div 4 = i div 4" if "i mod 4 \<noteq> 3" using that by presburger
  moreover have "(i + 1) div 4 \<le> (i + 1 + length msg) div 4" by (simp add: div_le_mono)
  ultimately show ?case
    using 2(1) [OF refl refl refl] 2(2) [OF refl refl refl] 2(3)
    by (cases "i mod 4 = 3") (auto simp: Let_def)
qed

lemma length_Str2HashBuf: "length (Str2HashBuf msg num caseSense) = num"
proof -
  let ?pad = "hash_pad (length msg)"
  obtain v n out where r:
    "str2hash_loop caseSense ?pad (take (num * 4) msg) 0 ?pad (int num) [] = (v, n, out)"
    by (metis prod_cases3)
  from str2hash_loop_balance [OF r] str2hash_loop_count [OF r]
  have "n + int (length out) = int num" and "length out = length (take (num * 4) msg) div 4"
    by auto
  moreover from this have "length out \<le> num" by auto
  ultimately show ?thesis using r by (auto simp: Str2HashBuf_def Let_def)
qed

lemma length_TeaTransform [simp]: "length (TeaTransform buf inp) = length buf"
  by (simp add: TeaTransform_def split: prod.splits)

lemma str2hash_loop_tolower:
  "str2hash_loop False pad (map tolower msg) i val num buf = str2hash_loop False pad msg i val num buf"
  by (induction msg arbitrary: i val num buf) (simp_all add: Let_def)

lemma Str2HashBuf_tolower: "Str2HashBuf (map tolower p) n False = Str2HashBuf p n False"
  by (simp add: Str2HashBuf_def str2hash_loop_tolower take_map)

lemma dentry_hash_loop_tolower:
  "dentry_hash_loop False (map tolower p) buf = dentry_hash_loop False p buf"
proof (induction "length p" arbitrary: p buf rule: less_induct)
  case less
  show ?case
  proof (cases "length p \<le> 16")
    case True
    then show ?thesis
      by (simp add: dentry_hash_loop.simps [of False p] dentry_hash_loop.simps [of False "map tolower p"]
          Str2HashBuf_tolower)
  next
    case False
    then have "dentry_hash_loop False (map tolower (drop 16 p)) b = dentry_hash_loop False (drop 16 p) b" for b
      by (intro less) auto
    with False show ?thesis
      by (simp add: dentry_hash_loop.simps [of False p] dentry_hash_loop.simps [of False "map tolower p"]
          Str2HashBuf_tolower drop_map Let_def)
  qed
qed

lemma tolower_dot: "tolower c = CHR ''.'' \<longleftrightarrow> c = CHR ''.''"
proof -
  have "(of_char (tolower c) = (46::nat)) = (of_char c = (46::nat))"
    by (auto simp: tolower_def)
  moreover have "(of_char x = (46::nat)) = (x = CHR ''.'')" for x
  proof -
    have "of_char (CHR ''.'') = (46::nat)" by simp
    then show ?thesis by (metis of_char_eq_iff)
  qed
  ultimately show ?thesis by simp
qed

lemma IsDotDotdot_tolower: "IsDotDotdot (map tolower s) = IsDotDotdot s"
  by (auto simp: IsDotDotdot_def map_eq_Cons_conv tolower_dot)

lemma DentryHash_tolower: "DentryHash (map tolower s) False = DentryHash s False"
  by (simp add: DentryHash_def IsDotDotdot_tolower dentry_hash_loop_tolower)

section \<open>Buckets and local paths\<close>

definition GetBucketId :: "bool \<Rightarrow> string \<Rightarrow> u32" where
  "GetBucketId char_signed cloudId =
     (let n = length cloudId in
      if n < 3 then 0
      else word_of_int (char_val char_signed (cloudId ! 0) + char_val char_signed (cloudId ! (n - 1))
             + char_val char_signed (cloudId ! (n div 2))) mod 32)"

record timespec =
  tv_sec :: int
  tv_nsec :: int

definition Timespec2Milliseconds :: "timespec \<Rightarrow> int" where
  "Timespec2Milliseconds t = tv_sec t * 1000 + sgn (tv_nsec t) * (\<bar>tv_nsec t\<bar> div 1000000)"

definition GetLocalBaseDir :: "string \<Rightarrow> int \<Rightarrow> string" where
  "GetLocalBaseDir bundleName userId =
     ''/data/service/el2/'' @ to_string userId @ ''/hmdfs/cloud/data/'' @ bundleName @ ''/''"

definition GetLocalBucketPath :: "bool \<Rightarrow> string \<Rightarrow> string \<Rightarrow> int \<Rightarrow> string" where
  "GetLocalBucketPath char_signed cloudId bundleName userId =
     GetLocalBaseDir bundleName userId @ to_string (uint (GetBucketId char_signed cloudId))"

definition GetLocalDKCachePath :: "bool \<Rightarrow> string \<Rightarrow> string \<Rightarrow> int \<Rightarrow> string" where
  "GetLocalDKCachePath char_signed cloudId bundleName userId =
     ''/data/service/el2/'' @ to_string userId @ ''/hmdfs/cache/cloud_cache'' @ ''/disk_drivekit_cache/''
       @ bundleName @ ''/'' @ to_string (uint (GetBucketId char_signed cloudId)) @ ''/'' @ cloudId"

definition GetLocalFilePath :: "bool \<Rightarrow> string \<Rightarrow> string \<Rightarrow> int \<Rightarrow> string" where
  "GetLocalFilePath char_signed cloudId bundleName userId =
     GetLocalBucketPath char_signed cloudId bundleName userId @ ''/'' @ cloudId"

definition TMP_SUFFIX :: string where "TMP_SUFFIX = ''.temp.download''"

definition EndsWith :: "string \<Rightarrow> string \<Rightarrow> bool" where
  "EndsWith fullString ending =
     (if length fullString \<ge> length ending
      then slice (length fullString - length ending) (length ending) fullString = ending
      else False)"

definition GetPathWithoutTmp :: "string \<Rightarrow> string" where
  "GetPathWithoutTmp path =
     (if EndsWith path TMP_SUFFIX then take (length path - length TMP_SUFFIX) path else path)"

text \<open>\<open>GetPathFromUri\<close>: \<open>substr (7)\<close> throws \<open>out_of_range\<close> on a shorter string, here \<open>None\<close>.\<close>

fun skip_authority :: "string \<Rightarrow> nat \<Rightarrow> nat" where
  "skip_authority [] k = k"
| "skip_authority (ch # cs) k = (if ch = CHR ''/'' then k else skip_authority cs (k + 1))"

definition GetPathFromUri :: "string \<Rightarrow> string option" where
  "GetPathFromUri uriString =
     (if 7 \<le> length uriString
      then let path = drop 7 uriString in Some (drop (skip_authority path 0) path)
      else None)"

lemma GetBucketId_bound: "GetBucketId sg cloudId < 32"
  by (simp add: GetBucketId_def Let_def word_mod_less_divisor)

lemma char_val_cong: "\<exists>k. char_val True c = char_val False c - 256 * k"
  by (cases "(128::int) \<le> of_char c") (auto simp: char_val_def intro: exI [of _ 1] exI [of _ 0])

lemma EndsWith_iff: "EndsWith s e \<longleftrightarrow> (\<exists>p. s = p @ e)"
proof
  assume "EndsWith s e"
  then have "s = take (length s - length e) s @ e"
    unfolding EndsWith_def slice_def
    by (metis append_take_drop_id diff_diff_cancel length_drop order_refl take_all)
  then show "\<exists>p. s = p @ e" by blast
next
  assume "\<exists>p. s = p @ e"
  then show "EndsWith s e" by (auto simp: EndsWith_def slice_def)
qed

lemma skip_authority_spec:
  "skip_authority cs k = k + length (takeWhile (\<lambda>c. c \<noteq> CHR ''/'') cs)"
  by (induction cs arbitrary: k) auto

lemma drop_skip_authority: "drop (skip_authority cs 0) cs = dropWhile (\<lambda>c. c \<noteq> CHR ''/'') cs"
  by (simp add: skip_authority_spec dropWhile_eq_drop)

end
