(* ===== verification/Dentry_File.thy ===== *)
theory Dentry_File
  imports Dentry_Group Cloud_File_Utils
begin

text \<open>
  A dentry file as a size and an indexed family of blocks, the system calls the stores make on
  it, and the two searches they share: the walk over the levels that finds an entry, and the
  walk that finds room for a new name and grows the file by one level when it runs out. The
  outcome of each system call is an input (\<open>io_env\<close>), so the error returns are branches of the
  model. The header block is not represented: no operation of the stores reads it as entries.
\<close>

section \<open>The file and its system calls\<close>

record 'd dentry_file =
  st_size :: nat
  pages :: "nat \<Rightarrow> 'd dentry_group"

record io_env =
  fd :: int
  fstat_ok :: bool
  ftruncate_ok :: "nat \<Rightarrow> bool"
  read_ok :: "nat \<Rightarrow> bool"
  write_ok :: bool

definition good_io :: "io_env \<Rightarrow> bool" where
  "good_io io \<longleftrightarrow> 0 \<le> fd io \<and> fstat_ok io \<and> (\<forall>n. ftruncate_ok io n) \<and> (\<forall>i. read_ok io i) \<and> write_ok io"

abbreviation blocks :: "'d dentry_file \<Rightarrow> nat" where
  "blocks f \<equiv> GetDentryGroupCnt (st_size f)"

text \<open>
  \<open>FileUtils::ReadFile (fd, GetDentryGroupPos (idx), DENTRYGROUP_SIZE, buf)\<close> yields the whole
  block when the file reaches its end, a short count otherwise. A block is moved whole or not at
  all: the loop of calls inside, and what it does to a block moved in pieces, is \<open>File_Transfer\<close>.
  \<open>ftruncate\<close> keeps the blocks below both sizes and reads as zero above the old one.
\<close>

definition read_page :: "io_env \<Rightarrow> 'd dentry_file \<Rightarrow> nat \<Rightarrow> 'd dentry_group option" where
  "read_page io f idx =
     (if read_ok io idx \<and> GetDentryGroupPos idx + DENTRYGROUP_SIZE \<le> st_size f
      then Some (pages f idx) else None)"

definition write_page :: "'d dentry_file \<Rightarrow> nat \<Rightarrow> 'd dentry_group \<Rightarrow> 'd dentry_file" where
  "write_page f idx g =
     f\<lparr>st_size := max (st_size f) (GetDentryGroupPos idx + DENTRYGROUP_SIZE),
       pages := (pages f)(idx := g)\<rparr>"

definition truncate_file :: "'d layout \<Rightarrow> 'd dentry_file \<Rightarrow> nat \<Rightarrow> 'd dentry_file" where
  "truncate_file L f n =
     f\<lparr>st_size := n,
       pages := (\<lambda>i. if GetDentryGroupPos i + DENTRYGROUP_SIZE \<le> min n (st_size f)
                     then pages f i else zero_group L)\<rparr>"

definition empty_file :: "'d layout \<Rightarrow> 'd dentry_file" where
  "empty_file L = \<lparr>st_size = 0, pages = (\<lambda>_. zero_group L)\<rparr>"

section \<open>The level walk of a lookup\<close>

text \<open>The block loop of \<open>InLevel\<close>: a block that cannot be read ends it.\<close>

fun find_pages :: "(nat \<Rightarrow> 'g option) \<Rightarrow> ('g \<Rightarrow> nat option) \<Rightarrow> nat list \<Rightarrow> (nat \<times> 'g \<times> nat) option" where
  "find_pages rd fnd [] = None"
| "find_pages rd fnd (idx # rest) =
     (case rd idx of None \<Rightarrow> None
      | Some g \<Rightarrow> (case fnd g of Some i \<Rightarrow> Some (idx, g, i) | None \<Rightarrow> find_pages rd fnd rest))"

definition level_blocks :: "nat \<Rightarrow> u32 \<Rightarrow> nat list" where
  "level_blocks level h =
     (let nbucket = GetBucketByLevel level in
      if nbucket = 0 then []
      else let bidx = GetBucketaddr level (unat h mod nbucket) * BUCKET_BLOCKS mod 2 ^ 32;
               endBlock = (bidx + BUCKET_BLOCKS) mod 2 ^ 32
           in [bidx..<endBlock])"

text \<open>The level loop of \<open>FindDentry\<close>: the levels from \<open>level\<close> on, \<open>n\<close> of them.\<close>

primrec first_level :: "(nat \<Rightarrow> 'r option) \<Rightarrow> nat \<Rightarrow> nat \<Rightarrow> 'r option" where
  "first_level inlev level 0 = None"
| "first_level inlev level (Suc n) =
     (case inlev level of Some r \<Rightarrow> Some r | None \<Rightarrow> first_level inlev (level + 1) n)"

definition entry_at :: "'d layout \<Rightarrow> 'd dentry_file \<Rightarrow> nat \<Rightarrow> nat \<Rightarrow> bool" where
  "entry_at L f idx i \<longleftrightarrow> idx < blocks f \<and> head L (pages f idx) i"

abbreviation dentry_at :: "'d dentry_file \<Rightarrow> nat \<Rightarrow> nat \<Rightarrow> 'd" where
  "dentry_at f idx i \<equiv> nsl (pages f idx) ! i"

abbreviation entry_name :: "'d layout \<Rightarrow> 'd dentry_file \<Rightarrow> nat \<Rightarrow> nat \<Rightarrow> string" where
  "entry_name L f idx i \<equiv> name_at L (pages f idx) i"

definition in_bucket :: "nat \<Rightarrow> u32 \<Rightarrow> bool" where
  "in_bucket idx h \<longleftrightarrow> (\<exists>l\<le>18. idx = GetBidxFromLevel l h \<or> idx = GetBidxFromLevel l h + 1)"

text \<open>
  The file invariant: the size is zero, that of the header block alone, or that of a whole number
  of levels, below 4 GiB; every block is well formed; every entry carries the hash of its name and lies in a bucket of that hash.
\<close>

definition level_size :: "nat \<Rightarrow> bool" where
  "level_size sz \<longleftrightarrow> sz = 0 \<or> sz = DENTRYGROUP_HEADER \<or> (\<exists>l\<le>18. sz = GetDcacheFileSize l)"

definition wf_dir :: "'d layout \<Rightarrow> 'd dentry_file \<Rightarrow> bool" where
  "wf_dir L f \<longleftrightarrow> wf_layout L \<and> level_size (st_size f) \<and> (\<forall>idx < blocks f. wf_group L (pages f idx)) \<and>
     (\<forall>idx i. entry_at L f idx i \<longrightarrow>
        hash_of L (dentry_at f idx i) = DentryHash (entry_name L f idx i) False \<and>
        in_bucket idx (DentryHash (entry_name L f idx i) False))"

lemma read_page_Some: "read_page io f idx = Some g \<Longrightarrow> g = pages f idx \<and> idx < blocks f"
  by (auto simp: read_page_def GetDentryGroupPos_in_file split: if_splits)

lemma read_page_good: "good_io io \<Longrightarrow> idx < blocks f \<Longrightarrow> read_page io f idx = Some (pages f idx)"
  by (simp add: read_page_def good_io_def GetDentryGroupPos_in_file)

lemma blocks_write_page: "idx < blocks f \<Longrightarrow> st_size (write_page f idx g) = st_size f"
  by (simp add: write_page_def GetDentryGroupPos_in_file [symmetric] max_def)

lemma find_pages_sound:
  "find_pages rd fnd idxs = Some (idx, g, i) \<Longrightarrow> idx \<in> set idxs \<and> rd idx = Some g \<and> fnd g = Some i"
  by (induction idxs) (auto split: option.splits)

lemma find_pages_complete:
  "find_pages rd fnd idxs = None \<Longrightarrow> \<forall>x \<in> set idxs. rd x \<noteq> None \<Longrightarrow>
   idx \<in> set idxs \<Longrightarrow> rd idx = Some g \<Longrightarrow> fnd g = None"
  by (induction idxs) (auto split: option.splits)

lemma first_level_Some:
  "first_level inlev level n = Some r \<Longrightarrow> \<exists>l. level \<le> l \<and> l < level + n \<and> inlev l = Some r"
proof (induction n arbitrary: level)
  case (Suc n)
  show ?case
  proof (cases "inlev level")
    case None
    with Suc.prems have "first_level inlev (level + 1) n = Some r" by simp
    from Suc.IH [OF this] obtain l where "level + 1 \<le> l" "l < level + 1 + n" "inlev l = Some r"
      by blast
    then show ?thesis by (intro exI [of _ l]) auto
  next
    case (Some x)
    with Suc.prems show ?thesis by (intro exI [of _ level]) auto
  qed
qed simp

lemma first_level_None:
  "first_level inlev level n = None \<Longrightarrow> level \<le> l \<Longrightarrow> l < level + n \<Longrightarrow> inlev l = None"
proof (induction n arbitrary: level)
  case (Suc n)
  then show ?case by (cases "l = level") (auto split: option.splits)
qed simp

lemma level_blocks_eq:
  assumes "l \<le> 30"
  shows "level_blocks l h = [GetBidxFromLevel l h, GetBidxFromLevel l h + 1]"
proof -
  let ?b = "GetBidxFromLevel l h"
  have b: "GetBucketaddr l (unat h mod GetBucketByLevel l) * 2 mod 2 ^ 32 = ?b"
    using assms by (simp add: GetBidxFromLevel_def Let_def GetBucketByLevel_eq mult.commute)
  have "?b + 2 < 4294967296"
  proof -
    have "2 * (P - 1 + R) + 2 < 4294967296" if "P \<le> 1073741824" "R < P" for P R :: nat
      using that by arith
    moreover have "(2::nat) ^ l \<le> 1073741824"
      using assms power_increasing [of l 30 "2::nat"] by simp
    moreover have "unat h mod 2 ^ l < (2::nat) ^ l" by simp
    ultimately show ?thesis using assms by (simp only: GetBidxFromLevel_eq)
  qed
  then have "(?b + 2) mod 2 ^ 32 = ?b + 2" by simp
  with assms b show ?thesis
    by (simp add: level_blocks_def Let_def GetBucketByLevel_eq upt_rec)
qed

text \<open>A level below the file's size is present with both blocks of every bucket.\<close>

lemma GetBidxFromLevel_bounds:
  assumes "l \<le> 30"
  shows "2 * (2 ^ l - 1) \<le> GetBidxFromLevel l h" and "GetBidxFromLevel l h + 2 \<le> 2 * (2 ^ (l + 1) - 1)"
proof -
  have "2 * (P - 1 + R) + 2 \<le> 2 * (2 * P - 1)" if "R < P" for P R :: nat
    using that by arith
  moreover have "unat h mod 2 ^ l < (2::nat) ^ l" by simp
  ultimately show "GetBidxFromLevel l h + 2 \<le> 2 * (2 ^ (l + 1) - 1)"
    using assms by (simp add: GetBidxFromLevel_eq)
  show "2 * (2 ^ l - 1) \<le> GetBidxFromLevel l h" using assms by (simp add: GetBidxFromLevel_eq)
qed

definition levels :: "'d dentry_file \<Rightarrow> nat" where
  "levels f = GetMaxLevel True (st_size f)"

lemma level_size_cases:
  assumes "level_size (st_size f)"
  obtains "st_size f = 0 \<or> st_size f = DENTRYGROUP_HEADER" "levels f = 0" "blocks f = 0"
  | l where "l \<le> 18" "st_size f = GetDcacheFileSize l" "levels f = l + 1" "blocks f = 2 * (2 ^ (l + 1) - 1)"
  using assms
proof (unfold level_size_def, elim disjE exE conjE)
  assume "st_size f = 0"
  then show thesis using that(1) by (simp add: levels_def GetDentryGroupCnt_def)
next
  assume "st_size f = DENTRYGROUP_HEADER"
  then show thesis using that(1) by (simp add: levels_def GetDentryGroupCnt_def GetMaxLevel_header)
next
  fix l assume "l \<le> 18" "st_size f = GetDcacheFileSize l"
  then show thesis using that(2) [of l] GetMaxLevel_file [of l] GetDentryGroupCnt_file [of l]
    by (simp add: levels_def)
qed

lemma blocks_levels:
  assumes "level_size (st_size f)"
  shows "blocks f = 2 * (2 ^ levels f - 1)" and "levels f \<le> 19"
  using assms by (auto elim!: level_size_cases)

lemma level_present:
  assumes "level_size (st_size f)" and "l < levels f" and "x \<in> set (level_blocks l h)"
  shows "x < blocks f"
proof -
  have l: "l \<le> 30" and "l + 1 \<le> levels f" using blocks_levels(2) [OF assms(1)] assms(2) by auto
  then have "(2::nat) ^ (l + 1) \<le> 2 ^ levels f" by (intro power_increasing) auto
  then have "2 * (2 ^ (l + 1) - 1) \<le> blocks f" by (simp add: blocks_levels(1) [OF assms(1)])
  with GetBidxFromLevel_bounds(2) [OF l, of h] assms(3) show ?thesis
    by (auto simp: level_blocks_eq [OF l])
qed

lemma bucket_level_present:
  assumes "level_size (st_size f)" and "idx < blocks f" and "in_bucket idx h"
  shows "\<exists>l < levels f. idx \<in> set (level_blocks l h)"
proof -
  obtain l where l: "l \<le> 18" "idx = GetBidxFromLevel l h \<or> idx = GetBidxFromLevel l h + 1"
    using assms(3) by (auto simp: in_bucket_def)
  have "2 * (2 ^ l - 1) \<le> idx" using GetBidxFromLevel_bounds(1) [of l h] l by auto
  with assms(2) have "2 * (2 ^ l - 1) < 2 * ((2::nat) ^ levels f - 1)"
    by (simp add: blocks_levels(1) [OF assms(1)])
  then have "(2::nat) ^ l < 2 ^ levels f" by arith
  then have "l < levels f" by (simp add: power_strict_increasing_iff)
  with l show ?thesis by (auto simp: level_blocks_eq intro!: exI [of _ l])
qed

text \<open>
  The lookup walk, for any match predicate that implies the searched hash: what it returns is a
  matching entry of the file, and when it returns nothing no entry with that hash matches.
\<close>

definition find_entry ::
  "'d layout \<Rightarrow> io_env \<Rightarrow> ('d dentry_group \<Rightarrow> nat \<Rightarrow> 'd \<Rightarrow> bool) \<Rightarrow> u32 \<Rightarrow> nat \<Rightarrow> 'd dentry_file
    \<Rightarrow> (nat \<times> 'd dentry_group \<times> nat) option" where
  "find_entry L io hit h maxLevel f =
     first_level (\<lambda>level. find_pages (read_page io f) (\<lambda>g. scan_block L (hit g) g 0) (level_blocks level h))
       0 maxLevel"

lemma find_entry_sound:
  assumes "wf_layout L" and "find_entry L io hit h m f = Some (idx, g, i)"
  shows "g = pages f idx \<and> entry_at L f idx i \<and> hit g i (dentry_at f idx i)"
proof -
  from first_level_Some [OF assms(2) [unfolded find_entry_def]] obtain l where
    "find_pages (read_page io f) (\<lambda>g. scan_block L (hit g) g 0) (level_blocks l h) = Some (idx, g, i)"
    by blast
  from find_pages_sound [OF this] have rd: "read_page io f idx = Some g"
    and sc: "scan_block L (hit g) g 0 = Some i" by auto
  from read_page_Some [OF rd] have g: "g = pages f idx" "idx < blocks f" by auto
  from scan_block_sound [OF _ sc] assms(1) g show ?thesis by (auto simp: wf_layout_def entry_at_def)
qed

lemma find_entry_complete:
  assumes wf: "wf_dir L f" and io: "good_io io" and none: "find_entry L io hit h m f = None"
    and m: "levels f \<le> m" and e: "entry_at L f idx i" and h: "hash_of L (dentry_at f idx i) = h"
  shows "\<not> hit (pages f idx) i (dentry_at f idx i)"
proof -
  have sz: "level_size (st_size f)" and wfl: "wf_layout L" using wf by (auto simp: wf_dir_def)
  have idx: "idx < blocks f" and hd: "head L (pages f idx) i" using e by (auto simp: entry_at_def)
  have "in_bucket idx h" using wf e h by (auto simp: wf_dir_def)
  then obtain l where l: "l < levels f" "idx \<in> set (level_blocks l h)"
    using bucket_level_present [OF sz idx] by blast
  have "find_pages (read_page io f) (\<lambda>g. scan_block L (hit g) g 0) (level_blocks l h) = None"
    using first_level_None [OF none [unfolded find_entry_def], of l] l(1) m by simp
  moreover have "\<forall>x \<in> set (level_blocks l h). read_page io f x \<noteq> None"
    by (auto simp: read_page_good [OF io] dest!: level_present [OF sz l(1)])
  ultimately have "scan_block L (hit (pages f idx)) (pages f idx) 0 = None"
    using find_pages_complete [where rd = "read_page io f" and idx = idx and g = "pages f idx"
        and fnd = "\<lambda>g. scan_block L (hit g) g 0"] l(2) read_page_good [OF io idx] by blast
  moreover have "wf_group L (pages f idx)" using wf idx by (auto simp: wf_dir_def)
  ultimately show ?thesis
    using scan_block_complete [OF _ _ _ _ hd] wfl by (auto simp: wf_layout_def)
qed

section \<open>The level walk of a creation\<close>

text \<open>
  \<open>HandleFileByFd\<close> grows the file to a level when the level's bucket lies beyond its end. The
  walk then reads the bucket's blocks and takes the first with room. \<open>bx\<close> computes the bucket
  of a level; \<open>None\<close> is a division by a zero bucket count.
\<close>

datatype 'd alloc = AllocAt nat nat "'d dentry_group" | AllocErr int | AllocTrap

definition HandleFileByFd :: "'d layout \<Rightarrow> io_env \<Rightarrow> nat \<Rightarrow> nat \<Rightarrow> 'd dentry_file \<Rightarrow> int \<times> 'd dentry_file" where
  "HandleFileByFd L io endBlock level f =
     (if \<not> fstat_ok io then (EINVAL, f)
      else if endBlock > GetDentryGroupCnt (st_size f)
      then if ftruncate_ok io (GetDcacheFileSize level)
           then (E_OK, truncate_file L f (GetDcacheFileSize level)) else (ENOENT, f)
      else (E_OK, f))"

fun room_in_pages ::
  "'d layout \<Rightarrow> (nat \<Rightarrow> 'd dentry_group option) \<Rightarrow> nat \<Rightarrow> nat list \<Rightarrow> int + (nat \<times> nat \<times> 'd dentry_group) option" where
  "room_in_pages L rd slots [] = Inr None"
| "room_in_pages L rd slots (idx # rest) =
     (case rd idx of None \<Rightarrow> Inl ENOENT
      | Some g \<Rightarrow> (let bitPos = RoomForFilename (bitmap g) slots (per_group L)
                   in if bitPos < per_group L then Inr (Some (idx, bitPos, g))
                      else room_in_pages L rd slots rest))"

function alloc_scan ::
  "(nat \<Rightarrow> nat option) \<Rightarrow> 'd layout \<Rightarrow> io_env \<Rightarrow> nat \<Rightarrow> nat \<Rightarrow> 'd dentry_file \<Rightarrow> 'd alloc \<times> 'd dentry_file" where
  "alloc_scan bx L io slots level f =
     (if level \<ge> MAX_BUCKET_LEVEL then (AllocErr ENOSPC, f)
      else case bx level of None \<Rightarrow> (AllocTrap, f)
      | Some bidx \<Rightarrow>
          (case HandleFileByFd L io (bidx + BUCKET_BLOCKS) level f of (ret, f') \<Rightarrow>
             if ret \<noteq> E_OK then (AllocErr ret, f')
             else (case room_in_pages L (read_page io f') slots [bidx..<bidx + BUCKET_BLOCKS] of
                     Inl e \<Rightarrow> (AllocErr e, f')
                   | Inr (Some (idx, bitPos, g)) \<Rightarrow> (AllocAt idx bitPos g, f')
                   | Inr None \<Rightarrow> alloc_scan bx L io slots (level + 1) f')))"
  by pat_completeness auto
termination
  by (relation "measure (\<lambda>(bx, L, io, s, l, f). 63 - l)") auto

declare alloc_scan.simps [simp del]

definition bucket_fun :: "(nat \<Rightarrow> nat option) \<Rightarrow> u32 \<Rightarrow> bool" where
  "bucket_fun bx h \<longleftrightarrow> (\<forall>l b. bx l = Some b \<longrightarrow> b = GetBidxFromLevel l h) \<and> (\<forall>l \<le> 30. bx l \<noteq> None)"

lemma bucket_funD: "bucket_fun bx h \<Longrightarrow> l \<le> 30 \<Longrightarrow> bx l = Some (GetBidxFromLevel l h)"
  by (auto simp: bucket_fun_def)

text \<open>A file that grew: the old blocks are kept and the new ones are zero.\<close>

definition extends :: "'d layout \<Rightarrow> 'd dentry_file \<Rightarrow> 'd dentry_file \<Rightarrow> bool" where
  "extends L f f' \<longleftrightarrow> st_size f \<le> st_size f' \<and>
     (\<forall>i < blocks f. pages f' i = pages f i) \<and> (\<forall>i. blocks f \<le> i \<and> i < blocks f' \<longrightarrow> pages f' i = zero_group L)"

lemma GetDentryGroupCnt_mono: "a \<le> b \<Longrightarrow> GetDentryGroupCnt a \<le> GetDentryGroupCnt b"
  by (auto simp: GetDentryGroupCnt_def intro!: div_le_mono)

lemma extends_refl [simp]: "extends L f f"
  by (auto simp: extends_def)

lemma extends_trans: "extends L f g \<Longrightarrow> extends L g h \<Longrightarrow> extends L f h"
proof -
  assume fg: "extends L f g" and gh: "extends L g h"
  have b: "blocks f \<le> blocks g" using fg by (auto simp: extends_def intro: GetDentryGroupCnt_mono)
  have "pages h i = zero_group L" if "blocks f \<le> i" "i < blocks h" for i
    using that fg gh by (cases "i < blocks g") (auto simp: extends_def)
  with b fg gh show ?thesis by (auto simp: extends_def)
qed

lemma GetOverallBucket_high: "31 \<le> l \<Longrightarrow> l < 63 \<Longrightarrow> GetOverallBucket l = 4294967295"
proof -
  assume l: "31 \<le> l" "l < 63"
  define m :: nat where "m = 2 ^ (l - 31)"
  have "(2::nat) ^ (l + 1) = 2 ^ (32 + (l - 31))" using l by simp
  then have pw: "(2::nat) ^ (l + 1) = 4294967296 * m" by (simp only: power_add m_def) simp
  have "m = Suc (m - 1)" by (simp add: m_def)
  then have "4294967296 * m - 1 = (m - 1) * 4294967296 + (4294967295::nat)" by arith
  then have "(4294967296 * m - 1) mod 4294967296 = (4294967295::nat)" by (simp only: mod_mult_self3) simp
  then show ?thesis using l unfolding GetOverallBucket_def pw by simp
qed

lemma bucket_in_level_file:
  assumes "l < 63"
  shows "GetBidxFromLevel l h + 2 \<le> GetDentryGroupCnt (GetDcacheFileSize l)"
proof (cases "l \<le> 30")
  case True
  then show ?thesis using GetBidxFromLevel_bounds(2) [OF True, of h] by (simp only: GetDentryGroupCnt_file)
next
  case False
  then have "GetOverallBucket l = 4294967295" using GetOverallBucket_high [of l] assms by auto
  then have "GetDentryGroupCnt (GetDcacheFileSize l) = 8589934590"
    by (simp add: GetDcacheFileSize_def GetDentryGroupCnt_def)
  moreover have "GetBidxFromLevel l h < 4294967296"
    by (simp add: GetBidxFromLevel_def Let_def)
  ultimately show ?thesis by simp
qed

lemma truncate_extends:
  assumes "l < 63" and "GetBidxFromLevel l h + 2 > blocks f"
  shows "extends L f (truncate_file L f (GetDcacheFileSize l))"
proof -
  have "blocks f < GetDentryGroupCnt (GetDcacheFileSize l)"
    using assms bucket_in_level_file [OF assms(1), of h] by simp
  then have "st_size f \<le> GetDcacheFileSize l"
    by (meson GetDentryGroupCnt_mono linorder_not_le nat_le_linear)
  then show ?thesis
    by (simp add: extends_def truncate_file_def min_absorb2 GetDentryGroupPos_in_file)
qed

lemma HandleFileByFd_extends:
  "l < 63 \<Longrightarrow> HandleFileByFd L io (GetBidxFromLevel l h + 2) l f = (ret, f') \<Longrightarrow>
   extends L f f' \<and> (f' = f \<or> st_size f' = GetDcacheFileSize l)"
  using truncate_extends [of l f h L]
  by (auto simp: HandleFileByFd_def truncate_file_def split: if_splits)

lemma room_in_pages_SomeD:
  "room_in_pages L rd slots idxs = Inr (Some (idx, p, g)) \<Longrightarrow>
   idx \<in> set idxs \<and> rd idx = Some g \<and> p < per_group L \<and> free_run (bitmap g) (per_group L) p slots"
proof (induction idxs)
  case (Cons x xs)
  then show ?case
    by (auto simp: Let_def split: option.splits if_splits dest: RoomForFilename_free)
qed simp

lemma HandleFileByFd_present:
  "l < 63 \<Longrightarrow> HandleFileByFd L io (GetBidxFromLevel l h + 2) l f = (0, f') \<Longrightarrow>
   GetBidxFromLevel l h + 2 \<le> blocks f'"
  using bucket_in_level_file [of l h]
  by (auto simp: HandleFileByFd_def truncate_file_def split: if_splits)

lemma alloc_scan_step:
  assumes "bucket_fun bx h" and "level < 63"
  obtains "bx level = None" "alloc_scan bx L io slots level f = (AllocTrap, f)"
  | e f' where "extends L f f'" "f' = f \<or> st_size f' = GetDcacheFileSize level"
      "alloc_scan bx L io slots level f = (AllocErr e, f')"
  | f' where "extends L f f'" "f' = f \<or> st_size f' = GetDcacheFileSize level"
      "GetBidxFromLevel level h + 2 \<le> blocks f'"
      "alloc_scan bx L io slots level f = alloc_scan bx L io slots (level + 1) f'"
  | f' idx p g where "extends L f f'" "f' = f \<or> st_size f' = GetDcacheFileSize level"
      "GetBidxFromLevel level h + 2 \<le> blocks f'"
      "idx = GetBidxFromLevel level h \<or> idx = GetBidxFromLevel level h + 1" "g = pages f' idx"
      "idx < blocks f'" "p < per_group L" "free_run (bitmap g) (per_group L) p slots"
      "alloc_scan bx L io slots level f = (AllocAt idx p g, f')"
proof (cases "bx level")
  case None
  then show thesis using that(1) assms(2) by (simp add: alloc_scan.simps)
next
  case (Some b)
  let ?b = "GetBidxFromLevel level h"
  from Some assms(1) have b: "b = ?b" by (auto simp: bucket_fun_def)
  obtain ret f' where H: "HandleFileByFd L io (?b + 2) level f = (ret, f')" by fastforce
  from HandleFileByFd_extends [OF assms(2) H]
  have ext: "extends L f f'" "f' = f \<or> st_size f' = GetDcacheFileSize level" by auto
  note unf = alloc_scan.simps [of bx L io slots level f]
  show thesis
  proof (cases "ret = 0")
    case False
    then show thesis using that(2) [OF ext] assms(2) Some b H unf by simp
  next
    case True
    with H have H0: "HandleFileByFd L io (?b + 2) level f = (0, f')" by simp
    note pres = HandleFileByFd_present [OF assms(2) H0]
    show thesis
    proof (cases "room_in_pages L (read_page io f') slots [?b..<?b + 2]")
      case (Inl e)
      then show thesis using that(2) [OF ext] assms(2) Some b H0 unf by simp
    next
      case (Inr r)
      show thesis
      proof (cases r)
        case None
        then show thesis using that(3) [OF ext pres] assms(2) Some b H0 unf Inr by simp
      next
        case (Some q)
        obtain idx p g where q: "q = (idx, p, g)" by (cases q)
        from room_in_pages_SomeD [OF Inr [unfolded Some q]] have
          r: "idx \<in> set [?b..<?b + 2]" "read_page io f' idx = Some g" "p < per_group L"
            "free_run (bitmap g) (per_group L) p slots" by auto
        from r(1) have "idx = ?b \<or> idx = ?b + 1" by auto
        moreover from read_page_Some [OF r(2)] have "g = pages f' idx" "idx < blocks f'" by auto
        moreover have "alloc_scan bx L io slots level f = (AllocAt idx p g, f')"
          using assms(2) \<open>bx level = Some b\<close> b H0 unf Inr Some q by simp
        ultimately show thesis using that(4) [OF ext pres] r(3,4) by blast
      qed
    qed
  qed
qed

lemma extends_blocks: "extends L f f' \<Longrightarrow> blocks f \<le> blocks f'"
  by (auto simp: extends_def intro: GetDentryGroupCnt_mono)

text \<open>Whatever the outcome, the walk only extends the file.\<close>

lemma alloc_scan_extends:
  assumes bf: "bucket_fun bx h" and "alloc_scan bx L io slots level f = (r, f')"
  shows "extends L f f' \<and> (st_size f' = st_size f \<or> (\<exists>l < 63. st_size f' = GetDcacheFileSize l))"
  using assms(2)
proof (induction "63 - level" arbitrary: level f rule: less_induct)
  case less
  show ?case
  proof (cases "level < 63")
    case False
    then show ?thesis using less.prems by (simp add: alloc_scan.simps)
  next
    case True
    from bf True show ?thesis
    proof (cases rule: alloc_scan_step [where L = L and io = io and slots = slots and f = f])
      case (3 f1)
      with less.prems have "alloc_scan bx L io slots (level + 1) f1 = (r, f')" by simp
      from less.hyps [OF _ this] True have "extends L f1 f'"
        "st_size f' = st_size f1 \<or> (\<exists>l < 63. st_size f' = GetDcacheFileSize l)" by auto
      with 3 True show ?thesis by (auto intro: extends_trans)
    qed (use less.prems True in auto)
  qed
qed

lemma alloc_scan_AllocAt:
  assumes bf: "bucket_fun bx h" and "alloc_scan bx L io slots level f = (AllocAt idx p g, f')"
  shows "g = pages f' idx \<and> idx < blocks f' \<and> p < per_group L \<and> free_run (bitmap g) (per_group L) p slots \<and>
    (\<exists>l. level \<le> l \<and> (idx = GetBidxFromLevel l h \<or> idx = GetBidxFromLevel l h + 1) \<and>
       (\<forall>k. level \<le> k \<and> k \<le> l \<longrightarrow> GetBidxFromLevel k h + 2 \<le> blocks f'))"
  using assms(2)
proof (induction "63 - level" arbitrary: level f rule: less_induct)
  case less
  show ?case
  proof (cases "level < 63")
    case False
    then show ?thesis using less.prems by (simp add: alloc_scan.simps)
  next
    case True
    from bf True show ?thesis
    proof (cases rule: alloc_scan_step [where L = L and io = io and slots = slots and f = f])
      case (3 f1)
      with less.prems have again: "alloc_scan bx L io slots (level + 1) f1 = (AllocAt idx p g, f')" by simp
      from alloc_scan_extends [OF bf again] have "blocks f1 \<le> blocks f'" by (blast intro: extends_blocks)
      with 3 have here: "GetBidxFromLevel level h + 2 \<le> blocks f'" by simp
      have dec: "63 - (level + 1) < 63 - level" using True by simp
      from less.hyps [OF dec again] obtain l where
        "g = pages f' idx" "idx < blocks f'" "p < per_group L" "free_run (bitmap g) (per_group L) p slots"
        "level + 1 \<le> l" "idx = GetBidxFromLevel l h \<or> idx = GetBidxFromLevel l h + 1"
        and all: "\<And>k. level + 1 \<le> k \<Longrightarrow> k \<le> l \<Longrightarrow> GetBidxFromLevel k h + 2 \<le> blocks f'" by blast
      moreover have "\<forall>k. level \<le> k \<and> k \<le> l \<longrightarrow> GetBidxFromLevel k h + 2 \<le> blocks f'"
        using all here by (metis Suc_eq_plus1 le_neq_implies_less less_eq_Suc_le)
      ultimately show ?thesis by (auto intro!: exI [of _ l])
    next
      case (4 f1 idx1 p1 g1)
      with less.prems show ?thesis by (auto intro!: exI [of _ level])
    qed (use less.prems in auto)
  qed
qed

lemma room_in_pages_err: "room_in_pages L rd slots idxs = Inl e \<Longrightarrow> e = ENOENT"
  by (induction idxs) (auto simp: Let_def split: option.splits if_splits)

lemma alloc_scan_err_nonzero: "fst (alloc_scan bx L io slots level f) \<noteq> AllocErr 0"
proof (induction "63 - level" arbitrary: level f rule: less_induct)
  case less
  show ?case
    by (subst alloc_scan.simps)
      (auto simp: less.hyps simp del: room_in_pages.simps split: option.splits sum.splits prod.splits
        dest: room_in_pages_err)
qed

text \<open>A file that grew by whole levels keeps the invariant and its entries.\<close>

lemma extends_entries:
  assumes "wf_layout L" and "extends L f f'"
  shows "entry_at L f' idx i \<longleftrightarrow> entry_at L f idx i"
    and "entry_at L f idx i \<Longrightarrow> pages f' idx = pages f idx"
proof -
  show "pages f' idx = pages f idx" if "entry_at L f idx i"
    using that assms(2) by (simp add: entry_at_def extends_def)
  have "blocks f \<le> blocks f'" using assms(2) by (rule extends_blocks)
  then show "entry_at L f' idx i \<longleftrightarrow> entry_at L f idx i"
    using assms by (cases "idx < blocks f") (auto simp: entry_at_def extends_def)
qed

lemma extends_wf_dir:
  assumes wf: "wf_dir L f" and ext: "extends L f f'" and sz: "level_size (st_size f')"
  shows "wf_dir L f'"
proof -
  have wfl: "wf_layout L" using wf by (simp add: wf_dir_def)
  have "wf_group L (pages f' idx)" if "idx < blocks f'" for idx
    using that wf ext wf_zero_group [OF wfl]
    by (cases "idx < blocks f") (auto simp: wf_dir_def extends_def)
  moreover have "hash_of L (dentry_at f' idx i) = DentryHash (entry_name L f' idx i) False \<and>
      in_bucket idx (DentryHash (entry_name L f' idx i) False)" if "entry_at L f' idx i" for idx i
    using that extends_entries [OF wfl ext] wf by (auto simp: wf_dir_def)
  ultimately show ?thesis using wfl sz by (simp add: wf_dir_def)
qed

lemma level_size_small: "l < 63 \<Longrightarrow> GetDcacheFileSize l < 2 ^ 32 \<Longrightarrow> l \<le> 18"
proof (rule ccontr)
  assume l: "l < 63" "GetDcacheFileSize l < 2 ^ 32" "\<not> l \<le> 18"
  have "GetOverallBucket l \<ge> 1048575"
  proof (cases "l \<le> 30")
    case True
    have "(2::nat) ^ 20 \<le> 2 ^ (l + 1)" using l by (intro power_increasing) auto
    then show ?thesis using True by (simp add: GetOverallBucket_eq)
  next
    case False
    then show ?thesis using l GetOverallBucket_high [of l] by simp
  qed
  with l(2) show False by (simp add: GetDcacheFileSize_def)
qed

lemma level_size_less: "level_size sz \<Longrightarrow> sz < 2 ^ 32"
proof -
  have "GetDcacheFileSize l < 2 ^ 32" if "l \<le> 18" for l
  proof -
    have "(2::nat) ^ (l + 2) \<le> 2 ^ 20" using that by (intro power_increasing) auto
    then show ?thesis using that by (simp add: GetDcacheFileSize_eq)
  qed
  then show "level_size sz \<Longrightarrow> sz < 2 ^ 32" by (auto simp: level_size_def)
qed

lemma alloc_scan_wf:
  assumes "bucket_fun bx h" and "wf_dir L f" and "alloc_scan bx L io slots level f = (r, f')"
    and "st_size f' < 2 ^ 32"
  shows "wf_dir L f'"
proof -
  from alloc_scan_extends [OF assms(1,3)] have ext: "extends L f f'"
    and sz: "st_size f' = st_size f \<or> (\<exists>l < 63. st_size f' = GetDcacheFileSize l)" by auto
  from sz have "level_size (st_size f')"
  proof
    assume "st_size f' = st_size f"
    then show ?thesis using assms(2) by (simp add: wf_dir_def)
  next
    assume "\<exists>l < 63. st_size f' = GetDcacheFileSize l"
    then show ?thesis using level_size_small assms(4) by (force simp: level_size_def)
  qed
  with assms(2) ext show ?thesis by (rule extends_wf_dir)
qed

lemma alloc_scan_bucket:
  assumes "bucket_fun bx h" and "alloc_scan bx L io slots 0 f = (AllocAt idx p g, f')"
    and "level_size (st_size f')"
  shows "in_bucket idx h"
proof -
  from alloc_scan_AllocAt [OF assms(1,2)] obtain l where
    l: "idx = GetBidxFromLevel l h \<or> idx = GetBidxFromLevel l h + 1"
    and all: "\<And>k. k \<le> l \<Longrightarrow> GetBidxFromLevel k h + 2 \<le> blocks f'" by auto
  have "blocks f' \<le> 2 * (2 ^ 19 - 1)"
    using blocks_levels [OF assms(3)] power_increasing [of "levels f'" 19 "2::nat"] by simp
  then have "\<not> 19 \<le> l" using all [of 19] GetBidxFromLevel_bounds(1) [of 19 h] by auto
  with l show ?thesis by (auto simp: in_bucket_def intro!: exI [of _ l])
qed

text \<open>
  With working system calls a creation finds room, and the file grows by at most one level.
\<close>

lemma room_in_pages_read:
  "\<forall>x \<in> set idxs. rd x \<noteq> None \<Longrightarrow> \<exists>r. room_in_pages L rd slots idxs = Inr r"
  by (induction idxs) (auto simp: Let_def)

lemma room_in_zero_group:
  assumes "wf_layout L" and "slots \<le> per_group L" and "0 < slots"
  shows "RoomForFilename (bitmap (zero_group L)) slots (per_group L) = 0"
proof (rule ccontr)
  assume "RoomForFilename (bitmap (zero_group L)) slots (per_group L) \<noteq> 0"
  then have "\<not> free_run (bitmap (zero_group L)) (per_group L) 0 slots"
    using assms(3) by (intro RoomForFilename_least) auto
  moreover have "\<not> TestBit i (bitmap (zero_group L))" if "i < slots" for i
    using that assms(1,2) by (simp add: zero_group_def wf_layout_def TestBit_replicate_0)
  ultimately show False using assms(2) by (auto simp: free_run_def)
qed

lemma alloc_scan_existing:
  assumes bf: "bucket_fun bx h" and io: "good_io io" and sz: "level_size (st_size f)"
    and l: "level < levels f"
  shows "(\<exists>idx p g. alloc_scan bx L io slots level f = (AllocAt idx p g, f)) \<or>
    alloc_scan bx L io slots level f = alloc_scan bx L io slots (level + 1) f"
proof -
  let ?b = "GetBidxFromLevel level h"
  have l30: "level \<le> 30" using l blocks_levels(2) [OF sz] by simp
  then have bx: "bx level = Some ?b" using bf by (simp add: bucket_funD)
  have lb: "set (level_blocks level h) = {?b, ?b + 1}" using l30 by (simp add: level_blocks_eq)
  then have "?b + 1 < blocks f" using level_present [OF sz l, of "?b + 1" h] by simp
  then have H: "HandleFileByFd L io (?b + 2) level f = (0, f)"
    using io by (simp add: HandleFileByFd_def good_io_def)
  have "\<forall>x \<in> set [?b..<?b + 2]. read_page io f x \<noteq> None"
    using \<open>?b + 1 < blocks f\<close> by (auto simp: read_page_good [OF io])
  from room_in_pages_read [OF this] obtain r where
    R: "room_in_pages L (read_page io f) slots [?b..<?b + 2] = Inr r" by blast
  have "level < 63" using l30 by simp
  then have "alloc_scan bx L io slots level f =
    (case r of Some (idx, p, g) \<Rightarrow> (AllocAt idx p g, f) | None \<Rightarrow> alloc_scan bx L io slots (level + 1) f)"
    by (subst alloc_scan.simps) (simp only: bx option.case H prod.case R sum.case, simp)
  then show ?thesis by (cases r) auto
qed

lemma alloc_scan_fresh:
  assumes bf: "bucket_fun bx h" and io: "good_io io" and sz: "level_size (st_size f)" and wfl: "wf_layout L"
    and lv: "levels f \<le> 18" and slots: "0 < slots" "slots \<le> per_group L"
  shows "\<exists>idx. alloc_scan bx L io slots (levels f) f =
    (AllocAt idx 0 (zero_group L), truncate_file L f (GetDcacheFileSize (levels f)))"
proof -
  let ?l = "levels f" and ?b = "GetBidxFromLevel (levels f) h"
  let ?f = "truncate_file L f (GetDcacheFileSize (levels f))"
  have bx: "bx ?l = Some ?b" using bf lv by (simp add: bucket_funD)
  have big: "blocks f \<le> ?b" using GetBidxFromLevel_bounds(1) [of ?l h] lv blocks_levels(1) [OF sz] by simp
  then have H: "HandleFileByFd L io (?b + 2) ?l f = (0, ?f)"
    using io by (simp add: HandleFileByFd_def good_io_def)
  have "extends L f ?f" using truncate_extends [of ?l f h L] lv big by simp
  moreover have b: "?b < blocks ?f"
    using bucket_in_level_file [of ?l h] lv by (simp add: truncate_file_def)
  ultimately have z: "pages ?f ?b = zero_group L" using big by (simp add: extends_def)
  have rp: "read_page io ?f ?b = Some (zero_group L)" using read_page_good [OF io b] z by simp
  have "[?b..<?b + 2] = [?b, ?b + 1]" by (simp add: upt_rec)
  then have "room_in_pages L (read_page io ?f) slots [?b..<?b + 2] = Inr (Some (?b, 0, zero_group L))"
    using slots by (simp add: rp room_in_zero_group [OF wfl slots(2,1)])
  then show ?thesis using lv
    by (subst alloc_scan.simps) (simp only: bx option.case H prod.case sum.case, simp)
qed

lemma alloc_scan_succeeds:
  assumes bf: "bucket_fun bx h" and io: "good_io io" and wf: "wf_dir L f"
    and lv: "levels f \<le> 18" and slots: "0 < slots" "slots \<le> per_group L"
  shows "\<exists>idx p g f'. alloc_scan bx L io slots 0 f = (AllocAt idx p g, f') \<and>
    (f' = f \<or> f' = truncate_file L f (GetDcacheFileSize (levels f)))"
proof -
  have sz: "level_size (st_size f)" and wfl: "wf_layout L" using wf by (auto simp: wf_dir_def)
  have "\<exists>idx p g f'. alloc_scan bx L io slots (levels f - n) f = (AllocAt idx p g, f') \<and>
    (f' = f \<or> f' = truncate_file L f (GetDcacheFileSize (levels f)))" if "n \<le> levels f" for n
    using that
  proof (induction n)
    case 0
    then show ?case using alloc_scan_fresh [OF bf io sz wfl lv slots] by auto
  next
    case (Suc n)
    have "levels f - Suc n < levels f" "levels f - Suc n + 1 = levels f - n" using Suc.prems by auto
    with alloc_scan_existing [OF bf io sz, of "levels f - Suc n" L slots] Suc show ?case by fastforce
  qed
  from this [of "levels f"] show ?thesis by simp
qed

text \<open>
  A name that needs more slots than a block has never fits: the walk passes every level it can
  compute a bucket for and extends the file on the way.
\<close>

lemma room_oversized: "m < slots \<Longrightarrow> RoomForFilename bm slots m = m"
  using RoomForFilename_le [of bm slots m] RoomForFilename_free [of bm slots m]
  by (cases "RoomForFilename bm slots m < m") (auto simp: free_run_def)

lemma room_in_pages_oversized:
  "per_group L < slots \<Longrightarrow> \<forall>x \<in> set idxs. rd x \<noteq> None \<Longrightarrow> room_in_pages L rd slots idxs = Inr None"
  by (induction idxs) (auto simp: room_oversized)

lemma alloc_scan_oversized_step:
  assumes "level < 63" and bx: "bx level = Some (GetBidxFromLevel level h)" and io: "good_io io"
    and big: "per_group L < slots"
  shows "\<exists>f'. alloc_scan bx L io slots level f = alloc_scan bx L io slots (level + 1) f' \<and>
    GetBidxFromLevel level h + 2 \<le> blocks f' \<and> blocks f \<le> blocks f'"
proof -
  let ?b = "GetBidxFromLevel level h"
  obtain f' where H: "HandleFileByFd L io (?b + 2) level f = (0, f')"
    using io by (cases "blocks f < ?b + 2") (auto simp: HandleFileByFd_def good_io_def)
  have grow: "blocks f \<le> blocks f'" using HandleFileByFd_extends [OF assms(1) H] by (blast intro: extends_blocks)
  have pres: "?b + 2 \<le> blocks f'" using HandleFileByFd_present [OF assms(1) H] .
  have "\<forall>x \<in> set [?b..<?b + 2]. read_page io f' x \<noteq> None" using pres by (auto simp: read_page_good [OF io])
  from room_in_pages_oversized [OF big this] have
    R: "room_in_pages L (read_page io f') slots [?b..<?b + 2] = Inr None" .
  have "alloc_scan bx L io slots level f = alloc_scan bx L io slots (level + 1) f'"
    using assms(1) by (subst alloc_scan.simps) (simp only: bx option.case H prod.case R sum.case, simp)
  then show ?thesis using pres grow by blast
qed

lemma alloc_scan_oversized:
  assumes bf: "bucket_fun bx h" and bx: "\<And>l. l < 32 \<Longrightarrow> bx l \<noteq> None" and io: "good_io io"
    and big: "per_group L < slots" and "n \<le> 32"
  shows "\<exists>f'. alloc_scan bx L io slots 0 f = alloc_scan bx L io slots n f' \<and>
    (\<forall>k < n. GetBidxFromLevel k h + 2 \<le> blocks f')"
  using \<open>n \<le> 32\<close>
proof (induction n)
  case 0
  show ?case by auto
next
  case (Suc n)
  then obtain f1 where f1: "alloc_scan bx L io slots 0 f = alloc_scan bx L io slots n f1"
    "\<And>k. k < n \<Longrightarrow> GetBidxFromLevel k h + 2 \<le> blocks f1" by auto
  have b: "bx n = Some (GetBidxFromLevel n h)" using bf bx [of n] Suc.prems by (auto simp: bucket_fun_def)
  have "n < 63" using Suc.prems by simp
  from alloc_scan_oversized_step [where bx = bx and h = h, OF this b io big, of f1] obtain f2 where
    f2: "alloc_scan bx L io slots n f1 = alloc_scan bx L io slots (n + 1) f2"
    "GetBidxFromLevel n h + 2 \<le> blocks f2" "blocks f1 \<le> blocks f2" by blast
  have "GetBidxFromLevel k h + 2 \<le> blocks f2" if "k < Suc n" for k
    using that f1(2) [of k] f2(2,3) by (cases "k = n") auto
  with f1(1) f2(1) show ?case by (intro exI [of _ f2]) simp
qed

section \<open>The directory a file represents\<close>

text \<open>
  The entries of a file in block order, and the map from names to entries they stand for. A store
  that keeps removed entries on disk counts only the \<open>live\<close> ones.
\<close>

definition entry_list :: "'d layout \<Rightarrow> 'd dentry_file \<Rightarrow> (string \<times> 'd) list" where
  "entry_list L f = concat (map (\<lambda>idx. map (\<lambda>i. (entry_name L f idx i, dentry_at f idx i))
     (filter (head L (pages f idx)) [0..<per_group L])) [0..<blocks f])"

definition dir_map :: "'d layout \<Rightarrow> ('d \<Rightarrow> bool) \<Rightarrow> 'd dentry_file \<Rightarrow> string \<Rightarrow> 'd option" where
  "dir_map L live f = map_of (filter (live \<circ> snd) (entry_list L f))"

definition unique_names :: "'d layout \<Rightarrow> ('d \<Rightarrow> bool) \<Rightarrow> 'd dentry_file \<Rightarrow> bool" where
  "unique_names L live f \<longleftrightarrow> (\<forall>idx i idx' i'.
     entry_at L f idx i \<and> entry_at L f idx' i' \<and> live (dentry_at f idx i) \<and> live (dentry_at f idx' i') \<and>
     entry_name L f idx i = entry_name L f idx' i' \<longrightarrow> idx = idx' \<and> i = i')"

lemma set_entry_list:
  "(n, d) \<in> set (entry_list L f) \<longleftrightarrow>
   (\<exists>idx i. entry_at L f idx i \<and> entry_name L f idx i = n \<and> dentry_at f idx i = d)"
  by (fastforce simp: entry_list_def entry_at_def head_def)

lemma dir_map_None:
  "dir_map L live f n = None \<longleftrightarrow>
   (\<forall>idx i. entry_at L f idx i \<and> entry_name L f idx i = n \<longrightarrow> \<not> live (dentry_at f idx i))"
proof -
  have "dir_map L live f n = None \<longleftrightarrow> (\<forall>d. (n, d) \<in> set (entry_list L f) \<longrightarrow> \<not> live d)"
    by (force simp: dir_map_def map_of_eq_None_iff)
  then show ?thesis by (auto simp: set_entry_list)
qed

lemma dir_map_SomeD:
  "dir_map L live f n = Some d \<Longrightarrow>
   \<exists>idx i. entry_at L f idx i \<and> entry_name L f idx i = n \<and> dentry_at f idx i = d \<and> live d"
  unfolding dir_map_def by (drule map_of_SomeD) (auto simp: set_entry_list)

lemma dir_map_SomeI:
  assumes "unique_names L live f" and "entry_at L f idx i" and "live (dentry_at f idx i)"
  shows "dir_map L live f (entry_name L f idx i) = Some (dentry_at f idx i)"
proof (cases "dir_map L live f (entry_name L f idx i)")
  case None
  with assms(2,3) show ?thesis by (auto simp: dir_map_None)
next
  case (Some d)
  from dir_map_SomeD [OF this] obtain idx' i' where
    "entry_at L f idx' i'" "entry_name L f idx' i' = entry_name L f idx i" "dentry_at f idx' i' = d" "live d"
    by blast
  moreover from this have "idx' = idx \<and> i' = i" using assms unfolding unique_names_def by blast
  ultimately show ?thesis using Some by auto
qed

text \<open>A change at one position changes the directory at one name.\<close>

definition same_except :: "'d layout \<Rightarrow> nat \<Rightarrow> nat \<Rightarrow> 'd dentry_file \<Rightarrow> 'd dentry_file \<Rightarrow> bool" where
  "same_except L idx p f f' \<longleftrightarrow> (\<forall>i j. (i, j) \<noteq> (idx, p) \<longrightarrow>
     (entry_at L f' i j \<longleftrightarrow> entry_at L f i j) \<and>
     (entry_at L f i j \<longrightarrow> entry_name L f' i j = entry_name L f i j \<and> dentry_at f' i j = dentry_at f i j))"

lemma same_exceptD:
  assumes "same_except L idx p f f'" and "(i, j) \<noteq> (idx, p)"
  shows "entry_at L f' i j \<longleftrightarrow> entry_at L f i j"
    and "entry_at L f i j \<Longrightarrow> entry_name L f' i j = entry_name L f i j"
    and "entry_at L f i j \<Longrightarrow> dentry_at f' i j = dentry_at f i j"
  using assms by (auto simp: same_except_def)

lemma unique_names_change:
  assumes un: "unique_names L live f" and same: "same_except L idx p f f'"
    and others: "\<And>i j. (i, j) \<noteq> (idx, p) \<Longrightarrow> entry_at L f i j \<Longrightarrow> live (dentry_at f i j) \<Longrightarrow> entry_name L f i j \<noteq> n"
    and new: "entry_at L f' idx p \<Longrightarrow> entry_name L f' idx p = n"
  shows "unique_names L live f'"
  unfolding unique_names_def
proof (intro allI impI, elim conjE)
  note eq = same_exceptD [OF same]
  fix i j i' j'
  assume *: "entry_at L f' i j" "entry_at L f' i' j'" "live (dentry_at f' i j)" "live (dentry_at f' i' j')"
    "entry_name L f' i j = entry_name L f' i' j'"
  show "i = i' \<and> j = j'"
  proof (cases "(i, j) = (idx, p)"; cases "(i', j') = (idx, p)")
    assume "(i, j) = (idx, p)" "(i', j') \<noteq> (idx, p)"
    with * eq [of i' j'] new others [of i' j'] show ?thesis by auto
  next
    assume "(i, j) \<noteq> (idx, p)" "(i', j') = (idx, p)"
    with * eq [of i j] new others [of i j] show ?thesis by auto
  next
    assume "(i, j) \<noteq> (idx, p)" "(i', j') \<noteq> (idx, p)"
    with * eq [of i j] eq [of i' j'] un show ?thesis unfolding unique_names_def by metis
  qed auto
qed

lemma dir_map_change:
  assumes un: "unique_names L live f" and same: "same_except L idx p f f'"
    and others: "\<And>i j. (i, j) \<noteq> (idx, p) \<Longrightarrow> entry_at L f i j \<Longrightarrow> live (dentry_at f i j) \<Longrightarrow> entry_name L f i j \<noteq> n"
    and old: "entry_at L f idx p \<Longrightarrow> entry_name L f idx p = n"
    and new: "entry_at L f' idx p \<Longrightarrow> entry_name L f' idx p = n"
  shows "dir_map L live f' = (dir_map L live f)
    (n := if entry_at L f' idx p \<and> live (dentry_at f' idx p) then Some (dentry_at f' idx p) else None)"
    (is "_ = ?R")
proof
  fix m
  note eq = same_exceptD [OF same]
  have un': "unique_names L live f'" using un same others new by (rule unique_names_change)
  show "dir_map L live f' m = ?R m"
  proof (cases "m = n")
    case m: True
    show ?thesis
    proof (cases "entry_at L f' idx p \<and> live (dentry_at f' idx p)")
      case True
      then show ?thesis using dir_map_SomeI [OF un', of idx p] new m by simp
    next
      case False
      have "\<not> live (dentry_at f' i j)" if "entry_at L f' i j" "entry_name L f' i j = n" for i j
        using that False eq [of i j] others [of i j] by (cases "(i, j) = (idx, p)") auto
      then have "dir_map L live f' n = None" by (simp add: dir_map_None)
      then show ?thesis using False m by simp
    qed
  next
    case False
    show ?thesis
    proof (cases "dir_map L live f m")
      case None
      have "\<not> live (dentry_at f' i j)" if "entry_at L f' i j" "entry_name L f' i j = m" for i j
        using that None False eq [of i j] new by (cases "(i, j) = (idx, p)") (auto simp: dir_map_None)
      then have "dir_map L live f' m = None" by (simp add: dir_map_None)
      with None False show ?thesis by simp
    next
      case (Some d)
      from dir_map_SomeD [OF Some] obtain i j where
        e: "entry_at L f i j" "entry_name L f i j = m" "dentry_at f i j = d" "live d" by blast
      then have "(i, j) \<noteq> (idx, p)" using old False by auto
      with e eq [of i j] dir_map_SomeI [OF un', of i j] Some False show ?thesis by auto
    qed
  qed
qed

text \<open>A change among the entries that are not live changes no name.\<close>

lemma dir_map_dead_change:
  assumes un: "unique_names L live f" and same: "same_except L idx p f f'"
    and old: "entry_at L f idx p \<Longrightarrow> \<not> live (dentry_at f idx p)"
    and new: "entry_at L f' idx p \<Longrightarrow> \<not> live (dentry_at f' idx p)"
  shows "unique_names L live f'" and "dir_map L live f' = dir_map L live f"
proof -
  have eq: "entry_at L f' i j \<and> live (dentry_at f' i j) \<longleftrightarrow> entry_at L f i j \<and> live (dentry_at f i j)"
    "entry_at L f i j \<and> live (dentry_at f i j) \<Longrightarrow>
      entry_name L f' i j = entry_name L f i j \<and> dentry_at f' i j = dentry_at f i j" for i j
    using same_exceptD [OF same, of i j] old new by (cases "(i, j) = (idx, p)"; auto)+
  show un': "unique_names L live f'" using un eq unfolding unique_names_def by metis
  show "dir_map L live f' = dir_map L live f"
  proof
    fix n
    show "dir_map L live f' n = dir_map L live f n"
    proof (cases "dir_map L live f n")
      case None
      then have "\<not> live (dentry_at f' i j)" if "entry_at L f' i j" "entry_name L f' i j = n" for i j
        using that eq [of i j] by (auto simp: dir_map_None)
      then have "dir_map L live f' n = None" by (simp add: dir_map_None)
      with None show ?thesis by simp
    next
      case (Some d)
      from dir_map_SomeD [OF Some] obtain i j where
        "entry_at L f i j" "entry_name L f i j = n" "dentry_at f i j = d" "live d" by blast
      with eq [of i j] dir_map_SomeI [OF un', of i j] Some show ?thesis by auto
    qed
  qed
qed

section \<open>Writing one block back\<close>

lemma entry_at_write_page:
  assumes "idx < blocks f"
  shows "entry_at L (write_page f idx g) i j \<longleftrightarrow>
    (if i = idx then head L g j else entry_at L f i j)"
  using assms blocks_write_page [OF assms, of g] by (auto simp: entry_at_def write_page_def)

lemma write_page_wf:
  assumes wf: "wf_dir L f" and idx: "idx < blocks f" and g: "wf_group L g"
    and ent: "\<And>i. head L g i \<Longrightarrow> hash_of L (nsl g ! i) = DentryHash (name_at L g i) False \<and>
      in_bucket idx (DentryHash (name_at L g i) False)"
  shows "wf_dir L (write_page f idx g)"
proof -
  let ?f = "write_page f idx g"
  have sz: "st_size ?f = st_size f" using idx by (rule blocks_write_page)
  have pg: "pages ?f = (pages f)(idx := g)" by (simp add: write_page_def)
  have "wf_layout L \<and> level_size (st_size ?f) \<and> (\<forall>i < blocks ?f. wf_group L (pages ?f i))"
    using wf g by (auto simp: wf_dir_def sz pg)
  moreover have "hash_of L (dentry_at ?f i j) = DentryHash (entry_name L ?f i j) False \<and>
     in_bucket i (DentryHash (entry_name L ?f i j) False)" if "entry_at L ?f i j" for i j
    using that wf ent [of j] by (cases "i = idx") (auto simp: entry_at_write_page [OF idx] pg wf_dir_def)
  ultimately show ?thesis by (simp add: wf_dir_def)
qed

lemma place_in_file:
  assumes wf: "wf_dir L f" and idx: "idx < blocks f"
    and free: "free_run (bitmap (pages f idx)) (per_group L) p (GetDentrySlots (slot_bits L) (length name))"
    and name: "name \<noteq> []" "length name < 2 ^ 16"
    and de: "namelen_of L de = word_of_nat (length name)" "hash_of L de = DentryHash name False"
    and b: "in_bucket idx (DentryHash name False)"
  defines "f' \<equiv> write_page f idx (place_dentry L (pages f idx) p name de)"
  shows "wf_dir L f'" and "\<not> entry_at L f idx p" and "entry_at L f' idx p" and "same_except L idx p f f'"
    and "entry_name L f' idx p = name" and "dentry_at f' idx p = de"
proof -
  let ?g = "place_dentry L (pages f idx) p name de"
  have wfl: "wf_layout L" and wfg: "wf_group L (pages f idx)" using wf idx by (auto simp: wf_dir_def)
  note pd = place_dentry [OF wfl wfg free name de(1)]
  have pg: "pages f' = (pages f)(idx := ?g)" by (simp add: f'_def write_page_def)
  note ea = entry_at_write_page [OF idx, of L ?g, folded f'_def]
  have "hash_of L (nsl ?g ! i) = DentryHash (name_at L ?g i) False \<and>
      in_bucket idx (DentryHash (name_at L ?g i) False)" if "head L ?g i" for i
  proof (cases "i = p")
    case True
    then show ?thesis using pd(3,4) de(2) b by simp
  next
    case False
    with that pd(2) have "head L (pages f idx) i" by simp
    with pd(5) [OF this] wf idx show ?thesis by (auto simp: wf_dir_def entry_at_def)
  qed
  then show "wf_dir L f'" unfolding f'_def by (intro write_page_wf [OF wf idx pd(1)])
  show "\<not> entry_at L f idx p" using pd(5) [of p] by (auto simp: entry_at_def)
  show "entry_at L f' idx p" using ea pd(2) by simp
  show "entry_name L f' idx p = name" "dentry_at f' idx p = de" using pd(3,4) by (simp_all add: pg)
  show "same_except L idx p f f'"
    unfolding same_except_def using pd(2,5) ea idx by (auto simp: pg entry_at_def)
qed

lemma free_in_file:
  assumes wf: "wf_dir L f" and e: "entry_at L f idx p"
  defines "f' \<equiv> write_page f idx (free_dentry L (pages f idx) p)"
  shows "wf_dir L f'" and "\<not> entry_at L f' idx p" and "same_except L idx p f f'"
proof -
  let ?g = "free_dentry L (pages f idx) p"
  have idx: "idx < blocks f" and hd: "head L (pages f idx) p" using e by (auto simp: entry_at_def)
  have wfl: "wf_layout L" and wfg: "wf_group L (pages f idx)" using wf idx by (auto simp: wf_dir_def)
  note fd = free_dentry [OF wfl wfg hd]
  have pg: "pages f' = (pages f)(idx := ?g)" by (simp add: f'_def write_page_def)
  note ea = entry_at_write_page [OF idx, of L ?g, folded f'_def]
  have "hash_of L (nsl ?g ! i) = DentryHash (name_at L ?g i) False \<and>
      in_bucket idx (DentryHash (name_at L ?g i) False)" if "head L ?g i" for i
    using that fd(2,3,4) wf idx by (auto simp: wf_dir_def entry_at_def)
  then show "wf_dir L f'" unfolding f'_def by (intro write_page_wf [OF wf idx fd(1)])
  show "\<not> entry_at L f' idx p" using ea fd(2) by simp
  show "same_except L idx p f f'"
    unfolding same_except_def using fd(2,3,4) ea idx by (auto simp: pg entry_at_def)
qed

lemma set_in_file:
  assumes wf: "wf_dir L f" and e: "entry_at L f idx p"
    and len: "namelen_of L de = namelen_of L (dentry_at f idx p)"
    and hash: "hash_of L de = hash_of L (dentry_at f idx p)"
  defines "f' \<equiv> write_page f idx (set_dentry (pages f idx) p de)"
  shows "wf_dir L f'" and "entry_at L f' idx p" and "same_except L idx p f f'"
    and "entry_name L f' idx p = entry_name L f idx p" and "dentry_at f' idx p = de"
proof -
  let ?g = "set_dentry (pages f idx) p de"
  have idx: "idx < blocks f" and hd: "head L (pages f idx) p" using e by (auto simp: entry_at_def)
  have wfg: "wf_group L (pages f idx)" using wf idx by (auto simp: wf_dir_def)
  note sd = set_dentry [OF wfg hd len]
  have pg: "pages f' = (pages f)(idx := ?g)" by (simp add: f'_def write_page_def)
  note ea = entry_at_write_page [OF idx, of L ?g, folded f'_def]
  have "hash_of L (nsl ?g ! i) = DentryHash (name_at L ?g i) False \<and>
      in_bucket idx (DentryHash (name_at L ?g i) False)" if "head L ?g i" for i
    using that sd wf idx hash by (cases "i = p") (auto simp: wf_dir_def entry_at_def)
  then show "wf_dir L f'" unfolding f'_def by (intro write_page_wf [OF wf idx sd(1)])
  show "entry_at L f' idx p" using ea sd(2) hd by simp
  show "same_except L idx p f f'"
    unfolding same_except_def using sd(2,3,5) ea idx by (auto simp: pg entry_at_def)
  show "entry_name L f' idx p = entry_name L f idx p" "dentry_at f' idx p = de"
    using sd(3,4) by (simp_all add: pg)
qed

section \<open>Lookup by name\<close>

text \<open>
  The match test of \<open>FindInBlock\<close>: hash, length, then \<open>memcmp\<close> of the stored bytes.
\<close>

definition name_match :: "'d layout \<Rightarrow> ('d \<Rightarrow> bool) \<Rightarrow> u32 \<Rightarrow> string \<Rightarrow> 'd dentry_group \<Rightarrow> nat \<Rightarrow> 'd \<Rightarrow> bool" where
  "name_match L live namehash name g i de \<longleftrightarrow>
     live de \<and> hash_of L de = namehash \<and> unat (namelen_of L de) = length name \<and>
     slice (i * 2 ^ slot_bits L) (unat (namelen_of L de)) (fileName g) = name"

abbreviation find_name ::
  "'d layout \<Rightarrow> ('d \<Rightarrow> bool) \<Rightarrow> io_env \<Rightarrow> nat \<Rightarrow> string \<Rightarrow> 'd dentry_file \<Rightarrow> (nat \<times> 'd dentry_group \<times> nat) option" where
  "find_name L live io m name f \<equiv>
     find_entry L io (name_match L live (DentryHash name False) name) (DentryHash name False) m f"

lemma find_name_sound:
  assumes "wf_layout L" and "find_name L live io m name f = Some (idx, g, i)"
  shows "g = pages f idx" and "entry_at L f idx i" and "entry_name L f idx i = name"
    and "live (dentry_at f idx i)"
  using find_entry_sound [OF assms] by (auto simp: name_match_def name_at_def)

lemma find_name_absent:
  assumes "wf_dir L f" and "dir_map L live f name = None"
  shows "find_name L live io m name f = None"
proof (rule ccontr)
  assume "find_name L live io m name f \<noteq> None"
  then obtain idx g i where "find_name L live io m name f = Some (idx, g, i)" by auto
  from find_name_sound [OF _ this] assms show False by (auto simp: wf_dir_def dir_map_None)
qed

lemma find_name_present:
  assumes wf: "wf_dir L f" and io: "good_io io" and un: "unique_names L live f" and m: "levels f \<le> m"
    and d: "dir_map L live f name = Some d"
  obtains idx i where "find_name L live io m name f = Some (idx, pages f idx, i)" "entry_at L f idx i"
    "entry_name L f idx i = name" "dentry_at f idx i = d" "live d"
proof -
  from dir_map_SomeD [OF d] obtain idx i where
    e: "entry_at L f idx i" "entry_name L f idx i = name" "dentry_at f idx i = d" "live d" by blast
  have h: "hash_of L (dentry_at f idx i) = DentryHash name False" using wf e by (auto simp: wf_dir_def)
  have idx: "idx < blocks f" "head L (pages f idx) i" using e(1) by (auto simp: entry_at_def)
  then have wfg: "wf_group L (pages f idx)" "slot_bits L < 32" using wf by (auto simp: wf_dir_def wf_layout_def)
  have "length name = unat (namelen_of L d)"
    using length_name_at [OF wfg(2,1) idx(2)] e(2,3) by simp
  then have "name_match L live (DentryHash name False) name (pages f idx) i (dentry_at f idx i)"
    using e h by (simp add: name_match_def name_at_def)
  then have "find_name L live io m name f \<noteq> None"
    using find_entry_complete [OF wf io _ m e(1) h] by blast
  then obtain idx' g' i' where F: "find_name L live io m name f = Some (idx', g', i')" by auto
  have "wf_layout L" using wf by (simp add: wf_dir_def)
  note s = find_name_sound [OF this F]
  have "idx' = idx \<and> i' = i" using s e un unfolding unique_names_def by auto
  with s F e show thesis using that by blast
qed

section \<open>Effect of the operations on the directory\<close>

lemma extends_dir:
  assumes wfl: "wf_layout L" and ext: "extends L f f'" and un: "unique_names L live f"
  shows "unique_names L live f'" and "dir_map L live f' = dir_map L live f"
proof -
  note e = extends_entries [OF wfl ext]
  show un': "unique_names L live f'" using un e unfolding unique_names_def by metis
  show "dir_map L live f' = dir_map L live f"
  proof
    fix n
    show "dir_map L live f' n = dir_map L live f n"
    proof (cases "dir_map L live f n")
      case None
      then have "dir_map L live f' n = None" unfolding dir_map_None using e by metis
      with None show ?thesis by simp
    next
      case (Some d)
      from dir_map_SomeD [OF Some] obtain i j where
        "entry_at L f i j" "entry_name L f i j = n" "dentry_at f i j = d" "live d" by blast
      with e [of i j] dir_map_SomeI [OF un', of i j] Some show ?thesis by auto
    qed
  qed
qed

lemma extends_entry_set:
  assumes "wf_layout L" and "extends L f f'"
  shows "set (entry_list L f') = set (entry_list L f)"
proof (rule set_eqI)
  fix x :: "string \<times> 'a"
  obtain n d where x: "x = (n, d)" by (cases x)
  have at: "entry_at L f' i j \<and> entry_name L f' i j = n \<and> dentry_at f' i j = d \<longleftrightarrow>
      entry_at L f i j \<and> entry_name L f i j = n \<and> dentry_at f i j = d" for i j
    using extends_entries [OF assms, of i j] by auto
  show "x \<in> set (entry_list L f') \<longleftrightarrow> x \<in> set (entry_list L f)"
    unfolding x set_entry_list at by blast
qed

lemma entry_list_insert:
  assumes "\<not> entry_at L f idx p" and "entry_at L f' idx p" and same: "same_except L idx p f f'"
    and "entry_name L f' idx p = name" and "dentry_at f' idx p = de"
  shows "set (entry_list L f') = insert (name, de) (set (entry_list L f))"
proof (rule set_eqI)
  fix x :: "string \<times> 'a"
  obtain n d where x: "x = (n, d)" by (cases x)
  have at: "entry_at L f' i j \<and> entry_name L f' i j = n \<and> dentry_at f' i j = d \<longleftrightarrow>
      (i, j) = (idx, p) \<and> (n, d) = (name, de) \<or>
      entry_at L f i j \<and> entry_name L f i j = n \<and> dentry_at f i j = d" for i j
    using assms same_exceptD [OF same, of i j] by (cases "(i, j) = (idx, p)") auto
  show "x \<in> set (entry_list L f') \<longleftrightarrow> x \<in> insert (name, de) (set (entry_list L f))"
    unfolding x insert_iff set_entry_list at by blast
qed

lemma others_absent:
  "dir_map L live f n = None \<Longrightarrow> entry_at L f i j \<Longrightarrow> live (dentry_at f i j) \<Longrightarrow> entry_name L f i j \<noteq> n"
  by (auto simp: dir_map_None)

lemma others_unique:
  "unique_names L live f \<Longrightarrow> entry_at L f idx p \<Longrightarrow> live (dentry_at f idx p) \<Longrightarrow> (i, j) \<noteq> (idx, p) \<Longrightarrow>
   entry_at L f i j \<Longrightarrow> live (dentry_at f i j) \<Longrightarrow> entry_name L f i j \<noteq> entry_name L f idx p"
  unfolding unique_names_def by blast

lemma create_dir:
  assumes bf: "bucket_fun bx (DentryHash name False)" and wf: "wf_dir L f"
    and al: "alloc_scan bx L io (GetDentrySlots (slot_bits L) (length name)) 0 f = (AllocAt idx p g, f1)"
    and sz: "st_size f1 < 2 ^ 32" and name: "name \<noteq> []" "length name < 2 ^ 16"
    and de: "namelen_of L de = word_of_nat (length name)" "hash_of L de = DentryHash name False"
  defines "f' \<equiv> write_page f1 idx (place_dentry L g p name de)"
  shows "wf_dir L f'" and "entry_at L f' idx p" and "entry_name L f' idx p = name" and "dentry_at f' idx p = de"
    and "set (entry_list L f') = insert (name, de) (set (entry_list L f))"
    and "unique_names L live f \<Longrightarrow> dir_map L live f name = None \<Longrightarrow> live de \<Longrightarrow>
      unique_names L live f' \<and> dir_map L live f' = (dir_map L live f)(name \<mapsto> de)"
proof -
  have wf1: "wf_dir L f1" using alloc_scan_wf [OF bf wf al sz] .
  then have lsz: "level_size (st_size f1)" and wfl: "wf_layout L" by (auto simp: wf_dir_def)
  have ext: "extends L f f1" using alloc_scan_extends [OF bf al] by blast
  from alloc_scan_AllocAt [OF bf al] have g: "g = pages f1 idx" and idx: "idx < blocks f1"
    and free: "free_run (bitmap (pages f1 idx)) (per_group L) p (GetDentrySlots (slot_bits L) (length name))"
    by auto
  note pl = place_in_file [OF wf1 idx free name de alloc_scan_bucket [OF bf al lsz], folded g, folded f'_def]
  show "wf_dir L f'" by (fact pl)
  show "entry_at L f' idx p" by (fact pl)
  show "entry_name L f' idx p = name" by (fact pl)
  show "dentry_at f' idx p = de" by (fact pl)
  show "set (entry_list L f') = insert (name, de) (set (entry_list L f))"
    using entry_list_insert [OF pl(2-6)] extends_entry_set [OF wfl ext] by simp
  assume un: "unique_names L live f" and none: "dir_map L live f name = None" and lv: "live de"
  note e = extends_dir [OF wfl ext un]
  have others: "entry_name L f1 i j \<noteq> name" if "entry_at L f1 i j" "live (dentry_at f1 i j)" for i j
    using others_absent [of L live f1 name i j] that e(2) none by simp
  show "unique_names L live f' \<and> dir_map L live f' = (dir_map L live f)(name \<mapsto> de)"
    using unique_names_change [OF e(1) pl(4) others] dir_map_change [OF e(1) pl(4) others] pl e(2) lv by auto
qed

lemma remove_dir:
  assumes wf: "wf_dir L f" and e: "entry_at L f idx p" and lv: "live (dentry_at f idx p)"
    and un: "unique_names L live f"
  defines "f' \<equiv> write_page f idx (free_dentry L (pages f idx) p)"
  shows "wf_dir L f'" and "unique_names L live f'"
    and "dir_map L live f' = (dir_map L live f)(entry_name L f idx p := None)"
proof -
  note fr = free_in_file [OF wf e, folded f'_def]
  note others = others_unique [OF un e lv]
  show "wf_dir L f'" by (fact fr)
  show "unique_names L live f'" using unique_names_change [OF un fr(3) others] fr(2) by blast
  show "dir_map L live f' = (dir_map L live f)(entry_name L f idx p := None)"
    using dir_map_change [OF un fr(3) others] fr(2) by simp
qed

lemma set_dir:
  assumes wf: "wf_dir L f" and e: "entry_at L f idx p" and lv: "live (dentry_at f idx p)"
    and un: "unique_names L live f"
    and de: "namelen_of L de = namelen_of L (dentry_at f idx p)" "hash_of L de = hash_of L (dentry_at f idx p)"
  defines "f' \<equiv> write_page f idx (set_dentry (pages f idx) p de)"
  shows "wf_dir L f'" and "unique_names L live f'"
    and "dir_map L live f' = (dir_map L live f)(entry_name L f idx p := if live de then Some de else None)"
proof -
  note st = set_in_file [OF wf e de, folded f'_def]
  note others = others_unique [OF un e lv]
  show "wf_dir L f'" by (fact st)
  show "unique_names L live f'" using unique_names_change [OF un st(3) others] st(4) by blast
  show "dir_map L live f' = (dir_map L live f)(entry_name L f idx p := if live de then Some de else None)"
    using dir_map_change [OF un st(3) others] st by simp
qed

lemma wf_empty_file: "wf_layout L \<Longrightarrow> wf_dir L (empty_file L)"
  by (simp add: wf_dir_def empty_file_def level_size_def entry_at_def GetDentryGroupCnt_def)

lemma dir_empty_file: "dir_map L live (empty_file L) = Map.empty" "unique_names L live (empty_file L)"
  by (auto simp: dir_map_def entry_list_def empty_file_def GetDentryGroupCnt_def unique_names_def entry_at_def)

lemma remove_dead_dir:
  assumes wf: "wf_dir L f" and e: "entry_at L f idx p" and lv: "\<not> live (dentry_at f idx p)"
    and un: "unique_names L live f"
  defines "f' \<equiv> write_page f idx (free_dentry L (pages f idx) p)"
  shows "wf_dir L f'" and "unique_names L live f'" and "dir_map L live f' = dir_map L live f"
proof -
  note fr = free_in_file [OF wf e, folded f'_def]
  show "wf_dir L f'" by (fact fr)
  show "unique_names L live f'" using dir_map_dead_change(1) [OF un fr(3)] lv fr(2) by blast
  show "dir_map L live f' = dir_map L live f" using dir_map_dead_change(2) [OF un fr(3)] lv fr(2) by blast
qed

lemma levels_mono_truncate:
  assumes "level_size (st_size f)" and "levels f \<le> 18"
  shows "levels (truncate_file L f (GetDcacheFileSize (levels f))) = levels f + 1"
    and "st_size (truncate_file L f (GetDcacheFileSize (levels f))) < 2 ^ 32"
  using assms GetMaxLevel_file [of "levels f"] level_size_less [of "GetDcacheFileSize (levels f)"]
  by (auto simp: levels_def truncate_file_def level_size_def)

end
