(* ===== verification/Directory_Spec.thy ===== *)
theory Directory_Spec
  imports Dfs_Prelude
begin

text \<open>
  What a dentry store promises its callers: it is a finite map from names to entries with lookup,
  creation, update and removal. The callers only combine these operations (look up, then create
  or update), so their lemmas are proved once here and hold for each store that is shown to keep
  the contract.
\<close>

locale directory_store =
  fixes good :: "'e \<Rightarrow> bool"
    and inv :: "'s \<Rightarrow> bool"
    and room :: "'s \<Rightarrow> bool"
    and absmap :: "'s \<Rightarrow> string \<Rightarrow> 'a option"
    and valid :: "'b \<Rightarrow> bool"
    and nm :: "'b \<Rightarrow> string"
    and fresh :: "'b \<Rightarrow> 'a"
    and changed :: "'b \<Rightarrow> 'a \<Rightarrow> 'a"
    and ok :: "'r"
    and lookup :: "'e \<Rightarrow> string \<Rightarrow> 's \<Rightarrow> 'a option"
    and create :: "'e \<Rightarrow> 'b \<Rightarrow> 's \<Rightarrow> 'r \<times> 's"
    and update :: "'e \<Rightarrow> 'b \<Rightarrow> 's \<Rightarrow> int \<times> 's"
    and remove :: "'e \<Rightarrow> string \<Rightarrow> 's \<Rightarrow> int \<times> 's"
  assumes lookup_law: "good e \<Longrightarrow> inv s \<Longrightarrow> lookup e n s = absmap s n"
    and create_law: "good e \<Longrightarrow> inv s \<Longrightarrow> room s \<Longrightarrow> valid b \<Longrightarrow> absmap s (nm b) = None \<Longrightarrow>
      \<exists>s'. create e b s = (ok, s') \<and> inv s' \<and> absmap s' = (absmap s)(nm b \<mapsto> fresh b)"
    and update_law: "good e \<Longrightarrow> inv s \<Longrightarrow> absmap s (nm b) = Some a \<Longrightarrow>
      \<exists>s'. update e b s = (0, s') \<and> inv s' \<and> absmap s' = (absmap s)(nm b \<mapsto> changed b a)"
    and update_absent_law: "good e \<Longrightarrow> inv s \<Longrightarrow> absmap s (nm b) = None \<Longrightarrow> update e b s = (2, s)"
    and remove_law: "good e \<Longrightarrow> inv s \<Longrightarrow> absmap s n \<noteq> None \<Longrightarrow>
      \<exists>s'. remove e n s = (0, s') \<and> inv s' \<and> absmap s' = (absmap s)(n := None)"
    and remove_absent_law: "good e \<Longrightarrow> inv s \<Longrightarrow> absmap s n = None \<Longrightarrow> remove e n s = (2, s)"
begin

lemma remove_total:
  assumes "good e" and "inv s"
  shows "inv (snd (remove e n s)) \<and> absmap (snd (remove e n s)) = (absmap s)(n := None) \<and>
    (fst (remove e n s) = 0 \<longleftrightarrow> absmap s n \<noteq> None)"
proof (cases "absmap s n")
  case None
  then show ?thesis using remove_absent_law [OF assms None] assms by auto
next
  case (Some a)
  then show ?thesis using remove_law [OF assms, of n] by auto
qed

lemma create_then_lookup:
  assumes "good e" "good e'" and "inv s" "room s" "valid b" "absmap s (nm b) = None"
  shows "lookup e' n (snd (create e b s)) = (if n = nm b then Some (fresh b) else lookup e' n s)"
  using create_law [OF assms(1,3-6)] lookup_law [OF assms(2)] assms(3) by auto

lemma create_then_remove:
  assumes "good e" "good e'" and "inv s" "room s" "valid b" "absmap s (nm b) = None"
  shows "absmap (snd (remove e' (nm b) (snd (create e b s)))) = absmap s"
proof -
  from create_law [OF assms(1,3-6)] obtain s' where
    s': "create e b s = (ok, s')" "inv s'" "absmap s' = (absmap s)(nm b \<mapsto> fresh b)" by blast
  from remove_total [OF assms(2) s'(2), of "nm b"] show ?thesis
    using s' assms(6) by (auto simp: fun_upd_idem)
qed

text \<open>Removing a list of names one by one leaves the other names alone.\<close>

lemma remove_list:
  assumes "good e" and "inv s"
  shows "inv (fold (\<lambda>n s. snd (remove e n s)) ns s) \<and>
    absmap (fold (\<lambda>n s. snd (remove e n s)) ns s) = (\<lambda>n. if n \<in> set ns then None else absmap s n)"
  using assms(2)
proof (induction ns arbitrary: s)
  case (Cons m ns)
  from remove_total [OF assms(1) Cons.prems, of m]
  have r: "inv (snd (remove e m s))" "absmap (snd (remove e m s)) = (absmap s)(m := None)" by auto
  from Cons.IH [OF r(1)] r(2) show ?case by auto
qed simp

end

end
