(* ===== verification/Meta_File.thy ===== *)
theory Meta_File
  imports Dentry_File Directory_Spec
begin

text \<open>
  \<open>MetaFile\<close> of \<open>utils/dentry/src/meta_file.cpp\<close>: the dentry file of one cloud directory, with
  lookup, creation, removal, update, rename and listing. The file is the \<open>dentry_file\<close> of the
  shared model with 60 entries of 60 bytes per block and 8-byte name slots. The object's mutex
  makes each operation atomic, so an operation is a function on the file.
\<close>

section \<open>Data\<close>

abbreviation (input) CLOUD_RECORD_ID_LEN :: nat where "CLOUD_RECORD_ID_LEN \<equiv> 33"
abbreviation (input) S_IFREG :: u32 where "S_IFREG \<equiv> 0x8000"
abbreviation (input) S_IFDIR :: u32 where "S_IFDIR \<equiv> 0x4000"
abbreviation (input) DIR_SIZE :: u64 where "DIR_SIZE \<equiv> 4096"
abbreviation (input) PATH_MAX :: nat where "PATH_MAX \<equiv> 4096"

record MetaBase =
  mb_atime :: u64
  mb_mtime :: u64
  mb_size :: u64
  mb_mode :: u32
  mb_position :: u8
  mb_fileType :: u8
  mb_noUpload :: u8
  mb_name :: string
  mb_cloudId :: string
  mb_nextOff :: int

text \<open>The constructors \<open>MetaBase (name)\<close> and \<open>MetaBase (name, cloudId)\<close> and the defaults.\<close>

definition MetaBase_id :: "string \<Rightarrow> string \<Rightarrow> MetaBase" where
  "MetaBase_id name cloudId =
     \<lparr>mb_atime = 0, mb_mtime = 0, mb_size = 0, mb_mode = S_IFREG, mb_position = 1, mb_fileType = 0,
      mb_noUpload = 0, mb_name = name, mb_cloudId = cloudId, mb_nextOff = 0\<rparr>"

definition MetaBase_named :: "string \<Rightarrow> MetaBase" where
  "MetaBase_named name = MetaBase_id name []"

record HmdfsDentry =
  de_hash :: u32
  de_mode :: u16
  de_namelen :: u16
  de_size :: u64
  de_mtime :: u64
  de_recordId :: "char list"
  de_fileType :: "2 word"

definition meta_layout :: "HmdfsDentry layout" where
  "meta_layout = \<lparr>per_group = 60, slot_bits = 3, bitmap_len = 8, namelen_of = de_namelen, hash_of = de_hash,
     clear_namelen = (\<lambda>d. d\<lparr>de_namelen := 0\<rparr>),
     zero_dentry = \<lparr>de_hash = 0, de_mode = 0, de_namelen = 0, de_size = 0, de_mtime = 0,
       de_recordId = replicate CLOUD_RECORD_ID_LEN NUL, de_fileType = 0\<rparr>\<rparr>"

type_synonym meta_file = "HmdfsDentry dentry_file"

text \<open>A call returns an error number or does not return: the processor traps.\<close>

datatype op_ret = Ret int | Trap

section \<open>Operations\<close>

text \<open>The entry \<open>UpdateDentry\<close> builds.\<close>

definition dentry_of :: "MetaBase \<Rightarrow> u32 \<Rightarrow> HmdfsDentry" where
  "dentry_of base nameHash =
     \<lparr>de_hash = nameHash, de_mode = ucast (mb_mode base), de_namelen = word_of_nat (length (mb_name base)),
      de_size = mb_size base, de_mtime = mb_mtime base,
      de_recordId = snd (memcpy_s (replicate CLOUD_RECORD_ID_LEN NUL) (mb_cloudId base)),
      de_fileType = ucast (mb_fileType base)\<rparr>"

text \<open>
  \<open>UpdateDentry\<close> fills the entry at \<open>bitPos\<close>; \<open>None\<close> is its \<open>false\<close>, after which the block is
  not written.
\<close>

definition UpdateDentry ::
  "HmdfsDentry dentry_group \<Rightarrow> MetaBase \<Rightarrow> u32 \<Rightarrow> nat \<Rightarrow> HmdfsDentry dentry_group option" where
  "UpdateDentry d base nameHash bitPos =
     (let name = mb_name base;
          slots = GetDentrySlots 3 (length name)
      in if \<not> memcpy_s_ok (slots * 8) (length name) then None
         else if \<not> memcpy_s_ok CLOUD_RECORD_ID_LEN (length (mb_cloudId base)) then None
         else Some (place_dentry meta_layout d bitPos name (dentry_of base nameHash)))"

text \<open>\<open>namehash % GetBucketByLevel (level)\<close> is undefined when the bucket count is 0.\<close>

definition create_bucket :: "u32 \<Rightarrow> nat \<Rightarrow> nat option" where
  "create_bucket namehash level =
     (if GetBucketByLevel level = 0 then None
      else Some (BUCKET_BLOCKS * GetBucketaddr level (unat namehash mod GetBucketByLevel level) mod 2 ^ 32))"

definition DoCreate :: "io_env \<Rightarrow> MetaBase \<Rightarrow> meta_file \<Rightarrow> op_ret \<times> meta_file" where
  "DoCreate io base f =
     (if fd io < 0 then (Ret EINVAL, f)
      else let namehash = DentryHash (mb_name base) False;
               slots = GetDentrySlots 3 (length (mb_name base))
      in case alloc_scan (create_bucket namehash) meta_layout io slots 0 f of
           (AllocErr e, f1) \<Rightarrow> (Ret e, f1)
         | (AllocTrap, f1) \<Rightarrow> (Trap, f1)
         | (AllocAt bidx bitPos dentryBlk, f1) \<Rightarrow>
             (case UpdateDentry dentryBlk base namehash bitPos of
                None \<Rightarrow> (Ret EINVAL, f1)
              | Some dentryBlk' \<Rightarrow>
                  if write_ok io then (Ret E_OK, write_page f1 bidx dentryBlk') else (Ret EINVAL, f1)))"

definition FindDentry :: "io_env \<Rightarrow> string \<Rightarrow> meta_file \<Rightarrow> (nat \<times> HmdfsDentry dentry_group \<times> nat) option" where
  "FindDentry io name f =
     find_name meta_layout (\<lambda>_. True) io (GetMaxLevel (fstat_ok io) (st_size f)) name f"

definition DoRemove :: "io_env \<Rightarrow> MetaBase \<Rightarrow> meta_file \<Rightarrow> int \<times> meta_file" where
  "DoRemove io base f =
     (if fd io < 0 then (EINVAL, f)
      else case FindDentry io (mb_name base) f of
        None \<Rightarrow> (ENOENT, f)
      | Some (bidx, page, bitPos) \<Rightarrow>
          if write_ok io then (E_OK, write_page f bidx (free_dentry meta_layout page bitPos)) else (EIO, f))"

text \<open>\<open>DoLookup\<close> fills its in-out argument.\<close>

definition lookup_base :: "HmdfsDentry \<Rightarrow> MetaBase \<Rightarrow> MetaBase" where
  "lookup_base de base =
     base\<lparr>mb_size := de_size de, mb_mtime := de_mtime de, mb_mode := ucast (de_mode de),
          mb_fileType := ucast (de_fileType de), mb_cloudId := take (CLOUD_RECORD_ID_LEN - 1) (de_recordId de)\<rparr>"

definition DoLookup :: "io_env \<Rightarrow> MetaBase \<Rightarrow> meta_file \<Rightarrow> int \<times> MetaBase" where
  "DoLookup io base f =
     (if fd io < 0 then (EINVAL, base)
      else case FindDentry io (mb_name base) f of
        None \<Rightarrow> (ENOENT, base)
      | Some (bidx, page, bitPos) \<Rightarrow> (E_OK, lookup_base (nsl page ! bitPos) base))"

definition update_de :: "MetaBase \<Rightarrow> HmdfsDentry \<Rightarrow> HmdfsDentry" where
  "update_de base de =
     de\<lparr>de_mtime := mb_mtime base, de_size := mb_size base, de_mode := ucast (mb_mode base),
        de_fileType := ucast (mb_fileType base), de_recordId := snd (memcpy_s (de_recordId de) (mb_cloudId base))\<rparr>"

definition DoUpdate :: "io_env \<Rightarrow> MetaBase \<Rightarrow> meta_file \<Rightarrow> int \<times> meta_file" where
  "DoUpdate io base f =
     (if fd io < 0 then (EINVAL, f)
      else case FindDentry io (mb_name base) f of
        None \<Rightarrow> (ENOENT, f)
      | Some (bidx, page, bitPos) \<Rightarrow>
          if write_ok io
          then (E_OK, write_page f bidx (set_dentry page bitPos (update_de base (nsl page ! bitPos))))
          else (EIO, f))"

text \<open>
  \<open>DoRename\<close> with the system-call outcomes of its lookup, creation, removal and roll-back.
\<close>

definition DoRename ::
  "io_env \<Rightarrow> io_env \<Rightarrow> io_env \<Rightarrow> io_env \<Rightarrow> MetaBase \<Rightarrow> string \<Rightarrow> meta_file \<Rightarrow> op_ret \<times> meta_file" where
  "DoRename io1 io2 io3 io4 oldBase newName f =
     (case DoLookup io1 (MetaBase_named (mb_name oldBase)) f of (ret, base) \<Rightarrow>
      if ret \<noteq> 0 then (Ret ret, f)
      else case DoCreate io2 (base\<lparr>mb_name := newName\<rparr>) f of
        (Trap, f1) \<Rightarrow> (Trap, f1)
      | (Ret ret, f1) \<Rightarrow>
          if ret \<noteq> 0 then (Ret ret, f1)
          else (case DoRemove io3 oldBase f1 of (ret, f2) \<Rightarrow>
            if ret \<noteq> 0 then (Ret ret, snd (DoRemove io4 (base\<lparr>mb_name := newName\<rparr>) f2))
            else (Ret E_OK, f2)))"

text \<open>
  \<open>LoadChildren\<close> ignores the outcome of a read, so a block that cannot be read is decoded from
  the buffer as the previous iteration left it; the first buffer is uninitialised.
\<close>

definition child_base :: "string \<Rightarrow> HmdfsDentry \<Rightarrow> MetaBase" where
  "child_base name de =
     (MetaBase_named name)
       \<lparr>mb_mode := ucast (de_mode de), mb_mtime := de_mtime de, mb_size := de_size de,
        mb_fileType := ucast (de_fileType de), mb_cloudId := take CLOUD_RECORD_ID_LEN (de_recordId de)\<rparr>"

definition DecodeDentrys :: "HmdfsDentry dentry_group \<Rightarrow> MetaBase list" where
  "DecodeDentrys dentryGroup =
     map (\<lambda>i. child_base (name_at meta_layout dentryGroup i) (nsl dentryGroup ! i))
       (filter (\<lambda>i. let len = unat (de_namelen (nsl dentryGroup ! i))
                   in \<not> (\<not> TestBit i (bitmap dentryGroup) \<or> len = 0 \<or> len \<ge> PATH_MAX)) [0..<60])"

fun load_groups ::
  "(nat \<Rightarrow> HmdfsDentry dentry_group option) \<Rightarrow> HmdfsDentry dentry_group \<Rightarrow> nat list \<Rightarrow> MetaBase list" where
  "load_groups rd buf [] = []"
| "load_groups rd buf (i # is) =
     (let buf' = (case rd i of Some g \<Rightarrow> g | None \<Rightarrow> buf) in DecodeDentrys buf' @ load_groups rd buf' is)"

definition LoadChildren :: "io_env \<Rightarrow> HmdfsDentry dentry_group \<Rightarrow> MetaBase list \<Rightarrow> meta_file \<Rightarrow> int \<times> MetaBase list" where
  "LoadChildren io buf bases f =
     (if fd io < 0 then (EINVAL, bases)
      else if \<not> fstat_ok io then (EINVAL, bases)
      else (E_OK, bases @ load_groups (read_page io f) buf [0..<GetDentryGroupCnt (st_size f)]))"

section \<open>The directory invariant\<close>

definition meta_dir :: "meta_file \<Rightarrow> string \<Rightarrow> HmdfsDentry option" where
  "meta_dir f = dir_map meta_layout (\<lambda>_. True) f"

definition meta_inv :: "meta_file \<Rightarrow> bool" where
  "meta_inv f \<longleftrightarrow> wf_dir meta_layout f \<and> unique_names meta_layout (\<lambda>_. True) f"

definition valid_base :: "MetaBase \<Rightarrow> bool" where
  "valid_base base \<longleftrightarrow> mb_name base \<noteq> [] \<and> length (mb_name base) \<le> 480 \<and>
     length (mb_cloudId base) \<le> CLOUD_RECORD_ID_LEN"

lemma wf_meta_layout [simp]: "wf_layout meta_layout"
  by (simp add: wf_layout_def meta_layout_def)

lemma meta_layout_sel [simp]:
  "per_group meta_layout = 60" "slot_bits meta_layout = 3"
  "namelen_of meta_layout = de_namelen" "hash_of meta_layout = de_hash"
  by (simp_all add: meta_layout_def)

lemma create_bucket_fun: "bucket_fun (create_bucket h) h"
proof -
  have "create_bucket h l = Some b \<Longrightarrow> b = GetBidxFromLevel l h" for l b
    by (auto simp: create_bucket_def GetBidxFromLevel_def Let_def split: if_splits)
  moreover have "create_bucket h l \<noteq> None" if "l \<le> 30" for l
    using that by (simp add: create_bucket_def GetBucketByLevel_eq)
  ultimately show ?thesis by (auto simp: bucket_fun_def)
qed

lemma slots_valid: "0 < n \<Longrightarrow> n \<le> 480 \<Longrightarrow> 0 < GetDentrySlots 3 n \<and> GetDentrySlots 3 n \<le> 60 \<and> n \<le> GetDentrySlots 3 n * 8"
  using GetDentrySlots_cover [of n 3] GetDentrySlots_pos [of n 3] by (simp add: GetDentrySlots_eq)

lemma UpdateDentry_Some:
  "UpdateDentry d base h p = Some g \<Longrightarrow> mb_name base \<noteq> [] \<and>
   g = place_dentry meta_layout d p (mb_name base) (dentry_of base h)"
  by (auto simp: UpdateDentry_def Let_def memcpy_s_ok_def split: if_splits)

lemma UpdateDentry_valid:
  "valid_base base \<Longrightarrow>
   UpdateDentry d base h p = Some (place_dentry meta_layout d p (mb_name base) (dentry_of base h))"
  using slots_valid [of "length (mb_name base)"]
  by (auto simp: UpdateDentry_def Let_def memcpy_s_ok_def valid_base_def)

lemma FindDentry_meta_dir:
  assumes "meta_inv f" and "good_io io"
  shows "map_option (\<lambda>(idx, g, i). nsl g ! i) (FindDentry io name f) = meta_dir f name"
    and "FindDentry io name f = Some (idx, g, i) \<Longrightarrow>
      g = pages f idx \<and> entry_at meta_layout f idx i \<and> entry_name meta_layout f idx i = name"
proof -
  let ?F = "find_name meta_layout (\<lambda>_. True) io (levels f) name f"
  have F: "FindDentry io name f = ?F" using assms(2) by (simp add: FindDentry_def levels_def good_io_def)
  have wf: "wf_dir meta_layout f" and un: "unique_names meta_layout (\<lambda>_. True) f"
    using assms(1) by (auto simp: meta_inv_def)
  show "g = pages f idx \<and> entry_at meta_layout f idx i \<and> entry_name meta_layout f idx i = name"
    if "FindDentry io name f = Some (idx, g, i)"
    using find_name_sound [OF wf_meta_layout that [unfolded F]] by simp
  show "map_option (\<lambda>(idx, g, i). nsl g ! i) (FindDentry io name f) = meta_dir f name"
  proof (cases "meta_dir f name")
    case None
    then show ?thesis using find_name_absent [OF wf] by (simp add: F meta_dir_def)
  next
    case (Some d)
    from find_name_present [OF wf assms(2) un order_refl Some [unfolded meta_dir_def]]
    obtain idx i where "?F = Some (idx, pages f idx, i)" "dentry_at f idx i = d" by metis
    then show ?thesis using Some by (simp add: F)
  qed
qed

lemma FindDentry_None: "meta_inv f \<Longrightarrow> good_io io \<Longrightarrow> FindDentry io name f = None \<longleftrightarrow> meta_dir f name = None"
  using FindDentry_meta_dir(1) [of f io name] by (metis option.map_disc_iff)

lemma FindDentry_cases:
  assumes "meta_inv f" and "good_io io" and "meta_dir f name = Some de"
  obtains idx i where "FindDentry io name f = Some (idx, pages f idx, i)" "entry_at meta_layout f idx i"
    "entry_name meta_layout f idx i = name" "dentry_at f idx i = de"
proof -
  from FindDentry_None [OF assms(1,2)] assms(3) obtain idx g i where
    F: "FindDentry io name f = Some (idx, g, i)" by (cases "FindDentry io name f") auto
  with FindDentry_meta_dir(1) [OF assms(1,2), of name] FindDentry_meta_dir(2) [OF assms(1,2) F] assms(3)
  show thesis using that [of idx i] by auto
qed

section \<open>The operations on the directory\<close>

lemma dentry_of_sel [simp]:
  "de_namelen (dentry_of base h) = word_of_nat (length (mb_name base))" "de_hash (dentry_of base h) = h"
  by (simp_all add: dentry_of_def)

lemma DoCreate_law:
  assumes inv: "meta_inv f" and io: "good_io io" and lv: "levels f \<le> 18" and vb: "valid_base base"
    and none: "meta_dir f (mb_name base) = None"
  shows "\<exists>f'. DoCreate io base f = (Ret 0, f') \<and> meta_inv f' \<and>
    meta_dir f' = (meta_dir f)(mb_name base \<mapsto> dentry_of base (DentryHash (mb_name base) False)) \<and>
    levels f' \<le> levels f + 1"
proof -
  let ?n = "mb_name base" and ?h = "DentryHash (mb_name base) False"
  let ?s = "GetDentrySlots 3 (length (mb_name base))"
  have wf: "wf_dir meta_layout f" and un: "unique_names meta_layout (\<lambda>_. True) f"
    using inv by (auto simp: meta_inv_def)
  then have sz: "level_size (st_size f)" by (simp add: wf_dir_def)
  have n: "?n \<noteq> []" "length ?n \<le> 480" using vb by (auto simp: valid_base_def)
  have slots: "0 < ?s" "?s \<le> per_group meta_layout" using slots_valid [of "length ?n"] n by auto
  obtain idx p g f1 where al: "alloc_scan (create_bucket ?h) meta_layout io ?s 0 f = (AllocAt idx p g, f1)"
    and f1: "f1 = f \<or> f1 = truncate_file meta_layout f (GetDcacheFileSize (levels f))"
    using alloc_scan_succeeds [OF create_bucket_fun io wf lv slots] by blast
  have s1: "st_size f1 < 2 ^ 32" and l1: "levels f1 \<le> levels f + 1"
    using f1 levels_mono_truncate [OF sz lv, of meta_layout] level_size_less [OF sz] by auto
  let ?f = "write_page f1 idx (place_dentry meta_layout g p ?n (dentry_of base ?h))"
  have len: "length ?n < 2 ^ 16" using n by simp
  have al': "alloc_scan (create_bucket ?h) meta_layout io
      (GetDentrySlots (slot_bits meta_layout) (length ?n)) 0 f = (AllocAt idx p g, f1)" using al by simp
  have de: "namelen_of meta_layout (dentry_of base ?h) = word_of_nat (length ?n)"
    "hash_of meta_layout (dentry_of base ?h) = ?h" by simp_all
  note c = create_dir [OF create_bucket_fun wf al' s1 n(1) len de]
  have "idx < blocks f1" using alloc_scan_AllocAt [OF create_bucket_fun al] by simp
  then have "levels ?f = levels f1" by (simp add: levels_def blocks_write_page)
  moreover have "DoCreate io base f = (Ret 0, ?f)"
    using io al UpdateDentry_valid [OF vb] by (simp add: DoCreate_def Let_def good_io_def)
  ultimately show ?thesis using c(1) c(6) [of "\<lambda>_. True"] un none l1 by (auto simp: meta_inv_def meta_dir_def)
qed

lemma DoRemove_law:
  assumes inv: "meta_inv f" and io: "good_io io"
  shows "meta_inv (snd (DoRemove io base f)) \<and>
    meta_dir (snd (DoRemove io base f)) = (meta_dir f)(mb_name base := None) \<and>
    fst (DoRemove io base f) = (if meta_dir f (mb_name base) = None then ENOENT else E_OK)"
proof (cases "meta_dir f (mb_name base)")
  case None
  then have "DoRemove io base f = (2, f)"
    using FindDentry_None [OF inv io, of "mb_name base"] io by (simp add: DoRemove_def good_io_def)
  then show ?thesis using None inv by auto
next
  case (Some de)
  from FindDentry_cases [OF inv io Some] obtain idx i where
    F: "FindDentry io (mb_name base) f = Some (idx, pages f idx, i)"
    and e: "entry_at meta_layout f idx i" "entry_name meta_layout f idx i = mb_name base" by metis
  have "DoRemove io base f = (0, write_page f idx (free_dentry meta_layout (pages f idx) i))"
    using F io by (simp add: DoRemove_def good_io_def)
  then show ?thesis
    using remove_dir [of meta_layout f idx i "\<lambda>_. True"] e inv Some by (auto simp: meta_inv_def meta_dir_def)
qed

lemma DoUpdate_law:
  assumes inv: "meta_inv f" and io: "good_io io"
  shows "meta_dir f (mb_name base) = None \<Longrightarrow> DoUpdate io base f = (ENOENT, f)"
    and "meta_dir f (mb_name base) = Some de \<Longrightarrow> \<exists>f'. DoUpdate io base f = (E_OK, f') \<and> meta_inv f' \<and>
      meta_dir f' = (meta_dir f)(mb_name base \<mapsto> update_de base de)"
proof -
  show "meta_dir f (mb_name base) = None \<Longrightarrow> DoUpdate io base f = (ENOENT, f)"
    using FindDentry_None [OF inv io, of "mb_name base"] io by (simp add: DoUpdate_def good_io_def)
  assume Some: "meta_dir f (mb_name base) = Some de"
  from FindDentry_cases [OF inv io Some] obtain idx i where
    F: "FindDentry io (mb_name base) f = Some (idx, pages f idx, i)"
    and e: "entry_at meta_layout f idx i" "entry_name meta_layout f idx i = mb_name base" "dentry_at f idx i = de"
    by metis
  have "DoUpdate io base f = (0, write_page f idx (set_dentry (pages f idx) i (update_de base de)))"
    using F io e(3) by (simp add: DoUpdate_def good_io_def)
  moreover have "de_namelen (update_de base de) = de_namelen de" "de_hash (update_de base de) = de_hash de"
    by (simp_all add: update_de_def)
  ultimately show "\<exists>f'. DoUpdate io base f = (E_OK, f') \<and> meta_inv f' \<and>
      meta_dir f' = (meta_dir f)(mb_name base \<mapsto> update_de base de)"
    using set_dir [of meta_layout f idx i "\<lambda>_. True" "update_de base de"] e inv
    by (auto simp: meta_inv_def meta_dir_def)
qed

lemma DoLookup_law:
  assumes inv: "meta_inv f" and io: "good_io io"
  shows "DoLookup io base f = (case meta_dir f (mb_name base) of
    None \<Rightarrow> (ENOENT, base) | Some de \<Rightarrow> (E_OK, lookup_base de base))"
proof (cases "meta_dir f (mb_name base)")
  case None
  then show ?thesis using FindDentry_None [OF inv io, of "mb_name base"] io by (simp add: DoLookup_def good_io_def)
next
  case (Some de)
  from FindDentry_cases [OF inv io Some] obtain idx i where
    "FindDentry io (mb_name base) f = Some (idx, pages f idx, i)" "dentry_at f idx i = de" by metis
  then show ?thesis using Some io by (simp add: DoLookup_def good_io_def)
qed

interpretation meta_store: directory_store good_io meta_inv "\<lambda>f. levels f \<le> 18" meta_dir valid_base mb_name
  "\<lambda>base. dentry_of base (DentryHash (mb_name base) False)" update_de "Ret 0"
  "\<lambda>io name f. map_option (\<lambda>(idx, g, i). nsl g ! i) (FindDentry io name f)"
  DoCreate DoUpdate "\<lambda>io name. DoRemove io (MetaBase_named name)"
proof (unfold_locales, goal_cases)
  case (1 e s n)
  then show ?case by (rule FindDentry_meta_dir(1) [rotated])
next
  case (2 e s b)
  then show ?case using DoCreate_law [of s e b] by blast
next
  case (3 e s b a)
  then show ?case using DoUpdate_law(2) [of s e b a] by simp
next
  case (4 e s b)
  then show ?case using DoUpdate_law(1) [of s e b] by simp
next
  case (5 e s n)
  then show ?case using DoRemove_law [of s e "MetaBase_named n"]
    by (auto simp: MetaBase_named_def MetaBase_id_def intro!: exI [of _ "snd (DoRemove e (MetaBase_named n) s)"] prod_eqI)
next
  case (6 e s n)
  then show ?case using FindDentry_None [of s e n]
    by (simp add: DoRemove_def MetaBase_named_def MetaBase_id_def good_io_def)
qed

section \<open>Properties\<close>

lemma DoLookup_after:
  assumes "meta_inv f" "meta_inv f'" "good_io io" and "meta_dir f' = (meta_dir f)(n := x)"
  shows "DoLookup io q f' = (if mb_name q = n then
      (case x of None \<Rightarrow> (ENOENT, q) | Some de \<Rightarrow> (E_OK, lookup_base de q)) else DoLookup io q f)"
  using assms by (auto simp: DoLookup_law)

text \<open>
  C1: creating a valid name that is absent succeeds, keeps the invariant, extends the file by at
  most one level, and afterwards a lookup of that name returns the created entry while a lookup of
  every other name returns what it returned before.
\<close>

theorem meta_create_correct:
  assumes "meta_inv f" and "good_io io" and "levels f \<le> 18" and "valid_base base"
    and "fst (DoLookup io base f) = ENOENT"
  shows "\<exists>f'. DoCreate io base f = (Ret E_OK, f') \<and> meta_inv f' \<and> levels f' \<le> levels f + 1 \<and>
    (\<forall>io' q. good_io io' \<longrightarrow> DoLookup io' q f' =
       (if mb_name q = mb_name base
        then (E_OK, lookup_base (dentry_of base (DentryHash (mb_name base) False)) q) else DoLookup io' q f))"
proof -
  have "meta_dir f (mb_name base) = None"
    using assms(5) DoLookup_law [OF assms(1,2), of base] by (auto split: option.splits)
  from DoCreate_law [OF assms(1-4) this] obtain f' where
    f': "DoCreate io base f = (Ret 0, f')" "meta_inv f'" "levels f' \<le> levels f + 1"
      "meta_dir f' = (meta_dir f)(mb_name base \<mapsto> dentry_of base (DentryHash (mb_name base) False))" by blast
  have "DoLookup io' q f' = (if mb_name q = mb_name base
        then (E_OK, lookup_base (dentry_of base (DentryHash (mb_name base) False)) q) else DoLookup io' q f)"
    if "good_io io'" for io' q
    using DoLookup_after [OF assms(1) f'(2) that f'(4), of q] by simp
  with f'(1-3) show ?thesis by blast
qed

definition env_ok :: io_env where
  "env_ok = \<lparr>fd = 3, fstat_ok = True, ftruncate_ok = (\<lambda>_. True), read_ok = (\<lambda>_. True), write_ok = True\<rparr>"

definition empty_meta :: meta_file where
  "empty_meta = empty_file meta_layout"

definition base_ab :: MetaBase where
  "base_ab = (MetaBase_id ''ab'' (replicate 32 (CHR ''c'')))\<lparr>mb_size := 7\<rparr>"

lemma good_env_ok [simp]: "good_io env_ok"
  by (simp add: good_io_def env_ok_def)

lemma empty_meta_facts [simp]: "meta_inv empty_meta" "meta_dir empty_meta = Map.empty" "levels empty_meta = 0"
  by (simp_all add: meta_inv_def meta_dir_def empty_meta_def wf_empty_file dir_empty_file)
    (simp add: levels_def empty_file_def)

lemma base_ab_facts [simp]: "valid_base base_ab" "mb_name base_ab = ''ab''" "mb_cloudId base_ab = replicate 32 (CHR ''c'')"
  by (simp_all add: valid_base_def base_ab_def MetaBase_id_def)

theorem meta_create_correct_witness:
  "\<exists>f'. DoCreate env_ok base_ab empty_meta = (Ret E_OK, f') \<and> fst (DoLookup env_ok base_ab f') = E_OK"
proof -
  have "fst (DoLookup env_ok base_ab empty_meta) = ENOENT" by (simp add: DoLookup_law)
  then show ?thesis using meta_create_correct [of empty_meta env_ok base_ab] by auto
qed

text \<open>
  an entry created with a 32-byte cloud id is read back unchanged: size, modification time,
  the low 16 bits of the mode, the low two bits of the file type, and the id.
\<close>

theorem meta_roundtrip:
  assumes "meta_inv f" and "good_io io" and "good_io io'" and "levels f \<le> 18" and "valid_base base"
    and "meta_dir f (mb_name base) = None" and "length (mb_cloudId base) = 32"
  shows "DoLookup io' (MetaBase_named (mb_name base)) (snd (DoCreate io base f)) =
    (E_OK, (MetaBase_named (mb_name base))
       \<lparr>mb_size := mb_size base, mb_mtime := mb_mtime base, mb_mode := take_bit 16 (mb_mode base),
        mb_fileType := take_bit 2 (mb_fileType base), mb_cloudId := mb_cloudId base\<rparr>)"
proof -
  from DoCreate_law [OF assms(1,2,4-6)] obtain f' where
    f': "DoCreate io base f = (Ret 0, f')" "meta_inv f'"
      "meta_dir f' = (meta_dir f)(mb_name base \<mapsto> dentry_of base (DentryHash (mb_name base) False))" by blast
  have "ucast (ucast w :: 16 word) = take_bit 16 w" for w :: u32
    by (rule bit_word_eqI) (auto simp: bit_simps)
  moreover have "ucast (ucast w :: 2 word) = take_bit 2 w" for w :: u8
    by (rule bit_word_eqI) (auto simp: bit_simps)
  ultimately show ?thesis
    using f' assms(7) by (simp add: DoLookup_law [OF f'(2) assms(3)] lookup_base_def dentry_of_def memcpy_s_zero
        MetaBase_named_def MetaBase_id_def)
qed

theorem meta_roundtrip_witness:
  "mb_cloudId (snd (DoLookup env_ok (MetaBase_named ''ab'') (snd (DoCreate env_ok base_ab empty_meta)))) =
   replicate 32 (CHR ''c'')"
  using meta_roundtrip [of empty_meta env_ok env_ok base_ab] by simp

text \<open>
  C2: removing a name reports whether it was there, keeps the invariant, and changes the answer of
  a lookup for that name only.
\<close>

theorem meta_remove_correct:
  assumes "meta_inv f" and "good_io io"
  shows "case DoRemove io base f of (ret, f') \<Rightarrow>
    meta_inv f' \<and> ret = fst (DoLookup io base f) \<and>
    (\<forall>io' q. good_io io' \<longrightarrow> DoLookup io' q f' = (if mb_name q = mb_name base then (ENOENT, q) else DoLookup io' q f))"
proof (cases "DoRemove io base f")
  case (Pair ret f')
  from DoRemove_law [OF assms, of base] have f': "meta_inv f'" "meta_dir f' = (meta_dir f)(mb_name base := None)"
    "ret = (if meta_dir f (mb_name base) = None then ENOENT else E_OK)" by (simp_all add: Pair)
  have "DoLookup io' q f' = (if mb_name q = mb_name base then (ENOENT, q) else DoLookup io' q f)"
    if "good_io io'" for io' q
    using DoLookup_after [OF assms(1) f'(1) that f'(2), of q] by simp
  with f' Pair show ?thesis by (auto simp: DoLookup_law [OF assms] split: option.splits)
qed

theorem meta_remove_correct_witness:
  "case DoRemove env_ok base_ab empty_meta of (ret, f') \<Rightarrow> ret = ENOENT \<and> meta_inv f'"
  using meta_remove_correct [of empty_meta env_ok base_ab] by (auto simp: DoLookup_law)

lemma ucast_16: "ucast (ucast w :: 16 word) = take_bit 16 w" for w :: u32
  by (rule bit_word_eqI) (auto simp: bit_simps)

lemma ucast_2: "ucast (ucast w :: 2 word) = take_bit 2 w" for w :: u8
  by (rule bit_word_eqI) (auto simp: bit_simps)

lemma memcpy_s_over:
  "snd (memcpy_s dst src) = (if dst \<noteq> [] \<and> length src \<le> length dst then src @ drop (length src) dst else replicate (length dst) NUL)"
  by (simp add: memcpy_s_def memcpy_s_ok_def memcpy_at_def)

text \<open>
  C3: with calls that work, an update of a present name makes every later lookup of it return the
  new size, modification time, low 16 bits of the mode and low two bits of the file type, and as
  its id the first 32 bytes of the new id written over the old one (of zeros when the new id does
  not fit the field); lookups of other names answer as before. An update of an absent name
  changes nothing and reports ENOENT.
\<close>

theorem meta_update_correct:
  assumes "meta_inv f" and "good_io io"
  shows "case DoUpdate io base f of (ret, f') \<Rightarrow> meta_inv f' \<and>
    (case meta_dir f (mb_name base) of
       None \<Rightarrow> ret = ENOENT \<and> f' = f
     | Some de \<Rightarrow> ret = E_OK \<and> (\<forall>io' q. good_io io' \<longrightarrow> DoLookup io' q f' =
         (if mb_name q = mb_name base
          then (E_OK, q\<lparr>mb_size := mb_size base, mb_mtime := mb_mtime base, mb_mode := take_bit 16 (mb_mode base),
                 mb_fileType := take_bit 2 (mb_fileType base),
                 mb_cloudId := take 32 (if de_recordId de \<noteq> [] \<and> length (mb_cloudId base) \<le> length (de_recordId de)
                   then mb_cloudId base @ drop (length (mb_cloudId base)) (de_recordId de)
                   else replicate (length (de_recordId de)) NUL)\<rparr>)
          else DoLookup io' q f)))"
proof (cases "meta_dir f (mb_name base)")
  case None
  then show ?thesis using DoUpdate_law(1) [OF assms None] assms(1) by simp
next
  case (Some de)
  from DoUpdate_law(2) [OF assms Some] obtain f' where
    f': "DoUpdate io base f = (0, f')" "meta_inv f'" "meta_dir f' = (meta_dir f)(mb_name base \<mapsto> update_de base de)" by blast
  have "DoLookup io' q f' =
      (if mb_name q = mb_name base then (E_OK, lookup_base (update_de base de) q) else DoLookup io' q f)"
    if "good_io io'" for io' q
    using DoLookup_after [OF assms(1) f'(2) that f'(3), of q] by simp
  with f' Some show ?thesis
    by (simp add: lookup_base_def update_de_def ucast_16 ucast_2 memcpy_s_over)
qed

definition meta_ab :: meta_file where
  "meta_ab = snd (DoCreate env_ok base_ab empty_meta)"

lemma meta_ab_facts:
  "meta_inv meta_ab" "meta_dir meta_ab = [''ab'' \<mapsto> dentry_of base_ab (DentryHash ''ab'' False)]"
proof -
  from DoCreate_law [OF empty_meta_facts(1) good_env_ok _ base_ab_facts(1)] obtain f' where
    "DoCreate env_ok base_ab empty_meta = (Ret 0, f')" "meta_inv f'" "meta_dir f' = [''ab'' \<mapsto> dentry_of base_ab (DentryHash ''ab'' False)]"
    by auto
  then show "meta_inv meta_ab" "meta_dir meta_ab = [''ab'' \<mapsto> dentry_of base_ab (DentryHash ''ab'' False)]" by (simp_all add: meta_ab_def)
qed

theorem meta_update_correct_witness:
  "\<exists>f'. DoUpdate env_ok (base_ab\<lparr>mb_size := 9, mb_fileType := 2\<rparr>) meta_ab = (E_OK, f') \<and>
    mb_size (snd (DoLookup env_ok base_ab f')) = 9 \<and> mb_fileType (snd (DoLookup env_ok base_ab f')) = 2"
proof -
  obtain ret f' where u: "DoUpdate env_ok (base_ab\<lparr>mb_size := 9, mb_fileType := 2\<rparr>) meta_ab = (ret, f')" by fastforce
  have "meta_dir meta_ab (mb_name (base_ab\<lparr>mb_size := 9, mb_fileType := 2\<rparr>)) = Some (dentry_of base_ab (DentryHash ''ab'' False))"
    using meta_ab_facts(2) by simp
  then show ?thesis
    using meta_update_correct [OF meta_ab_facts(1) good_env_ok, of "base_ab\<lparr>mb_size := 9, mb_fileType := 2\<rparr>"] u
    by simp
qed

text \<open>The listing of a block, on a well-formed block.\<close>

lemma DecodeDentrys_heads:
  assumes "wf_group meta_layout g"
  shows "DecodeDentrys g = map (\<lambda>i. child_base (name_at meta_layout g i) (nsl g ! i))
    (filter (head meta_layout g) [0..<60])"
proof -
  have "unat (de_namelen (nsl g ! i)) < 4096" if "head meta_layout g i" for i
  proof -
    have "i + slots_at meta_layout (nsl g ! i) \<le> 60" using assms that by (auto simp: wf_group_def)
    moreover have "unat (de_namelen (nsl g ! i)) \<le> slots_at meta_layout (nsl g ! i) * 8"
      using slots_at_cover [of meta_layout "nsl g ! i"] by simp
    ultimately show ?thesis by simp
  qed
  then have "filter (\<lambda>i. let len = unat (de_namelen (nsl g ! i))
      in \<not> (\<not> TestBit i (bitmap g) \<or> len = 0 \<or> len \<ge> 4096)) [0..<60] = filter (head meta_layout g) [0..<60]"
    by (intro filter_cong) (auto simp: head_def Let_def unat_gt_0 not_le)
  then show ?thesis by (simp only: DecodeDentrys_def)
qed

lemma load_groups_good:
  assumes "good_io io" and "\<forall>i \<in> set is. i < blocks f"
  shows "load_groups (read_page io f) buf is = concat (map (\<lambda>i. DecodeDentrys (pages f i)) is)"
  using assms(2) by (induction "is" arbitrary: buf) (auto simp: read_page_good [OF assms(1)])

text \<open>The positions of the entries of a file, in block order; names are unique, so each entry is listed once.\<close>

lemma distinct_pairs: "distinct xs \<Longrightarrow> (\<And>x. distinct (g x)) \<Longrightarrow> distinct (concat (map (\<lambda>x. map (Pair x) (g x)) xs))"
  by (induction xs) (auto simp: distinct_map inj_on_def)

lemma map_of_single:
  assumes "distinct (map fst xs)" and "map_of xs = [k \<mapsto> v]"
  shows "xs = [(k, v)]"
proof (cases xs)
  case (Cons x ys)
  have at: "fst y = k \<and> snd y = v" if "y \<in> set xs" for y
  proof -
    have "map_of xs (fst y) = Some (snd y)" using that assms(1) by simp
    then show ?thesis using assms(2) by (simp split: if_splits)
  qed
  have "ys = []"
  proof (cases ys)
    case c: (Cons y zs)
    have "fst x = fst y" using at [of x] at [of y] Cons c by simp
    then show ?thesis using assms(1) Cons c by simp
  qed simp
  then show ?thesis using Cons at [of x] by (cases x) simp
qed (use assms(2) in \<open>auto dest: fun_cong [of _ _ k]\<close>)

lemma entry_list_distinct:
  assumes "unique_names L (\<lambda>_. True) f"
  shows "distinct (map fst (entry_list L f))"
proof -
  let ?P = "concat (map (\<lambda>idx. map (Pair idx) (filter (head L (pages f idx)) [0..<per_group L])) [0..<blocks f])"
  have names: "map fst (entry_list L f) = map (\<lambda>(idx, i). entry_name L f idx i) ?P"
    by (simp add: entry_list_def map_concat comp_def)
  have "distinct ?P"
    by (rule distinct_pairs) simp_all
  moreover have "inj_on (\<lambda>(idx, i). entry_name L f idx i) (set ?P)"
    using assms by (auto simp: unique_names_def inj_on_def entry_at_def)
  ultimately show ?thesis unfolding names by (simp add: distinct_map)
qed

text \<open>
  C5: with calls that work, listing a directory whose names are unique appends one record per
  entry, in block order and without repetition, and the entries are those of the directory. The
  record of an entry has its name, modification time, size, mode and file type and the first 33
  bytes of its stored record id, which is the whole field; everything else has its default.
\<close>

theorem meta_load_children:
  assumes "meta_inv f" and "good_io io"
  shows "LoadChildren io buf bases f =
    (E_OK, bases @ map (\<lambda>(name, de). \<lparr>mb_atime = 0, mb_mtime = de_mtime de, mb_size = de_size de, mb_mode = ucast (de_mode de),
       mb_position = 1, mb_fileType = ucast (de_fileType de), mb_noUpload = 0, mb_name = name,
       mb_cloudId = take 33 (de_recordId de), mb_nextOff = 0\<rparr>) (entry_list meta_layout f)) \<and>
    distinct (map fst (entry_list meta_layout f)) \<and> map_of (entry_list meta_layout f) = meta_dir f"
proof -
  have wf: "wf_dir meta_layout f" and u: "unique_names meta_layout (\<lambda>_. True) f" using assms(1) by (auto simp: meta_inv_def)
  have "DecodeDentrys (pages f i) = map (\<lambda>j. child_base (entry_name meta_layout f i j) (dentry_at f i j))
      (filter (head meta_layout (pages f i)) [0..<60])" if "i < blocks f" for i
    using that wf by (intro DecodeDentrys_heads) (auto simp: wf_dir_def)
  then have dec: "map (\<lambda>i. DecodeDentrys (pages f i)) [0..<blocks f] =
    map (\<lambda>i. map (\<lambda>j. child_base (entry_name meta_layout f i j) (dentry_at f i j))
      (filter (head meta_layout (pages f i)) [0..<60])) [0..<blocks f]" by simp
  have "load_groups (read_page io f) buf [0..<blocks f] =
    concat (map (\<lambda>i. DecodeDentrys (pages f i)) [0..<blocks f])"
    by (rule load_groups_good [OF assms(2)]) simp
  then have "LoadChildren io buf bases f = (E_OK, bases @ map (\<lambda>(name, de). child_base name de) (entry_list meta_layout f))"
    using assms(2) unfolding dec by (simp add: LoadChildren_def good_io_def entry_list_def map_concat comp_def)
  then show ?thesis using entry_list_distinct [OF u]
    by (simp add: child_base_def MetaBase_named_def MetaBase_id_def meta_dir_def dir_map_def comp_def)
qed

theorem meta_load_children_witness:
  "\<exists>b. LoadChildren env_ok (zero_group meta_layout) [] meta_ab = (E_OK, [b]) \<and> mb_name b = ''ab'' \<and> mb_size b = 7 \<and>
    take 32 (mb_cloudId b) = replicate 32 (CHR ''c'')"
proof -
  let ?d = "dentry_of base_ab (DentryHash ''ab'' False)"
  note c = meta_load_children [OF meta_ab_facts(1) good_env_ok, of "zero_group meta_layout" "[]"]
  have m: "map_of (entry_list meta_layout meta_ab) = [''ab'' \<mapsto> ?d]" and d: "distinct (map fst (entry_list meta_layout meta_ab))"
    using c meta_ab_facts(2) by auto
  have "entry_list meta_layout meta_ab = [(''ab'', ?d)]" by (rule map_of_single [OF d m])
  then show ?thesis using c by (simp add: dentry_of_def memcpy_s_over) (simp add: base_ab_def MetaBase_id_def)
qed

text \<open>
  whatever system call fails, a creation never loses an entry: the file stays well formed
  while it is below 4 GiB, all entries are still there, and the only one added is the requested
  one, and only when the call reports success.
\<close>

theorem meta_create_preserves:
  assumes "wf_dir meta_layout f" and "DoCreate io base f = (ret, f')" and "st_size f' < 2 ^ 32"
    and "length (mb_name base) < 2 ^ 16"
  shows "wf_dir meta_layout f' \<and> set (entry_list meta_layout f') =
    (if ret = Ret E_OK
     then insert (mb_name base, dentry_of base (DentryHash (mb_name base) False)) (set (entry_list meta_layout f))
     else set (entry_list meta_layout f))"
proof -
  let ?h = "DentryHash (mb_name base) False" and ?n = "mb_name base"
  let ?s = "GetDentrySlots (slot_bits meta_layout) (length (mb_name base))"
  obtain r f1 where al: "alloc_scan (create_bucket ?h) meta_layout io ?s 0 f = (r, f1)" by fastforce
  have same: ?thesis if "f' = f1" "ret \<noteq> Ret E_OK"
    using that alloc_scan_wf [OF create_bucket_fun assms(1) al] assms(3) alloc_scan_extends [OF create_bucket_fun al]
      extends_entry_set [OF wf_meta_layout, of f f1] by auto
  show ?thesis
  proof (cases "\<exists>idx p g g'. r = AllocAt idx p g \<and> UpdateDentry g base ?h p = Some g' \<and> write_ok io \<and> 0 \<le> fd io")
    case True
    then obtain idx p g g' where r: "r = AllocAt idx p g" and U: "UpdateDentry g base ?h p = Some g'"
      and "write_ok io" "0 \<le> fd io" by blast
    then have D: "ret = Ret E_OK" "f' = write_page f1 idx g'" using al assms(2) by (auto simp: DoCreate_def Let_def)
    have "idx < blocks f1" using alloc_scan_AllocAt [OF create_bucket_fun al [unfolded r]] by simp
    then have sz: "st_size f1 < 2 ^ 32" using D(2) assms(3) by (simp add: blocks_write_page)
    have de: "namelen_of meta_layout (dentry_of base ?h) = word_of_nat (length ?n)"
      "hash_of meta_layout (dentry_of base ?h) = ?h" by simp_all
    from UpdateDentry_Some [OF U] have n: "?n \<noteq> []"
      and g': "g' = place_dentry meta_layout g p ?n (dentry_of base ?h)" by auto
    note c = create_dir [OF create_bucket_fun assms(1) al [unfolded r] sz n assms(4) de]
    show ?thesis using c(1,5) D g' by simp
  next
    case False
    show ?thesis
    proof (cases "fd io < 0")
      case True
      then show ?thesis using assms(1,2) by (auto simp: DoCreate_def)
    next
      case nn: False
      then have "f' = f1 \<and> ret \<noteq> Ret E_OK"
        using False assms(2) al alloc_scan_err_nonzero [of "create_bucket ?h" meta_layout io ?s 0 f]
        by (auto simp: DoCreate_def Let_def split: alloc.splits option.splits if_splits)
      then show ?thesis using same by blast
    qed
  qed
qed

theorem meta_create_preserves_witness:
  "\<exists>f'. DoCreate env_ok base_ab empty_meta = (Ret E_OK, f') \<and>
    set (entry_list meta_layout f') = {(''ab'', dentry_of base_ab (DentryHash ''ab'' False))}"
proof -
  obtain f' where f': "DoCreate env_ok base_ab empty_meta = (Ret E_OK, f')" "meta_inv f'"
    using DoCreate_law [of empty_meta env_ok base_ab] by auto
  have "st_size f' < 2 ^ 32" using f'(2) by (intro level_size_less) (simp add: meta_inv_def wf_dir_def)
  moreover have "entry_list meta_layout empty_meta = []"
    by (simp add: entry_list_def empty_meta_def empty_file_def GetDentryGroupCnt_def)
  moreover have "wf_dir meta_layout empty_meta" using empty_meta_facts(1) by (simp add: meta_inv_def)
  ultimately show ?thesis using meta_create_preserves [of empty_meta env_ok base_ab "Ret E_OK" f'] f'(1) by simp
qed

text \<open>
  C6: a name of more than 480 bytes does not get an error: with working system calls the creation
  extends the file to more than two to the power of 31 blocks and then divides by a zero bucket count.
\<close>

theorem meta_create_oversized_traps:
  assumes "good_io io" and "480 < length (mb_name base)" and "length (mb_name base) < 2 ^ 31"
  shows "\<exists>f'. DoCreate io base f = (Trap, f') \<and> 2 ^ 31 \<le> blocks f'"
proof -
  let ?h = "DentryHash (mb_name base) False" and ?s = "GetDentrySlots 3 (length (mb_name base))"
  have "60 < ?s" using assms(2,3) by (simp add: GetDentrySlots_eq)
  moreover have "create_bucket ?h l \<noteq> None" if "l < 32" for l
    using that by (simp add: create_bucket_def GetBucketByLevel_eq)
  ultimately obtain f' where f': "alloc_scan (create_bucket ?h) meta_layout io ?s 0 f =
      alloc_scan (create_bucket ?h) meta_layout io ?s 32 f'" "\<And>k. k < 32 \<Longrightarrow> GetBidxFromLevel k ?h + 2 \<le> blocks f'"
    using alloc_scan_oversized [OF create_bucket_fun _ assms(1), of ?h meta_layout ?s 32 f] by auto
  have "alloc_scan (create_bucket ?h) meta_layout io ?s 32 f' = (AllocTrap, f')"
    by (simp add: alloc_scan.simps create_bucket_def GetBucketByLevel_high)
  moreover have "2 ^ 31 \<le> blocks f'"
    using f'(2) [of 30] GetBidxFromLevel_bounds(1) [of 30 ?h] by simp
  ultimately show ?thesis using f'(1) assms(1) by (simp add: DoCreate_def Let_def good_io_def)
qed

theorem meta_create_oversized_traps_witness:
  "fst (DoCreate env_ok (MetaBase_named (replicate 481 (CHR ''a''))) empty_meta) = Trap"
  using meta_create_oversized_traps [of env_ok "MetaBase_named (replicate 481 (CHR ''a''))" empty_meta]
  by (auto simp: MetaBase_named_def MetaBase_id_def)

text \<open>Rename is lookup, creation under the new name and removal of the old one.\<close>

definition renamed_de :: "string \<Rightarrow> HmdfsDentry \<Rightarrow> HmdfsDentry" where
  "renamed_de newName de =
     de\<lparr>de_hash := DentryHash newName False, de_namelen := word_of_nat (length newName),
        de_recordId := take 32 (de_recordId de) @ [NUL]\<rparr>"

lemma renamed_dentry:
  assumes "length (de_recordId de) = 33"
  shows "dentry_of ((lookup_base de base)\<lparr>mb_name := newName\<rparr>) (DentryHash newName False) = renamed_de newName de"
proof -
  have "(ucast (ucast w :: u32) :: u16) = w" for w :: u16 by (rule bit_word_eqI) (auto simp: bit_simps)
  moreover have "(ucast (ucast w :: u8) :: 2 word) = w" for w :: "2 word"
    by (rule bit_word_eqI) (auto simp: bit_simps)
  ultimately show ?thesis
    using assms by (simp add: dentry_of_def lookup_base_def renamed_de_def memcpy_s_zero)
qed

lemma DoRename_created:
  assumes inv: "meta_inv f" and io: "good_io io1" "good_io io2" and lv: "levels f \<le> 18"
    and old: "meta_dir f old = Some de" "length (de_recordId de) = 33"
    and new: "meta_dir f newName = None" "newName \<noteq> []" "length newName \<le> 480"
  defines "base \<equiv> lookup_base de (MetaBase_named old)"
  shows "DoLookup io1 (MetaBase_named old) f = (0, base)"
    and "\<exists>f1. DoCreate io2 (base\<lparr>mb_name := newName\<rparr>) f = (Ret 0, f1) \<and> meta_inv f1 \<and>
      meta_dir f1 = (meta_dir f)(newName \<mapsto> renamed_de newName de)"
proof -
  show "DoLookup io1 (MetaBase_named old) f = (0, base)"
    using old by (simp add: DoLookup_law [OF inv io(1)] MetaBase_named_def MetaBase_id_def base_def)
  have "valid_base (base\<lparr>mb_name := newName\<rparr>)" using new by (simp add: valid_base_def base_def lookup_base_def)
  from DoCreate_law [OF inv io(2) lv this] show "\<exists>f1. DoCreate io2 (base\<lparr>mb_name := newName\<rparr>) f = (Ret 0, f1) \<and>
      meta_inv f1 \<and> meta_dir f1 = (meta_dir f)(newName \<mapsto> renamed_de newName de)"
    using new by (auto simp: base_def renamed_dentry [OF old(2)])
qed

lemma FindDentry_write_irrelevant: "FindDentry (io\<lparr>write_ok := b\<rparr>) name f = FindDentry io name f"
  by (simp add: FindDentry_def find_entry_def read_page_def [abs_def])

text \<open>
  C4: renaming a present name to an absent valid one succeeds and moves the entry: the old name is
  gone, the new name has the old attributes with the first 32 bytes of the record id (the 33rd is
  cleared), and no other name changes.
\<close>

theorem meta_rename_correct:
  assumes "meta_inv f" and "good_io io1" "good_io io2" "good_io io3" and "levels f \<le> 18"
    and "meta_dir f (mb_name oldBase) = Some de" "length (de_recordId de) = 33"
    and "meta_dir f newName = None" "newName \<noteq> []" "length newName \<le> 480"
  shows "\<exists>f'. DoRename io1 io2 io3 io4 oldBase newName f = (Ret E_OK, f') \<and> meta_inv f' \<and>
    meta_dir f' = (meta_dir f)(mb_name oldBase := None, newName \<mapsto> renamed_de newName de)"
proof -
  note c = DoRename_created [OF assms(1-3,5-10)]
  from c(2) obtain f1 where f1: "DoCreate io2 ((lookup_base de (MetaBase_named (mb_name oldBase)))\<lparr>mb_name := newName\<rparr>) f = (Ret 0, f1)"
    "meta_inv f1" "meta_dir f1 = (meta_dir f)(newName \<mapsto> renamed_de newName de)" by blast
  have ne: "mb_name oldBase \<noteq> newName" using assms(6,8) by auto
  from DoRemove_law [OF f1(2) assms(4), of oldBase] obtain f2 where
    f2: "DoRemove io3 oldBase f1 = (0, f2)" "meta_inv f2" "meta_dir f2 = (meta_dir f1)(mb_name oldBase := None)"
    using f1(3) assms(6) ne by (cases "DoRemove io3 oldBase f1") auto
  have "DoRename io1 io2 io3 io4 oldBase newName f = (Ret E_OK, f2)"
    using c(1) f1(1) f2(1) by (simp add: DoRename_def)
  then show ?thesis using f2 f1(3) ne by (auto simp: fun_upd_twist)
qed

text \<open>
  when the removal of the old name cannot be written, the rename reports EIO and rolls the new
  name back: the directory is the one before the call.
\<close>

theorem meta_rename_rollback:
  assumes "meta_inv f" and "good_io io1" "good_io io2" "good_io (io3\<lparr>write_ok := True\<rparr>)" "\<not> write_ok io3" "good_io io4"
    and "levels f \<le> 18" and "meta_dir f (mb_name oldBase) = Some de" "length (de_recordId de) = 33"
    and "meta_dir f newName = None" "newName \<noteq> []" "length newName \<le> 480"
  shows "\<exists>f'. DoRename io1 io2 io3 io4 oldBase newName f = (Ret EIO, f') \<and> meta_inv f' \<and> meta_dir f' = meta_dir f"
proof -
  let ?b = "(lookup_base de (MetaBase_named (mb_name oldBase)))\<lparr>mb_name := newName\<rparr>"
  note c = DoRename_created [OF assms(1-3,7-12)]
  from c(2) obtain f1 where f1: "DoCreate io2 ?b f = (Ret 0, f1)"
    "meta_inv f1" "meta_dir f1 = (meta_dir f)(newName \<mapsto> renamed_de newName de)" by blast
  have ne: "mb_name oldBase \<noteq> newName" using assms(8,10) by auto
  then have "FindDentry (io3\<lparr>write_ok := True\<rparr>) (mb_name oldBase) f1 \<noteq> None"
    using FindDentry_None [OF f1(2) assms(4)] f1(3) assms(8) by simp
  then have rm: "DoRemove io3 oldBase f1 = (EIO, f1)"
    using assms(4,5) by (auto simp: FindDentry_write_irrelevant DoRemove_def good_io_def)
  from DoRemove_law [OF f1(2) assms(6), of ?b] f1(3) assms(10)
  have "meta_inv (snd (DoRemove io4 ?b f1)) \<and> meta_dir (snd (DoRemove io4 ?b f1)) = meta_dir f"
    by (simp add: fun_upd_idem)
  moreover have "DoRename io1 io2 io3 io4 oldBase newName f = (Ret EIO, snd (DoRemove io4 ?b f1))"
    using c(1) f1(1) rm by (simp add: DoRename_def)
  ultimately show ?thesis by blast
qed

lemma one_entry_file:
  obtains f where "meta_inv f" "levels f \<le> 18"
    "meta_dir f = [''ab'' \<mapsto> dentry_of base_ab (DentryHash ''ab'' False)]"
proof -
  from DoCreate_law [of empty_meta env_ok base_ab] obtain f where
    "meta_inv f" "levels f \<le> 1" "meta_dir f = [''ab'' \<mapsto> dentry_of base_ab (DentryHash ''ab'' False)]" by auto
  then show thesis using that [of f] by simp
qed

theorem meta_rename_correct_witness:
  "\<exists>f f'. DoRename env_ok env_ok env_ok env_ok base_ab ''new'' f = (Ret E_OK, f') \<and> meta_dir f ''ab'' \<noteq> None \<and>
    meta_dir f' ''ab'' = None \<and> meta_dir f' ''new'' \<noteq> None"
proof -
  obtain f where f: "meta_inv f" "levels f \<le> 18" "meta_dir f = [''ab'' \<mapsto> dentry_of base_ab (DentryHash ''ab'' False)]"
    by (rule one_entry_file)
  have len: "length (de_recordId (dentry_of base_ab (DentryHash ''ab'' False))) = 33"
    by (simp add: dentry_of_def)
  show ?thesis
    using meta_rename_correct [of f env_ok env_ok env_ok base_ab "dentry_of base_ab (DentryHash ''ab'' False)" "''new''" env_ok] f len
    by - (rule exI [of _ f], auto)
qed

theorem meta_rename_rollback_witness:
  "\<exists>f f'. DoRename env_ok env_ok (env_ok\<lparr>write_ok := False\<rparr>) env_ok base_ab ''new'' f = (Ret EIO, f') \<and>
    meta_dir f ''ab'' \<noteq> None \<and> meta_dir f' = meta_dir f"
proof -
  obtain f where f: "meta_inv f" "levels f \<le> 18" "meta_dir f = [''ab'' \<mapsto> dentry_of base_ab (DentryHash ''ab'' False)]"
    by (rule one_entry_file)
  have len: "length (de_recordId (dentry_of base_ab (DentryHash ''ab'' False))) = 33"
    by (simp add: dentry_of_def)
  have io: "good_io (env_ok\<lparr>write_ok := False, write_ok := True\<rparr>)" by (simp add: good_io_def env_ok_def)
  show ?thesis
    using meta_rename_rollback [of f env_ok env_ok "env_ok\<lparr>write_ok := False\<rparr>" env_ok base_ab
        "dentry_of base_ab (DentryHash ''ab'' False)" "''new''"] f len io
    by - (rule exI [of _ f], auto)
qed

end
