(* ===== verification/Cloud_Disk_Meta_File.thy ===== *)
theory Cloud_Disk_Meta_File
  imports Meta_File
begin

text \<open>
  \<open>CloudDiskMetaFile\<close> of \<open>utils/dentry/src/meta_file_clouddisk.cpp\<close>: the dentry file of one cloud
  disk directory. Its entries add an access time and a flag byte, a block holds 52 of them, and
  every block is read and written under a POSIX record lock. The locks a call holds are a set of
  block indices, so that the release of every lock is a property of the model.
\<close>

section \<open>Flags\<close>

definition SetFileType :: "u8 \<Rightarrow> u8 \<Rightarrow> u8" where
  "SetFileType flags fileType = (flags AND 0xF3) OR push_bit 2 fileType"

definition SetPosition :: "u8 \<Rightarrow> u8 \<Rightarrow> u8" where
  "SetPosition flags position = (flags AND 0xFC) OR position"

definition SetNoUpload :: "u8 \<Rightarrow> u8 \<Rightarrow> u8" where
  "SetNoUpload flags noUpload = (flags AND 0xEF) OR push_bit 4 noUpload"

definition GetNoUpload :: "u8 \<Rightarrow> u8" where
  "GetNoUpload flags = drop_bit 4 (flags AND 0x10)"

definition GetFileType :: "u8 \<Rightarrow> u8" where
  "GetFileType flags = drop_bit 2 (flags AND 0xC)"

definition GetPosition :: "u8 \<Rightarrow> u8" where
  "GetPosition flags = flags AND 0x3"

section \<open>Data\<close>

record CdDentry =
  cde_hash :: u32
  cde_mode :: u16
  cde_namelen :: u16
  cde_size :: u64
  cde_mtime :: u64
  cde_atime :: u64
  cde_recordId :: "char list"
  cde_flags :: u8

definition cd_layout :: "CdDentry layout" where
  "cd_layout = \<lparr>per_group = 52, slot_bits = 3, bitmap_len = 7, namelen_of = cde_namelen, hash_of = cde_hash,
     clear_namelen = (\<lambda>d. d\<lparr>cde_namelen := 0\<rparr>),
     zero_dentry = \<lparr>cde_hash = 0, cde_mode = 0, cde_namelen = 0, cde_size = 0, cde_mtime = 0, cde_atime = 0,
       cde_recordId = replicate CLOUD_RECORD_ID_LEN NUL, cde_flags = 0\<rparr>\<rparr>"

type_synonym cd_file = "CdDentry dentry_file"

text \<open>
  The outcomes of \<open>fcntl (F_SETLKW)\<close> join those of the other system calls; a failed one leaves
  the lock as it was and \<open>FilePosLock\<close> returns \<open>errno\<close>.
\<close>

record cd_env = io_env +
  lock_ok :: "nat \<Rightarrow> bool"
  unlock_ok :: "nat \<Rightarrow> bool"
  lock_errno :: int

type_synonym held = "nat set"

definition FilePosLock_wr :: "cd_env \<Rightarrow> held \<Rightarrow> nat \<Rightarrow> int \<times> held" where
  "FilePosLock_wr io held idx = (if lock_ok io idx then (0, insert idx held) else (lock_errno io, held))"

definition FilePosLock_un :: "cd_env \<Rightarrow> held \<Rightarrow> nat \<Rightarrow> int \<times> held" where
  "FilePosLock_un io held idx = (if unlock_ok io idx then (0, held - {idx}) else (lock_errno io, held))"

section \<open>Lookup\<close>

definition cd_FindDentryPage :: "cd_env \<Rightarrow> cd_file \<Rightarrow> held \<Rightarrow> nat \<Rightarrow> CdDentry dentry_group option \<times> held" where
  "cd_FindDentryPage io f held index =
     (case FilePosLock_wr io held index of (ret, held1) \<Rightarrow>
        if ret \<noteq> 0 then (None, held1)
        else case read_page (io_env.truncate io) f index of
          None \<Rightarrow> (None, snd (FilePosLock_un io held1 index))
        | Some dentryBlk \<Rightarrow> (Some dentryBlk, held1))"

definition cd_FindInBlock :: "CdDentry dentry_group \<Rightarrow> u32 \<Rightarrow> string \<Rightarrow> nat option" where
  "cd_FindInBlock dentryBlk namehash name =
     scan_block cd_layout (name_match cd_layout (\<lambda>_. True) namehash name dentryBlk) dentryBlk 0"

fun cd_find_pages ::
  "cd_env \<Rightarrow> cd_file \<Rightarrow> (CdDentry dentry_group \<Rightarrow> nat option) \<Rightarrow> held \<Rightarrow> nat list
    \<Rightarrow> (nat \<times> CdDentry dentry_group \<times> nat) option \<times> held" where
  "cd_find_pages io f fnd held [] = (None, held)"
| "cd_find_pages io f fnd held (bidx # rest) =
     (case cd_FindDentryPage io f held bidx of
        (None, held1) \<Rightarrow> (None, held1)
      | (Some dentryBlk, held1) \<Rightarrow>
          (case fnd dentryBlk of
             Some i \<Rightarrow> (Some (bidx, dentryBlk, i), held1)
           | None \<Rightarrow> cd_find_pages io f fnd (snd (FilePosLock_un io held1 bidx)) rest))"

definition cd_InLevel ::
  "cd_env \<Rightarrow> cd_file \<Rightarrow> u32 \<Rightarrow> string \<Rightarrow> held \<Rightarrow> nat \<Rightarrow> (nat \<times> CdDentry dentry_group \<times> nat) option \<times> held" where
  "cd_InLevel io f h name held level =
     cd_find_pages io f (\<lambda>g. cd_FindInBlock g h name) held (level_blocks level h)"

primrec cd_levels ::
  "cd_env \<Rightarrow> cd_file \<Rightarrow> u32 \<Rightarrow> string \<Rightarrow> held \<Rightarrow> nat \<Rightarrow> nat \<Rightarrow> (nat \<times> CdDentry dentry_group \<times> nat) option \<times> held" where
  "cd_levels io f h name held level 0 = (None, held)"
| "cd_levels io f h name held level (Suc n) =
     (case cd_InLevel io f h name held level of
        (Some r, held1) \<Rightarrow> (Some r, held1)
      | (None, held1) \<Rightarrow> cd_levels io f h name held1 (level + 1) n)"

definition cd_FindDentry :: "cd_env \<Rightarrow> string \<Rightarrow> cd_file \<Rightarrow> (nat \<times> CdDentry dentry_group \<times> nat) option \<times> held" where
  "cd_FindDentry io name f = cd_levels io f (DentryHash name False) name {} 0 MAX_BUCKET_LEVEL"

text \<open>\<open>DoLookup\<close> releases the lock of the found block before it copies the attributes.\<close>

definition cd_lookup_base :: "CdDentry \<Rightarrow> MetaBase \<Rightarrow> MetaBase" where
  "cd_lookup_base de base =
     base\<lparr>mb_size := cde_size de, mb_atime := cde_atime de, mb_mtime := cde_mtime de, mb_mode := ucast (cde_mode de),
          mb_position := GetPosition (cde_flags de), mb_fileType := GetFileType (cde_flags de),
          mb_noUpload := GetNoUpload (cde_flags de), mb_cloudId := take CLOUD_RECORD_ID_LEN (cde_recordId de)\<rparr>"

definition cd_DoLookup :: "cd_env \<Rightarrow> MetaBase \<Rightarrow> cd_file \<Rightarrow> int \<times> MetaBase \<times> held" where
  "cd_DoLookup io base f =
     (if fd io < 0 then (EINVAL, base, {})
      else case cd_FindDentry io (mb_name base) f of
        (None, held) \<Rightarrow> (ENOENT, base, held)
      | (Some (bidx, page, bitPos), held) \<Rightarrow>
          (E_OK, cd_lookup_base (nsl page ! bitPos) base, snd (FilePosLock_un io held bidx)))"

section \<open>Creation\<close>

definition cd_dentry_of :: "MetaBase \<Rightarrow> u32 \<Rightarrow> u8 \<Rightarrow> CdDentry" where
  "cd_dentry_of base nameHash flags =
     \<lparr>cde_hash = nameHash, cde_mode = ucast (mb_mode base), cde_namelen = word_of_nat (length (mb_name base)),
      cde_size = mb_size base, cde_mtime = mb_mtime base, cde_atime = mb_atime base,
      cde_recordId = snd (memcpy_s (replicate CLOUD_RECORD_ID_LEN NUL) (mb_cloudId base)),
      cde_flags = SetNoUpload (SetFileType (SetPosition flags (mb_position base)) (mb_fileType base)) (mb_noUpload base)\<rparr>"

definition cd_UpdateDentry ::
  "CdDentry dentry_group \<Rightarrow> MetaBase \<Rightarrow> u32 \<Rightarrow> nat \<Rightarrow> CdDentry dentry_group option" where
  "cd_UpdateDentry d base nameHash bitPos =
     (let name = mb_name base;
          slots = GetDentrySlots 3 (length name)
      in if \<not> memcpy_s_ok (slots * 8) (length name) then None
         else if \<not> memcpy_s_ok CLOUD_RECORD_ID_LEN (length (mb_cloudId base)) then None
         else Some (place_dentry cd_layout d bitPos name (cd_dentry_of base nameHash (cde_flags (nsl d ! bitPos)))))"

text \<open>The block loop and the level loop of \<open>GetCreateInfo\<close>.\<close>

fun cd_room_in_pages ::
  "cd_env \<Rightarrow> cd_file \<Rightarrow> nat \<Rightarrow> held \<Rightarrow> nat list \<Rightarrow> (int + (nat \<times> nat \<times> CdDentry dentry_group) option) \<times> held" where
  "cd_room_in_pages io f slots held [] = (Inr None, held)"
| "cd_room_in_pages io f slots held (bidx # rest) =
     (case FilePosLock_wr io held bidx of (ret, held1) \<Rightarrow>
        if ret \<noteq> 0 then (Inl ret, held1)
        else case read_page (io_env.truncate io) f bidx of
          None \<Rightarrow> (Inl ENOENT, snd (FilePosLock_un io held1 bidx))
        | Some dentryBlk \<Rightarrow>
            (let bitPos = RoomForFilename (bitmap dentryBlk) slots 52
             in if bitPos < 52 then (Inr (Some (bidx, bitPos, dentryBlk)), held1)
                else cd_room_in_pages io f slots (snd (FilePosLock_un io held1 bidx)) rest))"

function cd_GetCreateInfo ::
  "cd_env \<Rightarrow> u32 \<Rightarrow> nat \<Rightarrow> nat \<Rightarrow> held \<Rightarrow> cd_file \<Rightarrow> CdDentry alloc \<times> cd_file \<times> held" where
  "cd_GetCreateInfo io namehash slots level held f =
     (if level \<ge> MAX_BUCKET_LEVEL then (AllocErr ENOSPC, f, held)
      else let bidx = GetBidxFromLevel level namehash in
        case HandleFileByFd cd_layout (io_env.truncate io) (bidx + BUCKET_BLOCKS) level f of (ret, f1) \<Rightarrow>
          if ret \<noteq> E_OK then (AllocErr ret, f1, held)
          else (case cd_room_in_pages io f1 slots held [bidx..<bidx + BUCKET_BLOCKS] of
                  (Inl e, held1) \<Rightarrow> (AllocErr e, f1, held1)
                | (Inr (Some (idx, bitPos, g)), held1) \<Rightarrow> (AllocAt idx bitPos g, f1, held1)
                | (Inr None, held1) \<Rightarrow> cd_GetCreateInfo io namehash slots (level + 1) held1 f1))"
  by pat_completeness auto
termination
  by (relation "measure (\<lambda>(io, h, s, l, d, f). 63 - l)") auto

declare cd_GetCreateInfo.simps [simp del]

text \<open>
  \<open>GetCreateInfo\<close> computes the bucket without a division by zero, so the trap of the shared
  result type does not arise.
\<close>

definition cd_DoCreate :: "cd_env \<Rightarrow> MetaBase \<Rightarrow> cd_file \<Rightarrow> int \<times> cd_file \<times> held" where
  "cd_DoCreate io base f =
     (if fd io < 0 then (EINVAL, f, {})
      else let slots = GetDentrySlots 3 (length (mb_name base)) in
      if slots > 52 then (ENAMETOOLONG, f, {})
      else case cd_FindDentry io (mb_name base) f of
        (Some (bidx, page, bitPos), held) \<Rightarrow> (EEXIST, f, snd (FilePosLock_un io held bidx))
      | (None, held) \<Rightarrow>
          let namehash = DentryHash (mb_name base) False in
          (case cd_GetCreateInfo io namehash slots 0 held f of
             (AllocErr e, f1, held1) \<Rightarrow> (e, f1, held1)
           | (AllocTrap, f1, held1) \<Rightarrow> (EINVAL, f1, held1)
           | (AllocAt bidx bitPos dentryBlk, f1, held1) \<Rightarrow>
               (case cd_UpdateDentry dentryBlk base namehash bitPos of
                  None \<Rightarrow> (EINVAL, f1, snd (FilePosLock_un io held1 bidx))
                | Some dentryBlk1 \<Rightarrow>
                    if \<not> write_ok io then (EINVAL, f1, snd (FilePosLock_un io held1 bidx))
                    else (case FilePosLock_un io held1 bidx of (ret, held2) \<Rightarrow>
                            (ret, write_page f1 bidx dentryBlk1, held2)))))"

section \<open>Removal, update and rename\<close>

definition cd_DoRemove :: "cd_env \<Rightarrow> MetaBase \<Rightarrow> cd_file \<Rightarrow> int \<times> cd_file \<times> held" where
  "cd_DoRemove io base f =
     (if fd io < 0 then (EINVAL, f, {})
      else case cd_FindDentry io (mb_name base) f of
        (None, held) \<Rightarrow> (ENOENT, f, held)
      | (Some (bidx, page, bitPos), held) \<Rightarrow>
          if \<not> write_ok io then (EIO, f, snd (FilePosLock_un io held bidx))
          else (case FilePosLock_un io held bidx of (ret, held1) \<Rightarrow>
                  (ret, write_page f bidx (free_dentry cd_layout page bitPos), held1)))"

definition cd_update_de :: "MetaBase \<Rightarrow> CdDentry \<Rightarrow> CdDentry" where
  "cd_update_de base de =
     de\<lparr>cde_atime := mb_atime base, cde_mtime := mb_mtime base, cde_size := mb_size base, cde_mode := ucast (mb_mode base),
        cde_flags := SetNoUpload (SetFileType (SetPosition (cde_flags de) (mb_position base)) (mb_fileType base)) (mb_noUpload base),
        cde_recordId := snd (memcpy_s (cde_recordId de) (mb_cloudId base))\<rparr>"

definition cd_DoUpdate :: "cd_env \<Rightarrow> MetaBase \<Rightarrow> cd_file \<Rightarrow> int \<times> cd_file \<times> held" where
  "cd_DoUpdate io base f =
     (if fd io < 0 then (EINVAL, f, {})
      else case cd_FindDentry io (mb_name base) f of
        (None, held) \<Rightarrow> (ENOENT, f, held)
      | (Some (bidx, page, bitPos), held) \<Rightarrow>
          if \<not> write_ok io then (EIO, f, snd (FilePosLock_un io held bidx))
          else (case FilePosLock_un io held bidx of (ret, held1) \<Rightarrow>
                  (ret, write_page f bidx (set_dentry page bitPos (cd_update_de base (nsl page ! bitPos))), held1)))"

text \<open>
  \<open>DoRename\<close> works on this object and on \<open>newMetaFile\<close>, which is the same object when the parent
  does not change; the files are a store indexed by the directory's cloud id.
\<close>

type_synonym cd_store = "string \<Rightarrow> cd_file"

definition on_file :: "(cd_file \<Rightarrow> int \<times> cd_file \<times> held) \<Rightarrow> string \<Rightarrow> cd_store \<Rightarrow> int \<times> cd_store" where
  "on_file op dir st = (case op (st dir) of (ret, f, held) \<Rightarrow> (ret, st(dir := f)))"

definition cd_DoRename ::
  "cd_env \<Rightarrow> cd_env \<Rightarrow> cd_env \<Rightarrow> MetaBase \<Rightarrow> string \<Rightarrow> string \<Rightarrow> string \<Rightarrow> cd_store \<Rightarrow> int \<times> cd_store" where
  "cd_DoRename io1 io2 io3 metaBase newName this newMetaFile st =
     (case on_file (cd_DoCreate io1 (metaBase\<lparr>mb_name := newName\<rparr>)) newMetaFile st of (ret, st1) \<Rightarrow>
      if ret \<noteq> E_OK then (ret, st1)
      else (case on_file (cd_DoRemove io2 metaBase) this st1 of (ret, st2) \<Rightarrow>
        if ret \<noteq> E_OK
        then (ret, snd (on_file (cd_DoRemove io3 (metaBase\<lparr>mb_name := newName\<rparr>)) newMetaFile st2))
        else (E_OK, st2)))"

section \<open>Listing\<close>

definition cd_child_base :: "string \<Rightarrow> CdDentry \<Rightarrow> MetaBase" where
  "cd_child_base name de =
     (MetaBase_named name)
       \<lparr>mb_mode := ucast (cde_mode de), mb_mtime := cde_mtime de, mb_size := cde_size de,
        mb_position := GetPosition (cde_flags de), mb_fileType := GetFileType (cde_flags de),
        mb_cloudId := take CLOUD_RECORD_ID_LEN (cde_recordId de)\<rparr>"

definition cd_DecodeDentrys :: "CdDentry dentry_group \<Rightarrow> MetaBase list" where
  "cd_DecodeDentrys dentryGroup =
     map (\<lambda>i. cd_child_base (name_at cd_layout dentryGroup i) (nsl dentryGroup ! i))
       (filter (\<lambda>i. let len = unat (cde_namelen (nsl dentryGroup ! i))
                   in \<not> (\<not> TestBit i (bitmap dentryGroup) \<or> len = 0 \<or> len \<ge> PATH_MAX)) [0..<52])"

fun cd_load_groups ::
  "cd_env \<Rightarrow> cd_file \<Rightarrow> CdDentry dentry_group \<Rightarrow> MetaBase list \<Rightarrow> held \<Rightarrow> nat list \<Rightarrow> int \<times> MetaBase list \<times> held" where
  "cd_load_groups io f buf bases held [] = (E_OK, bases, held)"
| "cd_load_groups io f buf bases held (i # is) =
     (case FilePosLock_wr io held i of (ret, held1) \<Rightarrow>
        if ret \<noteq> 0 then (ret, bases, held1)
        else let buf1 = (case read_page (io_env.truncate io) f i of Some g \<Rightarrow> g | None \<Rightarrow> buf)
             in cd_load_groups io f buf1 (bases @ cd_DecodeDentrys buf1) (snd (FilePosLock_un io held1 i)) is)"

definition cd_LoadChildren ::
  "cd_env \<Rightarrow> CdDentry dentry_group \<Rightarrow> MetaBase list \<Rightarrow> cd_file \<Rightarrow> int \<times> MetaBase list \<times> held" where
  "cd_LoadChildren io buf bases f =
     (if fd io < 0 then (EINVAL, bases, {})
      else if \<not> fstat_ok io then (EINVAL, bases, {})
      else cd_load_groups io f buf bases {} [0..<GetDentryGroupCnt (st_size f)])"

section \<open>Combined operations\<close>

text \<open>The callback of the caller edits the looked-up attributes.\<close>

definition DoLookupAndCreate ::
  "cd_env \<Rightarrow> cd_env \<Rightarrow> string \<Rightarrow> (MetaBase \<Rightarrow> MetaBase) \<Rightarrow> cd_file \<Rightarrow> int \<times> cd_file" where
  "DoLookupAndCreate io1 io2 name metaFileCallBack f =
     (case cd_DoLookup io1 (MetaBase_named name) f of (ret, m, _) \<Rightarrow>
      if ret \<noteq> E_OK
      then (case cd_DoCreate io2 (metaFileCallBack m) f of (ret, f1, _) \<Rightarrow> (ret, f1))
      else (E_OK, f))"

definition DoLookupAndUpdate ::
  "cd_env \<Rightarrow> cd_env \<Rightarrow> string \<Rightarrow> (MetaBase \<Rightarrow> MetaBase) \<Rightarrow> cd_file \<Rightarrow> int \<times> cd_file" where
  "DoLookupAndUpdate io1 io2 name callback f =
     (case cd_DoLookup io1 (MetaBase_named name) f of (ret, m, _) \<Rightarrow>
      if ret \<noteq> E_OK
      then (case cd_DoCreate io2 (callback m) f of (ret, f1, _) \<Rightarrow> (ret, f1))
      else (case cd_DoUpdate io2 (callback m) f of (ret, f1, _) \<Rightarrow> (ret, f1)))"

definition DoChildUpdate ::
  "cd_env \<Rightarrow> cd_env \<Rightarrow> string \<Rightarrow> (MetaBase \<Rightarrow> MetaBase) \<Rightarrow> cd_file \<Rightarrow> int \<times> cd_file" where
  "DoChildUpdate io1 io2 name callback f =
     (case cd_DoLookup io1 (MetaBase_named name) f of (ret, m, _) \<Rightarrow>
      if ret \<noteq> E_OK then (ret, f)
      else (case cd_DoUpdate io2 (callback m) f of (ret, f1, _) \<Rightarrow> (ret, f1)))"

text \<open>\<open>DoLookupAndRemove\<close> also returns the in-out argument; a failed lookup is success.\<close>

definition DoLookupAndRemove :: "cd_env \<Rightarrow> cd_env \<Rightarrow> MetaBase \<Rightarrow> cd_file \<Rightarrow> int \<times> MetaBase \<times> cd_file" where
  "DoLookupAndRemove io1 io2 metaBase f =
     (case cd_DoLookup io1 metaBase f of (ret, m, _) \<Rightarrow>
      if ret = E_OK
      then (case cd_DoRemove io2 m f of (ret, f1, _) \<Rightarrow> (ret, m, f1))
      else (E_OK, m, f))"

section \<open>Locked searches refine the plain ones\<close>

text \<open>
  A block whose lock fails counts as unreadable. Unlocking is assumed to work; a lock can fail.
\<close>

definition plain_env :: "cd_env \<Rightarrow> io_env" where
  "plain_env io = (io_env.truncate io)\<lparr>read_ok := \<lambda>i. read_ok io i \<and> lock_ok io i\<rparr>"

definition env_sane :: "cd_env \<Rightarrow> bool" where
  "env_sane io \<longleftrightarrow> (\<forall>i. unlock_ok io i) \<and> lock_errno io \<noteq> 0"

definition good_cd :: "cd_env \<Rightarrow> bool" where
  "good_cd io \<longleftrightarrow> good_io (io_env.truncate io) \<and> (\<forall>i. lock_ok io i) \<and> env_sane io"

lemma env_truncate_sel [simp]:
  "fd (io_env.truncate io) = fd io" "fstat_ok (io_env.truncate io) = fstat_ok io"
  "ftruncate_ok (io_env.truncate io) = ftruncate_ok io" "read_ok (io_env.truncate io) = read_ok io"
  "write_ok (io_env.truncate io) = write_ok io"
  by (simp_all add: io_env.truncate_def)

lemma plain_env_sel [simp]:
  "fd (plain_env io) = fd io" "fstat_ok (plain_env io) = fstat_ok io"
  "ftruncate_ok (plain_env io) = ftruncate_ok io" "read_ok (plain_env io) i = (read_ok io i \<and> lock_ok io i)"
  "write_ok (plain_env io) = write_ok io"
  by (simp_all add: plain_env_def)

lemma good_cd_plain: "good_cd io \<Longrightarrow> good_io (plain_env io) \<and> env_sane io"
  by (auto simp: good_cd_def good_io_def)

lemma wf_cd_layout [simp]: "wf_layout cd_layout"
  by (simp add: wf_layout_def cd_layout_def)

lemma cd_layout_sel [simp]:
  "per_group cd_layout = 52" "slot_bits cd_layout = 3"
  "namelen_of cd_layout = cde_namelen" "hash_of cd_layout = cde_hash"
  by (simp_all add: cd_layout_def)

lemma unlock_sane [simp]: "env_sane io \<Longrightarrow> FilePosLock_un io held idx = (0, held - {idx})"
  by (simp add: FilePosLock_un_def env_sane_def)

lemma cd_FindDentryPage_refines:
  assumes "env_sane io"
  shows "cd_FindDentryPage io f {} idx =
    (case read_page (plain_env io) f idx of None \<Rightarrow> (None, {}) | Some g \<Rightarrow> (Some g, {idx}))"
  using assms by (auto simp: cd_FindDentryPage_def FilePosLock_wr_def read_page_def env_sane_def FilePosLock_un_def)

definition lock_of :: "(nat \<times> 'g \<times> nat) option \<Rightarrow> held" where
  "lock_of r = (case r of None \<Rightarrow> {} | Some (idx, g, i) \<Rightarrow> {idx})"

lemma cd_find_pages_refines:
  assumes "env_sane io"
  shows "cd_find_pages io f fnd {} idxs =
    (find_pages (read_page (plain_env io) f) fnd idxs, lock_of (find_pages (read_page (plain_env io) f) fnd idxs))"
  using assms by (induction idxs) (auto simp: cd_FindDentryPage_refines lock_of_def split: option.splits)

lemma cd_levels_refines:
  assumes "env_sane io"
  shows "cd_levels io f h name {} level n =
    (let r = first_level (\<lambda>l. find_pages (read_page (plain_env io) f) (\<lambda>g. cd_FindInBlock g h name) (level_blocks l h)) level n
     in (r, lock_of r))"
  using assms
  by (induction n arbitrary: level)
    (auto simp: cd_InLevel_def cd_find_pages_refines lock_of_def Let_def split: option.splits)

lemma cd_FindDentry_refines:
  assumes "env_sane io"
  shows "cd_FindDentry io name f =
    (let r = find_name cd_layout (\<lambda>_. True) (plain_env io) 63 name f in (r, lock_of r))"
  using assms by (simp add: cd_FindDentry_def cd_levels_refines find_entry_def cd_FindInBlock_def [abs_def])

text \<open>The walk of a creation, up to the error number of a failed lock.\<close>

definition room_rel ::
  "(int + (nat \<times> nat \<times> CdDentry dentry_group) option) \<Rightarrow> (int + (nat \<times> nat \<times> CdDentry dentry_group) option) \<times> held \<Rightarrow> bool" where
  "room_rel r q \<longleftrightarrow> (case r of
     Inl _ \<Rightarrow> (\<exists>e. e \<noteq> 0 \<and> q = (Inl e, {})) | Inr None \<Rightarrow> q = (Inr None, {})
   | Inr (Some (idx, p, g)) \<Rightarrow> q = (Inr (Some (idx, p, g)), {idx}))"

lemma cd_room_refines:
  assumes "env_sane io"
  shows "room_rel (room_in_pages cd_layout (read_page (plain_env io) f) slots idxs) (cd_room_in_pages io f slots {} idxs)"
proof (induction idxs)
  case (Cons idx idxs)
  show ?case
  proof (cases "lock_ok io idx")
    case False
    with assms show ?thesis by (simp add: room_rel_def FilePosLock_wr_def env_sane_def read_page_def)
  next
    case True
    then have rd: "read_page (plain_env io) f idx = read_page (io_env.truncate io) f idx" by (simp add: read_page_def)
    show ?thesis
    proof (cases "read_page (io_env.truncate io) f idx")
      case None
      with True rd assms show ?thesis by (simp add: room_rel_def FilePosLock_wr_def)
    next
      case (Some g)
      show ?thesis
      proof (cases "RoomForFilename (bitmap g) slots 52 < 52")
        case room: True
        with True rd Some show ?thesis by (simp add: room_rel_def FilePosLock_wr_def)
      next
        case False
        with True rd Some assms Cons show ?thesis by (simp add: FilePosLock_wr_def)
      qed
    qed
  qed
qed (simp add: room_rel_def)

definition alloc_rel :: "CdDentry alloc \<times> cd_file \<Rightarrow> CdDentry alloc \<times> cd_file \<times> held \<Rightarrow> bool" where
  "alloc_rel r q \<longleftrightarrow> (case r of
     (AllocAt idx p g, f) \<Rightarrow> q = (AllocAt idx p g, f, {idx})
   | (AllocErr _, f) \<Rightarrow> (\<exists>e. e \<noteq> 0 \<and> q = (AllocErr e, f, {})) | (AllocTrap, f) \<Rightarrow> False)"

lemma HandleFileByFd_plain: "HandleFileByFd L (plain_env io) = HandleFileByFd L (io_env.truncate io)"
  by (intro ext) (simp add: HandleFileByFd_def)

lemma cd_GetCreateInfo_refines:
  assumes sane: "env_sane io"
  shows "alloc_rel (alloc_scan (\<lambda>l. Some (GetBidxFromLevel l h)) cd_layout (plain_env io) slots level f)
    (cd_GetCreateInfo io h slots level {} f)"
proof (induction "63 - level" arbitrary: level f rule: less_induct)
  case less
  let ?b = "GetBidxFromLevel level h"
  show ?case
  proof (cases "level < 63")
    case False
    then show ?thesis by (simp add: alloc_rel_def alloc_scan.simps cd_GetCreateInfo.simps)
  next
    case True
    obtain ret f1 where H: "HandleFileByFd cd_layout (io_env.truncate io) (?b + 2) level f = (ret, f1)" by fastforce
    let ?r = "room_in_pages cd_layout (read_page (plain_env io) f1) slots [?b..<?b + 2]"
    let ?q = "cd_room_in_pages io f1 slots {} [?b..<?b + 2]"
    let ?A = "\<lambda>l f. alloc_scan (\<lambda>l. Some (GetBidxFromLevel l h)) cd_layout (plain_env io) slots l f"
    let ?G = "\<lambda>l f. cd_GetCreateInfo io h slots l {} f"
    have A: "?A level f = (if ret \<noteq> 0 then (AllocErr ret, f1) else (case ?r of
         Inl e \<Rightarrow> (AllocErr e, f1) | Inr (Some (idx, bitPos, g)) \<Rightarrow> (AllocAt idx bitPos g, f1)
       | Inr None \<Rightarrow> ?A (level + 1) f1))"
      using True by (subst alloc_scan.simps) (simp only: HandleFileByFd_plain H option.case prod.case, simp)
    have G: "?G level f = (if ret \<noteq> 0 then (AllocErr ret, f1, {}) else (case ?q of
         (Inl e, held) \<Rightarrow> (AllocErr e, f1, held) | (Inr (Some (idx, bitPos, g)), held) \<Rightarrow> (AllocAt idx bitPos g, f1, held)
       | (Inr None, held) \<Rightarrow> cd_GetCreateInfo io h slots (level + 1) held f1))"
      using True by (subst cd_GetCreateInfo.simps) (simp only: Let_def H prod.case, simp)
    have rel: "room_rel ?r ?q" by (rule cd_room_refines [OF sane])
    have ih: "alloc_rel (?A (level + 1) f1) (?G (level + 1) f1)" using less.hyps [of "level + 1"] True by simp
    obtain r q where rq: "?r = r" "?q = q" by blast
    show ?thesis
    proof (cases "r = Inr None \<and> ret = 0")
      case True
      then show ?thesis using rel [unfolded rq] ih unfolding A G rq by (simp add: room_rel_def)
    next
      case False
      then show ?thesis using rel [unfolded rq] unfolding A G rq
        by (cases r) (auto simp: room_rel_def alloc_rel_def split: option.splits)
    qed
  qed
qed

section \<open>The directory invariant\<close>

definition cd_dir :: "cd_file \<Rightarrow> string \<Rightarrow> CdDentry option" where
  "cd_dir f = dir_map cd_layout (\<lambda>_. True) f"

definition cd_inv :: "cd_file \<Rightarrow> bool" where
  "cd_inv f \<longleftrightarrow> wf_dir cd_layout f \<and> unique_names cd_layout (\<lambda>_. True) f"

definition cd_valid :: "MetaBase \<Rightarrow> bool" where
  "cd_valid base \<longleftrightarrow> mb_name base \<noteq> [] \<and> length (mb_name base) \<le> 416 \<and>
     length (mb_cloudId base) \<le> CLOUD_RECORD_ID_LEN"

text \<open>What a caller can observe of an entry: the flag bits no operation reads are left out.\<close>

definition cd_view :: "CdDentry \<Rightarrow> CdDentry" where
  "cd_view de = de\<lparr>cde_flags := cde_flags de AND 0x1F\<rparr>"

lemma GetBidx_fun: "bucket_fun (\<lambda>l. Some (GetBidxFromLevel l h)) h"
  by (simp add: bucket_fun_def)

lemma cd_slots_valid:
  "0 < n \<Longrightarrow> n \<le> 416 \<Longrightarrow> 0 < GetDentrySlots 3 n \<and> GetDentrySlots 3 n \<le> 52 \<and> n \<le> GetDentrySlots 3 n * 8"
  using GetDentrySlots_cover [of n 3] GetDentrySlots_pos [of n 3] by (simp add: GetDentrySlots_eq)

lemma cd_find_None:
  assumes "cd_inv f" and "good_cd io"
  shows "fst (cd_FindDentry io name f) = None \<longleftrightarrow> cd_dir f name = None"
proof -
  have wf: "wf_dir cd_layout f" and un: "unique_names cd_layout (\<lambda>_. True) f"
    using assms(1) by (auto simp: cd_inv_def)
  have io: "good_io (plain_env io)" "env_sane io" using good_cd_plain [OF assms(2)] by auto
  have lv: "levels f \<le> 63" using wf blocks_levels(2) [of f] by (auto simp: wf_dir_def)
  show ?thesis
  proof (cases "cd_dir f name")
    case None
    then show ?thesis using find_name_absent [OF wf] io by (simp add: cd_FindDentry_refines Let_def cd_dir_def)
  next
    case (Some d)
    from find_name_present [OF wf io(1) un lv Some [unfolded cd_dir_def]]
    have "find_name cd_layout (\<lambda>_. True) (plain_env io) 63 name f \<noteq> None" by (metis option.distinct(1))
    then show ?thesis using Some io by (simp add: cd_FindDentry_refines Let_def)
  qed
qed

lemma cd_find_Some:
  assumes "cd_inv f" and "good_cd io" and "cd_dir f name = Some de"
  obtains idx i where "cd_FindDentry io name f = (Some (idx, pages f idx, i), {idx})" "entry_at cd_layout f idx i"
    "entry_name cd_layout f idx i = name" "dentry_at f idx i = de"
proof -
  have wf: "wf_dir cd_layout f" and un: "unique_names cd_layout (\<lambda>_. True) f"
    using assms(1) by (auto simp: cd_inv_def)
  have io: "good_io (plain_env io)" "env_sane io" using good_cd_plain [OF assms(2)] by auto
  have lv: "levels f \<le> 63" using wf blocks_levels(2) [of f] by (auto simp: wf_dir_def)
  show thesis
    by (rule find_name_present [OF wf io(1) un lv assms(3) [unfolded cd_dir_def]])
      (use that io in \<open>simp add: cd_FindDentry_refines Let_def lock_of_def\<close>)
qed

lemma cd_find_absent:
  assumes "cd_inv f" and "good_cd io" and "cd_dir f name = None"
  shows "cd_FindDentry io name f = (None, {})"
  using cd_find_None [OF assms(1,2), of name] assms(3) good_cd_plain [OF assms(2)]
  by (simp add: cd_FindDentry_refines Let_def lock_of_def)

lemma cd_fd: "good_cd io \<Longrightarrow> 0 \<le> fd io \<and> write_ok io \<and> fstat_ok io"
  by (auto simp: good_cd_def good_io_def)

lemma cd_DoLookup_law:
  assumes "cd_inv f" and "good_cd io"
  shows "cd_DoLookup io base f = (case cd_dir f (mb_name base) of
    None \<Rightarrow> (ENOENT, base, {}) | Some de \<Rightarrow> (E_OK, cd_lookup_base de base, {}))"
proof (cases "cd_dir f (mb_name base)")
  case None
  then show ?thesis using cd_find_absent [OF assms] cd_fd [OF assms(2)] by (simp add: cd_DoLookup_def)
next
  case (Some de)
  from cd_find_Some [OF assms Some] obtain idx i where
    F: "cd_FindDentry io (mb_name base) f = (Some (idx, pages f idx, i), {idx})" "dentry_at f idx i = de" by metis
  show ?thesis using F Some cd_fd [OF assms(2)] good_cd_plain [OF assms(2)] by (simp add: cd_DoLookup_def)
qed

lemma cd_DoRemove_law:
  assumes inv: "cd_inv f" and io: "good_cd io"
  shows "\<exists>f'. cd_DoRemove io base f = (if cd_dir f (mb_name base) = None then ENOENT else E_OK, f', {}) \<and>
    cd_inv f' \<and> cd_dir f' = (cd_dir f)(mb_name base := None) \<and> levels f' = levels f"
proof (cases "cd_dir f (mb_name base)")
  case None
  then have "cd_DoRemove io base f = (ENOENT, f, {})"
    using cd_find_absent [OF inv io] cd_fd [OF io] by (simp add: cd_DoRemove_def)
  then show ?thesis using None inv by auto
next
  case (Some de)
  from cd_find_Some [OF inv io Some] obtain idx i where
    F: "cd_FindDentry io (mb_name base) f = (Some (idx, pages f idx, i), {idx})"
    and e: "entry_at cd_layout f idx i" "entry_name cd_layout f idx i = mb_name base" by metis
  have "cd_DoRemove io base f = (0, write_page f idx (free_dentry cd_layout (pages f idx) i), {})"
    using F cd_fd [OF io] good_cd_plain [OF io] by (simp add: cd_DoRemove_def)
  moreover have "levels (write_page f idx (free_dentry cd_layout (pages f idx) i)) = levels f"
    using e(1) by (simp add: levels_def blocks_write_page entry_at_def)
  ultimately show ?thesis
    using remove_dir [of cd_layout f idx i "\<lambda>_. True"] e inv Some by (auto simp: cd_inv_def cd_dir_def)
qed

lemma cd_DoUpdate_law:
  assumes inv: "cd_inv f" and io: "good_cd io"
  shows "cd_dir f (mb_name base) = None \<Longrightarrow> cd_DoUpdate io base f = (ENOENT, f, {})"
    and "cd_dir f (mb_name base) = Some de \<Longrightarrow> \<exists>f'. cd_DoUpdate io base f = (E_OK, f', {}) \<and> cd_inv f' \<and>
      cd_dir f' = (cd_dir f)(mb_name base \<mapsto> cd_update_de base de)"
proof -
  show "cd_dir f (mb_name base) = None \<Longrightarrow> cd_DoUpdate io base f = (ENOENT, f, {})"
    using cd_find_absent [OF inv io] cd_fd [OF io] by (simp add: cd_DoUpdate_def)
  assume Some: "cd_dir f (mb_name base) = Some de"
  from cd_find_Some [OF inv io Some] obtain idx i where
    F: "cd_FindDentry io (mb_name base) f = (Some (idx, pages f idx, i), {idx})"
    and e: "entry_at cd_layout f idx i" "entry_name cd_layout f idx i = mb_name base" "dentry_at f idx i = de" by metis
  have "cd_DoUpdate io base f = (0, write_page f idx (set_dentry (pages f idx) i (cd_update_de base de)), {})"
    using F e(3) cd_fd [OF io] good_cd_plain [OF io] by (simp add: cd_DoUpdate_def)
  moreover have "cde_namelen (cd_update_de base de) = cde_namelen de" "cde_hash (cd_update_de base de) = cde_hash de"
    by (simp_all add: cd_update_de_def)
  ultimately show "\<exists>f'. cd_DoUpdate io base f = (E_OK, f', {}) \<and> cd_inv f' \<and>
      cd_dir f' = (cd_dir f)(mb_name base \<mapsto> cd_update_de base de)"
    using set_dir [of cd_layout f idx i "\<lambda>_. True" "cd_update_de base de"] e inv
    by (auto simp: cd_inv_def cd_dir_def)
qed

lemma u8_eqI:
  assumes "\<And>n. n < 8 \<Longrightarrow> bit (v :: u8) n = bit w n"
  shows "v = w"
proof (rule bit_word_eqI)
  fix n assume "n < LENGTH(8)"
  then show "bit v n = bit w n" using assms [of n] by simp
qed

lemma nat_less_5: "(n::nat) < 5 \<Longrightarrow> n = 0 \<or> n = Suc 0 \<or> n = 2 \<or> n = 3 \<or> n = 4"
  by presburger

lemma flag_bits:
  "bit (SetNoUpload (SetFileType (SetPosition fl p) t) u) 0 = bit p 0"
  "bit (SetNoUpload (SetFileType (SetPosition fl p) t) u) (Suc 0) = bit p (Suc 0)"
  "bit (SetNoUpload (SetFileType (SetPosition fl p) t) u) 2 = bit t 0"
  "bit (SetNoUpload (SetFileType (SetPosition fl p) t) u) 3 = bit t (Suc 0)"
  "bit (SetNoUpload (SetFileType (SetPosition fl p) t) u) 4 = bit u 0"
  by (simp_all add: SetNoUpload_def SetFileType_def SetPosition_def bit_simps)

lemma mask5_eqI:
  assumes "\<And>n. n < 5 \<Longrightarrow> bit (v :: u8) n = bit w n"
  shows "v AND 0x1F = w AND 0x1F"
proof -
  have m: "(0x1F :: u8) = mask 5" by (simp add: mask_eq_exp_minus_1)
  show ?thesis unfolding m by (rule u8_eqI) (use assms in \<open>auto simp: bit_and_iff bit_mask_iff\<close>)
qed

lemma flags_low:
  "SetNoUpload (SetFileType (SetPosition fl p) t) u AND 0x1F = SetNoUpload (SetFileType (SetPosition fl' p) t) u AND 0x1F"
  by (rule mask5_eqI) (auto dest!: nat_less_5 simp: flag_bits)

lemma cd_dentry_of_sel [simp]:
  "cde_namelen (cd_dentry_of base h fl) = word_of_nat (length (mb_name base))" "cde_hash (cd_dentry_of base h fl) = h"
  by (simp_all add: cd_dentry_of_def)

lemma cd_UpdateDentry_valid:
  "cd_valid base \<Longrightarrow> cd_UpdateDentry d base h p =
   Some (place_dentry cd_layout d p (mb_name base) (cd_dentry_of base h (cde_flags (nsl d ! p))))"
  using cd_slots_valid [of "length (mb_name base)"]
  by (auto simp: cd_UpdateDentry_def Let_def memcpy_s_ok_def cd_valid_def)

lemma cd_DoCreate_exists:
  assumes "cd_inv f" and "good_cd io" and "cd_valid base" and "cd_dir f (mb_name base) = Some de"
  shows "cd_DoCreate io base f = (EEXIST, f, {})"
proof -
  from cd_find_Some [OF assms(1,2,4)] obtain idx i where
    "cd_FindDentry io (mb_name base) f = (Some (idx, pages f idx, i), {idx})" by metis
  then show ?thesis
    using cd_fd [OF assms(2)] good_cd_plain [OF assms(2)] cd_slots_valid [of "length (mb_name base)"] assms(3)
    by (simp add: cd_DoCreate_def Let_def cd_valid_def)
qed

lemma cd_DoCreate_law:
  assumes inv: "cd_inv f" and io: "good_cd io" and lv: "levels f \<le> 18" and vb: "cd_valid base"
    and none: "cd_dir f (mb_name base) = None"
  shows "\<exists>f' fl. cd_DoCreate io base f = (0, f', {}) \<and> cd_inv f' \<and> levels f' \<le> levels f + 1 \<and>
    cd_dir f' = (cd_dir f)(mb_name base \<mapsto> cd_dentry_of base (DentryHash (mb_name base) False) fl)"
proof -
  let ?n = "mb_name base" and ?h = "DentryHash (mb_name base) False"
  let ?s = "GetDentrySlots (slot_bits cd_layout) (length (mb_name base))"
  let ?bx = "\<lambda>l. Some (GetBidxFromLevel l ?h)"
  have wf: "wf_dir cd_layout f" and un: "unique_names cd_layout (\<lambda>_. True) f"
    using inv by (auto simp: cd_inv_def)
  then have sz: "level_size (st_size f)" by (simp add: wf_dir_def)
  have pio: "good_io (plain_env io)" "env_sane io" using good_cd_plain [OF io] by auto
  have n: "?n \<noteq> []" "length ?n \<le> 416" using vb by (auto simp: cd_valid_def)
  have slots: "0 < ?s" "?s \<le> per_group cd_layout" using cd_slots_valid [of "length ?n"] n by auto
  obtain idx p g f1 where al: "alloc_scan ?bx cd_layout (plain_env io) ?s 0 f = (AllocAt idx p g, f1)"
    and f1: "f1 = f \<or> f1 = truncate_file cd_layout f (GetDcacheFileSize (levels f))"
    using alloc_scan_succeeds [OF GetBidx_fun pio(1) wf lv slots] by blast
  have s1: "st_size f1 < 2 ^ 32" and l1: "levels f1 \<le> levels f + 1"
    using f1 levels_mono_truncate [OF sz lv, of cd_layout] level_size_less [OF sz] by auto
  let ?de = "cd_dentry_of base ?h (cde_flags (nsl g ! p))"
  let ?f = "write_page f1 idx (place_dentry cd_layout g p ?n ?de)"
  have len: "length ?n < 2 ^ 16" using n by simp
  have de: "namelen_of cd_layout ?de = word_of_nat (length ?n)" "hash_of cd_layout ?de = ?h" by simp_all
  note c = create_dir [OF GetBidx_fun wf al s1 n(1) len de]
  have "idx < blocks f1" using alloc_scan_AllocAt [OF GetBidx_fun al] by simp
  then have "levels ?f = levels f1" by (simp add: levels_def blocks_write_page)
  moreover have "cd_GetCreateInfo io ?h ?s 0 {} f = (AllocAt idx p g, f1, {idx})"
    using cd_GetCreateInfo_refines [OF pio(2), of ?h ?s 0 f] al by (simp add: alloc_rel_def)
  then have "cd_DoCreate io base f = (0, ?f, {})"
    using cd_fd [OF io] pio(2) slots cd_find_absent [OF inv io none] cd_UpdateDentry_valid [OF vb]
    by (simp add: cd_DoCreate_def Let_def)
  ultimately show ?thesis using c(1) c(6) [of "\<lambda>_. True"] un none l1
    by (intro exI [of _ ?f] exI [of _ "cde_flags (nsl g ! p)"]) (auto simp: cd_inv_def cd_dir_def)
qed

lemma cd_view_fresh: "cd_view (cd_dentry_of base h fl) = cd_view (cd_dentry_of base h 0)"
  by (simp add: cd_view_def cd_dentry_of_def flags_low [of fl _ _ _ 0])

lemma cd_view_update: "cd_view (cd_update_de base (cd_view de)) = cd_view (cd_update_de base de)"
  by (simp add: cd_view_def cd_update_de_def flags_low [of "cde_flags de AND 31" _ _ _ "cde_flags de"])

definition cd_observe :: "cd_file \<Rightarrow> string \<Rightarrow> CdDentry option" where
  "cd_observe f = (\<lambda>n. map_option cd_view (cd_dir f n))"

lemma cd_observe_upd: "cd_dir f' = (cd_dir f)(n := x) \<Longrightarrow> cd_observe f' = (cd_observe f)(n := map_option cd_view x)"
  by (auto simp: cd_observe_def)

interpretation cd_store: directory_store good_cd cd_inv "\<lambda>f. levels f \<le> 18" cd_observe cd_valid mb_name
  "\<lambda>base. cd_view (cd_dentry_of base (DentryHash (mb_name base) False) 0)"
  "\<lambda>base de. cd_view (cd_update_de base de)" "0 :: int"
  "\<lambda>io name f. map_option (\<lambda>(idx, g, i). cd_view (nsl g ! i)) (fst (cd_FindDentry io name f))"
  "\<lambda>io base f. case cd_DoCreate io base f of (ret, f', _) \<Rightarrow> (ret, f')"
  "\<lambda>io base f. case cd_DoUpdate io base f of (ret, f', _) \<Rightarrow> (ret, f')"
  "\<lambda>io name f. case cd_DoRemove io (MetaBase_named name) f of (ret, f', _) \<Rightarrow> (ret, f')"
proof (unfold_locales, goal_cases)
  case (1 io f n)
  then show ?case
    by (cases "cd_dir f n") (auto simp: cd_observe_def cd_find_absent elim!: cd_find_Some [OF 1(2,1)])
next
  case (2 io f b)
  then show ?case using cd_DoCreate_law [of f io b] cd_view_fresh [of b]
    by (fastforce simp: cd_observe_def dest!: cd_observe_upd)
next
  case (3 io f b a)
  then obtain de where de: "cd_dir f (mb_name b) = Some de" "a = cd_view de" by (auto simp: cd_observe_def)
  then show ?case using cd_DoUpdate_law(2) [OF 3(2,1) de(1)] cd_view_update [of b de] by (auto dest!: cd_observe_upd)
next
  case (4 io f b)
  then show ?case using cd_DoUpdate_law(1) [of f io b] by (simp add: cd_observe_def)
next
  case (5 io f n)
  then show ?case using cd_DoRemove_law [of f io "MetaBase_named n"]
    by (auto simp: MetaBase_named_def MetaBase_id_def cd_observe_def dest!: cd_observe_upd split: if_splits)
next
  case (6 io f n)
  then show ?case using cd_find_absent [of f io n] cd_fd [of io]
    by (simp add: cd_DoRemove_def MetaBase_named_def MetaBase_id_def cd_observe_def)
qed

section \<open>Properties\<close>

lemma lock_of_minus: "fst (cd_FindDentry io n f) = Some (idx, g, i) \<Longrightarrow> env_sane io \<Longrightarrow> snd (cd_FindDentry io n f) = {idx}"
  "fst (cd_FindDentry io n f) = None \<Longrightarrow> env_sane io \<Longrightarrow> snd (cd_FindDentry io n f) = {}"
  by (auto simp: cd_FindDentry_refines Let_def lock_of_def)

lemma cd_find_cases:
  assumes "env_sane io"
  obtains "cd_FindDentry io n f = (None, {})" | idx g i where "cd_FindDentry io n f = (Some (idx, g, i), {idx})"
  using lock_of_minus [OF _ assms, of n f] by (cases "cd_FindDentry io n f"; cases "fst (cd_FindDentry io n f)") auto

lemma cd_create_cases:
  assumes "env_sane io"
  obtains f1 e where "cd_GetCreateInfo io h slots 0 {} f = (AllocErr e, f1, {})" "e \<noteq> 0"
    "\<exists>e'. alloc_scan (\<lambda>l. Some (GetBidxFromLevel l h)) cd_layout (plain_env io) slots 0 f = (AllocErr e', f1)"
  | f1 idx p g where "cd_GetCreateInfo io h slots 0 {} f = (AllocAt idx p g, f1, {idx})"
    "alloc_scan (\<lambda>l. Some (GetBidxFromLevel l h)) cd_layout (plain_env io) slots 0 f = (AllocAt idx p g, f1)"
proof -
  obtain r f1 where A: "alloc_scan (\<lambda>l. Some (GetBidxFromLevel l h)) cd_layout (plain_env io) slots 0 f = (r, f1)" by fastforce
  with cd_GetCreateInfo_refines [OF assms, of h slots 0 f] show thesis
    using that by (cases r) (auto simp: alloc_rel_def)
qed

lemma cd_load_groups_held: "env_sane io \<Longrightarrow> snd (snd (cd_load_groups io f buf bases {} is)) = {}"
  by (induction "is" arbitrary: buf bases)
    (auto simp: FilePosLock_wr_def FilePosLock_un_def env_sane_def Let_def)

lemma cd_held_create:
  assumes "env_sane io"
  shows "snd (snd (cd_DoCreate io base f)) = {}"
  by (rule cd_find_cases [OF assms, of "mb_name base" f];
      rule cd_create_cases [OF assms, of "DentryHash (mb_name base) False" "GetDentrySlots 3 (length (mb_name base))" f])
    (auto simp: cd_DoCreate_def Let_def assms split: option.splits)

text \<open>
  C8: no call leaves a block locked, whichever lock, read or write fails on the way: lookup,
  creation, removal, update and listing all return with every record lock released.
\<close>

theorem cd_locks_released:
  assumes "env_sane io"
  shows "snd (snd (cd_DoLookup io base f)) = {} \<and> snd (snd (cd_DoCreate io base f)) = {} \<and>
    snd (snd (cd_DoRemove io base f)) = {} \<and> snd (snd (cd_DoUpdate io base f)) = {} \<and>
    snd (snd (cd_LoadChildren io buf bases f)) = {}"
proof -
  have "snd (snd (cd_DoLookup io base f)) = {} \<and> snd (snd (cd_DoRemove io base f)) = {} \<and>
      snd (snd (cd_DoUpdate io base f)) = {}"
    by (rule cd_find_cases [OF assms, of "mb_name base" f])
      (auto simp: cd_DoLookup_def cd_DoRemove_def cd_DoUpdate_def assms)
  moreover have "snd (snd (cd_DoCreate io base f)) = {}" by (rule cd_held_create [OF assms])
  moreover have "snd (snd (cd_LoadChildren io buf bases f)) = {}"
    using cd_load_groups_held [OF assms] by (simp add: cd_LoadChildren_def)
  ultimately show ?thesis by blast
qed

definition cd_ok :: cd_env where
  "cd_ok = \<lparr>fd = 3, fstat_ok = True, ftruncate_ok = (\<lambda>_. True), read_ok = (\<lambda>_. True), write_ok = True,
     lock_ok = (\<lambda>_. True), unlock_ok = (\<lambda>_. True), lock_errno = 11\<rparr>"

definition empty_cd :: cd_file where
  "empty_cd = empty_file cd_layout"

lemma good_cd_ok [simp]: "good_cd cd_ok" "env_sane cd_ok"
  by (simp_all add: good_cd_def good_io_def env_sane_def cd_ok_def)

lemma empty_cd_facts [simp]: "cd_inv empty_cd" "cd_dir empty_cd = Map.empty" "cd_observe empty_cd = Map.empty"
    "levels empty_cd = 0"
  by (simp_all add: cd_inv_def cd_observe_def cd_dir_def empty_cd_def wf_empty_file dir_empty_file)
    (simp add: levels_def empty_file_def)

lemma base_ab_cd [simp]: "cd_valid base_ab"
  by (simp add: cd_valid_def)

theorem cd_locks_released_witness:
  "snd (snd (cd_DoCreate (cd_ok\<lparr>lock_ok := (\<lambda>i. i \<noteq> 1), write_ok := False\<rparr>) base_ab empty_cd)) = {}"
  using cd_locks_released [of "cd_ok\<lparr>lock_ok := (\<lambda>i. i \<noteq> 1), write_ok := False\<rparr>" base_ab empty_cd]
  by (simp add: env_sane_def cd_ok_def)

text \<open>
  the three attributes packed into the flag byte are independent: after a creation or update
  with values in range, each getter returns the value its setter stored, whatever the byte held.
\<close>

theorem cd_flags_roundtrip:
  fixes flags position fileType noUpload :: u8
  assumes "position < 4" and "fileType < 4" and "noUpload < 2"
  defines "flags' \<equiv> SetNoUpload (SetFileType (SetPosition flags position) fileType) noUpload"
  shows "GetPosition flags' = position \<and> GetFileType flags' = fileType \<and> GetNoUpload flags' = noUpload"
proof -
  note fb = flag_bits [of flags position fileType noUpload, folded flags'_def]
  have two: "n = 0 \<or> n = Suc 0" if "n < 2" for n :: nat using that by auto
  have m: "(0x3 :: u8) = mask 2" "(0xC :: u8) = push_bit 2 (mask 2)" "(0x10 :: u8) = push_bit 4 (mask 1)"
    by (simp_all add: mask_eq_exp_minus_1 push_bit_eq_mult)
  have "take_bit 2 position = position" "take_bit 2 fileType = fileType" "take_bit 1 noUpload = noUpload"
    using assms(1-3) by (simp_all add: take_bit_eq_mod word_less_nat_alt word_unat_eq_iff unat_mod_distrib)
  moreover have "GetPosition flags' = take_bit 2 position" unfolding GetPosition_def m
    by (rule u8_eqI) (auto simp: bit_simps fb dest!: two)
  moreover have "GetFileType flags' = take_bit 2 fileType" unfolding GetFileType_def m
    by (rule u8_eqI) (auto simp: bit_simps fb(3) [unfolded numeral_2_eq_2] fb(4) [unfolded numeral_3_eq_3] dest!: two)
  moreover have "GetNoUpload flags' = take_bit 1 noUpload" unfolding GetNoUpload_def m
    by (rule u8_eqI) (auto simp: bit_simps fb bit_0)
  ultimately show ?thesis by simp
qed

theorem cd_flags_roundtrip_witness:
  "GetFileType (SetNoUpload (SetFileType (SetPosition 0xFF 1) 2) 1) = 2"
  using cd_flags_roundtrip [of 1 2 1 "0xFF"] by simp

lemma cd_DoCreate_bad_id:
  assumes inv: "cd_inv f" and io: "good_cd io" and lv: "levels f \<le> 18" and n: "mb_name base \<noteq> []"
    and len: "length (mb_name base) \<le> 416" and none: "cd_dir f (mb_name base) = None"
    and id: "length (mb_cloudId base) > 33"
  shows "\<exists>f1. cd_DoCreate io base f = (EINVAL, f1, {}) \<and> cd_inv f1 \<and> cd_dir f1 = cd_dir f"
proof -
  let ?h = "DentryHash (mb_name base) False" and ?n = "mb_name base"
  let ?s = "GetDentrySlots (slot_bits cd_layout) (length (mb_name base))"
  let ?A = "alloc_scan (\<lambda>l. Some (GetBidxFromLevel l ?h)) cd_layout (plain_env io) ?s 0 f"
  have wf: "wf_dir cd_layout f" and un: "unique_names cd_layout (\<lambda>_. True) f" using inv by (auto simp: cd_inv_def)
  have pio: "good_io (plain_env io)" "env_sane io" using good_cd_plain [OF io] by auto
  have slots: "0 < ?s" "?s \<le> per_group cd_layout" using cd_slots_valid [of "length ?n"] n len by auto
  obtain idx p g f1 where al: "?A = (AllocAt idx p g, f1)"
    and f1: "f1 = f \<or> f1 = truncate_file cd_layout f (GetDcacheFileSize (levels f))"
    using alloc_scan_succeeds [OF GetBidx_fun pio(1) wf lv slots] by blast
  have ext: "extends cd_layout f f1" using alloc_scan_extends [OF GetBidx_fun al] by blast
  have sz: "level_size (st_size f)" using wf by (simp add: wf_dir_def)
  have "st_size f1 < 2 ^ 32" using f1 levels_mono_truncate(2) [OF sz lv, of cd_layout] level_size_less [OF sz] by auto
  then have "wf_dir cd_layout f1" by (rule alloc_scan_wf [OF GetBidx_fun wf al])
  then have "cd_inv f1" "cd_dir f1 = cd_dir f"
    using extends_dir [OF wf_cd_layout ext un] by (simp_all add: cd_inv_def cd_dir_def)
  moreover have "cd_GetCreateInfo io ?h ?s 0 {} f = (AllocAt idx p g, f1, {idx})"
    using cd_GetCreateInfo_refines [OF pio(2), of ?h ?s 0 f] al by (simp add: alloc_rel_def)
  then have "cd_DoCreate io base f = (EINVAL, f1, {})"
    using cd_fd [OF io] pio(2) slots cd_find_absent [OF inv io none] id
    by (simp add: cd_DoCreate_def Let_def cd_UpdateDentry_def memcpy_s_ok_def)
  ultimately show ?thesis by blast
qed

lemma cd_create_working:
  assumes inv: "cd_inv f" and io: "good_cd io" and lv: "levels f \<le> 18" and n: "mb_name base \<noteq> []"
    and n32: "length (mb_name base) < 2 ^ 31"
  shows "\<exists>ret f'. cd_DoCreate io base f = (ret, f', {}) \<and> cd_inv f' \<and>
    ret = (if length (mb_name base) > 416 then ENAMETOOLONG
           else if cd_observe f (mb_name base) \<noteq> None then EEXIST
           else if length (mb_cloudId base) > 33 then EINVAL else E_OK) \<and>
    cd_observe f' = (if ret = E_OK
       then (cd_observe f)(mb_name base \<mapsto> cd_view (cd_dentry_of base (DentryHash (mb_name base) False) 0))
       else cd_observe f)"
proof -
  let ?h = "DentryHash (mb_name base) False" and ?n = "mb_name base"
  let ?s = "GetDentrySlots (slot_bits cd_layout) (length (mb_name base))"
  consider "length ?n > 416" | "length ?n \<le> 416" "cd_dir f ?n \<noteq> None"
    | "length ?n \<le> 416" "cd_dir f ?n = None" "length (mb_cloudId base) > 33"
    | "length ?n \<le> 416" "cd_dir f ?n = None" "length (mb_cloudId base) \<le> 33" by fastforce
  then show ?thesis
  proof cases
    case 1
    then have "52 < ?s" using n32 by (simp add: GetDentrySlots_eq)
    then show ?thesis using 1 inv cd_fd [OF io] by (simp add: cd_DoCreate_def Let_def)
  next
    case 2
    then obtain de where "cd_dir f ?n = Some de" by auto
    moreover from cd_find_Some [OF inv io this] obtain idx i where
      "cd_FindDentry io ?n f = (Some (idx, pages f idx, i), {idx})" by metis
    ultimately have "cd_DoCreate io base f = (EEXIST, f, {})"
      using cd_fd [OF io] good_cd_plain [OF io] cd_slots_valid [of "length ?n"] 2 n by (simp add: cd_DoCreate_def Let_def)
    then show ?thesis using 2 inv by (auto simp: cd_observe_def)
  next
    case 3
    from cd_DoCreate_bad_id [OF inv io lv n 3] obtain f1 where
      "cd_DoCreate io base f = (EINVAL, f1, {})" "cd_inv f1" "cd_dir f1 = cd_dir f" by blast
    then show ?thesis using 3 by (auto simp: cd_observe_def)
  next
    case 4
    then have "cd_valid base" using n by (simp add: cd_valid_def)
    from cd_DoCreate_law [OF inv io lv this 4(2)] obtain f' fl where
      f': "cd_DoCreate io base f = (0, f', {})" "cd_inv f'" "cd_dir f' = (cd_dir f)(?n \<mapsto> cd_dentry_of base ?h fl)" by blast
    have "cd_observe f' = (cd_observe f)(?n \<mapsto> cd_view (cd_dentry_of base ?h 0))"
      using cd_observe_upd [OF f'(3)] cd_view_fresh [of base ?h fl] by simp
    moreover have "cd_observe f ?n = None" using 4(2) by (simp add: cd_observe_def)
    ultimately show ?thesis using 4 f'(1,2) by (intro exI [of _ 0] exI [of _ f']) simp
  qed
qed

lemma cd_create_failing:
  assumes inv: "cd_inv f" and sane: "env_sane io" and c: "cd_DoCreate io base f = (ret, f', held)" and ret: "ret \<noteq> E_OK"
  shows "cd_dir f' = cd_dir f"
proof -
  let ?h = "DentryHash (mb_name base) False" and ?s = "GetDentrySlots 3 (length (mb_name base))"
  have un: "unique_names cd_layout (\<lambda>_. True) f" using inv by (simp add: cd_inv_def)
  have grown: "cd_dir f1 = cd_dir f"
    if "alloc_scan (\<lambda>l. Some (GetBidxFromLevel l ?h)) cd_layout (plain_env io) ?s 0 f = (r, f1)" for r f1
  proof -
    have ext: "extends cd_layout f f1" using alloc_scan_extends [OF GetBidx_fun that] by blast
    show ?thesis unfolding cd_dir_def by (rule extends_dir(2) [OF wf_cd_layout ext un])
  qed
  show ?thesis
    by (rule cd_find_cases [OF sane, of "mb_name base" f]; rule cd_create_cases [OF sane, of ?h ?s f])
      (use c ret grown in \<open>auto simp: cd_DoCreate_def Let_def sane split: option.splits if_splits\<close>)
qed

text \<open>
  C7: creating an entry. Whatever lock, read, write, fstat or ftruncate fails on the way (unlocking
  works, and a block is read or written whole or not at all), no lock is left and a creation that
  reports an error leaves the directory as it was. When the calls work, in a file of at most 18
  levels and for a name that is not empty, a name of more than 416 bytes, an existing name and a
  cloud id of more than 33 bytes are each refused with their own error, and otherwise exactly the
  new entry is added.
\<close>

theorem cd_create_outcome:
  assumes "cd_inv f" and "env_sane io" and "cd_DoCreate io base f = (ret, f', held)"
  shows "held = {} \<and> (ret \<noteq> E_OK \<longrightarrow> cd_observe f' = cd_observe f) \<and>
    (good_cd io \<and> levels f \<le> 18 \<and> mb_name base \<noteq> [] \<and> length (mb_name base) < 2 ^ 31 \<longrightarrow>
       cd_inv f' \<and>
       ret = (if length (mb_name base) > 416 then ENAMETOOLONG
              else if cd_observe f (mb_name base) \<noteq> None then EEXIST
              else if length (mb_cloudId base) > 33 then EINVAL else E_OK) \<and>
       (ret = E_OK \<longrightarrow> cd_observe f' =
          (cd_observe f)(mb_name base \<mapsto> cd_view (cd_dentry_of base (DentryHash (mb_name base) False) 0))))"
    (is "_ \<and> _ \<and> (_ \<longrightarrow> _ \<and> _ = ?ret \<and> (_ \<longrightarrow> _ = ?added))")
proof -
  have held: "held = {}" using cd_held_create [OF assms(2), of base f] assms(3) by simp
  have failing: "ret \<noteq> E_OK \<longrightarrow> cd_observe f' = cd_observe f"
    using cd_create_failing [OF assms] by (auto simp: cd_observe_def)
  have working: "cd_inv f' \<and> ret = ?ret \<and> (ret = E_OK \<longrightarrow> cd_observe f' = ?added)"
    if h: "good_cd io" "levels f \<le> 18" "mb_name base \<noteq> []" "length (mb_name base) < 2 ^ 31"
  proof -
    obtain ret1 f1 where w: "cd_DoCreate io base f = (ret1, f1, {})" "cd_inv f1" "ret1 = ?ret"
      "cd_observe f1 = (if ret1 = E_OK then ?added else cd_observe f)"
      using cd_create_working [OF assms(1) h] by blast
    have "ret1 = ret" "f1 = f'" using w(1) assms(3) by simp_all
    then show ?thesis using w(2-4) by simp
  qed
  show ?thesis using held failing working by blast
qed

theorem cd_create_outcome_witness:
  "fst (cd_DoCreate cd_ok (MetaBase_named (replicate 417 (CHR ''a''))) empty_cd) = ENAMETOOLONG \<and>
   fst (cd_DoCreate cd_ok base_ab empty_cd) = E_OK"
proof -
  obtain r1 f1 h1 where 1: "cd_DoCreate cd_ok (MetaBase_named (replicate 417 (CHR ''a''))) empty_cd = (r1, f1, h1)" by (rule prod_cases3)
  obtain r2 f2 h2 where 2: "cd_DoCreate cd_ok base_ab empty_cd = (r2, f2, h2)" by (rule prod_cases3)
  have "r1 = ENAMETOOLONG"
    using cd_create_outcome [OF empty_cd_facts(1) good_cd_ok(2) 1] by (simp add: MetaBase_named_def MetaBase_id_def)
  moreover have "r2 = E_OK" using cd_create_outcome [OF empty_cd_facts(1) good_cd_ok(2) 2] by simp
  ultimately show ?thesis using 1 2 by simp
qed

text \<open>Writes that fail: the search does not depend on them.\<close>

lemma cd_remove_write_fail:
  assumes "cd_inv f" and "good_cd (io\<lparr>write_ok := True\<rparr>)" and "\<not> write_ok io" and "cd_dir f (mb_name base) = Some de"
  shows "cd_DoRemove io base f = (EIO, f, {})"
proof -
  have sane: "env_sane io" using assms(2) by (simp add: good_cd_def env_sane_def)
  have pl: "plain_env (io\<lparr>write_ok := True\<rparr>) = (plain_env io)\<lparr>write_ok := True\<rparr>"
    by (simp add: plain_env_def io_env.truncate_def)
  have "env_sane (io\<lparr>write_ok := True\<rparr>)" using sane by (simp add: env_sane_def)
  then have "cd_FindDentry (io\<lparr>write_ok := True\<rparr>) n f = cd_FindDentry io n f" for n
    using sane by (simp add: cd_FindDentry_refines find_entry_def read_page_def [abs_def] pl)
  moreover from cd_find_Some [OF assms(1,2,4)] obtain idx i where
    "cd_FindDentry (io\<lparr>write_ok := True\<rparr>) (mb_name base) f = (Some (idx, pages f idx, i), {idx})" by metis
  ultimately show ?thesis using sane assms(2,3) by (simp add: cd_DoRemove_def good_cd_def good_io_def)
qed

lemma on_file_created:
  assumes "cd_inv (st d)" and "good_cd io" and "levels (st d) \<le> 18" and "cd_valid base"
    and "cd_observe (st d) (mb_name base) = None"
  shows "\<exists>f. on_file (cd_DoCreate io base) d st = (0, st(d := f)) \<and> cd_inv f \<and>
    cd_observe f = (cd_observe (st d))(mb_name base \<mapsto> cd_view (cd_dentry_of base (DentryHash (mb_name base) False) 0))"
proof -
  have "cd_dir (st d) (mb_name base) = None" using assms(5) by (simp add: cd_observe_def)
  from cd_DoCreate_law [OF assms(1-4) this] obtain f fl where
    f: "cd_DoCreate io base (st d) = (0, f, {})" "cd_inv f"
      "cd_dir f = (cd_dir (st d))(mb_name base \<mapsto> cd_dentry_of base (DentryHash (mb_name base) False) fl)" by blast
  show ?thesis using f cd_observe_upd [OF f(3)] cd_view_fresh [of base _ fl] by (auto simp: on_file_def)
qed

lemma on_file_removed:
  assumes "cd_inv (st d)" and "good_cd io"
  shows "\<exists>f. on_file (cd_DoRemove io base) d st =
      (if cd_observe (st d) (mb_name base) = None then ENOENT else E_OK, st(d := f)) \<and>
    cd_inv f \<and> cd_observe f = (cd_observe (st d))(mb_name base := None)"
proof -
  from cd_DoRemove_law [OF assms, of base] obtain f where
    f: "cd_DoRemove io base (st d) = (if cd_dir (st d) (mb_name base) = None then ENOENT else E_OK, f, {})"
      "cd_inv f" "cd_dir f = (cd_dir (st d))(mb_name base := None)" by blast
  show ?thesis using f cd_observe_upd [OF f(3)] by (auto simp: on_file_def cd_observe_def [of "st d"])
qed

text \<open>
  C9: a rename moves one entry, within a directory or between two: the old name is gone from the
  old parent, the new name is in the new parent with the given attributes, and every other name
  of every directory is untouched.
\<close>

theorem cd_rename_correct:
  assumes "\<And>d. cd_inv (st d)" and "good_cd io1" "good_cd io2" and "levels (st newMetaFile) \<le> 18"
    and "cd_observe (st this) (mb_name metaBase) \<noteq> None" and "cd_observe (st newMetaFile) newName = None"
    and "cd_valid (metaBase\<lparr>mb_name := newName\<rparr>)"
  shows "\<exists>st'. cd_DoRename io1 io2 io3 metaBase newName this newMetaFile st = (E_OK, st') \<and> (\<forall>d. cd_inv (st' d)) \<and>
    (\<forall>d n. cd_observe (st' d) n =
      (if d = this \<and> n = mb_name metaBase then None
       else if d = newMetaFile \<and> n = newName
       then Some (cd_view (cd_dentry_of (metaBase\<lparr>mb_name := newName\<rparr>) (DentryHash newName False) 0))
       else cd_observe (st d) n))"
proof -
  let ?b = "metaBase\<lparr>mb_name := newName\<rparr>"
  obtain f1 where
    f1: "on_file (cd_DoCreate io1 ?b) newMetaFile st = (0, st(newMetaFile := f1))" "cd_inv f1"
      "cd_observe f1 = (cd_observe (st newMetaFile))(newName \<mapsto> cd_view (cd_dentry_of ?b (DentryHash newName False) 0))"
    using on_file_created [of st newMetaFile io1 ?b] assms by auto
  let ?st1 = "st(newMetaFile := f1)"
  have inv1: "cd_inv (?st1 d)" for d using assms(1) f1(2) by simp
  have nn: "(cd_observe (?st1 this) (mb_name metaBase) = None) = False" using assms(5) f1(3) by auto
  obtain f2 where
    f2: "on_file (cd_DoRemove io2 metaBase) this ?st1 = (0, ?st1(this := f2))" "cd_inv f2"
      "cd_observe f2 = (cd_observe (?st1 this))(mb_name metaBase := None)"
    using on_file_removed [of ?st1 this io2 metaBase, OF inv1 assms(3), unfolded nn if_False] by blast
  have "cd_DoRename io1 io2 io3 metaBase newName this newMetaFile st = (E_OK, ?st1(this := f2))"
    using f1(1) f2(1) by (simp add: cd_DoRename_def)
  moreover have "cd_inv ((?st1(this := f2)) d)" for d using inv1 [of d] f2(2) by simp
  moreover have "cd_observe ((?st1(this := f2)) d) n =
      (if d = this \<and> n = mb_name metaBase then None
       else if d = newMetaFile \<and> n = newName
       then Some (cd_view (cd_dentry_of ?b (DentryHash newName False) 0))
       else cd_observe (st d) n)" for d n using f1(3) f2(3) by auto
  ultimately show ?thesis by blast
qed

theorem cd_rename_correct_witness:
  "\<exists>st st'. cd_DoRename cd_ok cd_ok cd_ok base_ab ''new'' ''p'' ''q'' st = (E_OK, st') \<and>
    cd_observe (st ''p'') ''ab'' \<noteq> None \<and> cd_observe (st' ''p'') ''ab'' = None \<and> cd_observe (st' ''q'') ''new'' \<noteq> None"
proof -
  obtain f where f: "cd_inv f" "cd_observe f ''ab'' \<noteq> None"
    using on_file_created [of "\<lambda>_. empty_cd" "''p''" cd_ok base_ab] by auto
  let ?st = "(\<lambda>_. empty_cd)(''p'' := f)"
  have v: "cd_valid (base_ab\<lparr>mb_name := ''new''\<rparr>)" by (simp add: cd_valid_def)
  have inv: "cd_inv (?st d)" for d using f(1) by simp
  have pre: "levels (?st ''q'') \<le> 18" "cd_observe (?st ''p'') (mb_name base_ab) \<noteq> None" "cd_observe (?st ''q'') ''new'' = None"
    using f(2) by simp_all
  obtain st' where st': "cd_DoRename cd_ok cd_ok cd_ok base_ab ''new'' ''p'' ''q'' ?st = (E_OK, st')"
    "\<And>d n. cd_observe (st' d) n = (if d = ''p'' \<and> n = mb_name base_ab then None
      else if d = ''q'' \<and> n = ''new'' then Some (cd_view (cd_dentry_of (base_ab\<lparr>mb_name := ''new''\<rparr>) (DentryHash ''new'' False) 0))
      else cd_observe (?st d) n)"
    using cd_rename_correct [where st = ?st, OF inv good_cd_ok(1) good_cd_ok(1) pre v] by blast
  show ?thesis using st' f(2) by (intro exI [of _ ?st] exI [of _ st']) simp
qed

end
