(* ===== verification/Cloud_Disk_Recycle.thy ===== *)
theory Cloud_Disk_Recycle
  imports Cloud_Disk_Meta_File
begin

text \<open>
  The operations that combine several calls on cloud disk dentry files: the roll-back of a rename,
  the look-up-then-act helpers, and \<open>MetaFileMgr\<close>'s moves into and out of the recycle directory
  and its choice of a free name (\<open>utils/dentry/src/meta_file_clouddisk.cpp\<close>). Directories are a
  store indexed by cloud id; \<open>RecycleSizeCache\<close> is notified with the moved entry, which the
  operations return.
\<close>

section \<open>Definitions\<close>

abbreviation (input) RECYCLE_NAME :: string where "RECYCLE_NAME \<equiv> ''.trash''"
abbreviation (input) RECYCLE_CLOUD_ID :: string where "RECYCLE_CLOUD_ID \<equiv> ''.trash''"
abbreviation (input) ROOT_CLOUD_ID :: string where "ROOT_CLOUD_ID \<equiv> ''rootId''"
abbreviation (input) STAT_MODE_DIR :: u32 where "STAT_MODE_DIR \<equiv> 0x1F9"

record RestoreInfo =
  ri_oldName :: string
  ri_parentCloudId :: string
  ri_newName :: string
  ri_rowId :: int

definition CreateRecycleDentry :: "cd_env \<Rightarrow> cd_env \<Rightarrow> cd_store \<Rightarrow> int \<times> cd_store" where
  "CreateRecycleDentry io1 io2 st =
     (case cd_DoLookup io1 (MetaBase_named RECYCLE_NAME) (st ROOT_CLOUD_ID) of (ret, metaBase, _) \<Rightarrow>
      if ret \<noteq> 0
      then on_file (cd_DoCreate io2 (metaBase\<lparr>mb_cloudId := RECYCLE_CLOUD_ID, mb_mode := S_IFDIR OR STAT_MODE_DIR,
             mb_position := 1\<rparr>)) ROOT_CLOUD_ID st
      else (0, st))"

text \<open>One system-call environment per step: lookup, creation, lookup and removal, roll-back.\<close>

record move_env =
  e_lookup :: cd_env
  e_create :: cd_env
  e_lookup2 :: cd_env
  e_remove :: cd_env
  e_back1 :: cd_env
  e_back2 :: cd_env

definition on_lookup_remove ::
  "cd_env \<Rightarrow> cd_env \<Rightarrow> MetaBase \<Rightarrow> string \<Rightarrow> cd_store \<Rightarrow> int \<times> MetaBase \<times> cd_store" where
  "on_lookup_remove io1 io2 m dir st =
     (case DoLookupAndRemove io1 io2 m (st dir) of (ret, m', f) \<Rightarrow> (ret, m', st(dir := f)))"

text \<open>
  The body the two moves share: look the entry up under \<open>fromName\<close> in \<open>src\<close>, create it under
  \<open>toName\<close> in \<open>dst\<close>, remove it from \<open>src\<close>, and undo the creation when the removal fails.
\<close>

definition move_dentry ::
  "move_env \<Rightarrow> string \<Rightarrow> string \<Rightarrow> string \<Rightarrow> string \<Rightarrow> cd_store \<Rightarrow> int \<times> MetaBase option \<times> cd_store" where
  "move_dentry e src dst fromName toName st =
     (case cd_DoLookup (e_lookup e) (MetaBase_named fromName) (st src) of (ret, metaBase, _) \<Rightarrow>
      if ret \<noteq> E_OK then (ret, None, st)
      else case on_file (cd_DoCreate (e_create e) (metaBase\<lparr>mb_name := toName\<rparr>)) dst st of (ret, st1) \<Rightarrow>
      if ret \<noteq> E_OK then (ret, None, st1)
      else case on_lookup_remove (e_lookup2 e) (e_remove e) (metaBase\<lparr>mb_name := fromName\<rparr>) src st1 of (ret, m, st2) \<Rightarrow>
      if ret \<noteq> E_OK
      then (ret, None, snd (snd (on_lookup_remove (e_back1 e) (e_back2 e) (m\<lparr>mb_name := toName\<rparr>) dst st2)))
      else (E_OK, Some m, st2))"

definition MoveIntoRecycleDentryfile :: "move_env \<Rightarrow> RestoreInfo \<Rightarrow> cd_store \<Rightarrow> int \<times> MetaBase option \<times> cd_store" where
  "MoveIntoRecycleDentryfile e restoreInfo st =
     (let uniqueName = ri_newName restoreInfo @ ''_'' @ to_string (ri_rowId restoreInfo)
      in move_dentry e (ri_parentCloudId restoreInfo) RECYCLE_CLOUD_ID (ri_oldName restoreInfo) uniqueName st)"

definition RemoveFromRecycleDentryfile :: "move_env \<Rightarrow> RestoreInfo \<Rightarrow> cd_store \<Rightarrow> int \<times> MetaBase option \<times> cd_store" where
  "RemoveFromRecycleDentryfile e restoreInfo st =
     (let uniqueName = ri_oldName restoreInfo @ ''_'' @ to_string (ri_rowId restoreInfo)
      in move_dentry e RECYCLE_CLOUD_ID (ri_parentCloudId restoreInfo) uniqueName (ri_newName restoreInfo) st)"

text \<open>\<open>GetNewName\<close>: the \<open>while (conflict)\<close> loop may only end because the directory is finite.\<close>

definition numbered_name :: "string \<Rightarrow> string \<Rightarrow> nat \<Rightarrow> string" where
  "numbered_name name extension renameTimes = name @ ''('' @ to_string_nat renameTimes @ '')'' @ extension"

partial_function (option) new_name_loop :: "string list \<Rightarrow> string \<Rightarrow> string \<Rightarrow> nat \<Rightarrow> string option" where
  "new_name_loop fileNames name extension renameTimes =
     (let nn = numbered_name name extension renameTimes
      in if nn \<notin> set fileNames then Some nn else new_name_loop fileNames name extension (renameTimes + 1))"

definition split_name :: "string \<Rightarrow> string \<times> string" where
  "split_name oldName =
     (let lastDot = (case find_last_of CHR ''.'' oldName of None \<Rightarrow> length oldName | Some i \<Rightarrow> i)
      in (take lastDot oldName, drop lastDot oldName))"

definition GetNewName :: "cd_env \<Rightarrow> CdDentry dentry_group \<Rightarrow> cd_file \<Rightarrow> string \<Rightarrow> (int \<times> string option) option" where
  "GetNewName io buf metaFile oldName =
     (case cd_LoadChildren io buf [] metaFile of (ret, metaBases, _) \<Rightarrow>
      if ret \<noteq> E_OK then Some (ret, None)
      else case split_name oldName of (name, extension) \<Rightarrow>
        map_option (\<lambda>nn. (E_OK, Some nn)) (new_name_loop (map mb_name metaBases) name extension 1))"

section \<open>Choosing a free name\<close>

lemma numbered_name_inj: "numbered_name n e i = numbered_name n e j \<longleftrightarrow> i = j"
  by (simp add: numbered_name_def to_string_nat_inj)

lemma free_number_exists:
  "\<exists>k. 1 \<le> k \<and> k \<le> length fileNames + 1 \<and> numbered_name n e k \<notin> set fileNames"
proof (rule ccontr)
  assume "\<not> ?thesis"
  then have "numbered_name n e ` {1..length fileNames + 1} \<subseteq> set fileNames" by auto
  then have "card (numbered_name n e ` {1..length fileNames + 1}) \<le> card (set fileNames)"
    by (intro card_mono) auto
  moreover have "inj_on (numbered_name n e) {1..length fileNames + 1}"
    by (auto simp: inj_on_def numbered_name_inj)
  ultimately show False using card_length [of fileNames] by (simp add: card_image)
qed

lemma new_name_loop_finds:
  assumes "i \<le> k" and "numbered_name n e k \<notin> set fileNames"
  shows "\<exists>j. i \<le> j \<and> j \<le> k \<and> new_name_loop fileNames n e i = Some (numbered_name n e j) \<and>
    numbered_name n e j \<notin> set fileNames"
  using assms(1)
proof (induction "k - i" arbitrary: i)
  case 0
  then have "i = k" by simp
  then show ?case using assms(2) by (subst new_name_loop.simps) (auto simp: Let_def)
next
  case (Suc d)
  show ?case
  proof (cases "numbered_name n e i \<in> set fileNames")
    case True
    have d: "d = k - (i + 1)" "i + 1 \<le> k" using Suc.hyps(2) by auto
    from Suc.hyps(1) [OF d] obtain j where
      "i + 1 \<le> j" "j \<le> k" "new_name_loop fileNames n e (i + 1) = Some (numbered_name n e j)"
      "numbered_name n e j \<notin> set fileNames" by blast
    with True show ?thesis by (subst new_name_loop.simps) (auto simp: Let_def intro!: exI [of _ j])
  next
    case False
    then show ?thesis using Suc.prems by (subst new_name_loop.simps) (auto simp: Let_def)
  qed
qed

lemma cd_DecodeDentrys_heads:
  assumes "wf_group cd_layout g"
  shows "cd_DecodeDentrys g = map (\<lambda>i. cd_child_base (name_at cd_layout g i) (nsl g ! i))
    (filter (head cd_layout g) [0..<52])"
proof -
  have "unat (cde_namelen (nsl g ! i)) < 4096" if "head cd_layout g i" for i
  proof -
    have "i + slots_at cd_layout (nsl g ! i) \<le> 52" using assms that by (auto simp: wf_group_def)
    moreover have "unat (cde_namelen (nsl g ! i)) \<le> slots_at cd_layout (nsl g ! i) * 8"
      using slots_at_cover [of cd_layout "nsl g ! i"] by simp
    ultimately show ?thesis by simp
  qed
  then have "filter (\<lambda>i. let len = unat (cde_namelen (nsl g ! i))
      in \<not> (\<not> TestBit i (bitmap g) \<or> len = 0 \<or> len \<ge> 4096)) [0..<52] = filter (head cd_layout g) [0..<52]"
    by (intro filter_cong) (auto simp: head_def Let_def unat_gt_0 not_le)
  then show ?thesis by (simp only: cd_DecodeDentrys_def)
qed

lemma cd_load_groups_good:
  assumes "good_cd io" and "\<forall>i \<in> set is. i < blocks f"
  shows "cd_load_groups io f buf bases {} is = (0, bases @ concat (map (\<lambda>i. cd_DecodeDentrys (pages f i)) is), {})"
proof -
  have io: "env_sane io" "good_io (io_env.truncate io)" "\<And>i. lock_ok io i" using assms(1) by (auto simp: good_cd_def)
  show ?thesis using assms(2)
    by (induction "is" arbitrary: buf bases) (auto simp: FilePosLock_wr_def io read_page_good [OF io(2)] Let_def)
qed

lemma cd_LoadChildren_entries:
  assumes "wf_dir cd_layout f" and "good_cd io"
  shows "cd_LoadChildren io buf bases f =
    (E_OK, bases @ map (\<lambda>(name, de). cd_child_base name de) (entry_list cd_layout f), {})"
proof -
  have "cd_DecodeDentrys (pages f i) = map (\<lambda>j. cd_child_base (entry_name cd_layout f i j) (dentry_at f i j))
      (filter (head cd_layout (pages f i)) [0..<52])" if "i < blocks f" for i
    using that assms(1) by (intro cd_DecodeDentrys_heads) (auto simp: wf_dir_def)
  then have dec: "map (\<lambda>i. cd_DecodeDentrys (pages f i)) [0..<blocks f] =
    map (\<lambda>i. map (\<lambda>j. cd_child_base (entry_name cd_layout f i j) (dentry_at f i j))
      (filter (head cd_layout (pages f i)) [0..<52])) [0..<blocks f]" by simp
  have "cd_load_groups io f buf bases {} [0..<blocks f] =
    (0, bases @ concat (map (\<lambda>i. cd_DecodeDentrys (pages f i)) [0..<blocks f]), {})"
    by (rule cd_load_groups_good [OF assms(2)]) simp
  then show ?thesis using cd_fd [OF assms(2)] unfolding dec
    by (simp add: cd_LoadChildren_def entry_list_def map_concat comp_def)
qed

text \<open>
  C13: choosing a free name always ends, after at most one attempt more than the directory has
  entries, and the chosen name keeps stem and extension and is not in the directory.
\<close>

theorem cd_new_name_free:
  assumes "cd_inv f" and "good_cd io"
  shows "\<exists>k nn. GetNewName io buf f oldName = Some (E_OK, Some nn) \<and> 1 \<le> k \<and> k \<le> length (entry_list cd_layout f) + 1 \<and>
    nn = numbered_name (fst (split_name oldName)) (snd (split_name oldName)) k \<and> cd_observe f nn = None"
proof -
  obtain n e where sp: "split_name oldName = (n, e)" by fastforce
  let ?names = "map fst (entry_list cd_layout f)"
  have "mb_name (cd_child_base name de) = name" for name de
    by (simp add: cd_child_base_def MetaBase_named_def MetaBase_id_def)
  then have names: "mb_name \<circ> (\<lambda>(name, de). cd_child_base name de) = fst" by auto
  obtain k0 where "1 \<le> k0" "k0 \<le> length ?names + 1" "numbered_name n e k0 \<notin> set ?names"
    using free_number_exists [of ?names n e] by auto
  with new_name_loop_finds [of 1 k0 n e ?names] obtain k where
    k: "1 \<le> k" "k \<le> length ?names + 1" "new_name_loop ?names n e 1 = Some (numbered_name n e k)"
      "numbered_name n e k \<notin> set ?names" by auto
  have "cd_dir f (numbered_name n e k) = None"
    using k(4) set_entry_list [of _ _ cd_layout f] unfolding cd_dir_def dir_map_None by force
  moreover have "GetNewName io buf f oldName = Some (E_OK, Some (numbered_name n e k))"
    using assms cd_LoadChildren_entries [of f io buf "[]"] k(3)
    by (simp add: GetNewName_def sp cd_inv_def names)
  ultimately show ?thesis using k(1,2) by (auto simp: sp cd_observe_def)
qed

theorem cd_new_name_free_witness:
  "\<exists>nn. GetNewName cd_ok (zero_group cd_layout) empty_cd ''a.txt'' = Some (E_OK, Some nn) \<and> cd_observe empty_cd nn = None"
  using cd_new_name_free [of empty_cd cd_ok "zero_group cd_layout" "''a.txt''"] by auto

section \<open>Moves\<close>

definition renamed_view :: "string \<Rightarrow> CdDentry \<Rightarrow> CdDentry" where
  "renamed_view toName v = v\<lparr>cde_hash := DentryHash toName False, cde_namelen := word_of_nat (length toName)\<rparr>"

lemma get_bits:
  "bit (GetPosition fl) 0 = bit fl 0" "bit (GetPosition fl) (Suc 0) = bit fl (Suc 0)"
  "bit (GetFileType fl) 0 = bit fl 2" "bit (GetFileType fl) (Suc 0) = bit fl 3" "bit (GetNoUpload fl) 0 = bit fl 4"
  by (simp_all add: GetPosition_def GetFileType_def GetNoUpload_def bit_simps numeral_2_eq_2 numeral_3_eq_3)

lemma flags_rebuilt:
  "SetNoUpload (SetFileType (SetPosition 0 (GetPosition fl)) (GetFileType fl)) (GetNoUpload fl) AND 0x1F = fl AND 0x1F"
  by (rule mask5_eqI) (auto dest!: nat_less_5 simp: flag_bits get_bits)

lemma get_masked:
  "GetPosition (fl AND 0x1F) = GetPosition fl" "GetFileType (fl AND 0x1F) = GetFileType fl"
  "GetNoUpload (fl AND 0x1F) = GetNoUpload fl"
  by (simp_all add: GetPosition_def GetFileType_def GetNoUpload_def and.assoc)

lemma moved_view:
  assumes "length (cde_recordId de) = 33"
  shows "cd_view (cd_dentry_of ((cd_lookup_base de b)\<lparr>mb_name := toName\<rparr>) (DentryHash toName False) 0) =
    renamed_view toName (cd_view de)"
proof -
  have "(ucast (ucast w :: u32) :: u16) = w" for w :: u16 by (rule bit_word_eqI) (auto simp: bit_simps)
  then show ?thesis
    using assms by (simp add: cd_view_def cd_dentry_of_def cd_lookup_base_def renamed_view_def flags_rebuilt memcpy_s_zero)
qed

definition move_good :: "move_env \<Rightarrow> bool" where
  "move_good e \<longleftrightarrow> good_cd (e_lookup e) \<and> good_cd (e_create e) \<and> good_cd (e_lookup2 e) \<and> good_cd (e_back1 e) \<and> good_cd (e_back2 e)"

definition move_pre :: "cd_store \<Rightarrow> string \<Rightarrow> string \<Rightarrow> string \<Rightarrow> string \<Rightarrow> CdDentry \<Rightarrow> bool" where
  "move_pre st src dst fromName toName v \<longleftrightarrow> (\<forall>d. cd_inv (st d)) \<and> levels (st dst) \<le> 18 \<and>
     cd_observe (st src) fromName = Some v \<and> length (cde_recordId v) = 33 \<and>
     cd_observe (st dst) toName = None \<and> toName \<noteq> [] \<and> length toName \<le> 416"

lemma on_lookup_remove_absent:
  "fst (cd_DoLookup io1 m (st d)) \<noteq> 0 \<Longrightarrow> fst (on_lookup_remove io1 io2 m d st) = 0 \<and> snd (snd (on_lookup_remove io1 io2 m d st)) = st"
  by (auto simp: on_lookup_remove_def DoLookupAndRemove_def split: prod.splits)

lemma on_lookup_remove_present:
  assumes "cd_inv (st d)" and "good_cd io1" and "good_cd io2" and "cd_observe (st d) (mb_name m) \<noteq> None"
  shows "\<exists>f m'. on_lookup_remove io1 io2 m d st = (0, m', st(d := f)) \<and> mb_name m' = mb_name m \<and> cd_inv f \<and>
    cd_observe f = (cd_observe (st d))(mb_name m := None) \<and> levels f = levels (st d)"
proof -
  obtain de where de: "cd_dir (st d) (mb_name m) = Some de" using assms(4) by (auto simp: cd_observe_def)
  have lk: "cd_DoLookup io1 m (st d) = (0, cd_lookup_base de m, {})" using de by (simp add: cd_DoLookup_law [OF assms(1,2)])
  have nm: "mb_name (cd_lookup_base de m) = mb_name m" by (simp add: cd_lookup_base_def)
  obtain f where f: "cd_DoRemove io2 (cd_lookup_base de m) (st d) = (0, f, {})" "cd_inv f"
      "cd_dir f = (cd_dir (st d))(mb_name m := None)" "levels f = levels (st d)"
    using cd_DoRemove_law [OF assms(1,3), of "cd_lookup_base de m"] de by (auto simp: nm)
  show ?thesis
    using f lk nm cd_observe_upd [OF f(3)]
    by (intro exI [of _ f] exI [of _ "cd_lookup_base de m"]) (simp add: on_lookup_remove_def DoLookupAndRemove_def)
qed

lemma move_created:
  assumes pre: "move_pre st src dst fromName toName v" and io: "good_cd io1" "good_cd io2"
  obtains m f where "cd_DoLookup io1 (MetaBase_named fromName) (st src) = (0, m, {})" "mb_name m = fromName"
    "on_file (cd_DoCreate io2 (m\<lparr>mb_name := toName\<rparr>)) dst st = (0, st(dst := f))" "cd_inv f"
    "cd_observe f = (cd_observe (st dst))(toName \<mapsto> renamed_view toName v)"
proof -
  have inv: "cd_inv (st d)" for d using pre by (simp add: move_pre_def)
  obtain de where de: "cd_dir (st src) fromName = Some de" "v = cd_view de"
    using pre by (auto simp: move_pre_def cd_observe_def)
  let ?m = "cd_lookup_base de (MetaBase_named fromName)"
  have lk: "cd_DoLookup io1 (MetaBase_named fromName) (st src) = (0, ?m, {})"
    using de by (simp add: cd_DoLookup_law [OF inv io(1)] MetaBase_named_def MetaBase_id_def)
  have rec: "length (cde_recordId de) = 33" using pre de(2) by (simp add: move_pre_def cd_view_def)
  have "cd_valid (?m\<lparr>mb_name := toName\<rparr>)" using pre by (simp add: move_pre_def cd_valid_def cd_lookup_base_def)
  then obtain f where f: "on_file (cd_DoCreate io2 (?m\<lparr>mb_name := toName\<rparr>)) dst st = (0, st(dst := f))" "cd_inv f"
      "cd_observe f = (cd_observe (st dst))(toName \<mapsto> renamed_view toName v)"
    using on_file_created [of st dst io2 "?m\<lparr>mb_name := toName\<rparr>"] pre inv io(2) moved_view [OF rec] de(2)
    by (auto simp: move_pre_def)
  show thesis using that [OF lk _ f] by (simp add: cd_lookup_base_def MetaBase_named_def MetaBase_id_def)
qed

definition moved :: "cd_store \<Rightarrow> string \<Rightarrow> string \<Rightarrow> string \<Rightarrow> string \<Rightarrow> CdDentry \<Rightarrow> cd_store \<Rightarrow> bool" where
  "moved st src dst fromName toName v st' \<longleftrightarrow> (\<forall>d. cd_inv (st' d)) \<and>
     (src \<noteq> dst \<longrightarrow> levels (st' src) = levels (st src)) \<and>
     (\<forall>d n. cd_observe (st' d) n = (if d = src \<and> n = fromName then None
        else if d = dst \<and> n = toName then Some (renamed_view toName v) else cd_observe (st d) n))"

lemma move_dentry_moves:
  assumes pre: "move_pre st src dst fromName toName v" and io: "move_good e" "good_cd (e_remove e)"
  shows "\<exists>m st'. move_dentry e src dst fromName toName st = (E_OK, Some m, st') \<and> moved st src dst fromName toName v st'"
proof -
  have io': "good_cd (e_lookup e)" "good_cd (e_create e)" "good_cd (e_lookup2 e)" using io by (auto simp: move_good_def)
  from move_created [OF pre io'(1,2)] obtain m f where
    m: "cd_DoLookup (e_lookup e) (MetaBase_named fromName) (st src) = (0, m, {})" "mb_name m = fromName"
    and f: "on_file (cd_DoCreate (e_create e) (m\<lparr>mb_name := toName\<rparr>)) dst st = (0, st(dst := f))" "cd_inv f"
      "cd_observe f = (cd_observe (st dst))(toName \<mapsto> renamed_view toName v)" by metis
  let ?st1 = "st(dst := f)"
  have inv1: "cd_inv (?st1 d)" for d using pre f(2) by (simp add: move_pre_def)
  have "cd_observe (?st1 src) fromName \<noteq> None" using pre f(3) by (auto simp: move_pre_def)
  then obtain g m' where g: "on_lookup_remove (e_lookup2 e) (e_remove e) (m\<lparr>mb_name := fromName\<rparr>) src ?st1 = (0, m', ?st1(src := g))"
    "cd_inv g" "cd_observe g = (cd_observe (?st1 src))(fromName := None)" "levels g = levels (?st1 src)"
    using on_lookup_remove_present [of ?st1 src "e_lookup2 e" "e_remove e" "m\<lparr>mb_name := fromName\<rparr>", OF inv1 io'(3) io(2)] by auto
  have "move_dentry e src dst fromName toName st = (E_OK, Some m', ?st1(src := g))"
    using m f(1) g(1) by (simp add: move_dentry_def)
  moreover have "cd_inv ((?st1(src := g)) d)" for d using inv1 [of d] g(2) by simp
  moreover have "cd_observe ((?st1(src := g)) d) n = (if d = src \<and> n = fromName then None
      else if d = dst \<and> n = toName then Some (renamed_view toName v) else cd_observe (st d) n)" for d n
    using f(3) g(3) by auto
  moreover have "src \<noteq> dst \<longrightarrow> levels ((?st1(src := g)) src) = levels (st src)" using g(4) by simp
  ultimately show ?thesis by (auto simp: moved_def)
qed

lemma observed_entry:
  assumes "cd_inv f" and "cd_observe f n = Some v"
  shows "cde_hash v = DentryHash n False" and "unat (cde_namelen v) = length n" and "n \<noteq> []"
proof -
  obtain de where "cd_dir f n = Some de" "v = cd_view de" using assms(2) by (auto simp: cd_observe_def)
  moreover from this obtain idx i where e: "entry_at cd_layout f idx i" "entry_name cd_layout f idx i = n" "dentry_at f idx i = de"
    using dir_map_SomeD [of cd_layout "\<lambda>_. True" f n de] by (auto simp: cd_dir_def)
  moreover have wf: "wf_dir cd_layout f" using assms(1) by (simp add: cd_inv_def)
  moreover have "length (name_at cd_layout (pages f idx) i) = unat (cde_namelen (nsl (pages f idx) ! i))"
    using length_name_at [of cd_layout "pages f idx" i] e(1) wf by (simp add: wf_dir_def entry_at_def)
  moreover have "0 < unat (cde_namelen (dentry_at f idx i))" using e(1) by (simp add: entry_at_def head_def unat_gt_0)
  ultimately show "cde_hash v = DentryHash n False" "unat (cde_namelen v) = length n" "n \<noteq> []"
    by (auto simp: cd_view_def wf_dir_def)
qed

lemma renamed_back:
  assumes "cd_inv f" and "cd_observe f n = Some v"
  shows "renamed_view n (renamed_view m v) = v"
proof -
  have "cde_namelen v = word_of_nat (length n)" by (simp flip: observed_entry(2) [OF assms])
  then show ?thesis using observed_entry(1) [OF assms] by (simp add: renamed_view_def)
qed

text \<open>
  C10: moving an entry into the recycle directory and restoring it afterwards gives back exactly
  the directories there were: every attribute of the entry survives both moves and no other entry
  is touched.
\<close>

theorem recycle_roundtrip:
  assumes pre: "move_pre st p RECYCLE_CLOUD_ID old (new @ ''_'' @ to_string row) v" and p: "p \<noteq> RECYCLE_CLOUD_ID"
    and lv: "levels (st p) \<le> 18" and old: "length old \<le> 416"
    and io: "move_good e1" "good_cd (e_remove e1)" "move_good e2" "good_cd (e_remove e2)"
  shows "\<exists>m1 m2 st1 st2.
    MoveIntoRecycleDentryfile e1 \<lparr>ri_oldName = old, ri_parentCloudId = p, ri_newName = new, ri_rowId = row\<rparr> st = (E_OK, Some m1, st1) \<and>
    RemoveFromRecycleDentryfile e2 \<lparr>ri_oldName = new, ri_parentCloudId = p, ri_newName = old, ri_rowId = row\<rparr> st1 = (E_OK, Some m2, st2) \<and>
    (\<forall>d. cd_observe (st2 d) = cd_observe (st d))"
proof -
  let ?u = "new @ ''_'' @ to_string row"
  have inv: "cd_inv (st d)" for d using pre by (simp add: move_pre_def)
  have obs: "cd_observe (st p) old = Some v" "cd_observe (st RECYCLE_CLOUD_ID) ?u = None" "length (cde_recordId v) = 33"
    using pre by (auto simp: move_pre_def)
  from move_dentry_moves [OF pre io(1,2)] obtain m1 st1 where
    m1: "move_dentry e1 p RECYCLE_CLOUD_ID old ?u st = (E_OK, Some m1, st1)" "moved st p RECYCLE_CLOUD_ID old ?u v st1" by blast
  have "move_pre st1 RECYCLE_CLOUD_ID p ?u old (renamed_view ?u v)"
    using m1(2) lv p old obs observed_entry(3) [OF inv obs(1)] by (auto simp: move_pre_def moved_def renamed_view_def)
  from move_dentry_moves [OF this io(3,4)] obtain m2 st2 where
    m2: "move_dentry e2 RECYCLE_CLOUD_ID p ?u old st1 = (E_OK, Some m2, st2)"
      "moved st1 RECYCLE_CLOUD_ID p ?u old (renamed_view ?u v) st2" by blast
  have "cd_observe (st2 d) n = cd_observe (st d) n" for d n
    using m1(2) m2(2) obs p renamed_back [OF inv obs(1), of ?u] by (auto simp: moved_def)
  then show ?thesis
    using m1(1) m2(1) by (intro exI [of _ m1] exI [of _ m2] exI [of _ st1] exI [of _ st2])
      (auto simp: MoveIntoRecycleDentryfile_def RemoveFromRecycleDentryfile_def Let_def)
qed

definition mv_ok :: move_env where
  "mv_ok = \<lparr>e_lookup = cd_ok, e_create = cd_ok, e_lookup2 = cd_ok, e_remove = cd_ok, e_back1 = cd_ok, e_back2 = cd_ok\<rparr>"

lemma mv_ok_good [simp]: "move_good mv_ok" "good_cd (e_remove mv_ok)"
  by (simp_all add: move_good_def mv_ok_def)

lemma recycle_example:
  obtains st v where "move_pre st ''dir'' RECYCLE_CLOUD_ID ''ab'' (''ab'' @ ''_'' @ to_string 5) v" "levels (st ''dir'') \<le> 18"
proof -
  obtain f fl where f: "cd_inv f" "levels f \<le> levels empty_cd + 1"
      "cd_dir f = (cd_dir empty_cd)(mb_name base_ab \<mapsto> cd_dentry_of base_ab (DentryHash (mb_name base_ab) False) fl)"
    using cd_DoCreate_law [of empty_cd cd_ok base_ab] by auto
  let ?v = "cd_view (cd_dentry_of base_ab (DentryHash ''ab'' False) fl)"
  have "cd_observe f ''ab'' = Some ?v" "length (cde_recordId ?v) = 33"
    using f(3) by (simp_all add: cd_observe_def cd_view_def cd_dentry_of_def)
  moreover have "to_string 5 = ''5''" by (simp add: to_string_def to_string_nat.simps char_of_def bit_simps)
  ultimately have "move_pre ((\<lambda>_. empty_cd)(''dir'' := f)) ''dir'' RECYCLE_CLOUD_ID ''ab'' (''ab'' @ ''_'' @ to_string 5) ?v"
    using f(1) by (auto simp: move_pre_def)
  then show thesis using that [of "(\<lambda>_. empty_cd)(''dir'' := f)"] f(2) by simp
qed

theorem recycle_roundtrip_witness:
  "\<exists>st m1 m2 st1 st2.
    MoveIntoRecycleDentryfile mv_ok \<lparr>ri_oldName = ''ab'', ri_parentCloudId = ''dir'', ri_newName = ''ab'', ri_rowId = 5\<rparr> st = (E_OK, Some m1, st1) \<and>
    RemoveFromRecycleDentryfile mv_ok \<lparr>ri_oldName = ''ab'', ri_parentCloudId = ''dir'', ri_newName = ''ab'', ri_rowId = 5\<rparr> st1 = (E_OK, Some m2, st2) \<and>
    (\<forall>d. cd_observe (st2 d) = cd_observe (st d))"
proof -
  obtain st v where "move_pre st ''dir'' RECYCLE_CLOUD_ID ''ab'' (''ab'' @ ''_'' @ to_string 5) v" "levels (st ''dir'') \<le> 18"
    by (rule recycle_example)
  with recycle_roundtrip [of st "''dir''" "''ab''" "''ab''" 5 v mv_ok mv_ok] show ?thesis
    by - (rule exI [of _ st], simp only: append.simps mv_ok_good, simp)
qed

text \<open>
  C11: when the removal from the source cannot be written, a move into or out of the recycle
  directory reports EIO and undoes the creation: every directory is as it was.
\<close>

theorem recycle_move_rollback:
  assumes pre: "move_pre st src dst fromName toName v" and io: "move_good e"
    and rm: "good_cd ((e_remove e)\<lparr>write_ok := True\<rparr>)" "\<not> write_ok (e_remove e)"
  shows "\<exists>st'. move_dentry e src dst fromName toName st = (EIO, None, st') \<and> (\<forall>d. cd_observe (st' d) = cd_observe (st d))"
proof -
  have io': "good_cd (e_lookup e)" "good_cd (e_create e)" "good_cd (e_lookup2 e)" "good_cd (e_back1 e)" "good_cd (e_back2 e)"
    using io by (auto simp: move_good_def)
  from move_created [OF pre io'(1,2)] obtain m f where
    m: "cd_DoLookup (e_lookup e) (MetaBase_named fromName) (st src) = (0, m, {})" "mb_name m = fromName"
    and f: "on_file (cd_DoCreate (e_create e) (m\<lparr>mb_name := toName\<rparr>)) dst st = (0, st(dst := f))" "cd_inv f"
      "cd_observe f = (cd_observe (st dst))(toName \<mapsto> renamed_view toName v)" by metis
  let ?st1 = "st(dst := f)"
  have inv1: "cd_inv (?st1 d)" for d using pre f(2) by (simp add: move_pre_def)
  have "cd_observe (?st1 src) fromName \<noteq> None" using pre f(3) by (auto simp: move_pre_def)
  then obtain de where de: "cd_dir (?st1 src) fromName = Some de" by (auto simp: cd_observe_def)
  let ?m = "cd_lookup_base de (m\<lparr>mb_name := fromName\<rparr>)"
  have "cd_DoLookup (e_lookup2 e) (m\<lparr>mb_name := fromName\<rparr>) (?st1 src) = (0, ?m, {})"
    using de by (simp only: cd_DoLookup_law [OF inv1 io'(3)]) simp
  moreover have "cd_DoRemove (e_remove e) ?m (?st1 src) = (EIO, ?st1 src, {})"
    using de by (intro cd_remove_write_fail [OF inv1 rm]) (simp add: cd_lookup_base_def)
  ultimately have rmv: "on_lookup_remove (e_lookup2 e) (e_remove e) (m\<lparr>mb_name := fromName\<rparr>) src ?st1 = (EIO, ?m, ?st1)"
    by (auto simp: on_lookup_remove_def DoLookupAndRemove_def fun_eq_iff)
  obtain g m' where g: "on_lookup_remove (e_back1 e) (e_back2 e) (?m\<lparr>mb_name := toName\<rparr>) dst ?st1 = (0, m', ?st1(dst := g))"
    "cd_observe g = (cd_observe (?st1 dst))(toName := None)"
    using on_lookup_remove_present [of ?st1 dst "e_back1 e" "e_back2 e" "?m\<lparr>mb_name := toName\<rparr>", OF inv1 io'(4,5)] f(3) by auto
  have "move_dentry e src dst fromName toName st = (EIO, None, ?st1(dst := g))"
    using m f(1) rmv g(1) by (simp add: move_dentry_def)
  moreover have "cd_observe ((?st1(dst := g)) d) = cd_observe (st d)" for d
    using g(2) f(3) pre by (auto simp: move_pre_def fun_eq_iff)
  ultimately show ?thesis by blast
qed

theorem recycle_move_rollback_witness:
  "\<exists>st st'. move_dentry (mv_ok\<lparr>e_remove := cd_ok\<lparr>write_ok := False\<rparr>\<rparr>) ''dir'' RECYCLE_CLOUD_ID ''ab'' (''ab'' @ ''_'' @ to_string 5) st = (EIO, None, st') \<and>
    (\<forall>d. cd_observe (st' d) = cd_observe (st d))"
proof -
  obtain st v where "move_pre st ''dir'' RECYCLE_CLOUD_ID ''ab'' (''ab'' @ ''_'' @ to_string 5) v" by (rule recycle_example)
  moreover have "move_good (mv_ok\<lparr>e_remove := cd_ok\<lparr>write_ok := False\<rparr>\<rparr>)" by (simp add: move_good_def mv_ok_def)
  moreover have "good_cd (cd_ok\<lparr>write_ok := False, write_ok := True\<rparr>)" by (simp add: good_cd_def good_io_def cd_ok_def env_sane_def)
  ultimately show ?thesis
    using recycle_move_rollback [of st "''dir''" RECYCLE_CLOUD_ID "''ab''" "''ab'' @ ''_'' @ to_string 5" v "mv_ok\<lparr>e_remove := cd_ok\<lparr>write_ok := False\<rparr>\<rparr>"]
    by - (rule exI [of _ st], simp)
qed

lemma find_no_locks:
  assumes "\<And>i. \<not> lock_ok io i" and "env_sane io"
  shows "cd_FindDentry io n f = (None, {})"
proof -
  have "read_page (plain_env io) f i = None" for i using assms(1) by (simp add: read_page_def)
  then have "find_pages (read_page (plain_env io) f) fnd idxs = None" for fnd idxs by (cases idxs) simp_all
  then have "first_level (\<lambda>l. find_pages (read_page (plain_env io) f) fnd (B l)) l k = None" for fnd B l k
    by (induction k arbitrary: l) simp_all
  then show ?thesis by (simp add: cd_FindDentry_refines [OF assms(2)] Let_def find_entry_def lock_of_def)
qed

text \<open>
  C12: a failing second lookup is taken for an absent entry: when the source directory's locks
  cannot be taken any more, the move reports success although the entry now is in both
  directories.
\<close>

theorem recycle_move_duplicates:
  assumes pre: "move_pre st src dst fromName toName v" and io: "good_cd (e_lookup e)" "good_cd (e_create e)"
    and lk: "env_sane (e_lookup2 e)" "\<And>i. \<not> lock_ok (e_lookup2 e) i" "0 \<le> fd (e_lookup2 e)" and ne: "src \<noteq> dst"
  shows "\<exists>m st'. move_dentry e src dst fromName toName st = (E_OK, Some m, st') \<and>
    cd_observe (st' src) fromName = Some v \<and> cd_observe (st' dst) toName = Some (renamed_view toName v)"
proof -
  from move_created [OF pre io] obtain m f where
    m: "cd_DoLookup (e_lookup e) (MetaBase_named fromName) (st src) = (0, m, {})" "mb_name m = fromName"
    and f: "on_file (cd_DoCreate (e_create e) (m\<lparr>mb_name := toName\<rparr>)) dst st = (0, st(dst := f))" "cd_inv f"
      "cd_observe f = (cd_observe (st dst))(toName \<mapsto> renamed_view toName v)" by metis
  let ?st1 = "st(dst := f)"
  have "cd_DoLookup (e_lookup2 e) (m\<lparr>mb_name := fromName\<rparr>) (?st1 src) = (ENOENT, m\<lparr>mb_name := fromName\<rparr>, {})"
    using lk by (simp add: cd_DoLookup_def find_no_locks)
  then have "on_lookup_remove (e_lookup2 e) (e_remove e) (m\<lparr>mb_name := fromName\<rparr>) src ?st1 = (0, m\<lparr>mb_name := fromName\<rparr>, ?st1)"
    by (auto simp: on_lookup_remove_def DoLookupAndRemove_def fun_eq_iff)
  then have "move_dentry e src dst fromName toName st = (E_OK, Some (m\<lparr>mb_name := fromName\<rparr>), ?st1)"
    using m f(1) by (simp add: move_dentry_def)
  moreover have "cd_observe (?st1 src) fromName = Some v" "cd_observe (?st1 dst) toName = Some (renamed_view toName v)"
    using pre f(3) ne by (simp_all add: move_pre_def)
  ultimately show ?thesis by blast
qed

theorem recycle_move_duplicates_witness:
  "\<exists>st m st'. move_dentry (mv_ok\<lparr>e_lookup2 := cd_ok\<lparr>lock_ok := (\<lambda>_. False)\<rparr>\<rparr>) ''dir'' RECYCLE_CLOUD_ID ''ab'' (''ab'' @ ''_'' @ to_string 5) st =
     (E_OK, Some m, st') \<and> cd_observe (st' ''dir'') ''ab'' \<noteq> None"
proof -
  let ?e = "mv_ok\<lparr>e_lookup2 := cd_ok\<lparr>lock_ok := (\<lambda>_. False)\<rparr>\<rparr>"
  obtain st v where pre: "move_pre st ''dir'' RECYCLE_CLOUD_ID ''ab'' (''ab'' @ ''_'' @ to_string 5) v" by (rule recycle_example)
  have io: "good_cd (e_lookup ?e)" "good_cd (e_create ?e)" "env_sane (e_lookup2 ?e)" "\<And>i. \<not> lock_ok (e_lookup2 ?e) i" "0 \<le> fd (e_lookup2 ?e)"
    by (simp_all add: mv_ok_def cd_ok_def env_sane_def good_cd_def good_io_def)
  from recycle_move_duplicates [OF pre io] show ?thesis by - (rule exI [of _ st], auto)
qed

text \<open>
  updating through a callback creates a missing entry and updates an existing one, in both
  cases with the attributes the callback produced, and touches no other name.
\<close>

theorem cd_lookup_and_update:
  assumes inv: "cd_inv f" and io: "good_cd io1" "good_cd io2" and lv: "levels f \<le> 18"
    and cb: "\<And>m. mb_name m = name \<Longrightarrow> mb_name (callback m) = name" "\<And>m. mb_name m = name \<Longrightarrow> cd_valid (callback m)"
  shows "\<exists>f'. DoLookupAndUpdate io1 io2 name callback f = (E_OK, f') \<and> cd_inv f' \<and>
    cd_observe f' = (cd_observe f)(name \<mapsto> (case cd_dir f name of
       None \<Rightarrow> cd_view (cd_dentry_of (callback (MetaBase_named name)) (DentryHash name False) 0)
     | Some de \<Rightarrow> cd_view (cd_update_de (callback (cd_lookup_base de (MetaBase_named name))) de)))"
proof (cases "cd_dir f name")
  case None
  let ?m = "callback (MetaBase_named name)"
  have nm: "mb_name ?m = name" "cd_valid ?m" using cb by (simp_all add: MetaBase_named_def MetaBase_id_def)
  from cd_DoCreate_law [OF inv io(2) lv nm(2)] None nm(1) obtain f' fl where
    f': "cd_DoCreate io2 ?m f = (0, f', {})" "cd_inv f'" "cd_dir f' = (cd_dir f)(name \<mapsto> cd_dentry_of ?m (DentryHash name False) fl)" by auto
  have "cd_DoLookup io1 (MetaBase_named name) f = (ENOENT, MetaBase_named name, {})"
    using None by (simp add: cd_DoLookup_law [OF inv io(1)] MetaBase_named_def MetaBase_id_def)
  then have "DoLookupAndUpdate io1 io2 name callback f = (E_OK, f')" using f'(1) by (simp add: DoLookupAndUpdate_def)
  then show ?thesis using f'(2) cd_observe_upd [OF f'(3)] cd_view_fresh [of ?m _ fl] None by simp
next
  case (Some de)
  let ?m = "callback (cd_lookup_base de (MetaBase_named name))"
  have nm: "mb_name ?m = name" using cb by (simp add: cd_lookup_base_def MetaBase_named_def MetaBase_id_def)
  from cd_DoUpdate_law(2) [OF inv io(2), of ?m de] Some nm obtain f' where
    f': "cd_DoUpdate io2 ?m f = (0, f', {})" "cd_inv f'" "cd_dir f' = (cd_dir f)(name \<mapsto> cd_update_de ?m de)" by auto
  have "cd_DoLookup io1 (MetaBase_named name) f = (0, cd_lookup_base de (MetaBase_named name), {})"
    using Some by (simp add: cd_DoLookup_law [OF inv io(1)] MetaBase_named_def MetaBase_id_def)
  then have "DoLookupAndUpdate io1 io2 name callback f = (E_OK, f')" using f'(1) by (simp add: DoLookupAndUpdate_def)
  then show ?thesis using f'(2) cd_observe_upd [OF f'(3)] Some by simp
qed

theorem cd_lookup_and_update_witness:
  "\<exists>f'. DoLookupAndUpdate cd_ok cd_ok ''n'' (\<lambda>m. m\<lparr>mb_cloudId := ''id''\<rparr>) empty_cd = (E_OK, f') \<and> cd_observe f' ''n'' \<noteq> None"
proof -
  have "cd_valid (m\<lparr>mb_cloudId := ''id''\<rparr>)" if "mb_name m = ''n''" for m :: MetaBase using that by (simp add: cd_valid_def)
  then show ?thesis
    using cd_lookup_and_update [of empty_cd cd_ok cd_ok "''n''" "\<lambda>m. m\<lparr>mb_cloudId := ''id''\<rparr>"] by auto
qed

end
