(* ===== verification/Lru_Cache.thy ===== *)
theory Lru_Cache
  imports Dfs_Prelude
begin

text \<open>
  The object caches of the three meta file managers. A manager keeps a list of keys and objects,
  most recently used first, and a map from keys to list nodes. \<open>GetMetaFile\<close> makes room with a
  loop, \<open>GetCloudDiskMetaFile\<close> and \<open>GetCloudDiskServiceMetaFile\<close> with one test; both meet the
  contract of a least-recently-used cache, stated as the locale \<open>lru_cache\<close>.
\<close>

section \<open>The manager state\<close>

text \<open>
  \<open>mgr_list\<close> is \<open>metaFileList_\<close>, \<open>mgr_keys\<close> the key set of \<open>metaFiles_\<close>; the iterator stored
  under a key is the list node with that key.
\<close>

record ('k, 'f) mgr =
  mgr_list :: "('k \<times> 'f) list"
  mgr_keys :: "'k set"

definition mgr_empty :: "('k, 'f) mgr" where
  "mgr_empty = \<lparr>mgr_list = [], mgr_keys = {}\<rparr>"

definition mgr_find :: "'k \<Rightarrow> ('k, 'f) mgr \<Rightarrow> 'f option" where
  "mgr_find k m = (if k \<in> mgr_keys m then map_of (mgr_list m) k else None)"

text \<open>\<open>splice\<close> of the node found to the front.\<close>

definition mgr_touch :: "'k \<Rightarrow> 'f \<Rightarrow> ('k, 'f) mgr \<Rightarrow> ('k, 'f) mgr" where
  "mgr_touch k v m = m\<lparr>mgr_list := (k, v) # filter (\<lambda>(k', _). k' \<noteq> k) (mgr_list m)\<rparr>"

text \<open>Erase the key of the last node from the map, then \<open>pop_back\<close>.\<close>

definition mgr_evict :: "('k, 'f) mgr \<Rightarrow> ('k, 'f) mgr" where
  "mgr_evict m = \<lparr>mgr_list = butlast (mgr_list m), mgr_keys = mgr_keys m - {fst (last (mgr_list m))}\<rparr>"

definition mgr_push :: "'k \<Rightarrow> 'f \<Rightarrow> ('k, 'f) mgr \<Rightarrow> ('k, 'f) mgr" where
  "mgr_push k v m = \<lparr>mgr_list = (k, v) # mgr_list m, mgr_keys = insert k (mgr_keys m)\<rparr>"

text \<open>
  The loop of \<open>GetMetaFile\<close>. On an empty list \<open>back\<close> is undefined; the loop stops there, which
  the invariant below shows it never reaches.
\<close>

function evict_while :: "nat \<Rightarrow> ('k, 'f) mgr \<Rightarrow> ('k, 'f) mgr" where
  "evict_while cap m =
     (if card (mgr_keys m) \<ge> cap \<and> mgr_list m \<noteq> [] then evict_while cap (mgr_evict m) else m)"
  by pat_completeness auto
termination
  by (relation "measure (\<lambda>(cap, m). length (mgr_list m))") (auto simp: mgr_evict_def)

declare evict_while.simps [simp del]

definition get_while :: "nat \<Rightarrow> 'k \<Rightarrow> 'f \<Rightarrow> ('k, 'f) mgr \<Rightarrow> 'f \<times> ('k, 'f) mgr" where
  "get_while cap k new m =
     (case mgr_find k m of
        Some v \<Rightarrow> (v, mgr_touch k v m)
      | None \<Rightarrow> (new, mgr_push k new (evict_while cap m)))"

definition get_once :: "nat \<Rightarrow> 'k \<Rightarrow> 'f \<Rightarrow> ('k, 'f) mgr \<Rightarrow> 'f \<times> ('k, 'f) mgr" where
  "get_once cap k new m =
     (case mgr_find k m of
        Some v \<Rightarrow> (v, mgr_touch k v m)
      | None \<Rightarrow> (new, mgr_push k new (if card (mgr_keys m) = cap then mgr_evict m else m)))"

definition mgr_erase :: "'k \<Rightarrow> ('k, 'f) mgr \<Rightarrow> ('k, 'f) mgr" where
  "mgr_erase k m = \<lparr>mgr_list = filter (\<lambda>(k', _). k' \<noteq> k) (mgr_list m), mgr_keys = mgr_keys m - {k}\<rparr>"

section \<open>The invariant\<close>

definition mgr_inv :: "nat \<Rightarrow> ('k, 'f) mgr \<Rightarrow> bool" where
  "mgr_inv cap m \<longleftrightarrow> distinct (map fst (mgr_list m)) \<and> mgr_keys m = fst ` set (mgr_list m) \<and> length (mgr_list m) \<le> cap"

lemma mgr_inv_card: "mgr_inv cap m \<Longrightarrow> card (mgr_keys m) = length (mgr_list m)"
  using distinct_card [of "map fst (mgr_list m)"] by (simp add: mgr_inv_def)

lemma mgr_inv_empty [simp]: "mgr_inv cap mgr_empty"
  by (simp add: mgr_inv_def mgr_empty_def)

lemma mgr_find_map_of: "mgr_inv cap m \<Longrightarrow> mgr_find k m = map_of (mgr_list m) k"
  by (auto simp: mgr_inv_def mgr_find_def map_of_eq_None_iff [symmetric])

lemma keys_filter: "fst ` set (filter (\<lambda>(k', _). k' \<noteq> k) xs) = fst ` set xs - {k}"
  by force

lemma distinct_filter_keys: "distinct (map fst xs) \<Longrightarrow> distinct (map fst (filter P xs))"
  by (rule distinct_map_filter)

lemma length_filter_key:
  "k \<in> fst ` set xs \<Longrightarrow> length (filter (\<lambda>(k', _). k' \<noteq> k) xs) < length xs"
  by (auto intro: length_filter_less)

lemma mgr_touch_inv:
  assumes "mgr_inv cap m" and "mgr_find k m = Some v"
  shows "mgr_inv cap (mgr_touch k v m)"
proof -
  have "k \<in> fst ` set (mgr_list m)" using assms by (auto simp: mgr_find_def mgr_inv_def split: if_splits)
  then show ?thesis
    using assms(1) length_filter_key [of k "mgr_list m"]
    by (auto simp: mgr_inv_def mgr_touch_def keys_filter distinct_filter_keys simp del: set_filter)
qed

lemma mgr_erase_inv: "mgr_inv cap m \<Longrightarrow> mgr_inv cap (mgr_erase k m)"
  by (auto simp: mgr_inv_def mgr_erase_def keys_filter distinct_filter_keys simp del: set_filter
      intro: order_trans [OF length_filter_le])

lemma mgr_evict_inv:
  assumes "mgr_inv cap m" and "mgr_list m \<noteq> []"
  shows "mgr_inv (length (mgr_list m) - 1) (mgr_evict m)"
proof -
  from assms(2) obtain xs k v where l: "mgr_list m = xs @ [(k, v)]" by (metis rev_exhaust surj_pair)
  have "distinct (map fst xs)" "k \<notin> fst ` set xs" using assms(1) l by (auto simp: mgr_inv_def)
  then show ?thesis using assms(1) l by (auto simp: mgr_inv_def mgr_evict_def)
qed

lemma mgr_push_inv: "mgr_inv cap m \<Longrightarrow> k \<notin> fst ` set (mgr_list m) \<Longrightarrow> mgr_inv (Suc cap) (mgr_push k v m)"
  by (auto simp: mgr_inv_def mgr_push_def)

lemma mgr_inv_mono: "mgr_inv c m \<Longrightarrow> c \<le> d \<Longrightarrow> mgr_inv d m"
  by (auto simp: mgr_inv_def)

text \<open>The loop leaves the most recent entries, one fewer than the capacity.\<close>

lemma evict_while_eq:
  assumes "mgr_inv c m" and "0 < cap"
  shows "mgr_list (evict_while cap m) = take (cap - 1) (mgr_list m) \<and> mgr_inv (cap - 1) (evict_while cap m)"
  using assms
proof (induction "length (mgr_list m)" arbitrary: m c rule: less_induct)
  case less
  note card = mgr_inv_card [OF less.prems(1)]
  show ?case
  proof (cases "cap \<le> length (mgr_list m)")
    case True
    then have ne: "mgr_list m \<noteq> []" using less.prems(2) by auto
    have le: "cap - 1 \<le> length (mgr_list m) - 1" "length (mgr_list (mgr_evict m)) = length (mgr_list m) - 1"
      using True ne by (auto simp: mgr_evict_def)
    then have "mgr_list (evict_while cap (mgr_evict m)) = take (cap - 1) (mgr_list (mgr_evict m)) \<and>
        mgr_inv (cap - 1) (evict_while cap (mgr_evict m))"
      using less.hyps [OF _ mgr_evict_inv [OF less.prems(1) ne] less.prems(2)] ne by simp
    moreover have "evict_while cap m = evict_while cap (mgr_evict m)"
      using True ne card by (subst evict_while.simps) simp
    moreover have "take (cap - 1) (mgr_list (mgr_evict m)) = take (cap - 1) (mgr_list m)"
      using le by (auto simp: mgr_evict_def butlast_conv_take min_def)
    ultimately show ?thesis by simp
  next
    case False
    then show ?thesis
      using less.prems card by (subst (1 2) evict_while.simps) (auto simp: mgr_inv_def)
  qed
qed

section \<open>The contract\<close>

text \<open>The keys used since an object was last touched are the only ones in front of it.\<close>

definition behind :: "'k \<Rightarrow> 'f \<Rightarrow> 'k set \<Rightarrow> ('k, 'f) mgr \<Rightarrow> bool" where
  "behind k v S m \<longleftrightarrow> (\<exists>xs ys. mgr_list m = xs @ (k, v) # ys \<and> fst ` set xs \<subseteq> S)"

locale lru_cache =
  fixes cap :: nat and get :: "'k \<Rightarrow> 'f \<Rightarrow> ('k, 'f) mgr \<Rightarrow> 'f \<times> ('k, 'f) mgr"
  assumes cap: "0 < cap"
    and hit: "mgr_inv cap m \<Longrightarrow> map_of (mgr_list m) k = Some v \<Longrightarrow> fst (get k new m) = v \<and>
      mgr_inv cap (snd (get k new m)) \<and> mgr_list (snd (get k new m)) = (k, v) # filter (\<lambda>(k', _). k' \<noteq> k) (mgr_list m)"
    and miss: "mgr_inv cap m \<Longrightarrow> map_of (mgr_list m) k = None \<Longrightarrow> fst (get k new m) = new \<and>
      mgr_inv cap (snd (get k new m)) \<and> mgr_list (snd (get k new m)) = (k, new) # take (cap - 1) (mgr_list m)"
begin

lemma get_inv: "mgr_inv cap m \<Longrightarrow> mgr_inv cap (snd (get k new m))"
  using hit [of m k _ new] miss [of m k new] by (cases "map_of (mgr_list m) k") auto

lemma get_front:
  "mgr_inv cap m \<Longrightarrow> \<exists>xs. mgr_list (snd (get k new m)) = (k, fst (get k new m)) # xs \<and> fst ` set xs \<subseteq> fst ` set (mgr_list m) - {k}"
proof (cases "map_of (mgr_list m) k")
  case None
  assume "mgr_inv cap m"
  from miss [OF this None, of new] None show ?thesis by (auto simp: map_of_eq_None_iff dest: in_set_takeD)
next
  case (Some v)
  assume "mgr_inv cap m"
  from hit [OF this Some, of new] show ?thesis by auto
qed

lemma behind_get:
  assumes inv: "mgr_inv cap m" and b: "behind k v S m" and k': "k' \<noteq> k" and S: "finite S" "card (insert k' S) < cap"
  shows "behind k v (insert k' S) (snd (get k' new m))"
proof -
  from b obtain xs ys where l: "mgr_list m = xs @ (k, v) # ys" and xs: "fst ` set xs \<subseteq> S" by (auto simp: behind_def)
  show ?thesis
  proof (cases "map_of (mgr_list m) k'")
    case (Some w)
    from hit [OF inv Some, of new] l k' have "mgr_list (snd (get k' new m)) =
        ((k', w) # filter (\<lambda>(k'', _). k'' \<noteq> k') xs) @ (k, v) # filter (\<lambda>(k'', _). k'' \<noteq> k') ys" by simp
    then show ?thesis unfolding behind_def using xs by (intro exI conjI) (assumption, auto)
  next
    case None
    then have new: "k' \<notin> fst ` set xs" using l by (auto simp: map_of_eq_None_iff)
    have "distinct (map fst xs)" using inv l by (simp add: mgr_inv_def)
    then have "length xs = card (fst ` set xs)" using distinct_card [of "map fst xs"] by simp
    moreover have "card (insert k' (fst ` set xs)) \<le> card (insert k' S)" using xs S(1) by (intro card_mono) auto
    ultimately have "length xs < cap - 1" using new S(2) by simp
    then have "take (cap - 1) (mgr_list m) = xs @ (k, v) # take (cap - 1 - length xs - 1) ys"
      using l by (simp add: take_Cons')
    with miss [OF inv None, of new] have "mgr_list (snd (get k' new m)) =
        ((k', new) # xs) @ (k, v) # take (cap - 1 - length xs - 1) ys" by simp
    then show ?thesis unfolding behind_def using xs by (intro exI conjI) (assumption, auto)
  qed
qed

lemma survives:
  assumes "mgr_inv cap m" and "behind k v S m" and "finite S" and "k \<notin> fst ` set uses"
    and "card (S \<union> fst ` set uses) < cap"
  shows "\<exists>S'. behind k v S' (fold (\<lambda>(k', new) m. snd (get k' new m)) uses m) \<and>
    mgr_inv cap (fold (\<lambda>(k', new) m. snd (get k' new m)) uses m)"
  using assms
proof (induction uses arbitrary: m S)
  case (Cons u uses)
  obtain k' new where u: "u = (k', new)" by (cases u)
  have le: "card (insert k' S) \<le> card (S \<union> fst ` set (u # uses))" using Cons.prems(3) u by (intro card_mono) auto
  have "behind k v (insert k' S) (snd (get k' new m))"
    using behind_get [OF Cons.prems(1,2) _ Cons.prems(3)] Cons.prems(4,5) u le by auto
  from Cons.IH [OF get_inv [OF Cons.prems(1)] this] Cons.prems u show ?case by auto
qed auto

lemma keeps_recent:
  assumes inv: "mgr_inv cap m" and k: "k \<notin> fst ` set uses" and few: "card (fst ` set uses) < cap"
  shows "fst (get k other (fold (\<lambda>(k', new) m. snd (get k' new m)) uses (snd (get k new m)))) = fst (get k new m)"
proof -
  let ?m = "snd (get k new m)" and ?run = "fold (\<lambda>(k', new) m. snd (get k' new m)) uses"
  from get_front [OF inv, of k new] have "behind k (fst (get k new m)) {} ?m"
    unfolding behind_def by (metis append_Nil empty_subsetI image_empty list.set(1))
  from survives [OF get_inv [OF inv] this _ k] few obtain S where
    b: "behind k (fst (get k new m)) S (?run ?m)" and i: "mgr_inv cap (?run ?m)" by auto
  from b i have "map_of (mgr_list (?run ?m)) k = Some (fst (get k new m))"
    by (auto simp: behind_def mgr_inv_def map_add_def map_of_eq_None_iff split: option.splits)
  from hit [OF i this] show ?thesis by simp
qed

end

lemma evict_once_eq:
  assumes "mgr_inv cap m" and "0 < cap"
  defines "m' \<equiv> if card (mgr_keys m) = cap then mgr_evict m else m"
  shows "mgr_list m' = take (cap - 1) (mgr_list m) \<and> mgr_inv (cap - 1) m'"
proof (cases "length (mgr_list m) = cap")
  case True
  then have ne: "mgr_list m \<noteq> []" using assms(2) by auto
  then show ?thesis using True mgr_inv_card [OF assms(1)] mgr_evict_inv [OF assms(1)]
    by (simp add: m'_def mgr_evict_def butlast_conv_take)
next
  case False
  then show ?thesis using mgr_inv_card [OF assms(1)] assms(1) by (auto simp: m'_def mgr_inv_def)
qed

lemma lru_push:
  assumes "mgr_list m' = take (cap - 1) (mgr_list m) \<and> mgr_inv (cap - 1) m'" and "map_of (mgr_list m) k = None" and "0 < cap"
  shows "mgr_inv cap (mgr_push k v m') \<and> mgr_list (mgr_push k v m') = (k, v) # take (cap - 1) (mgr_list m)"
proof -
  have "k \<notin> fst ` set (mgr_list m')" using assms by (auto simp: map_of_eq_None_iff dest: in_set_takeD)
  then show ?thesis using mgr_push_inv [of "cap - 1" m' k v] assms by (simp add: mgr_push_def)
qed

lemma lru_touch:
  assumes "mgr_inv cap m" and "map_of (mgr_list m) k = Some v"
  shows "mgr_inv cap (mgr_touch k v m) \<and> mgr_list (mgr_touch k v m) = (k, v) # filter (\<lambda>(k', _). k' \<noteq> k) (mgr_list m)"
  using mgr_touch_inv [OF assms(1)] mgr_find_map_of [OF assms(1), of k] assms(2) by (simp add: mgr_touch_def)

lemma lru_get_while: "0 < cap \<Longrightarrow> lru_cache cap (get_while cap)"
proof (unfold_locales, goal_cases)
  case (2 m k v new)
  then show ?case using lru_touch [OF 2(2,3)] by (simp add: get_while_def mgr_find_map_of)
next
  case (3 m k new)
  then show ?case using lru_push [OF evict_while_eq [OF 3(2,1)] 3(3,1)] by (simp add: get_while_def mgr_find_map_of)
qed

lemma lru_get_once: "0 < cap \<Longrightarrow> lru_cache cap (get_once cap)"
proof (unfold_locales, goal_cases)
  case (2 m k v new)
  then show ?case using lru_touch [OF 2(2,3)] by (simp add: get_once_def mgr_find_map_of)
next
  case (3 m k new)
  then show ?case using lru_push [OF evict_once_eq [OF 3(2,1)] 3(3,1)] by (simp add: get_once_def mgr_find_map_of)
qed

end
