(* ===== verification/Convertor.thy ===== *)
theory Convertor
  imports Dfs_Prelude
begin

text \<open>
  \<open>Convertor\<close> of \<open>services/clouddiskservice/sync_folder/src/convertor.cpp\<close>: fixed-width hexadecimal
  rendering of 64-bit values, used to name dentry files and sync folders, and its inverse.
\<close>

section \<open>Definitions\<close>

definition hex_digit :: "u64 \<Rightarrow> char" where
  "hex_digit digit = (if digit < 10 then char_of (48 + unat digit) else char_of (97 + unat digit - 10))"

text \<open>The loop writes the buffer from its end; \<open>n\<close> digits remain.\<close>

primrec hex_loop :: "nat \<Rightarrow> u64 \<Rightarrow> string \<Rightarrow> string" where
  "hex_loop 0 v buf = buf"
| "hex_loop (Suc n) v buf = hex_loop n (drop_bit 4 v) (hex_digit (v AND 0xF) # buf)"

definition ConvertToHex :: "u64 \<Rightarrow> string" where
  "ConvertToHex v = hex_loop 16 v []"

definition hex_value :: "char \<Rightarrow> u64 option" where
  "hex_value c =
     (let n = of_char c :: nat in
      if 48 \<le> n \<and> n \<le> 57 then Some (word_of_nat (n - 48))
      else if 97 \<le> n \<and> n \<le> 102 then Some (word_of_nat (n - 97 + 10))
      else if 65 \<le> n \<and> n \<le> 70 then Some (word_of_nat (n - 65 + 10))
      else None)"

fun from_hex_loop :: "u64 \<Rightarrow> string \<Rightarrow> u64" where
  "from_hex_loop v [] = v"
| "from_hex_loop v (c # cs) =
     (case hex_value c of Some d \<Rightarrow> from_hex_loop (push_bit 4 v OR d) cs | None \<Rightarrow> 0)"

definition ConvertFromHex :: "string \<Rightarrow> u64" where
  "ConvertFromHex hex = from_hex_loop 0 hex"

section \<open>Round trip\<close>

lemma nibble: "v AND 0xF = take_bit 4 (v :: u64)" and nibble_less: "take_bit 4 v < (16 :: u64)"
proof -
  have "(0xF :: u64) = mask 4" by (simp add: mask_eq_exp_minus_1)
  then show "v AND 0xF = take_bit 4 v" by (simp add: take_bit_eq_mask)
  show "take_bit 4 v < (16 :: u64)" by (simp add: take_bit_eq_mod word_less_nat_alt unat_mod_distrib)
qed

lemma length_hex_loop [simp]: "length (hex_loop n v buf) = n + length buf"
  by (induction n arbitrary: v buf) auto

lemma hex_value_digit: "d < 16 \<Longrightarrow> hex_value (hex_digit d) = Some d"
proof -
  assume "d < 16"
  then have d: "unat d < 16" by (simp add: word_less_nat_alt)
  show ?thesis
    using d by (auto simp: hex_value_def hex_digit_def Let_def word_less_nat_alt)
qed

lemma nibble_step:
  "push_bit 4 (push_bit (4 * n) acc OR take_bit (4 * n) (drop_bit 4 v)) OR take_bit 4 v =
   push_bit (4 * Suc n) acc OR take_bit (4 * Suc n) (v :: u64)"
proof (rule bit_word_eqI)
  fix i assume "i < LENGTH(64)"
  then show "bit (push_bit 4 (push_bit (4 * n) acc OR take_bit (4 * n) (drop_bit 4 v)) OR take_bit 4 v) i =
      bit (push_bit (4 * Suc n) acc OR take_bit (4 * Suc n) v) i"
    by (cases "i < 4") (auto simp: bit_simps algebra_simps)
qed

lemma from_hex_hex_loop:
  "from_hex_loop acc (hex_loop n v buf) = from_hex_loop (push_bit (4 * n) acc OR take_bit (4 * n) v) buf"
proof (induction n arbitrary: v buf)
  case (Suc n)
  show ?case
    by (simp add: Suc nibble hex_value_digit [OF nibble_less] nibble_step [simplified])
qed simp

lemma hex_roundtrip [simp]: "ConvertFromHex (ConvertToHex v) = v"
proof -
  have "take_bit 64 v = v" by (rule bit_word_eqI) (simp add: bit_simps)
  then show ?thesis by (simp add: ConvertFromHex_def ConvertToHex_def from_hex_hex_loop)
qed

lemma length_ConvertToHex [simp]: "length (ConvertToHex v) = 16"
  by (simp add: ConvertToHex_def)

lemma ConvertToHex_inject [simp]: "ConvertToHex v = ConvertToHex w \<longleftrightarrow> v = w"
  by (metis hex_roundtrip)

text \<open>
  the hexadecimal name of a 64-bit value has 16 characters and reads back as the value, so
  that distinct inodes and sync folders have distinct names.
\<close>

theorem convert_hex_roundtrip: "ConvertFromHex (ConvertToHex v) = v \<and> length (ConvertToHex v) = 16"
  by simp

end
