(* ===== verification/Record_Id.thy ===== *)
theory Record_Id
  imports Dfs_Prelude Convertor
begin

text \<open>
  The record id codecs of \<open>utils/dentry/src/meta_file.cpp\<close>: \<open>RecordIdToCloudId\<close> packs a hexadecimal
  record id into bytes, \<open>CloudIdToRecordId\<close> prints the bytes. Ids of the home data center are
  padded to an even length with a leading zero and terminated by \<open>ff\<close>.
\<close>

section \<open>Definitions\<close>

definition hex_val :: "char \<Rightarrow> nat option" where
  "hex_val c = map_option unat (hex_value c)"

text \<open>
  \<open>strtoul (s, &end, 16)\<close> on a string of at most two characters: leading white space, a sign,
  digits. The result is the value as \<open>unsigned long\<close> and the number of characters consumed, zero
  when there is no digit. A prefix \<open>0x\<close> needs a third character.
\<close>

fun hex_digits :: "u64 \<Rightarrow> string \<Rightarrow> u64 \<times> nat" where
  "hex_digits v [] = (v, 0)"
| "hex_digits v (c # cs) =
     (case hex_val c of None \<Rightarrow> (v, 0)
      | Some d \<Rightarrow> (case hex_digits (16 * v + word_of_nat d) cs of (w, n) \<Rightarrow> (w, Suc n)))"

definition is_space :: "char \<Rightarrow> bool" where
  "is_space c \<longleftrightarrow> of_char c = (32::nat) \<or> ((9::nat) \<le> of_char c \<and> of_char c \<le> (13::nat))"

definition strtoul16 :: "string \<Rightarrow> u64 \<times> nat" where
  "strtoul16 s =
     (let sp = length (takeWhile is_space s);
          s1 = drop sp s;
          sg = (if s1 \<noteq> [] \<and> hd s1 \<in> {CHR ''+'', CHR ''-''} then 1 else 0);
          neg = (sg = 1 \<and> hd s1 = CHR ''-'');
          (v, n) = hex_digits 0 (drop sg s1)
      in if n = 0 then (0, 0) else (if neg then - v else v, sp + sg + n))"

text \<open>The loop over byte pairs; \<open>None\<close> is the return of the empty string on a malformed pair.\<close>

fun hex_pairs :: "string \<Rightarrow> string option" where
  "hex_pairs [] = Some []"
| "hex_pairs [c] =
     (case strtoul16 [c] of (v, n) \<Rightarrow> if n \<noteq> 1 then None else Some [char_of (unat v)])"
| "hex_pairs (c # d # s) =
     (case strtoul16 [c, d] of (v, n) \<Rightarrow>
        if n \<noteq> 2 then None else map_option ((#) (char_of (unat v))) (hex_pairs s))"

definition RecordIdToCloudId :: "string \<Rightarrow> bool \<Rightarrow> string" where
  "RecordIdToCloudId hexStr isHdc =
     (let srcStr = (if isHdc then (if length hexStr mod 2 \<noteq> 0 then ''0'' @ hexStr @ ''ff'' else hexStr @ ''ff'') else hexStr)
      in case hex_pairs srcStr of None \<Rightarrow> '''' | Some result \<Rightarrow> if length result > 33 then '''' else result)"

text \<open>\<open>std::setw (2) << std::setfill ('0') << std::hex\<close> of a byte.\<close>

definition hex_char :: "nat \<Rightarrow> char" where
  "hex_char d = hex_digit (word_of_nat d)"

definition hex_byte :: "char \<Rightarrow> string" where
  "hex_byte c = [hex_char (of_char c div 16), hex_char (of_char c mod 16)]"

text \<open>\<open>std::string::find (pat)\<close>: the first position, \<open>None\<close> for \<open>npos\<close>.\<close>

fun find_sub :: "string \<Rightarrow> string \<Rightarrow> nat option" where
  "find_sub pat [] = (if pat = [] then Some 0 else None)"
| "find_sub pat (c # s) = (if take (length pat) (c # s) = pat then Some 0 else map_option Suc (find_sub pat s))"

definition CloudIdToRecordId :: "string \<Rightarrow> bool \<Rightarrow> string" where
  "CloudIdToRecordId cloudId isHdc =
     (let recordId = concat (map hex_byte cloudId)
      in if \<not> isHdc then recordId
         else if recordId = [] then recordId
         else let recordId = (if hd recordId = CHR ''0'' then tl recordId else recordId)
              in case find_sub ''ff'' recordId of None \<Rightarrow> recordId | Some pos \<Rightarrow> take pos recordId)"

section \<open>Lower-case hexadecimal strings\<close>

definition lower_hex :: "char \<Rightarrow> bool" where
  "lower_hex c \<longleftrightarrow> (\<exists>d < 16. c = hex_char d)"

lemma hex_val_char: "d < 16 \<Longrightarrow> hex_val (hex_char d) = Some d"
  using hex_value_digit [of "word_of_nat d"] by (simp add: hex_val_def hex_char_def word_less_nat_alt unat_of_nat)

lemma hex_char_not_special: "d < 16 \<Longrightarrow> \<not> is_space (hex_char d) \<and> hex_char d \<noteq> CHR ''+'' \<and> hex_char d \<noteq> CHR ''-''"
proof -
  assume d: "d < 16"
  have "hex_val (CHR ''+'') = None" "hex_val (CHR ''-'') = None" by (simp_all add: hex_val_def hex_value_def)
  moreover have "hex_val c = None" if "is_space c" for c using that by (auto simp: hex_val_def hex_value_def is_space_def Let_def)
  ultimately show ?thesis using hex_val_char [OF d] by force
qed

lemma strtoul16_pair:
  assumes "a < 16" "b < 16"
  shows "strtoul16 [hex_char a, hex_char b] = (word_of_nat (16 * a + b), 2)"
  using assms by (simp add: strtoul16_def hex_char_not_special hex_val_char Let_def)

lemma hex_byte_pair:
  assumes "a < 16" "b < 16"
  shows "hex_byte (char_of (16 * a + b)) = [hex_char a, hex_char b]"
  using assms by (simp add: hex_byte_def)

lemma hex_pairs_lower:
  "list_all lower_hex s \<Longrightarrow> even (length s) \<Longrightarrow>
    \<exists>r. hex_pairs s = Some r \<and> 2 * length r = length s \<and> concat (map hex_byte r) = s"
proof (induction s rule: hex_pairs.induct)
  case (3 c d s)
  then obtain a b where ab: "a < 16" "b < 16" "c = hex_char a" "d = hex_char b" by (auto simp: lower_hex_def)
  have "unat (word_of_nat (16 * a + b) :: u64) = 16 * a + b"
    using ab by (simp add: unat_of_nat del: of_nat_add of_nat_mult)
  with 3 strtoul16_pair [OF ab(1,2)] hex_byte_pair [OF ab(1,2)] ab show ?case by auto
qed auto

lemma hex_pairs_bytes: "hex_pairs (concat (map hex_byte r)) = Some r"
proof (induction r)
  case (Cons c r)
  have c: "(of_char c :: nat) < 256" by (metis mod_less_divisor of_char_mod_256 zero_less_numeral)
  then have ab: "of_char c div 16 < (16 :: nat)" "of_char c mod 16 < (16 :: nat)" by (simp_all add: div_less_iff_less_mult)
  have "unat (word_of_nat (of_char c) :: u64) = of_char c" unfolding unat_of_nat by (rule mod_less, rule less_trans [OF c]) simp
  moreover have "16 * (of_char c div 16) + of_char c mod 16 = (of_char c :: nat)" by simp
  ultimately show ?case using Cons strtoul16_pair [OF ab] by (simp add: hex_byte_def)
qed simp

section \<open>Properties\<close>

lemma lower_hex_f: "lower_hex CHR ''f''" "lower_hex CHR ''0''"
proof -
  have "char_of (102 :: nat) = CHR ''f''" "char_of (48 :: nat) = CHR ''0''" by code_simp+
  then have h: "CHR ''f'' = hex_char 15" "CHR ''0'' = hex_char 0" by (simp_all add: hex_char_def hex_digit_def)
  show "lower_hex CHR ''f''" unfolding lower_hex_def by (rule exI [of _ 15]) (simp add: h(1))
  show "lower_hex CHR ''0''" unfolding lower_hex_def by (rule exI [of _ 0]) (simp add: h(2))
qed

lemma find_sub_bounds: "find_sub pat s = Some i \<Longrightarrow> i + length pat \<le> length s"
proof (induction s arbitrary: i)
  case (Cons c s)
  show ?case
  proof (cases "take (length pat) (c # s) = pat")
    case True
    then have "length pat \<le> length (c # s)" by (metis length_take min.cobounded1 nat_le_linear take_all)
    then show ?thesis using Cons True by simp
  next
    case False
    then show ?thesis using Cons by (auto split: option.splits)
  qed
qed (auto split: if_splits)

lemma find_sub_total: "find_sub pat (s @ pat) \<noteq> None"
  by (induction s) (cases pat, auto)

text \<open>
  C21: A record id of lower-case hexadecimal digits, of even length and at most 66 digits, becomes
  half as many bytes and reads back unchanged; a cloud id of at most 33 bytes prints as a record id
  that packs to the same bytes.\<close>

theorem record_id_roundtrip:
  assumes "list_all lower_hex recordId" and "even (length recordId)" and "length recordId \<le> 66" and "length cloudId \<le> 33"
  shows "CloudIdToRecordId (RecordIdToCloudId recordId False) False = recordId \<and>
    2 * length (RecordIdToCloudId recordId False) = length recordId \<and>
    RecordIdToCloudId (CloudIdToRecordId cloudId False) False = cloudId"
proof -
  from hex_pairs_lower [OF assms(1,2)] obtain r where "hex_pairs recordId = Some r" "2 * length r = length recordId"
    "concat (map hex_byte r) = recordId" by blast
  then show ?thesis using assms(3,4) by (auto simp: RecordIdToCloudId_def CloudIdToRecordId_def hex_pairs_bytes)
qed

theorem record_id_roundtrip_witness:
  "CloudIdToRecordId (RecordIdToCloudId ''0f'' False) False = ''0f''"
proof -
  have "list_all lower_hex ''0f''" using lower_hex_f by simp
  with record_id_roundtrip [of "''0f''" "''x''"] show ?thesis by simp
qed

text \<open>
  An id of the home data center survives the conversion to a cloud id and back exactly when the
  terminator ff occurs in it nowhere before its end and, for an even number of digits, it does
  not start with a zero: the terminator search stops at the first ff, and the padding zero is
  stripped also from ids that were not padded.\<close>

theorem hdc_id_roundtrip_iff:
  assumes "list_all lower_hex recordId" and "length recordId \<le> 63"
  shows "CloudIdToRecordId (RecordIdToCloudId recordId True) True = recordId \<longleftrightarrow>
    find_sub ''ff'' (recordId @ ''ff'') = Some (length recordId) \<and>
    (odd (length recordId) \<or> recordId = [] \<or> hd recordId \<noteq> CHR ''0'')"
proof -
  let ?src = "if odd (length recordId) then ''0'' @ recordId @ ''ff'' else recordId @ ''ff''"
  let ?s = "if hd ?src = CHR ''0'' then tl ?src else ?src"
  have "list_all lower_hex ?src" "even (length ?src)" using assms(1) lower_hex_f by simp_all
  from hex_pairs_lower [OF this] obtain r where r: "hex_pairs ?src = Some r" "2 * length r = length ?src"
    "concat (map hex_byte r) = ?src" by blast
  have "RecordIdToCloudId recordId True = r"
    using r(1,2) assms(2) by (auto simp: RecordIdToCloudId_def odd_iff_mod_2_eq_one split: if_splits)
  then have eq: "CloudIdToRecordId (RecordIdToCloudId recordId True) True =
      (case find_sub ''ff'' ?s of None \<Rightarrow> ?s | Some pos \<Rightarrow> take pos ?s)"
    using r(3) by (auto simp: CloudIdToRecordId_def Let_def)
  show ?thesis
  proof (cases "odd (length recordId) \<or> recordId = [] \<or> hd recordId \<noteq> CHR ''0''")
    case True
    then have s: "?s = recordId @ ''ff''" by (cases recordId) auto
    obtain i where i: "find_sub ''ff'' (recordId @ ''ff'') = Some i" using find_sub_total [of "''ff''" recordId] by auto
    from find_sub_bounds [OF i] have "i \<le> length recordId" by simp
    then have "take i (recordId @ ''ff'') = recordId \<longleftrightarrow> i = length recordId"
      by (auto dest: arg_cong [of _ _ length])
    then show ?thesis using eq s i True by simp
  next
    case False
    then obtain w where w: "recordId = CHR ''0'' # w" by (cases recordId) auto
    then have s: "?s = w @ ''ff''" using False by auto
    obtain i where i: "find_sub ''ff'' (w @ ''ff'') = Some i" using find_sub_total [of "''ff''" w] by auto
    from find_sub_bounds [OF i] have "length (take i (w @ ''ff'')) < length recordId" using w by simp
    then have "take i (w @ ''ff'') \<noteq> recordId" by auto
    then have "CloudIdToRecordId (RecordIdToCloudId recordId True) True \<noteq> recordId" using eq s i by simp
    then show ?thesis using False by blast
  qed
qed

theorem hdc_id_roundtrip_iff_witness:
  "CloudIdToRecordId (RecordIdToCloudId ''00'' True) True \<noteq> ''00''"
proof -
  have "list_all lower_hex ''00''" using lower_hex_f by simp
  with hdc_id_roundtrip_iff [of "''00''"] show ?thesis by simp
qed

end
