(* ===== verification/Meta_File_Mgr.thy ===== *)
theory Meta_File_Mgr
  imports Meta_File Lru_Cache Record_Id
begin

text \<open>
  The manager of \<open>MetaFile\<close> objects, the \<open>MetaFile\<close> constructor and the path helpers of
  \<open>utils/dentry/src/meta_file.cpp\<close>. Constructing the object of a directory asks the manager for
  the object of the parent, whose constructor asks for its parent in turn, and registers the
  directory by name in the parent's dentry file. The manager's objects share one file system: two
  paths whose names hash alike share a dentry file.
\<close>

unbundle bit_operations_syntax

section \<open>Paths\<close>

fun path_hash_loop :: "bool \<Rightarrow> bool \<Rightarrow> u64 \<Rightarrow> string \<Rightarrow> u64" where
  "path_hash_loop char_signed caseSense res [] = res"
| "path_hash_loop char_signed caseSense res (c # kp) =
     (if c = NUL then res
      else path_hash_loop char_signed caseSense
             (push_bit 5 res - res + word_of_int (char_val char_signed (if caseSense then c else tolower c))) kp)"

definition PathHash :: "bool \<Rightarrow> string \<Rightarrow> bool \<Rightarrow> u64" where
  "PathHash char_signed path caseSense = path_hash_loop char_signed caseSense 0 path"

text \<open>\<open>%016llx\<close> renders like \<open>ConvertToHex\<close>: 16 lower-case digits with leading zeros.\<close>

definition GetDentryfileName :: "bool \<Rightarrow> string \<Rightarrow> bool \<Rightarrow> string" where
  "GetDentryfileName char_signed path caseSense = ''cloud_'' @ ConvertToHex (PathHash char_signed path caseSense)"

definition GetDentryfileByPath :: "bool \<Rightarrow> nat \<Rightarrow> string \<Rightarrow> bool \<Rightarrow> string" where
  "GetDentryfileByPath char_signed userId path caseSense =
     ''/data/service/el2/'' @ to_string_nat userId @ ''/hmdfs/cache/account_cache/dentry_cache/cloud/'' @
     GetDentryfileName char_signed path caseSense"

definition GetParentDir :: "string \<Rightarrow> string" where
  "GetParentDir path =
     (if path = ''/'' \<or> path = '''' then ''''
      else case find_last_of CHR ''/'' path of
        None \<Rightarrow> ''/''
      | Some pos \<Rightarrow> if pos = 0 then ''/'' else take pos path)"

definition GetFileName :: "string \<Rightarrow> string" where
  "GetFileName path =
     (if path = ''/'' \<or> path = '''' then ''''
      else case find_last_of CHR ''/'' path of
        None \<Rightarrow> ''''
      | Some pos \<Rightarrow> drop (pos + 1) path)"

section \<open>Objects, files and the manager\<close>

record MetaFileObj =
  mo_path :: string
  mo_fd :: int
  mo_ino :: nat

text \<open>Names of cache files, the files behind them, and the next file number.\<close>

record file_sys =
  fs_names :: "string \<Rightarrow> nat option"
  fs_inodes :: "nat \<Rightarrow> meta_file"
  fs_next :: nat

definition fs_open :: "string \<Rightarrow> file_sys \<Rightarrow> nat \<times> file_sys" where
  "fs_open name fs =
     (case fs_names fs name of
        Some i \<Rightarrow> (i, fs)
      | None \<Rightarrow> (fs_next fs, fs\<lparr>fs_names := (fs_names fs)(name \<mapsto> fs_next fs),
                    fs_inodes := (fs_inodes fs)(fs_next fs := empty_file meta_layout), fs_next := fs_next fs + 1\<rparr>))"

definition fs_unlink :: "string \<Rightarrow> file_sys \<Rightarrow> file_sys" where
  "fs_unlink name fs = fs\<lparr>fs_names := (fs_names fs)(name := None)\<rparr>"

type_synonym meta_key = "nat \<times> string"

record mgr_state =
  ms_cache :: "(meta_key, MetaFileObj) mgr"
  ms_fs :: file_sys

text \<open>
  Outcomes of the system calls: the result of the manager's \<open>open\<close> and of the constructor's, a
  descriptor or a negated error number, per path; the other calls on the file of a path; the
  clock.
\<close>

record mgr_env =
  probe_open :: "string \<Rightarrow> int"
  ctor_open :: "string \<Rightarrow> int"
  path_io :: "string \<Rightarrow> io_env"
  clock :: int
  char_is_signed :: bool

abbreviation (input) EDQUOT :: int where "EDQUOT \<equiv> 122"
abbreviation (input) MAX_META_FILE_NUM :: nat where "MAX_META_FILE_NUM \<equiv> 100"

definition obj_io :: "mgr_env \<Rightarrow> MetaFileObj \<Rightarrow> io_env" where
  "obj_io env obj = (path_io env (mo_path obj))\<lparr>fd := mo_fd obj\<rparr>"

text \<open>The last part of the constructor: look the directory up in the parent and create it there.\<close>

definition register_in_parent :: "mgr_env \<Rightarrow> string \<Rightarrow> MetaFileObj \<Rightarrow> file_sys \<Rightarrow> file_sys option" where
  "register_in_parent env path parent fs =
     (let m = MetaBase_id (GetFileName path)
                (to_string_nat (unat (PathHash (char_is_signed env) path False)) @ to_string (clock env));
          f = fs_inodes fs (mo_ino parent)
      in if fst (DoLookup (obj_io env parent) m f) \<noteq> E_OK
         then case DoCreate (obj_io env parent) (m\<lparr>mb_mode := S_IFDIR, mb_size := DIR_SIZE\<rparr>) f of
                (Trap, _) \<Rightarrow> None
              | (Ret _, f') \<Rightarrow> Some (fs\<lparr>fs_inodes := (fs_inodes fs)(mo_ino parent := f')\<rparr>)
         else Some fs)"

definition path_measure :: "string \<Rightarrow> nat" where
  "path_measure path = (if path = ''/'' then 0 else length path)"

lemma path_measure_parent: "GetParentDir path \<noteq> '''' \<Longrightarrow> path_measure (GetParentDir path) < path_measure path"
  by (auto simp: GetParentDir_def path_measure_def dest: find_last_of_Some split: option.splits if_splits)

text \<open>
  \<open>MetaFileMgr::GetMetaFile\<close> with the constructor it calls. \<open>None\<close> is a trap inside \<open>DoCreate\<close>;
  otherwise the object, or \<open>nullptr\<close> when the disk quota is exhausted, and the new state.
\<close>

function GetMetaFile :: "mgr_env \<Rightarrow> nat \<Rightarrow> string \<Rightarrow> mgr_state \<Rightarrow> (MetaFileObj option \<times> mgr_state) option" where
  "GetMetaFile env userId path st =
     (case mgr_find (userId, path) (ms_cache st) of
        Some mFile \<Rightarrow> Some (Some mFile, st\<lparr>ms_cache := mgr_touch (userId, path) mFile (ms_cache st)\<rparr>)
      | None \<Rightarrow>
          let dentryFile = GetDentryfileByPath (char_is_signed env) userId path False;
              st1 = (if probe_open env path \<ge> 0 then st\<lparr>ms_fs := snd (fs_open dentryFile (ms_fs st))\<rparr> else st)
          in if probe_open env path = - EDQUOT then Some (None, st1)
             else let insert_obj = (\<lambda>obj st. (Some obj, st\<lparr>ms_cache := mgr_push (userId, path) obj
                        (evict_while MAX_META_FILE_NUM (ms_cache st))\<rparr>));
                      obj = \<lparr>mo_path = path, mo_fd = ctor_open env path, mo_ino = fst (fs_open dentryFile (ms_fs st1))\<rparr>;
                      st2 = st1\<lparr>ms_fs := snd (fs_open dentryFile (ms_fs st1))\<rparr>
                  in if ctor_open env path < 0 then Some (insert_obj obj st1)
                     else if GetParentDir path = '''' then Some (insert_obj obj st2)
                     else case GetMetaFile env userId (GetParentDir path) st2 of
                            None \<Rightarrow> None
                          | Some (None, st3) \<Rightarrow> Some (insert_obj obj st3)
                          | Some (Some parent, st3) \<Rightarrow>
                              if GetFileName path = '''' then Some (insert_obj obj st3)
                              else map_option (\<lambda>fs. insert_obj obj (st3\<lparr>ms_fs := fs\<rparr>))
                                     (register_in_parent env path parent (ms_fs st3)))"
  by pat_completeness auto
termination
  by (relation "measure (\<lambda>(env, u, path, st). path_measure path)") (auto simp: path_measure_parent)

declare GetMetaFile.simps [simp del]

definition CheckMetaFileSize :: "mgr_state \<Rightarrow> int" where
  "CheckMetaFileSize st =
     (if card (mgr_keys (ms_cache st)) \<noteq> length (mgr_list (ms_cache st)) then -1 else int (length (mgr_list (ms_cache st))))"

definition ClearAll :: "mgr_state \<Rightarrow> mgr_state" where
  "ClearAll st = st\<lparr>ms_cache := mgr_empty\<rparr>"

text \<open>\<open>unlink_err\<close> is the error number of the failed \<open>unlink\<close>, zero when it works.\<close>

definition RemoveByPath :: "bool \<Rightarrow> int \<Rightarrow> nat \<Rightarrow> string \<Rightarrow> mgr_state \<Rightarrow> int \<times> mgr_state" where
  "RemoveByPath char_signed unlink_err userId path st =
     (let cacheFile = GetDentryfileByPath char_signed userId path False;
          st1 = (if (userId, path) \<in> mgr_keys (ms_cache st)
                 then st\<lparr>ms_cache := mgr_erase (userId, path) (ms_cache st)\<rparr> else st)
      in if unlink_err = 0 then (E_OK, st1\<lparr>ms_fs := fs_unlink cacheFile (ms_fs st1)\<rparr>)
         else if unlink_err = ENOENT then (E_OK, st1)
         else (- unlink_err, st1))"

section \<open>The cache invariant\<close>

interpretation meta_cache: lru_cache 100 "get_while 100"
  by (rule lru_get_while) simp

text \<open>Without the constructor's side effects the manager is the generic cache.\<close>

abbreviation mst_inv :: "mgr_state \<Rightarrow> bool" where
  "mst_inv st \<equiv> mgr_inv MAX_META_FILE_NUM (ms_cache st)"

lemma push_evict_inv:
  assumes "mgr_inv 100 m" and "map_of (mgr_list m) k = None"
  shows "mgr_inv 100 (mgr_push k v (evict_while 100 m))"
    "mgr_list (mgr_push k v (evict_while 100 m)) = (k, v) # take 99 (mgr_list m)"
  using meta_cache.miss [OF assms, of v] mgr_find_map_of [OF assms(1)] assms(2) by (simp_all add: get_while_def)

definition keys_upto :: "nat \<Rightarrow> string \<Rightarrow> meta_key set" where
  "keys_upto userId path = {(u, p). u = userId \<and> path_measure p \<le> path_measure path}"

lemma mgr_keys_list: "mgr_inv c m \<Longrightarrow> mgr_keys m = fst ` set (mgr_list m)"
  by (simp add: mgr_inv_def)

definition cache_step :: "nat \<Rightarrow> string \<Rightarrow> MetaFileObj option \<Rightarrow> mgr_state \<Rightarrow> mgr_state \<Rightarrow> bool" where
  "cache_step userId path r st st' \<longleftrightarrow> mst_inv st' \<and> mgr_keys (ms_cache st') \<subseteq> mgr_keys (ms_cache st) \<union> keys_upto userId path \<and>
     (\<forall>obj. r = Some obj \<longrightarrow> (\<exists>xs. mgr_list (ms_cache st') = ((userId, path), obj) # xs))"

lemma cache_push:
  assumes "mst_inv st'" and "mgr_keys (ms_cache st') \<subseteq> mgr_keys (ms_cache st) \<union> K" and "(u, p) \<notin> mgr_keys (ms_cache st')"
    and "K \<subseteq> keys_upto u p"
  shows "cache_step u p (Some obj) st (st'\<lparr>ms_cache := mgr_push (u, p) obj (evict_while 100 (ms_cache st'))\<rparr>)"
proof -
  have none: "map_of (mgr_list (ms_cache st')) (u, p) = None"
    using assms(3) mgr_keys_list [OF assms(1)] by (simp add: map_of_eq_None_iff)
  note pe = push_evict_inv [OF assms(1) none, of obj]
  have "mgr_keys (mgr_push (u, p) obj (evict_while 100 (ms_cache st'))) \<subseteq> insert (u, p) (mgr_keys (ms_cache st'))"
    using mgr_keys_list [OF pe(1)] pe(2) mgr_keys_list [OF assms(1)] by (auto dest: in_set_takeD)
  moreover have "(u, p) \<in> keys_upto u p" by (simp add: keys_upto_def)
  ultimately show ?thesis using assms(2,4) pe by (auto simp: cache_step_def)
qed

lemma keys_upto_parent:
  assumes "GetParentDir path \<noteq> ''''"
  shows "keys_upto u (GetParentDir path) \<subseteq> keys_upto u path" "(u, path) \<notin> keys_upto u (GetParentDir path)"
  using path_measure_parent [OF assms] by (auto simp: keys_upto_def)

lemma GetMetaFile_miss:
  fixes st s :: mgr_state
  defines "ins \<equiv> \<lambda>u path obj (s :: mgr_state). s\<lparr>ms_cache := mgr_push (u, path) obj (evict_while 100 (ms_cache s))\<rparr>"
  assumes "mgr_find (u, path) (ms_cache st) = None" and get: "GetMetaFile env u path st = Some (r, st')"
  shows "r = None \<and> ms_cache st' = ms_cache st \<or>
    (\<exists>obj s. r = Some obj \<and> st' = ins u path obj s \<and> ms_cache s = ms_cache st) \<or>
    (\<exists>obj s r0 s0 fs. r = Some obj \<and> st' = ins u path obj (s\<lparr>ms_fs := fs\<rparr>) \<and> GetParentDir path \<noteq> '''' \<and>
       ms_cache s0 = ms_cache st \<and> GetMetaFile env u (GetParentDir path) s0 = Some (r0, s))"
proof -
  note * = get [unfolded GetMetaFile.simps [of env u path], unfolded assms(2) option.case Let_def]
  let ?df = "GetDentryfileByPath (char_is_signed env) u path False"
  let ?st1 = "if probe_open env path \<ge> 0 then st\<lparr>ms_fs := snd (fs_open ?df (ms_fs st))\<rparr> else st"
  let ?st2 = "?st1\<lparr>ms_fs := snd (fs_open ?df (ms_fs ?st1))\<rparr>"
  have c: "ms_cache ?st1 = ms_cache st" "ms_cache ?st2 = ms_cache st" by simp_all
  consider "probe_open env path = - EDQUOT" | "probe_open env path \<noteq> - EDQUOT" "ctor_open env path < 0 \<or> GetParentDir path = ''''"
    | "probe_open env path \<noteq> - EDQUOT" "\<not> ctor_open env path < 0" "GetParentDir path \<noteq> ''''" by blast
  then show ?thesis
  proof cases
    case 1
    then show ?thesis using * c by auto
  next
    case 2
    let ?obj = "\<lparr>mo_path = path, mo_fd = ctor_open env path, mo_ino = fst (fs_open ?df (ms_fs ?st1))\<rparr>"
    let ?s = "if ctor_open env path < 0 then ?st1 else ?st2"
    have "r = Some ?obj" "st' = ins u path ?obj ?s" using * 2 unfolding ins_def by (auto simp: c split: if_splits)
    moreover have "ms_cache ?s = ms_cache st" using c by simp
    ultimately show ?thesis by blast
  next
    case 3
    then obtain r0 s where rec: "GetMetaFile env u (GetParentDir path) ?st2 = Some (r0, s)"
      using * by (cases "GetMetaFile env u (GetParentDir path) ?st2") auto
    have id: "s = s\<lparr>ms_fs := ms_fs s\<rparr>" by simp
    have "\<exists>obj fs. r = Some obj \<and> st' = ins u path obj (s\<lparr>ms_fs := fs\<rparr>)"
    proof (cases "r0 = None \<or> GetFileName path = ''''")
      case True
      then have "\<exists>obj. r = Some obj \<and> st' = ins u path obj s" using * 3 rec unfolding ins_def by (auto split: option.splits)
      then show ?thesis by (metis id)
    next
      case False
      then obtain parent where "r0 = Some parent" "GetFileName path \<noteq> ''''" by auto
      then show ?thesis using * 3 rec unfolding ins_def by auto
    qed
    then show ?thesis using 3(3) c(2) rec by blast
  qed
qed

lemma GetMetaFile_cache:
  assumes "mst_inv st" and "GetMetaFile env u path st = Some (r, st')"
  shows "cache_step u path r st st'"
  using assms
proof (induction "path_measure path" arbitrary: path st r st' rule: less_induct)
  case less
  show ?case
  proof (cases "mgr_find (u, path) (ms_cache st)")
    case (Some obj)
    have "st' = st\<lparr>ms_cache := mgr_touch (u, path) obj (ms_cache st)\<rparr>" "r = Some obj"
      using less.prems(2) Some by (auto simp: GetMetaFile.simps [of env u path])
    then show ?thesis using mgr_touch_inv [OF less.prems(1) Some] by (auto simp: cache_step_def mgr_touch_def)
  next
    case None
    have nk: "(u, path) \<notin> mgr_keys (ms_cache st)"
      using None less.prems(1) by (auto simp: mgr_find_map_of map_of_eq_None_iff mgr_inv_def)
    let ?ins = "\<lambda>obj st. st\<lparr>ms_cache := mgr_push (u, path) obj (evict_while 100 (ms_cache st))\<rparr>"
    from GetMetaFile_miss [OF None less.prems(2)] consider "r = None" "ms_cache st' = ms_cache st"
      | obj s where "r = Some obj" "st' = ?ins obj s" "ms_cache s = ms_cache st"
      | obj s r0 s0 fs where "r = Some obj" "st' = ?ins obj (s\<lparr>ms_fs := fs\<rparr>)" "GetParentDir path \<noteq> ''''"
          "ms_cache s0 = ms_cache st" "GetMetaFile env u (GetParentDir path) s0 = Some (r0, s)" by metis
    then show ?thesis
    proof cases
      case 1
      then show ?thesis using less.prems(1) by (simp add: cache_step_def)
    next
      case 2
      then show ?thesis using cache_push [of s st "{}" u path obj] less.prems(1) nk by simp
    next
      case 3
      from less.hyps [OF path_measure_parent [OF 3(3)] _ 3(5)] 3(4) less.prems(1)
      have "mst_inv s" "mgr_keys (ms_cache s) \<subseteq> mgr_keys (ms_cache st) \<union> keys_upto u (GetParentDir path)"
        by (auto simp: cache_step_def)
      then show ?thesis using cache_push [of "s\<lparr>ms_fs := fs\<rparr>" st "keys_upto u (GetParentDir path)" u path obj] 3(1,2) nk
          keys_upto_parent [OF 3(3), of u] by auto
    qed
  qed
qed

section \<open>Registration in the parent\<close>

definition env_good :: "mgr_env \<Rightarrow> bool" where
  "env_good env \<longleftrightarrow> (\<forall>p. 0 \<le> probe_open env p \<and> 0 \<le> ctor_open env p \<and> good_io (path_io env p)) \<and>
     0 \<le> clock env \<and> clock env < 10 ^ 13"

definition depth :: "string \<Rightarrow> nat" where
  "depth path = (if path = ''/'' then 0 else length (filter (\<lambda>c. c = CHR ''/'') path))"

definition fs_room :: "nat \<Rightarrow> file_sys \<Rightarrow> bool" where
  "fs_room n fs \<longleftrightarrow> (\<forall>i. meta_inv (fs_inodes fs i) \<and> levels (fs_inodes fs i) + n \<le> 19)"

definition objs_open :: "mgr_state \<Rightarrow> bool" where
  "objs_open st \<longleftrightarrow> (\<forall>(k, obj) \<in> set (mgr_list (ms_cache st)). 0 \<le> mo_fd obj)"

lemma length_to_string_nat: "n < 10 ^ k \<Longrightarrow> 0 < k \<Longrightarrow> length (to_string_nat n) \<le> k"
proof (induction k arbitrary: n)
  case (Suc k)
  show ?case
  proof (cases "n < 10")
    case False
    then have k: "0 < k" using Suc.prems by (cases k) auto
    have "n div 10 < 10 ^ k" using Suc.prems by (simp add: less_mult_imp_div_less mult.commute)
    from Suc.IH [OF this k] False show ?thesis by (simp add: to_string_nat.simps [of n])
  qed (simp add: to_string_nat.simps [of n])
qed simp

lemma dir_cloud_id_length:
  assumes "0 \<le> t" "t < 10 ^ 13"
  shows "length (to_string_nat (unat (h :: u64)) @ to_string t) \<le> 33"
proof -
  have "unat h < 2 ^ 64" using unsigned_less [of h] by simp
  then have "length (to_string_nat (unat h)) \<le> 20" by (intro length_to_string_nat) simp_all
  moreover have "length (to_string t) \<le> 13" using assms length_to_string_nat [of "nat t" 13] by (simp add: to_string_def)
  ultimately show ?thesis by simp
qed

lemma empty_meta_inv [simp]: "meta_inv (empty_file meta_layout)" "levels (empty_file meta_layout) = 0"
  using wf_empty_file [of meta_layout] dir_empty_file [of meta_layout]
  by (simp_all add: meta_inv_def) (simp add: empty_file_def levels_def)

lemma fs_open_room: "fs_room n fs \<Longrightarrow> fs_room n (snd (fs_open name fs))"
proof -
  assume r: "fs_room n fs"
  then have "n \<le> 19" by (meson add_leD2 fs_room_def)
  then show ?thesis using r by (auto simp: fs_room_def fs_open_def split: option.splits)
qed

lemma fs_room_mono: "fs_room n fs \<Longrightarrow> m \<le> n \<Longrightarrow> fs_room m fs"
  by (meson add_le_mono fs_room_def le_refl order_trans)

lemma obj_io_good: "env_good env \<Longrightarrow> 0 \<le> mo_fd obj \<Longrightarrow> good_io (obj_io env obj)"
  by (simp add: env_good_def obj_io_def good_io_def)

lemma register_works:
  assumes env: "env_good env" and fs: "fs_room (Suc n) fs" and fd: "0 \<le> mo_fd parent"
    and name: "GetFileName path \<noteq> ''''" "length (GetFileName path) \<le> 480"
  shows "\<exists>fs'. register_in_parent env path parent fs = Some fs' \<and> fs_room n fs' \<and>
    (\<forall>m. mb_name m = GetFileName path \<longrightarrow> fst (DoLookup (obj_io env parent) m (fs_inodes fs' (mo_ino parent))) = E_OK)"
proof -
  let ?io = "obj_io env parent" and ?f = "fs_inodes fs (mo_ino parent)"
  let ?m = "MetaBase_id (GetFileName path)
    (to_string_nat (unat (PathHash (char_is_signed env) path False)) @ to_string (clock env))"
  have io: "good_io ?io" using obj_io_good [OF env fd] .
  have all: "meta_inv (fs_inodes fs i)" "levels (fs_inodes fs i) + n \<le> 18" for i using fs by (simp_all add: fs_room_def)
  have f: "meta_inv ?f" "levels ?f \<le> 18" using all [of "mo_ino parent"] by auto
  show ?thesis
  proof (cases "meta_dir ?f (GetFileName path)")
    case (Some de)
    then have ok: "mb_name m = GetFileName path \<Longrightarrow> fst (DoLookup ?io m ?f) = 0" for m using DoLookup_law [OF f(1) io, of m] by simp
    then have "register_in_parent env path parent fs = Some fs" by (simp add: register_in_parent_def Let_def MetaBase_id_def)
    then show ?thesis using ok fs_room_mono [OF fs] by simp
  next
    case None
    let ?b = "?m\<lparr>mb_mode := S_IFDIR, mb_size := DIR_SIZE\<rparr>"
    have vb: "valid_base ?b" using name env dir_cloud_id_length [of "clock env"] by (simp add: valid_base_def MetaBase_id_def env_good_def)
    have n: "mb_name ?b = GetFileName path" by (simp add: MetaBase_id_def)
    from DoCreate_law [OF f(1) io f(2) vb] None n obtain f' where c: "DoCreate ?io ?b ?f = (Ret 0, f')" "meta_inv f'"
      "meta_dir f' (GetFileName path) \<noteq> None" "levels f' \<le> levels ?f + 1" by auto
    have "fst (DoLookup ?io ?m ?f) \<noteq> 0" using DoLookup_law [OF f(1) io, of ?m] None n by simp
    then have "register_in_parent env path parent fs = Some (fs\<lparr>fs_inodes := (fs_inodes fs)(mo_ino parent := f')\<rparr>)"
      using c(1) by (simp add: register_in_parent_def Let_def)
    moreover have "fs_room n (fs\<lparr>fs_inodes := (fs_inodes fs)(mo_ino parent := f')\<rparr>)"
      unfolding fs_room_def
    proof
      fix i
      show "meta_inv (fs_inodes (fs\<lparr>fs_inodes := (fs_inodes fs)(mo_ino parent := f')\<rparr>) i) \<and>
          levels (fs_inodes (fs\<lparr>fs_inodes := (fs_inodes fs)(mo_ino parent := f')\<rparr>) i) + n \<le> 19"
        using all [of i] all [of "mo_ino parent"] c(2,4) by simp
    qed
    moreover have "fst (DoLookup ?io m f') = 0" if "mb_name m = GetFileName path" for m
      using DoLookup_law [OF c(2) io, of m] c(3) that by auto
    ultimately show ?thesis by auto
  qed
qed

lemma depth_parent:
  assumes "GetParentDir path \<noteq> ''''"
  shows "depth (GetParentDir path) \<le> depth path" "GetFileName path \<noteq> '''' \<Longrightarrow> Suc (depth (GetParentDir path)) \<le> depth path"
    "length (GetParentDir path) \<le> max 1 (length path)" "length (GetFileName path) \<le> length path"
proof -
  have split: "path = take pos path @ CHR ''/'' # drop (Suc pos) path" if "find_last_of CHR ''/'' path = Some pos" for pos
    using find_last_of_Some [OF that] by (metis id_take_nth_drop)
  have cnt: "length (filter (\<lambda>c. c = CHR ''/'') (take pos path)) < length (filter (\<lambda>c. c = CHR ''/'') path)"
    if "find_last_of CHR ''/'' path = Some pos" for pos
    by (subst (2) split [OF that]) simp
  show "Suc (depth (GetParentDir path)) \<le> depth path" if "GetFileName path \<noteq> ''''"
    using that assms cnt by (fastforce simp: GetFileName_def GetParentDir_def depth_def split: option.splits if_splits)
  show "depth (GetParentDir path) \<le> depth path"
    using assms cnt by (fastforce simp: GetParentDir_def depth_def split: option.splits if_splits)
  show "length (GetParentDir path) \<le> max 1 (length path)" "length (GetFileName path) \<le> length path"
    by (auto simp: GetParentDir_def GetFileName_def split: option.splits)
qed

definition registered :: "mgr_env \<Rightarrow> nat \<Rightarrow> string \<Rightarrow> mgr_state \<Rightarrow> bool" where
  "registered env userId path st \<longleftrightarrow> (\<exists>parent. mgr_find (userId, GetParentDir path) (ms_cache st) = Some parent \<and>
     (\<forall>m. mb_name m = GetFileName path \<longrightarrow>
        fst (DoLookup (obj_io env parent) m (fs_inodes (ms_fs st) (mo_ino parent))) = E_OK))"

lemma insert_obj_facts:
  fixes s :: mgr_state
  assumes "mst_inv s" "(u, path) \<notin> mgr_keys (ms_cache s)" "objs_open s" "0 \<le> mo_fd obj"
  defines "s' \<equiv> s\<lparr>ms_cache := mgr_push (u, path) obj (evict_while 100 (ms_cache s))\<rparr>"
  shows "objs_open s'" and "mgr_list (ms_cache s) = (k, v) # xs \<Longrightarrow> mgr_find k (ms_cache s') = Some v"
proof -
  have none: "map_of (mgr_list (ms_cache s)) (u, path) = None"
    using assms(2) mgr_keys_list [OF assms(1)] by (simp add: map_of_eq_None_iff)
  note pe = push_evict_inv [OF assms(1) none, of obj]
  show "objs_open s'" using pe(2) assms(3,4) by (auto simp: objs_open_def s'_def dest: in_set_takeD)
  assume "mgr_list (ms_cache s) = (k, v) # xs"
  then show "mgr_find k (ms_cache s') = Some v"
    using pe none by (auto simp: s'_def mgr_find_map_of [OF pe(1)] take_Cons')
qed

lemma GetMetaFile_good:
  assumes env: "env_good env" and "mst_inv st" and "objs_open st" and "fs_room (n + depth path) (ms_fs st)" and "length path \<le> 480"
  shows "\<exists>obj st'. GetMetaFile env u path st = Some (Some obj, st') \<and> 0 \<le> mo_fd obj \<and> objs_open st' \<and> fs_room n (ms_fs st') \<and>
    (mgr_find (u, path) (ms_cache st) = None \<and> GetFileName path \<noteq> '''' \<longrightarrow> registered env u path st')"
  using assms(2-)
proof (induction "path_measure path" arbitrary: path st n rule: less_induct)
  case less
  note inv = less.prems(1) and op = less.prems(2) and room = less.prems(3) and len = less.prems(4)
  show ?case
  proof (cases "mgr_find (u, path) (ms_cache st)")
    case (Some obj)
    then have "((u, path), obj) \<in> set (mgr_list (ms_cache st))" using inv by (simp add: mgr_find_map_of map_of_SomeD)
    with op have fd: "0 \<le> mo_fd obj" by (auto simp: objs_open_def)
    have "GetMetaFile env u path st = Some (Some obj, st\<lparr>ms_cache := mgr_touch (u, path) obj (ms_cache st)\<rparr>)"
      using Some by (simp add: GetMetaFile.simps [of env u path])
    then show ?thesis using fd op fs_room_mono [OF room] Some by (auto simp: objs_open_def mgr_touch_def)
  next
    case None
    have nk: "(u, path) \<notin> mgr_keys (ms_cache st)"
      using None inv by (auto simp: mgr_find_map_of map_of_eq_None_iff mgr_inv_def)
    let ?df = "GetDentryfileByPath (char_is_signed env) u path False"
    let ?st1 = "st\<lparr>ms_fs := snd (fs_open ?df (ms_fs st))\<rparr>"
    let ?st2 = "?st1\<lparr>ms_fs := snd (fs_open ?df (ms_fs ?st1))\<rparr>"
    let ?obj = "\<lparr>mo_path = path, mo_fd = ctor_open env path, mo_ino = fst (fs_open ?df (ms_fs ?st1))\<rparr>"
    let ?ins = "\<lambda>s. s\<lparr>ms_cache := mgr_push (u, path) ?obj (evict_while 100 (ms_cache s))\<rparr>"
    have ok: "0 \<le> probe_open env path" "\<not> ctor_open env path < 0" "0 \<le> mo_fd ?obj" using env by (auto simp: env_good_def not_less)
    have st2: "mst_inv ?st2" "objs_open ?st2" "fs_room (n + depth path) (ms_fs ?st2)" "(u, path) \<notin> mgr_keys (ms_cache ?st2)"
      using inv op fs_open_room [OF fs_open_room [OF room]] nk by (simp_all add: objs_open_def)
    note unf = GetMetaFile.simps [of env u path st, unfolded None option.case Let_def]
    show ?thesis
    proof (cases "GetParentDir path = ''''")
      case True
      have "GetMetaFile env u path st = Some (Some ?obj, ?ins ?st2)" using ok True by (subst unf) simp
      moreover have "GetFileName path = ''''" using True by (auto simp: GetParentDir_def GetFileName_def split: option.splits if_splits)
      ultimately show ?thesis using insert_obj_facts(1) [OF st2(1,4,2) ok(3)] fs_room_mono [OF st2(3)] ok(3) by simp
    next
      case False
      define d where "d = (if GetFileName path = '''' then 0 else Suc 0)"
      have "fs_room (n + d + depth (GetParentDir path)) (ms_fs ?st2)"
        by (rule fs_room_mono [OF st2(3)]) (use depth_parent(1,2) [OF False] in \<open>auto simp: d_def\<close>)
      moreover have "length (GetParentDir path) \<le> 480" using depth_parent(3) [OF False] len by simp
      ultimately obtain parent s where rec: "GetMetaFile env u (GetParentDir path) ?st2 = Some (Some parent, s)"
        "0 \<le> mo_fd parent" "objs_open s" "fs_room (n + d) (ms_fs s)"
        using less.hyps [OF path_measure_parent [OF False] st2(1,2)] by blast
      note cs = GetMetaFile_cache [OF st2(1) rec(1), unfolded cache_step_def]
      have "(u, path) \<notin> mgr_keys (ms_cache s)" using cs st2(4) keys_upto_parent(2) [OF False, of u] by blast
      with cs obtain xs where s: "mst_inv s" "(u, path) \<notin> mgr_keys (ms_cache s)"
        "mgr_list (ms_cache s) = ((u, GetParentDir path), parent) # xs" by blast
      show ?thesis
      proof (cases "GetFileName path = ''''")
        case True
        have "GetMetaFile env u path st = Some (Some ?obj, ?ins s)" using ok False True rec(1) by (subst unf) simp
        then show ?thesis using insert_obj_facts(1) [OF s(1,2) rec(3) ok(3)] rec(4) ok(3) True by (simp add: d_def)
      next
        case name: False
        have r: "fs_room (Suc n) (ms_fs s)" "length (GetFileName path) \<le> 480"
          using rec(4) name depth_parent(4) [OF False] len by (simp_all add: d_def)
        from register_works [OF env r(1) rec(2) name r(2)] obtain fs where
          reg: "register_in_parent env path parent (ms_fs s) = Some fs" "fs_room n fs"
            "\<And>m. mb_name m = GetFileName path \<Longrightarrow> fst (DoLookup (obj_io env parent) m (fs_inodes fs (mo_ino parent))) = 0"
          by blast
        have get: "GetMetaFile env u path st = Some (Some ?obj, ?ins (s\<lparr>ms_fs := fs\<rparr>))"
          using ok False name rec(1) reg(1) by (subst unf) simp
        have s': "mst_inv (s\<lparr>ms_fs := fs\<rparr>)" "(u, path) \<notin> mgr_keys (ms_cache (s\<lparr>ms_fs := fs\<rparr>))" "objs_open (s\<lparr>ms_fs := fs\<rparr>)"
          "mgr_list (ms_cache (s\<lparr>ms_fs := fs\<rparr>)) = ((u, GetParentDir path), parent) # xs"
          using s rec(3) by (simp_all add: objs_open_def)
        note io = insert_obj_facts [OF s'(1-3) ok(3)]
        have "registered env u path (?ins (s\<lparr>ms_fs := fs\<rparr>))" using io(2) [OF s'(4)] reg(3) by (auto simp: registered_def)
        then show ?thesis using get io(1) reg(2) ok(3) by (intro exI [of _ ?obj] exI [of _ "?ins (s\<lparr>ms_fs := fs\<rparr>)"]) simp
      qed
    qed
  qed
qed

section \<open>The cloud disk manager\<close>

definition GetCloudDiskDentryFileByPath :: "bool \<Rightarrow> nat \<Rightarrow> string \<Rightarrow> string \<Rightarrow> string" where
  "GetCloudDiskDentryFileByPath char_signed userId bundleName cloudId =
     ''/data/service/el2/'' @ to_string_nat userId @ ''/hmdfs/cloud/data/'' @ bundleName @ ''/'' @
     to_string_nat (unat (GetBucketId char_signed cloudId)) @ ''/'' @ CloudIdToRecordId cloudId False"

record CloudDiskMetaFileObj =
  co_userId :: nat
  co_bundleName :: string
  co_cloudId :: string
  co_cacheFile :: string
  co_fd :: int

definition CloudDiskMetaFile :: "bool \<Rightarrow> (string \<Rightarrow> int) \<Rightarrow> nat \<Rightarrow> string \<Rightarrow> string \<Rightarrow> CloudDiskMetaFileObj" where
  "CloudDiskMetaFile char_signed open_file userId bundleName cloudId =
     (let cacheFile = GetCloudDiskDentryFileByPath char_signed userId bundleName cloudId
      in \<lparr>co_userId = userId, co_bundleName = bundleName, co_cloudId = cloudId, co_cacheFile = cacheFile,
          co_fd = open_file cacheFile\<rparr>)"

definition GetCloudDiskMetaFile ::
  "bool \<Rightarrow> (string \<Rightarrow> int) \<Rightarrow> nat \<Rightarrow> string \<Rightarrow> string \<Rightarrow> (meta_key, CloudDiskMetaFileObj) mgr
    \<Rightarrow> CloudDiskMetaFileObj \<times> (meta_key, CloudDiskMetaFileObj) mgr" where
  "GetCloudDiskMetaFile char_signed open_file userId bundleName cloudId m =
     get_once 150 (userId, cloudId @ bundleName) (CloudDiskMetaFile char_signed open_file userId bundleName cloudId) m"

definition ClearCloudDisk :: "nat \<Rightarrow> string \<Rightarrow> string \<Rightarrow> (meta_key, CloudDiskMetaFileObj) mgr \<Rightarrow> (meta_key, CloudDiskMetaFileObj) mgr" where
  "ClearCloudDisk userId bundleName cloudId m = mgr_erase (userId, cloudId @ bundleName) m"

definition CloudDiskClearAll :: "(meta_key, CloudDiskMetaFileObj) mgr \<Rightarrow> (meta_key, CloudDiskMetaFileObj) mgr" where
  "CloudDiskClearAll m = mgr_empty"

interpretation cd_cache: lru_cache 150 "get_once 150"
  by (rule lru_get_once) simp

section \<open>Properties\<close>

text \<open>
  C19: Asking the manager for a directory that is not cached, with working system calls, returns an
  object and leaves the directory registered: the parent's object is cached, and a lookup of the
  directory's name in the parent's dentry file succeeds. This covers the recursion of the
  constructor up to the root, the evictions on the way and dentry files shared by paths that hash
  alike; the bound says that every dentry file can still grow by one level per path component.\<close>

theorem meta_mgr_registers:
  assumes "env_good env" and "mst_inv st" and "objs_open st" and "fs_room (depth path) (ms_fs st)" and "length path \<le> 480"
    and "mgr_find (userId, path) (ms_cache st) = None" and "GetFileName path \<noteq> ''''"
  shows "\<exists>obj st' parent. GetMetaFile env userId path st = Some (Some obj, st') \<and>
    mgr_find (userId, GetParentDir path) (ms_cache st') = Some parent \<and>
    (\<forall>m. mb_name m = GetFileName path \<longrightarrow>
       fst (DoLookup (obj_io env parent) m (fs_inodes (ms_fs st') (mo_ino parent))) = E_OK)"
  using GetMetaFile_good [OF assms(1-3), of 0 path userId] assms(4-) by (auto simp: registered_def)

definition env1 :: mgr_env where
  "env1 = \<lparr>probe_open = (\<lambda>_. 3), ctor_open = (\<lambda>_. 3), path_io = (\<lambda>_. env_ok), clock = 1700000000, char_is_signed = False\<rparr>"

definition st1 :: mgr_state where
  "st1 = \<lparr>ms_cache = mgr_empty, ms_fs = \<lparr>fs_names = (\<lambda>_. None), fs_inodes = (\<lambda>_. empty_file meta_layout), fs_next = 0\<rparr>\<rparr>"

theorem meta_mgr_registers_witness:
  "\<exists>obj st' parent. GetMetaFile env1 100 ''/a/b'' st1 = Some (Some obj, st') \<and>
    mgr_find (100, ''/a'') (ms_cache st') = Some parent \<and>
    fst (DoLookup (obj_io env1 parent) (MetaBase_named ''b'') (fs_inodes (ms_fs st') (mo_ino parent))) = E_OK"
proof -
  have n: "GetFileName ''/a/b'' = ''b''" "GetParentDir ''/a/b'' = ''/a''" by (simp_all add: GetFileName_def GetParentDir_def)
  have "env_good env1" by (simp add: env_good_def env1_def)
  moreover have "mst_inv st1" "objs_open st1" "mgr_find (100, ''/a/b'') (ms_cache st1) = None"
    by (simp_all add: st1_def objs_open_def) (simp_all add: mgr_empty_def mgr_find_def)
  moreover have "fs_room (depth ''/a/b'') (ms_fs st1)" by (simp add: fs_room_def st1_def depth_def)
  ultimately show ?thesis
    using meta_mgr_registers [of env1 st1 "''/a/b''" 100] n by (fastforce simp: MetaBase_named_def MetaBase_id_def)
qed

text \<open>The states the public operations of the manager reach, whatever the system calls return.\<close>

inductive mgr_reach :: "mgr_state \<Rightarrow> bool" where
  start: "ms_cache st = mgr_empty \<Longrightarrow> mgr_reach st"
| get: "mgr_reach st \<Longrightarrow> GetMetaFile env userId path st = Some (r, st') \<Longrightarrow> mgr_reach st'"
| clear: "mgr_reach st \<Longrightarrow> mgr_reach (ClearAll st)"
| remove: "mgr_reach st \<Longrightarrow> RemoveByPath char_signed err userId path st = (ret, st') \<Longrightarrow> mgr_reach st'"

lemma mgr_reach_inv: "mgr_reach st \<Longrightarrow> mst_inv st"
proof (induction rule: mgr_reach.induct)
  case (get st env userId path r st')
  then show ?case using GetMetaFile_cache by (auto simp: cache_step_def)
next
  case (remove st char_signed err userId path ret st')
  then show ?case by (auto simp: RemoveByPath_def Let_def mgr_erase_inv split: if_splits)
qed (simp_all add: ClearAll_def)

text \<open>
  C20: In every reachable state the manager's map and list agree and hold at most
  MAX_META_FILE_NUM objects, so CheckMetaFileSize never reports the inconsistency -1.\<close>

theorem meta_mgr_bounded:
  assumes "mgr_reach st"
  shows "CheckMetaFileSize st = int (length (mgr_list (ms_cache st))) \<and> CheckMetaFileSize st \<le> 100 \<and>
    mgr_keys (ms_cache st) = fst ` set (mgr_list (ms_cache st))"
  using mgr_reach_inv [OF assms] mgr_inv_card [OF mgr_reach_inv [OF assms]]
  by (simp add: CheckMetaFileSize_def mgr_inv_def)

theorem meta_mgr_bounded_witness: "CheckMetaFileSize st1 = 0"
  using meta_mgr_bounded [OF mgr_reach.start [of st1]] by (simp add: st1_def mgr_empty_def)

text \<open>
  The cloud disk manager is a least-recently-used cache of 150 objects: an object obtained for
  a directory is returned again, not constructed anew, as long as fewer than 150 other keys have
  been asked for in between.\<close>

theorem clouddisk_cache_keeps_recent:
  assumes "mgr_inv 150 m" and "(userId, cloudId @ bundleName) \<notin> (\<lambda>(u, b, c). (u, c @ b)) ` set uses"
    and "card ((\<lambda>(u, b, c). (u, c @ b)) ` set uses) < 150"
  shows "fst (GetCloudDiskMetaFile cs open2 userId bundleName cloudId
      (fold (\<lambda>(u, b, c) m. snd (GetCloudDiskMetaFile cs open1 u b c m)) uses
        (snd (GetCloudDiskMetaFile cs open0 userId bundleName cloudId m)))) =
    fst (GetCloudDiskMetaFile cs open0 userId bundleName cloudId m)"
proof -
  let ?uses = "map (\<lambda>(u, b, c). ((u, c @ b), CloudDiskMetaFile cs open1 u b c)) uses"
  have run: "fold (\<lambda>(u, b, c) m. snd (GetCloudDiskMetaFile cs open1 u b c m)) uses m0 =
      fold (\<lambda>(k', new) m. snd (get_once 150 k' new m)) ?uses m0" for m0
    by (induction uses arbitrary: m0) (auto simp: GetCloudDiskMetaFile_def)
  have keys: "fst ` set ?uses = (\<lambda>(u, b, c). (u, c @ b)) ` set uses" by force
  from cd_cache.keeps_recent [OF assms(1), of "(userId, cloudId @ bundleName)" ?uses] assms(2,3)
  show ?thesis unfolding run keys by (simp add: GetCloudDiskMetaFile_def)
qed

theorem clouddisk_cache_keeps_recent_witness:
  "fst (GetCloudDiskMetaFile False (\<lambda>_. 9) 100 ''b'' ''id''
      (snd (GetCloudDiskMetaFile False (\<lambda>_. 5) 100 ''b'' ''x'' (snd (GetCloudDiskMetaFile False (\<lambda>_. 4) 100 ''b'' ''id'' mgr_empty))))) =
    fst (GetCloudDiskMetaFile False (\<lambda>_. 4) 100 ''b'' ''id'' mgr_empty)"
  using clouddisk_cache_keeps_recent [of mgr_empty 100 "''id''" "''b''" "[(100, ''b'', ''x'')]" False "\<lambda>_. 9" "\<lambda>_. 5" "\<lambda>_. 4"]
  by simp

end
