(* ===== verification/Service_Meta_File.thy ===== *)
theory Service_Meta_File
  imports Dentry_File Directory_Spec Convertor
begin

text \<open>
  \<open>CloudDiskServiceMetaFile\<close> of
  \<open>services/clouddiskservice/sync_folder/src/cloud_disk_service_metafile.cpp\<close>: the dentry file of one
  directory of a sync folder. A removed entry stays on disk marked \<open>INVALIDATE\<close> until it is flushed,
  because the change log refers to it by block and position. Names are unique among the entries
  marked \<open>VALIDATE\<close>, which are the live ones.
\<close>

section \<open>Data\<close>

abbreviation (input) VALIDATE :: u8 where "VALIDATE \<equiv> 1"
abbreviation (input) INVALIDATE :: u8 where "INVALIDATE \<equiv> 2"
abbreviation (input) RECORD_ID_LEN :: nat where "RECORD_ID_LEN \<equiv> 16"
abbreviation (input) DENTRYFILE_NAME_LEN :: nat where "DENTRYFILE_NAME_LEN \<equiv> 16"

record SvcDentry =
  sd_revalidate :: u8
  sd_recordId :: "char list"
  sd_hash :: u32
  sd_mode :: u16
  sd_namelen :: u16
  sd_size :: u64
  sd_mtime :: u64
  sd_atime :: u64
  sd_placeholder :: u8    \<comment> \<open>\<open>reserved[DENTRY_PLACEHOLDER_RESERVED_INDEX]\<close>\<close>

definition svc_layout :: "SvcDentry layout" where
  "svc_layout = \<lparr>per_group = 60, slot_bits = 4, bitmap_len = 8, namelen_of = sd_namelen, hash_of = sd_hash,
     clear_namelen = (\<lambda>d. d\<lparr>sd_namelen := 0\<rparr>),
     zero_dentry = \<lparr>sd_revalidate = 0, sd_recordId = replicate RECORD_ID_LEN NUL, sd_hash = 0, sd_mode = 0,
       sd_namelen = 0, sd_size = 0, sd_mtime = 0, sd_atime = 0, sd_placeholder = 0\<rparr>\<rparr>"

type_synonym svc_file = "SvcDentry dentry_file"

record SvcBase =
  sb_mode :: u32
  sb_hash :: u32
  sb_atime :: u64
  sb_mtime :: u64
  sb_size :: u64
  sb_name :: string
  sb_recordId :: string
  sb_placeholder :: u8

definition SvcBase_id :: "string \<Rightarrow> string \<Rightarrow> SvcBase" where
  "SvcBase_id name recordId =
     \<lparr>sb_mode = 0, sb_hash = 0, sb_atime = 0, sb_mtime = 0, sb_size = 0, sb_name = name,
      sb_recordId = recordId, sb_placeholder = 0\<rparr>"

text \<open>Placeholder states above \<open>PLACEHOLDER_STATE_FULLY_HYDRATED\<close> are stored and read as none.\<close>

definition IsValidPlaceholderState :: "u8 \<Rightarrow> bool" where
  "IsValidPlaceholderState placeholderState \<longleftrightarrow> placeholderState \<le> 3"

definition SanitizeDentryPlaceholderState :: "u8 \<Rightarrow> u8" where
  "SanitizeDentryPlaceholderState placeholderState =
     (if IsValidPlaceholderState placeholderState then placeholderState else 0)"

definition GetDentryPlaceholderState :: "SvcDentry \<Rightarrow> u8" where
  "GetDentryPlaceholderState dentry = SanitizeDentryPlaceholderState (sd_placeholder dentry)"

definition SetDentryPlaceholderState :: "SvcDentry \<Rightarrow> u8 \<Rightarrow> SvcDentry" where
  "SetDentryPlaceholderState dentry placeholderState =
     dentry\<lparr>sd_placeholder := SanitizeDentryPlaceholderState placeholderState\<rparr>"

section \<open>Search\<close>

definition has_state :: "u8 \<Rightarrow> SvcDentry \<Rightarrow> bool" where
  "has_state revalidate de \<longleftrightarrow> sd_revalidate de AND revalidate \<noteq> 0"

definition svc_FindInBlock :: "u8 \<Rightarrow> u32 \<Rightarrow> string \<Rightarrow> SvcDentry dentry_group \<Rightarrow> nat option" where
  "svc_FindInBlock revalidate hash name dentryBlk =
     scan_block svc_layout (name_match svc_layout (has_state revalidate) hash name dentryBlk) dentryBlk 0"

definition id_match :: "u8 \<Rightarrow> string \<Rightarrow> SvcDentry dentry_group \<Rightarrow> nat \<Rightarrow> SvcDentry \<Rightarrow> bool" where
  "id_match revalidate recordId dentryBlk bitPos de \<longleftrightarrow>
     has_state revalidate de \<and> take (length recordId) (sd_recordId de) = recordId"

definition svc_FindInBlockById :: "u8 \<Rightarrow> string \<Rightarrow> SvcDentry dentry_group \<Rightarrow> nat option" where
  "svc_FindInBlockById revalidate recordId dentryBlk =
     scan_block svc_layout (id_match revalidate recordId dentryBlk) dentryBlk 0"

definition svc_InLevel ::
  "io_env \<Rightarrow> svc_file \<Rightarrow> u32 \<Rightarrow> (SvcDentry dentry_group \<Rightarrow> nat option) \<Rightarrow> nat \<Rightarrow> (nat \<times> SvcDentry dentry_group \<times> nat) option" where
  "svc_InLevel io f hash fnd level = find_pages (read_page io f) fnd (level_blocks level hash)"

definition svc_FindDentry ::
  "io_env \<Rightarrow> u8 \<Rightarrow> string \<Rightarrow> svc_file \<Rightarrow> (nat \<times> SvcDentry dentry_group \<times> nat) option" where
  "svc_FindDentry io revalidate name f =
     (let hash = DentryHash name False
      in first_level (svc_InLevel io f hash (svc_FindInBlock revalidate hash name)) 0 MAX_BUCKET_LEVEL)"

definition svc_FindDentryById ::
  "io_env \<Rightarrow> u8 \<Rightarrow> u32 \<Rightarrow> string \<Rightarrow> svc_file \<Rightarrow> (nat \<times> SvcDentry dentry_group \<times> nat) option" where
  "svc_FindDentryById io revalidate hash recordId f =
     first_level (svc_InLevel io f hash (svc_FindInBlockById revalidate recordId)) 0 MAX_BUCKET_LEVEL"

section \<open>Creation\<close>

definition svc_dentry_of :: "SvcBase \<Rightarrow> u32 \<Rightarrow> string \<Rightarrow> SvcDentry" where
  "svc_dentry_of base nameHash recordId =
     \<lparr>sd_revalidate = VALIDATE, sd_recordId = snd (memcpy_s (replicate RECORD_ID_LEN NUL) recordId),
      sd_hash = nameHash, sd_mode = ucast (sb_mode base), sd_namelen = word_of_nat (length (sb_name base)),
      sd_size = sb_size base, sd_mtime = sb_mtime base, sd_atime = sb_atime base,
      sd_placeholder = SanitizeDentryPlaceholderState (sb_placeholder base)\<rparr>"

definition CreateDentry ::
  "SvcDentry dentry_group \<Rightarrow> SvcBase \<Rightarrow> u32 \<Rightarrow> nat \<Rightarrow> string \<Rightarrow> SvcDentry dentry_group option" where
  "CreateDentry d base nameHash bitPos recordId =
     (let name = sb_name base;
          slots = GetDentrySlots 4 (length name)
      in if \<not> memcpy_s_ok (slots * 16) (length name) then None
         else if \<not> memcpy_s_ok RECORD_ID_LEN (length recordId) then None
         else Some (place_dentry svc_layout d bitPos name (svc_dentry_of base nameHash recordId)))"

definition svc_GetCreateInfo :: "io_env \<Rightarrow> string \<Rightarrow> svc_file \<Rightarrow> SvcDentry alloc \<times> svc_file" where
  "svc_GetCreateInfo io name f =
     alloc_scan (\<lambda>level. Some (GetBidxFromLevel level (DentryHash name False))) svc_layout io
       (GetDentrySlots 4 (length name)) 0 f"

text \<open>
  A call that succeeds returns the block and position of the entry through its reference
  parameters; after an error they are not read.
\<close>

type_synonym dentry_pos = "(nat \<times> nat) option"

definition svc_create :: "io_env \<Rightarrow> SvcBase \<Rightarrow> string \<Rightarrow> svc_file \<Rightarrow> int \<times> dentry_pos \<times> svc_file" where
  "svc_create io base recordId f =
     (if fd io < 0 then (EINVAL, None, f)
      else if GetDentrySlots 4 (length (sb_name base)) > 60 then (ENAMETOOLONG, None, f)
      else case svc_FindDentry io VALIDATE (sb_name base) f of
        Some _ \<Rightarrow> (EEXIST, None, f)
      | None \<Rightarrow>
          (case svc_GetCreateInfo io (sb_name base) f of
             (AllocErr e, f1) \<Rightarrow> (e, None, f1)
           | (AllocTrap, f1) \<Rightarrow> (EINVAL, None, f1)
           | (AllocAt bidx bitPos dentryBlk, f1) \<Rightarrow>
               (case CreateDentry dentryBlk base (DentryHash (sb_name base) False) bitPos recordId of
                  None \<Rightarrow> (EINVAL, None, f1)
                | Some dentryBlk1 \<Rightarrow>
                    if write_ok io then (E_OK, Some (bidx, bitPos), write_page f1 bidx dentryBlk1)
                    else (EINVAL, None, f1))))"

definition svc_DoCreate :: "io_env \<Rightarrow> SvcBase \<Rightarrow> svc_file \<Rightarrow> int \<times> dentry_pos \<times> svc_file" where
  "svc_DoCreate io base f = svc_create io base (sb_recordId base) f"

definition svc_DoRenameNew :: "io_env \<Rightarrow> SvcBase \<Rightarrow> string \<Rightarrow> svc_file \<Rightarrow> int \<times> dentry_pos \<times> svc_file" where
  "svc_DoRenameNew io base recordId f = svc_create io base recordId f"

section \<open>Removal, flush and update\<close>

text \<open>Every operation that rewrites one found entry: find it, change its block, write the block.\<close>

definition svc_modify ::
  "io_env \<Rightarrow> u8 \<Rightarrow> (SvcDentry dentry_group \<Rightarrow> nat \<Rightarrow> SvcDentry dentry_group) \<Rightarrow> string \<Rightarrow> svc_file
    \<Rightarrow> int \<times> string \<times> dentry_pos \<times> svc_file" where
  "svc_modify io revalidate change name f =
     (if fd io < 0 then (EINVAL, [], None, f)
      else case svc_FindDentry io revalidate name f of
        None \<Rightarrow> (ENOENT, [], None, f)
      | Some (bidx, page, bitPos) \<Rightarrow>
          let recordId = take RECORD_ID_LEN (sd_recordId (nsl page ! bitPos))
          in if write_ok io then (E_OK, recordId, Some (bidx, bitPos), write_page f bidx (change page bitPos))
             else (EIO, recordId, None, f))"

definition invalidate :: "SvcDentry dentry_group \<Rightarrow> nat \<Rightarrow> SvcDentry dentry_group" where
  "invalidate page bitPos = set_dentry page bitPos ((nsl page ! bitPos)\<lparr>sd_revalidate := INVALIDATE\<rparr>)"

definition svc_DoRemove :: "io_env \<Rightarrow> SvcBase \<Rightarrow> svc_file \<Rightarrow> int \<times> string \<times> dentry_pos \<times> svc_file" where
  "svc_DoRemove io base f = svc_modify io VALIDATE invalidate (sb_name base) f"

definition svc_DoRenameOld :: "io_env \<Rightarrow> SvcBase \<Rightarrow> svc_file \<Rightarrow> int \<times> string \<times> dentry_pos \<times> svc_file" where
  "svc_DoRenameOld io base f = svc_modify io VALIDATE invalidate (sb_name base) f"

definition svc_DoFlush :: "io_env \<Rightarrow> SvcBase \<Rightarrow> svc_file \<Rightarrow> int \<times> dentry_pos \<times> svc_file" where
  "svc_DoFlush io base f =
     (case svc_modify io INVALIDATE (free_dentry svc_layout) (sb_name base) f of (ret, _, pos, f1) \<Rightarrow> (ret, pos, f1))"

definition svc_update_de :: "SvcBase \<Rightarrow> SvcDentry \<Rightarrow> SvcDentry" where
  "svc_update_de base de =
     de\<lparr>sd_atime := sb_atime base, sd_mtime := sb_mtime base, sd_size := sb_size base, sd_mode := ucast (sb_mode base)\<rparr>"

definition svc_DoUpdate :: "io_env \<Rightarrow> SvcBase \<Rightarrow> svc_file \<Rightarrow> int \<times> string \<times> dentry_pos \<times> svc_file" where
  "svc_DoUpdate io base f =
     svc_modify io VALIDATE (\<lambda>page p. set_dentry page p (svc_update_de base (nsl page ! p))) (sb_name base) f"

definition svc_DoUpdatePlaceholderState :: "io_env \<Rightarrow> SvcBase \<Rightarrow> u8 \<Rightarrow> svc_file \<Rightarrow> int \<times> svc_file" where
  "svc_DoUpdatePlaceholderState io base placeholderState f =
     (case svc_modify io VALIDATE (\<lambda>page p. set_dentry page p (SetDentryPlaceholderState (nsl page ! p) placeholderState))
        (sb_name base) f of (ret, _, _, f1) \<Rightarrow> (ret, f1))"

section \<open>Lookup\<close>

definition svc_lookup_base :: "SvcDentry \<Rightarrow> SvcBase \<Rightarrow> SvcBase" where
  "svc_lookup_base de base =
     base\<lparr>sb_mode := ucast (sd_mode de), sb_hash := sd_hash de, sb_size := sd_size de, sb_atime := sd_atime de,
          sb_mtime := sd_mtime de, sb_placeholder := GetDentryPlaceholderState de\<rparr>"

definition svc_DoLookupByName :: "io_env \<Rightarrow> SvcBase \<Rightarrow> svc_file \<Rightarrow> int \<times> SvcBase" where
  "svc_DoLookupByName io base f =
     (if fd io < 0 then (EINVAL, base)
      else case svc_FindDentry io VALIDATE (sb_name base) f of
        None \<Rightarrow> (ENOENT, base)
      | Some (bidx, page, bitPos) \<Rightarrow>
          let de = nsl page ! bitPos
          in (E_OK, (svc_lookup_base de base)\<lparr>sb_recordId := take RECORD_ID_LEN (sd_recordId de)\<rparr>))"

definition svc_DoLookupByRecordId :: "io_env \<Rightarrow> SvcBase \<Rightarrow> u8 \<Rightarrow> svc_file \<Rightarrow> int \<times> SvcBase" where
  "svc_DoLookupByRecordId io base revalidate f =
     (if fd io < 0 then (EINVAL, base)
      else let valid = (if revalidate AND VALIDATE = 0 then None
                        else svc_FindDentryById io VALIDATE (sb_hash base) (sb_recordId base) f);
               found = (case valid of Some r \<Rightarrow> Some r
                        | None \<Rightarrow> if revalidate AND INVALIDATE = 0 then None
                                  else svc_FindDentryById io INVALIDATE (sb_hash base) (sb_recordId base) f)
      in case found of
        None \<Rightarrow> (ENOENT, base)
      | Some (bidx, page, bitPos) \<Rightarrow>
          (E_OK, (svc_lookup_base (nsl page ! bitPos) base)\<lparr>sb_name := name_at svc_layout page bitPos\<rparr>))"

definition svc_DoLookupByOffset :: "io_env \<Rightarrow> SvcBase \<Rightarrow> nat \<Rightarrow> nat \<Rightarrow> svc_file \<Rightarrow> int \<times> SvcBase" where
  "svc_DoLookupByOffset io base bidx bitPos f =
     (if fd io < 0 then (EINVAL, base)
      else case read_page io f bidx of
        None \<Rightarrow> (ENOENT, base)
      | Some dentryBlk \<Rightarrow>
          if bitPos \<ge> 60 then (EINVAL, base)
          else let de = nsl dentryBlk ! bitPos
               in (E_OK, (svc_lookup_base de base)
                    \<lparr>sb_name := name_at svc_layout dentryBlk bitPos, sb_recordId := take RECORD_ID_LEN (sd_recordId de)\<rparr>))"

definition svc_DoLookupPlaceholderByName :: "io_env \<Rightarrow> SvcBase \<Rightarrow> svc_file \<Rightarrow> int \<times> u8 option" where
  "svc_DoLookupPlaceholderByName io base f =
     (if fd io < 0 then (EINVAL, None)
      else case svc_FindDentry io VALIDATE (sb_name base) f of
        None \<Rightarrow> (ENOENT, None)
      | Some (bidx, page, bitPos) \<Rightarrow> (E_OK, Some (GetDentryPlaceholderState (nsl page ! bitPos))))"

section \<open>Rename\<close>

text \<open>This object and \<open>newMetaFile\<close> are files of a store indexed by inode.\<close>

type_synonym svc_store = "u64 \<Rightarrow> svc_file"

definition svc_DoRename ::
  "io_env \<Rightarrow> io_env \<Rightarrow> io_env \<Rightarrow> SvcBase \<Rightarrow> string \<Rightarrow> u64 \<Rightarrow> u64 \<Rightarrow> svc_store \<Rightarrow> int \<times> svc_store" where
  "svc_DoRename io1 io2 io3 metaBase newName this newMetaFile st =
     (case svc_DoCreate io1 (metaBase\<lparr>sb_name := newName\<rparr>) (st newMetaFile) of (ret, _, f1) \<Rightarrow>
      let st1 = st(newMetaFile := f1) in
      if ret \<noteq> 0 then (ret, st1)
      else case svc_DoRemove io2 metaBase (st1 this) of (ret, _, _, f2) \<Rightarrow>
        let st2 = st1(this := f2) in
        if ret \<noteq> 0
        then (case svc_DoFlush io3 (metaBase\<lparr>sb_name := newName\<rparr>) (st2 newMetaFile) of (_, _, f3) \<Rightarrow>
                (ret, st2(newMetaFile := f3)))
        else (E_OK, st2))"

section \<open>The directory invariant\<close>

abbreviation svc_live :: "SvcDentry \<Rightarrow> bool" where
  "svc_live \<equiv> has_state VALIDATE"

definition svc_dir :: "svc_file \<Rightarrow> string \<Rightarrow> SvcDentry option" where
  "svc_dir f = dir_map svc_layout svc_live f"

definition svc_inv :: "svc_file \<Rightarrow> bool" where
  "svc_inv f \<longleftrightarrow> wf_dir svc_layout f \<and> unique_names svc_layout svc_live f"

definition svc_valid :: "SvcBase \<Rightarrow> bool" where
  "svc_valid base \<longleftrightarrow> sb_name base \<noteq> [] \<and> length (sb_name base) \<le> 960 \<and> length (sb_recordId base) \<le> RECORD_ID_LEN"

lemma wf_svc_layout [simp]: "wf_layout svc_layout"
  by (simp add: wf_layout_def svc_layout_def)

lemma svc_layout_sel [simp]:
  "per_group svc_layout = 60" "slot_bits svc_layout = 4"
  "namelen_of svc_layout = sd_namelen" "hash_of svc_layout = sd_hash"
  by (simp_all add: svc_layout_def)

lemma svc_FindDentry_eq: "svc_FindDentry io rv name f = find_name svc_layout (has_state rv) io 63 name f"
  by (simp add: svc_FindDentry_def find_entry_def svc_InLevel_def [abs_def] svc_FindInBlock_def [abs_def] Let_def)

lemma svc_FindDentryById_eq:
  "svc_FindDentryById io rv h rid f = find_entry svc_layout io (id_match rv rid) h 63 f"
  by (simp add: svc_FindDentryById_def find_entry_def svc_InLevel_def [abs_def] svc_FindInBlockById_def [abs_def])

lemma svc_levels: "wf_dir svc_layout f \<Longrightarrow> levels f \<le> 63"
  using blocks_levels(2) [of f] by (auto simp: wf_dir_def)

lemma svc_find_absent: "svc_inv f \<Longrightarrow> svc_dir f name = None \<Longrightarrow> svc_FindDentry io VALIDATE name f = None"
  unfolding svc_FindDentry_eq by (rule find_name_absent) (simp_all add: svc_inv_def svc_dir_def)

lemma svc_find_present:
  assumes "svc_inv f" and "good_io io" and "svc_dir f name = Some de"
  obtains idx i where "svc_FindDentry io VALIDATE name f = Some (idx, pages f idx, i)" "entry_at svc_layout f idx i"
    "entry_name svc_layout f idx i = name" "dentry_at f idx i = de" "svc_live de"
proof -
  have wf: "wf_dir svc_layout f" and un: "unique_names svc_layout svc_live f" using assms(1) by (auto simp: svc_inv_def)
  show thesis
    by (rule find_name_present [OF wf assms(2) un svc_levels [OF wf] assms(3) [unfolded svc_dir_def]])
      (use that in \<open>simp add: svc_FindDentry_eq\<close>)
qed

lemma svc_slots_valid:
  "0 < n \<Longrightarrow> n \<le> 960 \<Longrightarrow> 0 < GetDentrySlots 4 n \<and> GetDentrySlots 4 n \<le> 60 \<and> n \<le> GetDentrySlots 4 n * 16"
  using GetDentrySlots_cover [of n 4] GetDentrySlots_pos [of n 4] by (simp add: GetDentrySlots_eq)

lemma svc_dentry_of_sel [simp]:
  "sd_namelen (svc_dentry_of base h rid) = word_of_nat (length (sb_name base))" "sd_hash (svc_dentry_of base h rid) = h"
  "sd_revalidate (svc_dentry_of base h rid) = 1"
  by (simp_all add: svc_dentry_of_def)

lemma svc_bucket_fun: "bucket_fun (\<lambda>l. Some (GetBidxFromLevel l h)) h"
  by (simp add: bucket_fun_def)

lemma svc_create_law:
  assumes inv: "svc_inv f" and io: "good_io io" and lv: "levels f \<le> 18"
    and n: "sb_name base \<noteq> []" "length (sb_name base) \<le> 960" "length rid \<le> 16"
    and none: "svc_dir f (sb_name base) = None"
  defines "de \<equiv> svc_dentry_of base (DentryHash (sb_name base) False) rid"
  shows "\<exists>f' idx p. svc_create io base rid f = (0, Some (idx, p), f') \<and> svc_inv f' \<and> levels f' \<le> levels f + 1 \<and>
    svc_dir f' = (svc_dir f)(sb_name base \<mapsto> de) \<and> entry_at svc_layout f' idx p \<and>
    entry_name svc_layout f' idx p = sb_name base \<and> dentry_at f' idx p = de"
proof -
  let ?n = "sb_name base" and ?h = "DentryHash (sb_name base) False"
  let ?s = "GetDentrySlots (slot_bits svc_layout) (length (sb_name base))"
  have wf: "wf_dir svc_layout f" and un: "unique_names svc_layout svc_live f" using inv by (auto simp: svc_inv_def)
  then have sz: "level_size (st_size f)" by (simp add: wf_dir_def)
  have slots: "0 < ?s" "?s \<le> per_group svc_layout" "length ?n \<le> ?s * 16" using svc_slots_valid [of "length ?n"] n by auto
  obtain idx p g f1 where al: "alloc_scan (\<lambda>l. Some (GetBidxFromLevel l ?h)) svc_layout io ?s 0 f = (AllocAt idx p g, f1)"
    and f1: "f1 = f \<or> f1 = truncate_file svc_layout f (GetDcacheFileSize (levels f))"
    using alloc_scan_succeeds [OF svc_bucket_fun io wf lv slots(1,2)] by blast
  have s1: "st_size f1 < 2 ^ 32" and l1: "levels f1 \<le> levels f + 1"
    using f1 levels_mono_truncate [OF sz lv, of svc_layout] level_size_less [OF sz] by auto
  let ?f = "write_page f1 idx (place_dentry svc_layout g p ?n de)"
  have len: "length ?n < 2 ^ 16" using n by simp
  have de: "namelen_of svc_layout de = word_of_nat (length ?n)" "hash_of svc_layout de = ?h" by (simp_all add: de_def)
  note c = create_dir [OF svc_bucket_fun wf al s1 n(1) len de]
  have "idx < blocks f1" using alloc_scan_AllocAt [OF svc_bucket_fun al] by simp
  then have "levels ?f = levels f1" by (simp add: levels_def blocks_write_page)
  moreover have "CreateDentry g base ?h p rid = Some (place_dentry svc_layout g p ?n de)"
    using slots n by (auto simp: CreateDentry_def Let_def memcpy_s_ok_def de_def)
  then have "svc_create io base rid f = (0, Some (idx, p), ?f)"
    using io slots al svc_find_absent [OF inv none] by (simp add: svc_create_def svc_GetCreateInfo_def good_io_def)
  moreover have "svc_live de" by (simp add: has_state_def de_def)
  ultimately show ?thesis using c un none l1
    by (intro exI [of _ ?f] exI [of _ idx] exI [of _ p]) (auto simp: svc_inv_def svc_dir_def)
qed

lemma svc_fd: "good_io io \<Longrightarrow> \<not> fd io < 0 \<and> write_ok io"
  by (auto simp: good_io_def)

lemma svc_modify_absent:
  "svc_inv f \<Longrightarrow> good_io io \<Longrightarrow> svc_dir f name = None \<Longrightarrow> svc_modify io VALIDATE ch name f = (ENOENT, [], None, f)"
  using svc_find_absent [of f name io] svc_fd [of io] by (simp add: svc_modify_def)

lemma svc_modify_law:
  assumes inv: "svc_inv f" and io: "good_io io" and d: "svc_dir f name = Some de"
    and ch: "\<And>g p. ch g p = set_dentry g p (upd (nsl g ! p))"
    and keep: "\<And>de. sd_namelen (upd de) = sd_namelen de" "\<And>de. sd_hash (upd de) = sd_hash de"
  shows "\<exists>f' idx p. svc_modify io VALIDATE ch name f = (0, take 16 (sd_recordId de), Some (idx, p), f') \<and> svc_inv f' \<and>
    svc_dir f' = (svc_dir f)(name := if svc_live (upd de) then Some (upd de) else None) \<and> levels f' = levels f \<and>
    entry_at svc_layout f idx p \<and> entry_name svc_layout f idx p = name \<and> dentry_at f idx p = de \<and>
    entry_at svc_layout f' idx p \<and> entry_name svc_layout f' idx p = name \<and> dentry_at f' idx p = upd de"
proof -
  have wf: "wf_dir svc_layout f" and un: "unique_names svc_layout svc_live f" using inv by (auto simp: svc_inv_def)
  from svc_find_present [OF inv io d] obtain idx p where
    F: "svc_FindDentry io VALIDATE name f = Some (idx, pages f idx, p)" and e: "entry_at svc_layout f idx p"
    and n: "entry_name svc_layout f idx p = name" "dentry_at f idx p = de" "svc_live de" by metis
  let ?f = "write_page f idx (set_dentry (pages f idx) p (upd de))"
  have k: "namelen_of svc_layout (upd de) = namelen_of svc_layout (dentry_at f idx p)"
    "hash_of svc_layout (upd de) = hash_of svc_layout (dentry_at f idx p)" using keep n by simp_all
  have lv: "svc_live (dentry_at f idx p)" using n by simp
  note s = set_dir [OF wf e lv un k] set_in_file [OF wf e k]
  have "svc_modify io VALIDATE ch name f = (0, take 16 (sd_recordId de), Some (idx, p), ?f)"
    using F svc_fd [OF io] n(2) ch by (simp add: svc_modify_def Let_def)
  moreover have "levels ?f = levels f" using e by (simp add: levels_def blocks_write_page entry_at_def)
  ultimately show ?thesis using s e n
    by (intro exI [of _ ?f] exI [of _ idx] exI [of _ p]) (auto simp: svc_inv_def svc_dir_def)
qed

lemma invalidate_upd: "invalidate g p = set_dentry g p ((\<lambda>de. de\<lparr>sd_revalidate := 2\<rparr>) (nsl g ! p))"
  by (simp add: invalidate_def)

lemma svc_DoRemove_law:
  assumes inv: "svc_inv f" and io: "good_io io" and d: "svc_dir f (sb_name base) = Some de"
  shows "\<exists>f' idx p. svc_DoRemove io base f = (0, take 16 (sd_recordId de), Some (idx, p), f') \<and> svc_inv f' \<and>
    svc_dir f' = (svc_dir f)(sb_name base := None) \<and> levels f' = levels f \<and>
    entry_at svc_layout f idx p \<and> entry_name svc_layout f idx p = sb_name base \<and> dentry_at f idx p = de \<and>
    entry_at svc_layout f' idx p \<and> entry_name svc_layout f' idx p = sb_name base \<and> dentry_at f' idx p = de\<lparr>sd_revalidate := 2\<rparr>"
  using svc_modify_law [OF inv io d invalidate_upd] by (simp add: svc_DoRemove_def has_state_def)

lemma svc_DoUpdate_law:
  assumes inv: "svc_inv f" and io: "good_io io" and d: "svc_dir f (sb_name base) = Some de"
  shows "\<exists>f' idx p. svc_DoUpdate io base f = (0, take 16 (sd_recordId de), Some (idx, p), f') \<and> svc_inv f' \<and>
    svc_dir f' = (svc_dir f)(sb_name base \<mapsto> svc_update_de base de)"
proof -
  have "svc_live de" using d unfolding svc_dir_def by (auto dest: dir_map_SomeD)
  then have "svc_live (svc_update_de base de)" by (simp add: has_state_def svc_update_de_def)
  then show ?thesis
    using svc_modify_law [OF inv io d, of "\<lambda>g p. set_dentry g p (svc_update_de base (nsl g ! p))" "svc_update_de base"]
    by (auto simp: svc_DoUpdate_def svc_update_de_def)
qed

lemma svc_DoLookupByName_law:
  assumes inv: "svc_inv f" and io: "good_io io"
  shows "svc_DoLookupByName io base f = (case svc_dir f (sb_name base) of None \<Rightarrow> (ENOENT, base)
    | Some de \<Rightarrow> (E_OK, (svc_lookup_base de base)\<lparr>sb_recordId := take 16 (sd_recordId de)\<rparr>))"
proof (cases "svc_dir f (sb_name base)")
  case None
  then show ?thesis using svc_find_absent [OF inv] svc_fd [OF io] by (simp add: svc_DoLookupByName_def)
next
  case (Some de)
  from svc_find_present [OF inv io Some] obtain idx p where
    "svc_FindDentry io VALIDATE (sb_name base) f = Some (idx, pages f idx, p)" "dentry_at f idx p = de" by metis
  then show ?thesis using Some svc_fd [OF io] by (simp add: svc_DoLookupByName_def Let_def)
qed

interpretation svc_store: directory_store good_io svc_inv "\<lambda>f. levels f \<le> 18" svc_dir svc_valid sb_name
  "\<lambda>base. svc_dentry_of base (DentryHash (sb_name base) False) (sb_recordId base)" svc_update_de "0 :: int"
  "\<lambda>io name f. map_option (\<lambda>(idx, g, i). nsl g ! i) (svc_FindDentry io VALIDATE name f)"
  "\<lambda>io base f. case svc_DoCreate io base f of (ret, _, f') \<Rightarrow> (ret, f')"
  "\<lambda>io base f. case svc_DoUpdate io base f of (ret, _, _, f') \<Rightarrow> (ret, f')"
  "\<lambda>io name f. case svc_DoRemove io (SvcBase_id name []) f of (ret, _, _, f') \<Rightarrow> (ret, f')"
proof (unfold_locales, goal_cases)
  case (1 io f n)
  then show ?case
    by (cases "svc_dir f n") (auto simp: svc_find_absent elim!: svc_find_present [OF 1(2,1)])
next
  case (2 io f b)
  then show ?case using svc_create_law [of f io b "sb_recordId b"] by (fastforce simp: svc_DoCreate_def svc_valid_def)
next
  case (3 io f b a)
  then show ?case using svc_DoUpdate_law [of f io b a] by auto
next
  case (4 io f b)
  then show ?case using svc_modify_absent [of f io "sb_name b"] by (simp add: svc_DoUpdate_def)
next
  case (5 io f n)
  then obtain de where "svc_dir f n = Some de" by auto
  then show ?case using svc_DoRemove_law [of f io "SvcBase_id n []" de] 5 by (auto simp: SvcBase_id_def)
next
  case (6 io f n)
  then show ?case using svc_modify_absent [of f io n] by (simp add: svc_DoRemove_def SvcBase_id_def)
qed

end
