(* ===== verification/Service_Meta_Ops.thy ===== *)
theory Service_Meta_Ops
  imports Service_Meta_File
begin

text \<open>
  Histories of the sync-folder dentry file. The operations of \<open>CloudDiskServiceMetaFile\<close> are the
  steps of a transition relation whose system calls may succeed or fail. The change log of the
  sync folder stores the block and position of an entry, so what a history keeps at a position is
  what the log can rely on: only \<open>DoFlush\<close> gives a position up.
\<close>

unbundle bit_operations_syntax

section \<open>Steps\<close>

inductive svc_step :: "svc_file \<Rightarrow> svc_file \<Rightarrow> bool" where
  create: "svc_DoCreate io base f = (ret, pos, f') \<Longrightarrow> sb_name base \<noteq> [] \<Longrightarrow> st_size f' < 2 ^ 32 \<Longrightarrow> svc_step f f'"
| rename_new: "svc_DoRenameNew io base recordId f = (ret, pos, f') \<Longrightarrow> sb_name base \<noteq> [] \<Longrightarrow> st_size f' < 2 ^ 32 \<Longrightarrow>
    svc_step f f'"
| remove: "svc_DoRemove io base f = (ret, recordId, pos, f') \<Longrightarrow> svc_step f f'"
| rename_old: "svc_DoRenameOld io base f = (ret, recordId, pos, f') \<Longrightarrow> svc_step f f'"
| update: "svc_DoUpdate io base f = (ret, recordId, pos, f') \<Longrightarrow> svc_step f f'"
| placeholder: "svc_DoUpdatePlaceholderState io base st f = (ret, f') \<Longrightarrow> svc_step f f'"

inductive svc_reach :: "svc_file \<Rightarrow> bool" where
  init: "svc_reach (empty_file svc_layout)"
| step: "svc_reach f \<Longrightarrow> svc_step f f' \<Longrightarrow> svc_reach f'"
| flush: "svc_reach f \<Longrightarrow> svc_DoFlush io base f = (ret, pos, f') \<Longrightarrow> svc_reach f'"

text \<open>What a step keeps of every entry, and the two states an entry can have.\<close>

definition svc_kept :: "svc_file \<Rightarrow> svc_file \<Rightarrow> bool" where
  "svc_kept f f' \<longleftrightarrow> (\<forall>idx p. entry_at svc_layout f idx p \<longrightarrow> entry_at svc_layout f' idx p \<and>
     entry_name svc_layout f' idx p = entry_name svc_layout f idx p \<and>
     sd_recordId (dentry_at f' idx p) = sd_recordId (dentry_at f idx p))"

definition svc_states :: "svc_file \<Rightarrow> bool" where
  "svc_states f \<longleftrightarrow> (\<forall>idx p. entry_at svc_layout f idx p \<longrightarrow> sd_revalidate (dentry_at f idx p) \<in> {VALIDATE, INVALIDATE})"

lemma svc_kept_refl [simp]: "svc_kept f f"
  by (simp add: svc_kept_def)

lemma svc_kept_trans: "svc_kept f g \<Longrightarrow> svc_kept g h \<Longrightarrow> svc_kept f h"
  by (simp add: svc_kept_def)

lemma svc_find_sound:
  assumes "svc_FindDentry io rv name f = Some (idx, g, p)"
  shows "g = pages f idx" "entry_at svc_layout f idx p" "entry_name svc_layout f idx p = name"
    "has_state rv (dentry_at f idx p)"
  using find_name_sound [OF wf_svc_layout assms [unfolded svc_FindDentry_eq]] by auto

lemma svc_modify_cases:
  assumes "svc_modify io rv ch name f = (ret, recordId, pos, f')"
  obtains "f' = f" "ret \<noteq> 0"
  | idx p where "f' = write_page f idx (ch (pages f idx) p)" "ret = 0" "pos = Some (idx, p)" "entry_at svc_layout f idx p"
      "entry_name svc_layout f idx p = name" "has_state rv (dentry_at f idx p)"
  using assms svc_find_sound [of io rv name f]
  by (fastforce simp: svc_modify_def Let_def split: if_splits option.splits prod.splits)

definition entry_update :: "(SvcDentry \<Rightarrow> SvcDentry) \<Rightarrow> bool" where
  "entry_update upd \<longleftrightarrow> (\<forall>de. sd_namelen (upd de) = sd_namelen de \<and> sd_hash (upd de) = sd_hash de \<and>
     sd_recordId (upd de) = sd_recordId de \<and> sd_revalidate (upd de) \<in> {sd_revalidate de, INVALIDATE})"

lemma svc_modify_keeps:
  assumes m: "svc_modify io rv (\<lambda>g p. set_dentry g p (upd (nsl g ! p))) name f = (ret, recordId, pos, f')"
    and upd: "entry_update upd" and wf: "wf_dir svc_layout f"
  shows "wf_dir svc_layout f'" "svc_kept f f'" "svc_states f \<Longrightarrow> svc_states f'"
proof (atomize (full), rule svc_modify_cases [OF m])
  assume "f' = f"
  then show "wf_dir svc_layout f' \<and> svc_kept f f' \<and> (svc_states f \<longrightarrow> svc_states f')" using wf by simp
next
  fix idx p
  assume f': "f' = write_page f idx (set_dentry (pages f idx) p (upd (dentry_at f idx p)))"
    and e: "entry_at svc_layout f idx p"
  let ?de = "upd (dentry_at f idx p)"
  have k: "namelen_of svc_layout ?de = namelen_of svc_layout (dentry_at f idx p)"
    "hash_of svc_layout ?de = hash_of svc_layout (dentry_at f idx p)" using upd by (simp_all add: entry_update_def)
  note s = set_in_file [OF wf e k, folded f']
  have "entry_at svc_layout f' i j \<longleftrightarrow> entry_at svc_layout f i j" for i j
    using s(2,3) e by (cases "(i, j) = (idx, p)") (auto simp: same_except_def)
  moreover have "entry_name svc_layout f' i j = entry_name svc_layout f i j \<and>
      sd_recordId (dentry_at f' i j) = sd_recordId (dentry_at f i j) \<and>
      sd_revalidate (dentry_at f' i j) \<in> {sd_revalidate (dentry_at f i j), INVALIDATE}" if "entry_at svc_layout f i j" for i j
    using that s(3-5) upd by (cases "(i, j) = (idx, p)") (auto simp: same_except_def entry_update_def)
  ultimately show "wf_dir svc_layout f' \<and> svc_kept f f' \<and> (svc_states f \<longrightarrow> svc_states f')"
    using s(1) by (fastforce simp: svc_kept_def svc_states_def)
qed

lemma svc_create_keeps:
  assumes c: "svc_create io base rid f = (ret, pos, f')" and n: "sb_name base \<noteq> []"
    and sz: "st_size f' < 2 ^ 32" and wf: "wf_dir svc_layout f"
  shows "wf_dir svc_layout f'" "svc_kept f f'" "svc_states f \<Longrightarrow> svc_states f'"
proof -
  let ?s = "GetDentrySlots (slot_bits svc_layout) (length (sb_name base))" and ?h = "DentryHash (sb_name base) False"
  let ?al = "alloc_scan (\<lambda>l. Some (GetBidxFromLevel l ?h)) svc_layout io ?s 0 f"
  let ?P = "wf_dir svc_layout f' \<and> svc_kept f f' \<and> (svc_states f \<longrightarrow> svc_states f')"
  obtain r f1 where al: "?al = (r, f1)" by fastforce
  have ext: "extends svc_layout f f1" using alloc_scan_extends [OF svc_bucket_fun al] by blast
  note ee = extends_entries [OF wf_svc_layout ext]
  have grown: ?P if "f' = f1"
    using that alloc_scan_wf [OF svc_bucket_fun wf al] sz ee by (auto simp: svc_kept_def svc_states_def)
  have "f' = f \<or> f' = f1 \<or> (\<exists>idx p g de. r = AllocAt idx p g \<and> f' = write_page f1 idx (place_dentry svc_layout g p (sb_name base) de)
      \<and> de = svc_dentry_of base ?h rid \<and> ?s \<le> 60 \<and> length (sb_name base) \<le> ?s * 16)"
    using c al by (auto simp: memcpy_s_ok_def svc_create_def svc_GetCreateInfo_def CreateDentry_def Let_def
        split: if_splits option.splits alloc.splits prod.splits)
  then consider "f' = f" | "f' = f1"
    | idx p g where "r = AllocAt idx p g" "length (sb_name base) \<le> 960"
      "f' = write_page f1 idx (place_dentry svc_layout g p (sb_name base) (svc_dentry_of base ?h rid))" by fastforce
  then have ?P
  proof cases
    case 3
    note al = al [unfolded 3(1)]
    from alloc_scan_AllocAt [OF svc_bucket_fun al] have idx: "idx < blocks f1" and g: "g = pages f1 idx"
      and free: "free_run (bitmap (pages f1 idx)) (per_group svc_layout) p ?s" by auto
    have s1: "st_size f1 < 2 ^ 32" using sz 3(3) blocks_write_page [OF idx] by simp
    have len: "length (sb_name base) < 2 ^ 16" using 3(2) by simp
    have wf1: "wf_dir svc_layout f1" using alloc_scan_wf [OF svc_bucket_fun wf al s1] .
    then have "in_bucket idx ?h" using alloc_scan_bucket [OF svc_bucket_fun al] by (simp add: wf_dir_def)
    from place_in_file [OF wf1 idx free n len _ _ this, of "svc_dentry_of base ?h rid", folded g, folded 3(3)]
    have pl: "wf_dir svc_layout f'" "\<not> entry_at svc_layout f1 idx p" "same_except svc_layout idx p f1 f'"
      "dentry_at f' idx p = svc_dentry_of base ?h rid" by auto
    have old: "entry_at svc_layout f' i j \<and> entry_name svc_layout f' i j = entry_name svc_layout f i j \<and> dentry_at f' i j = dentry_at f i j"
      if "entry_at svc_layout f i j" for i j
      using that pl(2,3) ee by (cases "(i, j) = (idx, p)") (auto simp: same_except_def)
    have new: "entry_at svc_layout f i j \<or> (i, j) = (idx, p)" if "entry_at svc_layout f' i j" for i j
      using that pl(3) ee(1) by (auto simp: same_except_def)
    show ?P using old new pl(1,4) by (fastforce simp: svc_kept_def svc_states_def)
  qed (use wf grown in auto)
  then show "wf_dir svc_layout f'" "svc_kept f f'" "svc_states f \<Longrightarrow> svc_states f'" by auto
qed

lemma entry_updates [simp]:
  "entry_update (\<lambda>de. de\<lparr>sd_revalidate := 2\<rparr>)" "entry_update (svc_update_de base)"
  "entry_update (\<lambda>de. SetDentryPlaceholderState de st)"
  by (simp_all add: entry_update_def svc_update_de_def SetDentryPlaceholderState_def)

lemmas svc_op_defs = svc_DoCreate_def svc_DoRenameNew_def svc_DoRemove_def svc_DoRenameOld_def svc_DoUpdate_def
  svc_DoUpdatePlaceholderState_def invalidate_upd [abs_def]

lemma svc_step_keeps:
  assumes "svc_step f f'" and "wf_dir svc_layout f"
  shows "wf_dir svc_layout f' \<and> svc_kept f f' \<and> (svc_states f \<longrightarrow> svc_states f')"
  using assms
proof (induction rule: svc_step.induct)
  case (placeholder io base st f ret f')
  then obtain rid pos where "svc_modify io VALIDATE (\<lambda>g p. set_dentry g p (SetDentryPlaceholderState (nsl g ! p) st))
      (sb_name base) f = (ret, rid, pos, f')"
    by (auto simp: svc_DoUpdatePlaceholderState_def split: prod.splits)
  from svc_modify_keeps [OF this] placeholder show ?case by simp
next
  case (remove io base f ret rid pos f')
  from svc_modify_keeps [OF remove(1) [unfolded svc_op_defs]] remove(2) show ?case by simp
next
  case (rename_old io base f ret rid pos f')
  from svc_modify_keeps [OF rename_old(1) [unfolded svc_op_defs]] rename_old(2) show ?case by simp
next
  case (update io base f ret rid pos f')
  from svc_modify_keeps [OF update(1) [unfolded svc_op_defs]] update(2) show ?case by simp
qed (auto simp: svc_op_defs dest: svc_create_keeps)

lemma svc_steps_keep:
  assumes "svc_step\<^sup>*\<^sup>* f f'" and "wf_dir svc_layout f"
  shows "wf_dir svc_layout f' \<and> svc_kept f f'"
  using assms by (induction rule: rtranclp_induct) (auto dest: svc_step_keeps intro: svc_kept_trans)

section \<open>Flush\<close>

lemma svc_DoFlush_cases:
  assumes "svc_DoFlush io base f = (ret, pos, f')"
  obtains "f' = f" "ret \<noteq> 0"
  | idx p where "f' = write_page f idx (free_dentry svc_layout (pages f idx) p)" "ret = 0" "entry_at svc_layout f idx p"
      "entry_name svc_layout f idx p = sb_name base" "has_state INVALIDATE (dentry_at f idx p)"
proof -
  from assms obtain rid where m: "svc_modify io INVALIDATE (free_dentry svc_layout) (sb_name base) f = (ret, rid, pos, f')"
    by (auto simp: svc_DoFlush_def split: prod.splits)
  show thesis by (rule svc_modify_cases [OF m]) (use that in blast)+
qed

lemma svc_flush_keeps:
  assumes fl: "svc_DoFlush io base f = (ret, pos, f')" and wf: "wf_dir svc_layout f" and st: "svc_states f"
  shows "wf_dir svc_layout f' \<and> svc_states f' \<and>
    (unique_names svc_layout svc_live f \<longrightarrow> unique_names svc_layout svc_live f' \<and> svc_dir f' = svc_dir f)"
proof (rule svc_DoFlush_cases [OF fl])
  fix idx p
  assume f': "f' = write_page f idx (free_dentry svc_layout (pages f idx) p)" and e: "entry_at svc_layout f idx p"
    and dead: "has_state INVALIDATE (dentry_at f idx p)"
  note fr = free_in_file [OF wf e, folded f']
  have "sd_revalidate (dentry_at f idx p) \<in> {1, 2}" using st e by (simp add: svc_states_def)
  then have "\<not> svc_live (dentry_at f idx p)" using dead by (auto simp: has_state_def)
  from remove_dead_dir [OF wf e, of svc_live, OF this, folded f'] fr st show ?thesis
    by (force simp: svc_states_def svc_dir_def same_except_def)
qed (use wf st in auto)

lemma svc_reach_inv: "svc_reach f \<Longrightarrow> wf_dir svc_layout f \<and> svc_states f"
proof (induction rule: svc_reach.induct)
  case init
  show ?case
    using wf_empty_file [of svc_layout] by (simp add: svc_states_def entry_at_def empty_file_def GetDentryGroupCnt_def)
qed (auto dest: svc_step_keeps svc_flush_keeps)

section \<open>Properties\<close>

definition svc_stored :: "SvcBase \<Rightarrow> string \<Rightarrow> SvcBase" where
  "svc_stored base name =
     base\<lparr>sb_name := name, sb_mode := ucast (ucast (sb_mode base) :: u16), sb_hash := DentryHash (sb_name base) False,
          sb_placeholder := SanitizeDentryPlaceholderState (sb_placeholder base),
          sb_recordId := sb_recordId base @ replicate (16 - length (sb_recordId base)) NUL\<rparr>"

lemma Sanitize_idem [simp]: "SanitizeDentryPlaceholderState (SanitizeDentryPlaceholderState s) = SanitizeDentryPlaceholderState s"
  by (simp add: SanitizeDentryPlaceholderState_def IsValidPlaceholderState_def)

lemma svc_view_fresh:
  assumes "length (sb_recordId base) \<le> 16"
  defines "de \<equiv> svc_dentry_of base (DentryHash (sb_name base) False) (sb_recordId base)"
  shows "(svc_lookup_base de b)\<lparr>sb_name := n, sb_recordId := take 16 (sd_recordId de)\<rparr> = svc_stored base n"
  unfolding de_def
  by (rule SvcBase.equality)
    (use assms(1) in \<open>simp_all add: svc_lookup_base_def svc_stored_def svc_dentry_of_def GetDentryPlaceholderState_def memcpy_s_zero\<close>)

lemma svc_offset_lookup:
  assumes io: "good_io io" and e: "entry_at svc_layout f idx p"
  shows "svc_DoLookupByOffset io b idx p f = (0, (svc_lookup_base (dentry_at f idx p) b)
    \<lparr>sb_name := entry_name svc_layout f idx p, sb_recordId := take 16 (sd_recordId (dentry_at f idx p))\<rparr>)"
proof -
  have "p < 60" "read_page io f idx = Some (pages f idx)"
    using e read_page_good [OF io, of idx f] by (auto simp: entry_at_def head_def)
  then show ?thesis using svc_fd [OF io] by (simp add: svc_DoLookupByOffset_def Let_def)
qed

definition svc_ids_unique :: "svc_file \<Rightarrow> bool" where
  "svc_ids_unique f \<longleftrightarrow> (\<forall>i j i' j'. entry_at svc_layout f i j \<and> entry_at svc_layout f i' j' \<and>
     svc_live (dentry_at f i j) \<and> svc_live (dentry_at f i' j') \<and>
     take 16 (sd_recordId (dentry_at f i j)) = take 16 (sd_recordId (dentry_at f i' j')) \<longrightarrow> (i, j) = (i', j'))"

definition svc_empty :: svc_file where
  "svc_empty = empty_file svc_layout"

definition svc_io :: io_env where
  "svc_io = \<lparr>fd = 3, fstat_ok = True, ftruncate_ok = (\<lambda>_. True), read_ok = (\<lambda>_. True), write_ok = True\<rparr>"

lemma svc_witness_state [simp]:
  "good_io svc_io" "svc_inv svc_empty" "levels svc_empty \<le> 18" "svc_dir svc_empty = Map.empty" "wf_dir svc_layout svc_empty"
  "svc_states svc_empty"
  using wf_empty_file [of svc_layout] dir_empty_file [of svc_layout]
  by (simp_all add: svc_io_def good_io_def svc_inv_def svc_empty_def svc_dir_def)
    (simp_all add: empty_file_def levels_def svc_states_def entry_at_def GetDentryGroupCnt_def)

abbreviation base_a :: SvcBase where
  "base_a \<equiv> SvcBase_id ''a'' ''id''"

lemma svc_witness_created:
  "\<exists>f1 idx p. svc_DoCreate svc_io base_a svc_empty = (0, Some (idx, p), f1) \<and> svc_step svc_empty f1 \<and> svc_inv f1 \<and>
    levels f1 \<le> 1 \<and> svc_dir f1 = [''a'' \<mapsto> svc_dentry_of base_a (DentryHash ''a'' False) ''id''] \<and> entry_at svc_layout f1 idx p \<and> entry_name svc_layout f1 idx p = ''a''"
proof -
  have "levels svc_empty = 0" by (simp add: svc_empty_def empty_file_def levels_def)
  with svc_create_law [of svc_empty svc_io base_a "''id''"] obtain f1 idx p where
    f: "svc_create svc_io base_a ''id'' svc_empty = (0, Some (idx, p), f1)" "svc_inv f1" "levels f1 \<le> 1"
      "svc_dir f1 = [''a'' \<mapsto> svc_dentry_of base_a (DentryHash ''a'' False) ''id'']" "entry_at svc_layout f1 idx p"
      "entry_name svc_layout f1 idx p = ''a''" by (auto simp: SvcBase_id_def)
  moreover have "st_size f1 < 2 ^ 32" using f(2) level_size_less by (auto simp: svc_inv_def wf_dir_def)
  ultimately show ?thesis
    using svc_step.create [of svc_io base_a svc_empty] by (auto simp: svc_DoCreate_def SvcBase_id_def)
qed

lemma svc_witness_removed:
  "\<exists>f1 rid idx p f2. svc_step svc_empty f1 \<and> svc_DoRemove svc_io base_a f1 = (0, rid, Some (idx, p), f2) \<and> svc_inv f2 \<and>
    svc_dir f2 = Map.empty \<and> entry_at svc_layout f1 idx p \<and> entry_name svc_layout f1 idx p = ''a'' \<and> entry_at svc_layout f2 idx p"
proof -
  from svc_witness_created obtain f1 where f: "svc_step svc_empty f1" "svc_inv f1"
    "svc_dir f1 = [''a'' \<mapsto> svc_dentry_of base_a (DentryHash ''a'' False) ''id'']" by blast
  have n: "sb_name base_a = ''a''" by (simp add: SvcBase_id_def)
  then have "sb_name base_a \<in> dom (svc_dir f1)" using f(3) by simp
  then obtain de where "svc_dir f1 (sb_name base_a) = Some de" by blast
  from svc_DoRemove_law [OF f(2) svc_witness_state(1) this] obtain f2 idx p where
    r: "svc_DoRemove svc_io base_a f1 = (0, take 16 (sd_recordId de), Some (idx, p), f2)" "svc_inv f2"
      "svc_dir f2 = (svc_dir f1)(sb_name base_a := None)" "entry_at svc_layout f1 idx p"
      "entry_name svc_layout f1 idx p = sb_name base_a" "entry_at svc_layout f2 idx p" by blast
  have "dom (svc_dir f2) = {}" using r(3) f(3) n by simp
  then have "svc_dir f2 = Map.empty" by (simp only: dom_eq_empty_conv)
  then show ?thesis using r f(1) n
    by (intro exI [of _ f1] exI [of _ "take 16 (sd_recordId de)"] exI [of _ idx] exI [of _ p] exI [of _ f2]) simp
qed

text \<open>
  C14: CloudDiskServiceMetaFile::DoCreate refines insertion into the directory of valid names.
  A name that is present gives EEXIST and changes nothing. Otherwise the call succeeds, the
  invariant holds afterwards, DoLookupByName returns the stored attributes for the new name and
  what it returned before for every other, and DoLookupByOffset at the returned block and
  position returns the new entry.\<close>

theorem svc_create_correct:
  assumes "svc_inv f" and "good_io io" and "levels f \<le> 18" and "svc_valid base"
  shows "case svc_dir f (sb_name base) of
      Some _ \<Rightarrow> svc_DoCreate io base f = (EEXIST, None, f)
    | None \<Rightarrow> (\<exists>bidx bitPos f'. svc_DoCreate io base f = (E_OK, Some (bidx, bitPos), f') \<and> svc_inv f' \<and>
        (\<forall>b. svc_DoLookupByName io b f' =
           (if sb_name b = sb_name base then (E_OK, svc_stored base (sb_name base)) else svc_DoLookupByName io b f)) \<and>
        (\<forall>b. svc_DoLookupByOffset io b bidx bitPos f' = (E_OK, svc_stored base (sb_name base))))"
proof (cases "svc_dir f (sb_name base)")
  case None
  let ?de = "svc_dentry_of base (DentryHash (sb_name base) False) (sb_recordId base)"
  have n: "sb_name base \<noteq> []" "length (sb_name base) \<le> 960" "length (sb_recordId base) \<le> 16"
    using assms(4) by (auto simp: svc_valid_def)
  from svc_create_law [OF assms(1-3) n None] obtain f' idx p where
    c: "svc_create io base (sb_recordId base) f = (0, Some (idx, p), f')" and f': "svc_inv f'"
      "svc_dir f' = (svc_dir f)(sb_name base \<mapsto> ?de)" "entry_at svc_layout f' idx p"
      "entry_name svc_layout f' idx p = sb_name base" "dentry_at f' idx p = ?de" by blast
  have "svc_DoLookupByName io b f' =
      (if sb_name b = sb_name base then (E_OK, svc_stored base (sb_name base)) else svc_DoLookupByName io b f)" for b
    using svc_view_fresh [OF n(3), where b = b and n = "sb_name b"] svc_DoLookupByName_law [OF f'(1) assms(2)]
      svc_DoLookupByName_law [OF assms(1,2)] f'(2) by (auto simp: svc_lookup_base_def)
  then show ?thesis
    using None c f' svc_offset_lookup [OF assms(2) f'(3)] svc_view_fresh [OF n(3)] by (auto simp: svc_DoCreate_def)
next
  case (Some de)
  from svc_find_present [OF assms(1,2) Some] obtain r where "svc_FindDentry io VALIDATE (sb_name base) f = Some r" by metis
  moreover have "\<not> 60 < GetDentrySlots 4 (length (sb_name base))"
    using svc_slots_valid [of "length (sb_name base)"] assms(4) by (auto simp: svc_valid_def)
  ultimately show ?thesis using Some svc_fd [OF assms(2)] by (simp add: svc_DoCreate_def svc_create_def)
qed

theorem svc_create_correct_witness:
  "\<exists>bidx bitPos f'. svc_DoCreate svc_io (SvcBase_id ''a'' ''id'') svc_empty = (E_OK, Some (bidx, bitPos), f') \<and> svc_inv f'"
  using svc_create_correct [of svc_empty svc_io "SvcBase_id ''a'' ''id''"]
  by (auto simp: svc_valid_def SvcBase_id_def)

text \<open>
  C15: A position handed out for an entry stays valid: after any sequence of creations, removals,
  both halves of renames, attribute and placeholder updates, DoLookupByOffset at the position of
  an entry still returns its name and record id. The calls of these operations may fail in any
  way in which a block is read or written whole or not at all; names are not empty and the file
  stays below 4 GiB. Only DoFlush gives a position up.\<close>

theorem svc_offset_stable:
  assumes "svc_step\<^sup>*\<^sup>* f f'" and "wf_dir svc_layout f" and "entry_at svc_layout f bidx bitPos" and "good_io io"
  shows "\<exists>b'. svc_DoLookupByOffset io b bidx bitPos f' = (E_OK, b') \<and>
    sb_name b' = sb_name (snd (svc_DoLookupByOffset io b bidx bitPos f)) \<and>
    sb_recordId b' = sb_recordId (snd (svc_DoLookupByOffset io b bidx bitPos f))"
proof -
  from svc_steps_keep [OF assms(1,2)] assms(3) have e: "entry_at svc_layout f' bidx bitPos"
    "entry_name svc_layout f' bidx bitPos = entry_name svc_layout f bidx bitPos"
    "sd_recordId (dentry_at f' bidx bitPos) = sd_recordId (dentry_at f bidx bitPos)" by (auto simp: svc_kept_def)
  show ?thesis using svc_offset_lookup [OF assms(4) e(1)] svc_offset_lookup [OF assms(4,3)] e by simp
qed

theorem svc_offset_stable_witness:
  "\<exists>f1 bidx bitPos f2. svc_step svc_empty f1 \<and> svc_step f1 f2 \<and> svc_dir f2 ''a'' = None \<and>
    fst (svc_DoLookupByOffset svc_io base_a bidx bitPos f2) = E_OK \<and>
    sb_name (snd (svc_DoLookupByOffset svc_io base_a bidx bitPos f2)) = ''a''"
proof -
  from svc_witness_removed obtain f1 rid idx p f2 where
    f: "svc_step svc_empty f1" "svc_DoRemove svc_io base_a f1 = (0, rid, Some (idx, p), f2)" "svc_dir f2 = Map.empty"
    and e: "entry_at svc_layout f1 idx p" "entry_name svc_layout f1 idx p = ''a''" by blast
  have s: "svc_step f1 f2" using svc_step.remove [OF f(2)] .
  have wf: "wf_dir svc_layout f1" using svc_step_keeps [OF f(1)] by simp
  from svc_offset_stable [OF r_into_rtranclp [of svc_step, OF s] wf e(1) svc_witness_state(1), of base_a]
    svc_offset_lookup [OF svc_witness_state(1) e(1), of base_a] e(2) f s show ?thesis
    by (intro exI [of _ f1] exI [of _ idx] exI [of _ p] exI [of _ f2]) auto
qed

lemma svc_flush_live:
  assumes fl: "svc_DoFlush io base f = (ret, pos, f')" and wf: "wf_dir svc_layout f" and st: "svc_states f"
  shows "entry_at svc_layout f' idx p \<and> svc_live (dentry_at f' idx p) \<and> entry_name svc_layout f' idx p = n \<and> dentry_at f' idx p = de \<longleftrightarrow>
    entry_at svc_layout f idx p \<and> svc_live (dentry_at f idx p) \<and> entry_name svc_layout f idx p = n \<and> dentry_at f idx p = de"
proof (rule svc_DoFlush_cases [OF fl])
  fix i j
  assume f': "f' = write_page f i (free_dentry svc_layout (pages f i) j)" and e: "entry_at svc_layout f i j"
    and dead: "has_state INVALIDATE (dentry_at f i j)"
  note fr = free_in_file [OF wf e, folded f']
  have "sd_revalidate (dentry_at f i j) \<in> {1, 2}" using st e by (simp add: svc_states_def)
  then have d: "\<not> svc_live (dentry_at f i j)" using dead by (auto simp: has_state_def)
  show ?thesis
  proof (cases "idx = i \<and> p = j")
    case True
    then show ?thesis using fr(2) d by auto
  next
    case False
    then have "entry_at svc_layout f' idx p = entry_at svc_layout f idx p" "entry_at svc_layout f idx p \<Longrightarrow>
        entry_name svc_layout f' idx p = entry_name svc_layout f idx p \<and> dentry_at f' idx p = dentry_at f idx p"
      using fr(3) unfolding same_except_def by blast+
    then show ?thesis by auto
  qed
qed simp

text \<open>
  C16: DoFlush frees only the slots of an invalidated entry. In every file that the operations
  make of an empty one (with names that are not empty, below 4 GiB, and blocks read or written
  whole or not at all), whichever of its calls fail, the valid entries after it are those before
  it, at the same positions with the same names and the same contents, and the file stays well
  formed.\<close>

theorem svc_flush_keeps_names:
  assumes "svc_reach f" and "svc_DoFlush io base f = (ret, pos, f')"
  shows "wf_dir svc_layout f' \<and>
    (entry_at svc_layout f' idx p \<and> svc_live (dentry_at f' idx p) \<and> entry_name svc_layout f' idx p = n \<and> dentry_at f' idx p = de \<longleftrightarrow>
     entry_at svc_layout f idx p \<and> svc_live (dentry_at f idx p) \<and> entry_name svc_layout f idx p = n \<and> dentry_at f idx p = de)"
  using svc_flush_live [OF assms(2)] svc_flush_keeps [OF assms(2)] svc_reach_inv [OF assms(1)] by blast

theorem svc_flush_keeps_names_witness:
  "\<exists>f idx p ret pos f'. svc_DoFlush svc_io base_a f = (ret, pos, f') \<and> entry_at svc_layout f' idx p \<and>
     svc_live (dentry_at f' idx p) \<and> entry_name svc_layout f' idx p = ''a''"
proof -
  from svc_witness_created obtain f1 where f: "svc_step svc_empty f1"
    "svc_dir f1 = [''a'' \<mapsto> svc_dentry_of base_a (DentryHash ''a'' False) ''id'']" by blast
  have r: "svc_reach f1" using svc_reach.init f(1) by (auto simp: svc_empty_def intro: svc_reach.step)
  have "svc_dir f1 ''a'' = Some (svc_dentry_of base_a (DentryHash ''a'' False) ''id'')" using f(2) by simp
  then obtain idx p where e: "entry_at svc_layout f1 idx p" "entry_name svc_layout f1 idx p = ''a''" "svc_live (dentry_at f1 idx p)"
    unfolding svc_dir_def by (auto dest!: dir_map_SomeD)
  obtain ret pos f' where fl: "svc_DoFlush svc_io base_a f1 = (ret, pos, f')" using prod_cases3 by blast
  from svc_flush_keeps_names [OF r fl, of idx p "''a''" "dentry_at f1 idx p"] e fl show ?thesis by blast
qed

lemma svc_ids_uniqueD:
  assumes "svc_ids_unique f" and "entry_at svc_layout f i j" and "entry_at svc_layout f i' j'"
    and "svc_live (dentry_at f i j)" and "svc_live (dentry_at f i' j')"
    and "take 16 (sd_recordId (dentry_at f i j)) = take 16 (sd_recordId (dentry_at f i' j'))"
  shows "i = i'" "j = j'"
  using assms unfolding svc_ids_unique_def by blast+

lemma svc_find_by_id:
  assumes wf: "wf_dir svc_layout f" and io: "good_io io" and un: "svc_ids_unique f"
    and e: "entry_at svc_layout f idx p" and lv: "svc_live (dentry_at f idx p)"
    and rid: "rid = take 16 (sd_recordId (dentry_at f idx p))" "length rid = 16"
  shows "svc_FindDentryById io VALIDATE (sd_hash (dentry_at f idx p)) rid f = Some (idx, pages f idx, p)"
proof (cases "svc_FindDentryById io VALIDATE (sd_hash (dentry_at f idx p)) rid f")
  case None
  from find_entry_complete [OF wf io None [unfolded svc_FindDentryById_eq] svc_levels [OF wf] e] lv rid
  show ?thesis by (simp add: id_match_def)
next
  case (Some r)
  obtain i g j where r: "r = (i, g, j)" by (cases r)
  from find_entry_sound [OF wf_svc_layout Some [unfolded svc_FindDentryById_eq r]]
  have s: "g = pages f i" "entry_at svc_layout f i j" "svc_live (dentry_at f i j)"
    "take 16 (sd_recordId (dentry_at f i j)) = take 16 (sd_recordId (dentry_at f idx p))"
    using rid by (auto simp: id_match_def)
  from svc_ids_uniqueD [OF un s(2) e s(3) lv s(4)] s(1) show ?thesis using Some r by simp
qed

lemma svc_witness_ids:
  "\<exists>f. svc_inv f \<and> svc_dir f = [''a'' \<mapsto> svc_dentry_of base_a (DentryHash ''a'' False) ''id''] \<and> svc_ids_unique f \<and>
    (\<forall>idx p. entry_at svc_layout f idx p \<and> svc_live (dentry_at f idx p) \<longrightarrow> length (sd_recordId (dentry_at f idx p)) = 16)"
proof -
  let ?de = "svc_dentry_of base_a (DentryHash ''a'' False) ''id''"
  from svc_witness_created obtain f where f: "svc_inv f" "svc_dir f = [''a'' \<mapsto> ?de]" by blast
  have live: "entry_name svc_layout f i j = ''a'' \<and> dentry_at f i j = ?de"
    if "entry_at svc_layout f i j" "svc_live (dentry_at f i j)" for i j
    using f dir_map_SomeI [of svc_layout svc_live f i j] that
    by (auto simp: svc_inv_def svc_dir_def split: if_splits)
  then have "svc_ids_unique f" using f(1) unfolding svc_ids_unique_def svc_inv_def unique_names_def by (metis (no_types))
  moreover have "length (sd_recordId (dentry_at f i j)) = 16"
    if "entry_at svc_layout f i j" "svc_live (dentry_at f i j)" for i j
  proof -
    have "dentry_at f i j = ?de" using live that by blast
    then show ?thesis by (simp only: svc_dentry_of_def) simp
  qed
  ultimately show ?thesis using f by blast
qed

lemma svc_witness_lookup:
  "\<exists>f. svc_inv f \<and> 36 \<le> st_size f \<and> (\<forall>io b. good_io io \<and> sb_recordId b = ''id'' @ replicate 14 NUL \<and>
    sb_hash b = DentryHash ''a'' False \<longrightarrow> fst (svc_DoLookupByRecordId io b VALIDATE f) = E_OK \<and>
    sb_name (snd (svc_DoLookupByRecordId io b VALIDATE f)) = ''a'')"
proof -
  let ?de = "svc_dentry_of base_a (DentryHash ''a'' False) ''id''"
  from svc_witness_ids obtain f where f: "svc_inv f" "svc_dir f = [''a'' \<mapsto> ?de]" "svc_ids_unique f" by blast
  then have wf: "wf_dir svc_layout f" by (simp add: svc_inv_def)
  from f(2) have some: "svc_dir f ''a'' = Some ?de" by simp
  from svc_find_present [OF f(1) svc_witness_state(1) some] obtain idx p where e: "entry_at svc_layout f idx p"
    "entry_name svc_layout f idx p = ''a''" "dentry_at f idx p = ?de" "svc_live ?de" by metis
  have rid: "take 16 (sd_recordId ?de) = ''id'' @ replicate 14 NUL" by (simp add: svc_dentry_of_def memcpy_s_zero)
  have "svc_FindDentryById io VALIDATE (DentryHash ''a'' False) (''id'' @ replicate 14 NUL) f = Some (idx, pages f idx, p)"
    if "good_io io" for io
    using svc_find_by_id [OF wf that f(3) e(1), of "''id'' @ replicate 14 NUL"] e(3,4) rid by simp
  then have "fst (svc_DoLookupByRecordId io b VALIDATE f) = E_OK \<and> sb_name (snd (svc_DoLookupByRecordId io b VALIDATE f)) = ''a''"
    if "good_io io" "sb_recordId b = ''id'' @ replicate 14 NUL" "sb_hash b = DentryHash ''a'' False" for io b
    using that e(2) svc_fd [OF that(1)] by (simp add: svc_DoLookupByRecordId_def Let_def)
  moreover have "36 \<le> st_size f" using e(1) by (auto simp: entry_at_def GetDentryGroupCnt_def split: if_splits)
  ultimately show ?thesis using f(1) by blast
qed

text \<open>
  A name and a record id identify the same entry: when the record ids of the valid entries are
  distinct, looking a name up by DoLookupByName and then looking the returned hash and record id
  up by DoLookupByRecordId returns the name again, with the same attributes.\<close>

theorem svc_id_roundtrip:
  assumes "svc_inv f" and "good_io io" and "svc_ids_unique f"
    and ids: "\<forall>idx p. entry_at svc_layout f idx p \<and> svc_live (dentry_at f idx p) \<longrightarrow> length (sd_recordId (dentry_at f idx p)) = 16"
    and look: "svc_DoLookupByName io b f = (E_OK, b1)"
    and b2: "sb_recordId b2 = sb_recordId b1" "sb_hash b2 = sb_hash b1"
  shows "svc_DoLookupByRecordId io b2 VALIDATE f = (E_OK, b1)"
proof -
  have wf: "wf_dir svc_layout f" using assms(1) by (simp add: svc_inv_def)
  from look svc_DoLookupByName_law [OF assms(1,2), of b] obtain de where de: "svc_dir f (sb_name b) = Some de"
    and b1: "b1 = (svc_lookup_base de b)\<lparr>sb_recordId := take 16 (sd_recordId de)\<rparr>" by (auto split: option.splits)
  from svc_find_present [OF assms(1,2) de] obtain idx p where e: "entry_at svc_layout f idx p"
    "entry_name svc_layout f idx p = sb_name b" "dentry_at f idx p = de" "svc_live de" by metis
  have len: "length (take 16 (sd_recordId de)) = 16" using ids e(1,3,4) by auto
  have "svc_FindDentryById io VALIDATE (sb_hash b2) (sb_recordId b2) f = Some (idx, pages f idx, p)"
    using svc_find_by_id [OF wf assms(2,3) e(1)] e(3,4) b1 b2 len by (simp add: svc_lookup_base_def)
  then have "svc_DoLookupByRecordId io b2 VALIDATE f = (0, (svc_lookup_base de b2)\<lparr>sb_name := sb_name b\<rparr>)"
    using svc_fd [OF assms(2)] e by (simp add: svc_DoLookupByRecordId_def Let_def)
  moreover have "(svc_lookup_base de b2)\<lparr>sb_name := sb_name b\<rparr> = b1"
    by (rule SvcBase.equality) (use b1 b2 in \<open>simp_all add: svc_lookup_base_def\<close>)
  ultimately show ?thesis by simp
qed

theorem svc_id_roundtrip_witness:
  "\<exists>f b1. svc_DoLookupByName svc_io base_a f = (E_OK, b1) \<and> svc_DoLookupByRecordId svc_io b1 VALIDATE f = (E_OK, b1)"
proof -
  from svc_witness_ids obtain f where f: "svc_inv f" "svc_dir f = [''a'' \<mapsto> svc_dentry_of base_a (DentryHash ''a'' False) ''id'']"
    "svc_ids_unique f" "\<forall>idx p. entry_at svc_layout f idx p \<and> svc_live (dentry_at f idx p) \<longrightarrow> length (sd_recordId (dentry_at f idx p)) = 16"
    by blast
  moreover obtain b1 where "svc_DoLookupByName svc_io base_a f = (E_OK, b1)"
    using svc_DoLookupByName_law [OF f(1) svc_witness_state(1), of base_a] f(2) by (simp add: SvcBase_id_def)
  ultimately show ?thesis using svc_id_roundtrip [OF f(1) svc_witness_state(1)] by blast
qed

text \<open>
  C17: A rename whose system calls work, of a name that exists to one that does not, returns
  E_OK; the new name then maps to the given attributes in the new directory, the old name is
  gone from the old one, and no other name of any directory changes, also when both directories
  are the same file.\<close>

theorem svc_rename_correct:
  assumes "svc_inv (st this)" and "svc_inv (st newMetaFile)" and "good_io io1" and "good_io io2"
    and "levels (st newMetaFile) \<le> 18" and "svc_valid (mb\<lparr>sb_name := newName\<rparr>)"
    and "svc_dir (st this) (sb_name mb) \<noteq> None" and "svc_dir (st newMetaFile) newName = None"
  shows "\<exists>st'. svc_DoRename io1 io2 io3 mb newName this newMetaFile st = (E_OK, st') \<and>
    (\<forall>i. svc_dir (st' i) =
       (let m = (if i = newMetaFile then (svc_dir (st i))(newName \<mapsto> svc_dentry_of (mb\<lparr>sb_name := newName\<rparr>)
                   (DentryHash newName False) (sb_recordId mb)) else svc_dir (st i))
        in if i = this then m(sb_name mb := None) else m))"
proof -
  let ?b = "mb\<lparr>sb_name := newName\<rparr>" and ?de = "svc_dentry_of (mb\<lparr>sb_name := newName\<rparr>) (DentryHash newName False) (sb_recordId mb)"
  from svc_create_law [OF assms(2,3,5), of ?b "sb_recordId mb"] assms(6,8) obtain f1 pos where
    c: "svc_DoCreate io1 ?b (st newMetaFile) = (0, pos, f1)" and f1: "svc_inv f1"
      "svc_dir f1 = (svc_dir (st newMetaFile))(newName \<mapsto> ?de)" by (auto simp: svc_valid_def svc_DoCreate_def)
  let ?st1 = "st(newMetaFile := f1)"
  have inv1: "svc_inv (?st1 this)" using f1(1) assms(1) by simp
  have "svc_dir (?st1 this) (sb_name mb) \<noteq> None" using assms(7) f1(2) by auto
  then obtain de where "svc_dir (?st1 this) (sb_name mb) = Some de" by blast
  from svc_DoRemove_law [OF inv1 assms(4) this] obtain f2 rid pos2 where
    r: "svc_DoRemove io2 mb (?st1 this) = (0, rid, pos2, f2)" "svc_dir f2 = (svc_dir (?st1 this))(sb_name mb := None)" by blast
  have "svc_DoRename io1 io2 io3 mb newName this newMetaFile st = (0, ?st1(this := f2))"
    using c r(1) by (simp add: svc_DoRename_def Let_def)
  then show ?thesis using r(2) f1(2) by (intro exI [of _ "?st1(this := f2)"]) (auto simp: Let_def)
qed

theorem svc_rename_correct_witness:
  "\<exists>f st'. svc_dir f ''a'' \<noteq> None \<and>
    svc_DoRename svc_io svc_io svc_io base_a ''b'' 0 1 ((\<lambda>_. svc_empty)(0 := f)) = (E_OK, st') \<and>
    svc_dir (st' 0) ''a'' = None \<and> svc_dir (st' 1) ''b'' \<noteq> None"
proof -
  from svc_witness_created obtain f where f: "svc_inv f"
    "svc_dir f = [''a'' \<mapsto> svc_dentry_of base_a (DentryHash ''a'' False) ''id'']" by blast
  have b: "svc_valid (base_a\<lparr>sb_name := ''b''\<rparr>)" "sb_name base_a = ''a''" by (simp_all add: svc_valid_def SvcBase_id_def)
  from svc_rename_correct [where st = "(\<lambda>_. svc_empty)(0 := f)" and this = 0 and newMetaFile = 1 and ?io1.0 = svc_io
      and ?io2.0 = svc_io and ?io3.0 = svc_io and mb = base_a and newName = "''b''"] f b obtain st' where
    "svc_DoRename svc_io svc_io svc_io base_a ''b'' 0 1 ((\<lambda>_. svc_empty)(0 := f)) = (E_OK, st')"
    "svc_dir (st' 0) ''a'' = None" "svc_dir (st' 1) ''b'' \<noteq> None" by (auto simp: Let_def)
  then show ?thesis using f(2) by (intro exI [of _ f] exI [of _ st']) simp
qed

text \<open>
  C18: A rename whose removal of the old name fails reports the error but keeps the new name: the
  rollback calls DoFlush, which frees only invalidated entries, so the valid entry the rename has
  just created stays in the new directory.\<close>

theorem svc_rename_rollback_leaves_entry:
  assumes "svc_inv (st newMetaFile)" and "svc_states (st newMetaFile)" and "good_io io1"
    and "levels (st newMetaFile) \<le> 18" and "svc_valid (mb\<lparr>sb_name := newName\<rparr>)"
    and "svc_dir (st newMetaFile) newName = None"
    and "svc_DoRename io1 io2 io3 mb newName this newMetaFile st = (ret, st')" and "ret \<noteq> E_OK"
  shows "svc_dir (st' newMetaFile) newName =
    Some (svc_dentry_of (mb\<lparr>sb_name := newName\<rparr>) (DentryHash newName False) (sb_recordId mb))"
proof -
  let ?b = "mb\<lparr>sb_name := newName\<rparr>"
  from svc_create_law [OF assms(1,3,4), of ?b "sb_recordId mb"] assms(5,6) obtain f1 pos where
    c: "svc_DoCreate io1 ?b (st newMetaFile) = (0, pos, f1)" and f1: "svc_inv f1" "svc_dir f1 = (svc_dir (st newMetaFile))
      (newName \<mapsto> svc_dentry_of ?b (DentryHash newName False) (sb_recordId mb))" by (auto simp: svc_valid_def svc_DoCreate_def)
  have "st_size f1 < 2 ^ 32" using f1(1) level_size_less by (auto simp: svc_inv_def wf_dir_def)
  then have s1: "svc_states f1" "wf_dir svc_layout f1" "unique_names svc_layout svc_live f1"
    using svc_create_keeps(3) [OF c [unfolded svc_DoCreate_def]] assms(1,2,5) f1(1) by (auto simp: svc_inv_def svc_valid_def)
  let ?st1 = "st(newMetaFile := f1)"
  obtain r rid pos2 f2 where rm: "svc_DoRemove io2 mb (?st1 this) = (r, rid, pos2, f2)" by (metis prod_cases4)
  have rt: "r = ret" "ret \<noteq> 0" using assms(7,8) c rm by (auto simp: svc_DoRename_def Let_def split: if_splits prod.splits)
  then have f2: "f2 = ?st1 this" by (auto intro: svc_modify_cases [OF rm [unfolded svc_DoRemove_def]])
  obtain r3 pos3 f3 where fl: "svc_DoFlush io3 ?b f1 = (r3, pos3, f3)" by (metis prod_cases3)
  have "st' = ?st1(newMetaFile := f3)" using assms(7) c rm rt fl f2
    by (cases "this = newMetaFile") (auto simp: svc_DoRename_def Let_def)
  moreover have "svc_dir f3 = svc_dir f1" using svc_flush_keeps [OF fl s1(2,1)] s1(3) by simp
  ultimately show ?thesis using f1(2) by simp
qed

theorem svc_rename_rollback_leaves_entry_witness:
  "\<exists>ret st'. svc_DoRename svc_io (svc_io\<lparr>fd := -1\<rparr>) svc_io base_a ''b'' 0 1 (\<lambda>_. svc_empty) = (ret, st') \<and>
    ret \<noteq> E_OK \<and> svc_dir (st' 1) ''b'' \<noteq> None"
proof -
  obtain ret st' where r: "svc_DoRename svc_io (svc_io\<lparr>fd := -1\<rparr>) svc_io base_a ''b'' 0 1 (\<lambda>_. svc_empty) = (ret, st')"
    by fastforce
  have v: "svc_valid (base_a\<lparr>sb_name := ''b''\<rparr>)" by (simp add: svc_valid_def SvcBase_id_def)
  have "ret \<noteq> E_OK" using r
    by (auto simp: svc_DoRename_def svc_DoRemove_def svc_modify_def Let_def split: prod.splits if_splits)
  moreover from this svc_rename_rollback_leaves_entry [of "\<lambda>_. svc_empty" 1, OF _ _ _ _ v _ r] have "svc_dir (st' 1) ''b'' \<noteq> None"
    by simp
  ultimately show ?thesis using r by blast
qed

end
