(* ===== verification/Service_Meta_Mgr.thy ===== *)
theory Service_Meta_Mgr
  imports Service_Meta_Ops Lru_Cache
begin

text \<open>
  The header of the sync-folder dentry file, the constructor of \<open>CloudDiskServiceMetaFile\<close>, its
  manager, and the reconstruction of a path from parent links, all of
  \<open>services/clouddiskservice/sync_folder/src/cloud_disk_service_metafile.cpp\<close>. A dentry file names
  its parent directory by inode and carries the record id and name hash under which the parent
  lists it.
\<close>

section \<open>Header\<close>

definition ROOT_PARENTDENTRYFILE :: string where
  "ROOT_PARENTDENTRYFILE = replicate DENTRYFILE_NAME_LEN CHR ''.''"

record SvcHeader =
  hd_parentDentryfile :: string
  hd_selfRecordId :: string
  hd_selfHash :: u32

definition zero_header :: SvcHeader where
  "zero_header = \<lparr>hd_parentDentryfile = replicate DENTRYFILE_NAME_LEN NUL, hd_selfRecordId = replicate RECORD_ID_LEN NUL, hd_selfHash = 0\<rparr>"

abbreviation (input) HEADER_SIZE :: nat where "HEADER_SIZE \<equiv> 36"

record svc_disk =
  dk_header :: SvcHeader
  dk_file :: svc_file

definition new_disk :: svc_disk where
  "new_disk = \<lparr>dk_header = zero_header, dk_file = empty_file svc_layout\<rparr>"

record SvcMetaObj =
  so_userId :: int
  so_syncFolderIndex :: string
  so_selfInode :: string
  so_parentDentryFile :: string
  so_selfRecordId :: string
  so_selfHash :: u32
  so_fd :: int

text \<open>
  \<open>memcpy_s\<close> copies 16 bytes from \<open>c_str ()\<close>, past the end of a shorter string: its terminator and
  then what follows in memory.
\<close>

definition c_bytes :: "nat \<Rightarrow> string \<Rightarrow> string \<Rightarrow> string" where
  "c_bytes n after s = take n (s @ NUL # after)"

text \<open>
  Outcomes of the header's system calls: those of the file, whether the read works, the value the
  write returns, and the header an incomplete write leaves.
\<close>

record hdr_env =
  hdr_io :: io_env
  hdr_read_ok :: bool
  hdr_write :: int
  hdr_torn :: SvcHeader

definition DecodeDentryHeader :: "hdr_env \<Rightarrow> SvcMetaObj \<Rightarrow> svc_disk \<Rightarrow> int \<times> SvcMetaObj" where
  "DecodeDentryHeader env obj d =
     (let sz = (if so_fd obj < 0 \<or> \<not> hdr_read_ok env then -1 else int (min HEADER_SIZE (st_size (dk_file d))))
      in if sz \<noteq> int HEADER_SIZE then (sz, obj)
         else (E_OK, obj\<lparr>so_parentDentryFile := hd_parentDentryfile (dk_header d),
                  so_selfRecordId := hd_selfRecordId (dk_header d), so_selfHash := hd_selfHash (dk_header d)\<rparr>))"

definition GenericDentryHeader :: "hdr_env \<Rightarrow> string \<Rightarrow> string \<Rightarrow> SvcMetaObj \<Rightarrow> svc_disk \<Rightarrow> int \<times> svc_disk" where
  "GenericDentryHeader env after1 after2 obj d =
     (if so_fd obj < 0 \<or> \<not> fstat_ok (hdr_io env) then (EINVAL, d)
      else if st_size (dk_file d) < DENTRYGROUP_HEADER \<and> \<not> ftruncate_ok (hdr_io env) DENTRYGROUP_HEADER then (ENOENT, d)
      else let d1 = (if st_size (dk_file d) < DENTRYGROUP_HEADER
                     then d\<lparr>dk_file := truncate_file svc_layout (dk_file d) DENTRYGROUP_HEADER\<rparr> else d);
               header = \<lparr>hd_parentDentryfile = c_bytes DENTRYFILE_NAME_LEN after1 (so_parentDentryFile obj),
                         hd_selfRecordId = c_bytes RECORD_ID_LEN after2 (so_selfRecordId obj), hd_selfHash = so_selfHash obj\<rparr>
           in if hdr_write env \<noteq> int HEADER_SIZE then (hdr_write env, d1\<lparr>dk_header := hdr_torn env\<rparr>)
              else (E_OK, d1\<lparr>dk_header := header\<rparr>))"

section \<open>Files, constructor and manager\<close>

definition GetDentryCacheDir :: "bool \<Rightarrow> int \<Rightarrow> string \<Rightarrow> string \<Rightarrow> string" where
  "GetDentryCacheDir char_signed userId syncFolderIndex inode =
     ''/data/service/el2/'' @ to_string userId @ ''/hmdfs/cache/account_cache/dentry_cache/clouddisk_service_cache/'' @
     syncFolderIndex @ ''/'' @ to_string_nat (unat (GetBucketId char_signed inode)) @ ''/''"

definition GetDentryFilePath :: "bool \<Rightarrow> int \<Rightarrow> string \<Rightarrow> string \<Rightarrow> string" where
  "GetDentryFilePath char_signed userId syncFolderIndex inode =
     GetDentryCacheDir char_signed userId syncFolderIndex inode @ inode"

type_synonym svc_key = "int \<times> string"

record svc_world =
  sw_disk :: "string \<Rightarrow> svc_disk option"
  sw_cache :: "(svc_key, SvcMetaObj) mgr"

record svc_env =
  se_signed :: bool
  se_open :: "string \<Rightarrow> int"
  se_hdr :: "string \<Rightarrow> hdr_env"

definition obj_path :: "svc_env \<Rightarrow> SvcMetaObj \<Rightarrow> string" where
  "obj_path env obj = GetDentryFilePath (se_signed env) (so_userId obj) (so_syncFolderIndex obj) (so_selfInode obj)"

definition blank_obj :: "int \<Rightarrow> u32 \<Rightarrow> u64 \<Rightarrow> int \<Rightarrow> SvcMetaObj" where
  "blank_obj userId syncFolderIndex inode f =
     \<lparr>so_userId = userId, so_syncFolderIndex = ConvertToHex (ucast syncFolderIndex), so_selfInode = ConvertToHex inode,
      so_parentDentryFile = [], so_selfRecordId = [], so_selfHash = 0, so_fd = f\<rparr>"

definition CloudDiskServiceMetaFile ::
  "svc_env \<Rightarrow> int \<Rightarrow> u32 \<Rightarrow> u64 \<Rightarrow> bool \<Rightarrow> (string \<Rightarrow> svc_disk option) \<Rightarrow> SvcMetaObj \<times> (string \<Rightarrow> svc_disk option)" where
  "CloudDiskServiceMetaFile env userId syncFolderIndex inode createIfMissing disk =
     (let p = GetDentryFilePath (se_signed env) userId (ConvertToHex (ucast syncFolderIndex)) (ConvertToHex inode);
          he = se_hdr env p;
          obj = blank_obj userId syncFolderIndex inode (se_open env p);
          invalid = obj\<lparr>so_fd := -1\<rparr>
      in if \<not> createIfMissing
         then (case disk p of
                 None \<Rightarrow> invalid
               | Some d \<Rightarrow>
                   if so_fd obj < 0 then invalid
                   else if \<not> fstat_ok (hdr_io he) \<or> st_size (dk_file d) < HEADER_SIZE then invalid
                   else (case DecodeDentryHeader he obj d of (ret, obj1) \<Rightarrow>
                           if ret \<noteq> E_OK then obj1\<lparr>so_fd := -1\<rparr> else obj1), disk)
         else case disk p of
                Some d \<Rightarrow> (snd (DecodeDentryHeader he obj d), disk)
              | None \<Rightarrow> (obj, if so_fd obj < 0 then disk else disk(p \<mapsto> new_disk)))"

definition IsValid :: "SvcMetaObj \<Rightarrow> bool" where
  "IsValid obj \<longleftrightarrow> so_fd obj \<ge> 0"

definition GetCloudDiskServiceMetaFile :: "svc_env \<Rightarrow> int \<Rightarrow> u32 \<Rightarrow> u64 \<Rightarrow> svc_world \<Rightarrow> SvcMetaObj \<times> svc_world" where
  "GetCloudDiskServiceMetaFile env userId syncFolderIndex inode w =
     (let key = (userId, ConvertToHex (ucast syncFolderIndex) @ ConvertToHex inode);
          (new, disk1) = CloudDiskServiceMetaFile env userId syncFolderIndex inode True (sw_disk w);
          (mFile, cache1) = get_once 150 key new (sw_cache w)
      in (mFile, \<lparr>sw_disk = (if mgr_find key (sw_cache w) = None then disk1 else sw_disk w), sw_cache = cache1\<rparr>))"

definition GetCloudDiskServiceMetaFileIfExists :: "svc_env \<Rightarrow> int \<Rightarrow> u32 \<Rightarrow> u64 \<Rightarrow> svc_world \<Rightarrow> SvcMetaObj option" where
  "GetCloudDiskServiceMetaFileIfExists env userId syncFolderIndex inode w =
     (let metaFile = fst (CloudDiskServiceMetaFile env userId syncFolderIndex inode False (sw_disk w))
      in if \<not> IsValid metaFile then None else Some metaFile)"

definition CloudDiskServiceClearAll :: "svc_world \<Rightarrow> svc_world" where
  "CloudDiskServiceClearAll w = w\<lparr>sw_cache := mgr_empty\<rparr>"

interpretation svc_cache: lru_cache 150 "get_once 150"
  by (rule lru_get_once) simp

section \<open>Relative paths\<close>

abbreviation (input) E_PATH_NOT_EXIST :: int where "E_PATH_NOT_EXIST \<equiv> 3"
abbreviation (input) PATH_MAX :: nat where "PATH_MAX \<equiv> 4096"
abbreviation (input) MAX_META_PARENT_DEPTH :: nat where "MAX_META_PARENT_DEPTH \<equiv> 1024"

text \<open>\<open>DoLookupByRecordId\<close> on the file of an object, by the record id and hash of its child.\<close>

definition lookup_child :: "svc_env \<Rightarrow> svc_world \<Rightarrow> SvcMetaObj \<Rightarrow> SvcMetaObj \<Rightarrow> int \<times> SvcBase" where
  "lookup_child env w parent child =
     (let p = obj_path env parent;
          io = (hdr_io (se_hdr env p))\<lparr>fd := so_fd parent\<rparr>;
          mBase = (SvcBase_id [] (so_selfRecordId child))\<lparr>sb_hash := so_selfHash child\<rparr>
      in case sw_disk w p of
           None \<Rightarrow> svc_DoLookupByRecordId io mBase VALIDATE (empty_file svc_layout)
         | Some d \<Rightarrow> svc_DoLookupByRecordId io mBase VALIDATE (dk_file d))"

partial_function (option) rel_path_loop ::
  "svc_env \<Rightarrow> int \<Rightarrow> u32 \<Rightarrow> SvcMetaObj \<Rightarrow> string \<Rightarrow> svc_world \<Rightarrow> (int \<times> string \<times> svc_world) option" where
  "rel_path_loop env userId syncFolderIndex pMetaFile path w =
     (if so_parentDentryFile pMetaFile = ROOT_PARENTDENTRYFILE then Some (E_OK, ''/'' @ path, w)
      else case GetCloudDiskServiceMetaFile env userId syncFolderIndex (ConvertFromHex (so_parentDentryFile pMetaFile)) w of
        (parentMetaFile, w1) \<Rightarrow>
          (case lookup_child env w1 parentMetaFile pMetaFile of (ret, mBase) \<Rightarrow>
             if ret \<noteq> 0 then Some (E_PATH_NOT_EXIST, [], w1)
             else rel_path_loop env userId syncFolderIndex parentMetaFile (sb_name mBase @ ''/'' @ path) w1))"

definition GetRelativePath :: "svc_env \<Rightarrow> SvcMetaObj \<Rightarrow> string \<Rightarrow> svc_world \<Rightarrow> (int \<times> string \<times> svc_world) option" where
  "GetRelativePath env metaFile path w =
     rel_path_loop env (so_userId metaFile) (ucast (ConvertFromHex (so_syncFolderIndex metaFile))) metaFile path w"

text \<open>The guarded loop; \<open>depth\<close> and \<open>visited\<close> are the counter and the inode set.\<close>

function rel_path_guarded ::
  "svc_env \<Rightarrow> int \<Rightarrow> u32 \<Rightarrow> svc_world \<Rightarrow> nat \<Rightarrow> string set \<Rightarrow> SvcMetaObj \<Rightarrow> string \<Rightarrow> int \<times> string" where
  "rel_path_guarded env userId syncFolderIndex w depth visited pMetaFile path =
     (if so_parentDentryFile pMetaFile = ROOT_PARENTDENTRYFILE then (E_OK, ''/'' @ path)
      else if depth + 1 > MAX_META_PARENT_DEPTH \<or> so_parentDentryFile pMetaFile \<in> visited then (E_PATH_NOT_EXIST, [])
      else case GetCloudDiskServiceMetaFileIfExists env userId syncFolderIndex (ConvertFromHex (so_parentDentryFile pMetaFile)) w of
        None \<Rightarrow> (E_PATH_NOT_EXIST, [])
      | Some parentMetaFile \<Rightarrow>
          (case lookup_child env w parentMetaFile pMetaFile of (ret, mBase) \<Rightarrow>
             let name = sb_name mBase in
             if ret \<noteq> E_OK then (E_PATH_NOT_EXIST, [])
             else if name = [] \<or> length name \<ge> PATH_MAX \<or> CHR ''/'' \<in> set name \<or> length path > PATH_MAX - length name - 1
             then (E_PATH_NOT_EXIST, [])
             else rel_path_guarded env userId syncFolderIndex w (depth + 1) (insert (so_parentDentryFile pMetaFile) visited)
                    parentMetaFile (name @ ''/'' @ path)))"
  by pat_completeness auto
termination
  by (relation "measure (\<lambda>(env, u, i, w, depth, v, p, path). 1024 - depth)") auto

declare rel_path_guarded.simps [simp del]

definition GetRelativePathIfExists :: "svc_env \<Rightarrow> SvcMetaObj option \<Rightarrow> string \<Rightarrow> svc_world \<Rightarrow> int \<times> string" where
  "GetRelativePathIfExists env metaFile path w =
     (case metaFile of
        None \<Rightarrow> (E_PATH_NOT_EXIST, [])
      | Some m \<Rightarrow>
          if \<not> IsValid m then (E_PATH_NOT_EXIST, [])
          else rel_path_guarded env (so_userId m) (ucast (ConvertFromHex (so_syncFolderIndex m))) w 0 {so_selfInode m} m path)"

section \<open>Coherent caches\<close>

text \<open>A cached object agrees with what its constructor would read from the disk now.\<close>

definition coherent :: "svc_env \<Rightarrow> svc_world \<Rightarrow> bool" where
  "coherent env w \<longleftrightarrow> mgr_inv 150 (sw_cache w) \<and>
     (\<forall>u i n obj. mgr_find (u, ConvertToHex (ucast (i :: u32)) @ ConvertToHex n) (sw_cache w) = Some obj \<longrightarrow>
        obj = fst (CloudDiskServiceMetaFile env u i n True (sw_disk w)))"

lemma get_once_find:
  assumes inv: "mgr_inv 150 m" and f: "mgr_find k' (snd (get_once 150 k new m)) = Some v"
  shows "k' = k \<and> v = fst (get_once 150 k new m) \<or> mgr_find k' m = Some v"
proof -
  have inv': "mgr_inv 150 (snd (get_once 150 k new m))" using svc_cache.get_inv [OF inv] .
  have d: "distinct (map fst (mgr_list m))" using inv by (simp add: mgr_inv_def)
  have "(k', v) \<in> set (mgr_list (snd (get_once 150 k new m)))"
    using f mgr_find_map_of [OF inv'] by (simp add: map_of_SomeD)
  then have "k' = k \<and> v = fst (get_once 150 k new m) \<or> (k', v) \<in> set (mgr_list m)"
    using svc_cache.hit [OF inv, of k _ new] svc_cache.miss [OF inv, of k new]
    by (cases "map_of (mgr_list m) k") (auto dest: in_set_takeD)
  then show ?thesis using d by (auto simp: mgr_find_map_of [OF inv])
qed

lemma get_once_result:
  assumes "mgr_inv 150 m"
  shows "fst (get_once 150 k new m) = (case mgr_find k m of Some v \<Rightarrow> v | None \<Rightarrow> new)"
  by (simp add: get_once_def split: option.splits)

text \<open>Where the read-only constructor succeeds, the other builds the same object and leaves the disk.\<close>

lemma valid_ctor:
  assumes "GetCloudDiskServiceMetaFileIfExists env u i n w = Some obj"
  shows "CloudDiskServiceMetaFile env u i n True (sw_disk w) = (obj, sw_disk w)"
proof -
  let ?p = "GetDentryFilePath (se_signed env) u (ConvertToHex (ucast i)) (ConvertToHex n)"
  let ?o = "blank_obj u i n (se_open env ?p)"
  from assms obtain d where d: "sw_disk w ?p = Some d" "0 \<le> so_fd ?o" "fst (DecodeDentryHeader (se_hdr env ?p) ?o d) = 0"
    "obj = snd (DecodeDentryHeader (se_hdr env ?p) ?o d)"
    by (auto simp: GetCloudDiskServiceMetaFileIfExists_def CloudDiskServiceMetaFile_def IsValid_def Let_def
        split: option.splits if_splits prod.splits)
  then show ?thesis by (simp add: CloudDiskServiceMetaFile_def Let_def)
qed

lemma hex_key_inject:
  "ConvertToHex a @ ConvertToHex b = ConvertToHex c @ ConvertToHex d \<longleftrightarrow> a = c \<and> b = d"
  by simp

lemma ucast_u32_inject: "(ucast (i :: u32) :: u64) = ucast j \<longleftrightarrow> i = j"
proof
  assume eq: "(ucast i :: u64) = ucast j"
  show "i = j"
  proof (rule bit_word_eqI)
    fix k assume "k < LENGTH(32)"
    then show "bit i k = bit j k" using arg_cong [OF eq, of "\<lambda>w. bit w k"] by (simp add: bit_simps)
  qed
qed simp

lemma get_coherent:
  assumes co: "coherent env w" and ex: "GetCloudDiskServiceMetaFileIfExists env u i n w = Some obj"
  shows "\<exists>w1. GetCloudDiskServiceMetaFile env u i n w = (obj, w1) \<and> sw_disk w1 = sw_disk w \<and> coherent env w1"
proof -
  let ?k = "(u, ConvertToHex (ucast i) @ ConvertToHex n)"
  note vc = valid_ctor [OF ex]
  have inv: "mgr_inv 150 (sw_cache w)" using co by (simp add: coherent_def)
  have hit: "o' = obj" if "mgr_find ?k (sw_cache w) = Some o'" for o'
  proof -
    from that co have "o' = fst (CloudDiskServiceMetaFile env u i n True (sw_disk w))" unfolding coherent_def by blast
    then show ?thesis using vc by simp
  qed
  let ?w1 = "\<lparr>sw_disk = sw_disk w, sw_cache = snd (get_once 150 ?k obj (sw_cache w))\<rparr>"
  have res: "fst (get_once 150 ?k obj (sw_cache w)) = obj"
    using get_once_result [OF inv, of ?k obj] hit by (auto split: option.splits)
  then have "GetCloudDiskServiceMetaFile env u i n w = (obj, ?w1)"
    using vc by (auto simp: GetCloudDiskServiceMetaFile_def Let_def split: prod.splits)
  moreover have "coherent env ?w1"
    unfolding coherent_def
  proof (intro conjI allI impI)
    show "mgr_inv 150 (sw_cache ?w1)" using svc_cache.get_inv [OF inv] by simp
    fix u' i' n' o' assume "mgr_find (u', ConvertToHex (ucast (i' :: u32)) @ ConvertToHex n') (sw_cache ?w1) = Some o'"
    then have "(u', ConvertToHex (ucast i') @ ConvertToHex n') = ?k \<and> o' = obj \<or>
        mgr_find (u', ConvertToHex (ucast i') @ ConvertToHex n') (sw_cache w) = Some o'"
      using get_once_find [OF inv, of "(u', ConvertToHex (ucast i') @ ConvertToHex n')" ?k obj o'] res by auto
    then show "o' = fst (CloudDiskServiceMetaFile env u' i' n' True (sw_disk ?w1))"
      using co vc by (auto simp: coherent_def ucast_u32_inject)
  qed
  ultimately show ?thesis by (intro exI [of _ ?w1]) simp
qed

lemma lookup_child_disk: "sw_disk w1 = sw_disk w \<Longrightarrow> lookup_child env w1 = lookup_child env w"
  by (intro ext) (simp add: lookup_child_def)

section \<open>Properties\<close>

text \<open>
  The header written by GenericDentryHeader is read back by DecodeDentryHeader: for a parent
  name and a record id of 16 bytes, whatever memory follows the strings, every object that opens
  the file afterwards gets the parent, record id and hash of the object that wrote it, and the
  entries of the file are untouched.\<close>

theorem svc_header_roundtrip:
  assumes "0 \<le> so_fd obj" and "0 \<le> so_fd obj'" and "good_io (hdr_io env)" and "hdr_write env = 36" and "hdr_read_ok env'"
    and "length (so_parentDentryFile obj) = 16" and "length (so_selfRecordId obj) = 16" and "svc_inv (dk_file d)"
  shows "\<exists>d'. GenericDentryHeader env after1 after2 obj d = (E_OK, d') \<and> svc_inv (dk_file d') \<and> svc_dir (dk_file d') = svc_dir (dk_file d) \<and>
    DecodeDentryHeader env' obj' d' = (E_OK, obj'\<lparr>so_parentDentryFile := so_parentDentryFile obj,
      so_selfRecordId := so_selfRecordId obj, so_selfHash := so_selfHash obj\<rparr>)"
proof -
  let ?t = "truncate_file svc_layout (dk_file d) 4096"
  let ?f = "if st_size (dk_file d) < 4096 then ?t else dk_file d"
  let ?d = "d\<lparr>dk_file := ?f, dk_header := \<lparr>hd_parentDentryfile = so_parentDentryFile obj,
    hd_selfRecordId = so_selfRecordId obj, hd_selfHash = so_selfHash obj\<rparr>\<rparr>"
  have g: "GenericDentryHeader env after1 after2 obj d = (0, ?d)"
    using assms by (simp add: GenericDentryHeader_def Let_def good_io_def c_bytes_def)
  have small: "blocks ?t = 0" "blocks (dk_file d) = 0" if "st_size (dk_file d) < 4096"
    using that by (simp_all add: truncate_file_def GetDentryGroupCnt_def)
  then have "svc_inv ?f \<and> svc_dir ?f = svc_dir (dk_file d)"
    using assms(8) by (auto simp: svc_inv_def svc_dir_def wf_dir_def entry_at_def unique_names_def dir_map_def entry_list_def
        truncate_file_def level_size_def)
  moreover have "36 \<le> st_size ?f" by (simp add: truncate_file_def)
  ultimately show ?thesis using g assms(2,5) by (auto simp: DecodeDentryHeader_def Let_def intro!: exI [of _ ?d])
qed

definition hdr_ok :: hdr_env where
  "hdr_ok = \<lparr>hdr_io = svc_io, hdr_read_ok = True, hdr_write = 36, hdr_torn = zero_header\<rparr>"

definition env_w :: svc_env where
  "env_w = \<lparr>se_signed = False, se_open = (\<lambda>_. 3), se_hdr = (\<lambda>_. hdr_ok)\<rparr>"

definition obj_w :: "u64 \<Rightarrow> string \<Rightarrow> SvcMetaObj" where
  "obj_w inode parent =
     (blank_obj 100 1 inode 3)\<lparr>so_parentDentryFile := parent, so_selfRecordId := ''id'' @ replicate 14 NUL, so_selfHash := DentryHash ''a'' False\<rparr>"

theorem svc_header_roundtrip_witness:
  "\<exists>d'. GenericDentryHeader hdr_ok [] [] (obj_w 7 ROOT_PARENTDENTRYFILE) new_disk = (E_OK, d') \<and>
    so_parentDentryFile (snd (DecodeDentryHeader hdr_ok (blank_obj 100 1 7 4) d')) = ROOT_PARENTDENTRYFILE"
  using svc_header_roundtrip [of "obj_w 7 ROOT_PARENTDENTRYFILE" "blank_obj 100 1 7 4" hdr_ok hdr_ok new_disk "[]" "[]"]
    svc_witness_state(2) [unfolded svc_empty_def]
  by (auto simp: obj_w_def blank_obj_def hdr_ok_def new_disk_def ROOT_PARENTDENTRYFILE_def)

text \<open>The names a guarded walk prepends.\<close>

definition join_names :: "string list \<Rightarrow> string" where
  "join_names ns = concat (map (\<lambda>n. n @ ''/'') ns)"

lemma rel_path_guarded_shape:
  assumes "rel_path_guarded env u i w depth visited p path = (E_OK, r)"
  shows "\<exists>ns. r = ''/'' @ join_names ns @ path \<and> length ns + depth \<le> max depth 1024 \<and> (ns = [] \<or> length (join_names ns @ path) \<le> 4096) \<and>
    (\<forall>n \<in> set ns. n \<noteq> [] \<and> CHR ''/'' \<notin> set n)"
  using assms
proof (induction env u i w depth visited p path rule: rel_path_guarded.induct)
  case (1 env u i w depth visited p path)
  show ?case
  proof (cases "so_parentDentryFile p = ROOT_PARENTDENTRYFILE")
    case True
    then show ?thesis using "1.prems" by (intro exI [of _ "[]"]) (simp add: rel_path_guarded.simps [of _ _ _ _ _ _ p] join_names_def)
  next
    case False
    obtain parent where parent: "GetCloudDiskServiceMetaFileIfExists env u i (ConvertFromHex (so_parentDentryFile p)) w = Some parent"
      and g: "\<not> (depth + 1 > 1024 \<or> so_parentDentryFile p \<in> visited)"
      using "1.prems" False by (auto simp: rel_path_guarded.simps [of _ _ _ _ _ _ p] split: if_splits option.splits)
    obtain ret mb where lk: "lookup_child env w parent p = (ret, mb)" by fastforce
    let ?n = "sb_name mb"
    have ok: "ret = 0" "\<not> (?n = [] \<or> length ?n \<ge> 4096 \<or> CHR ''/'' \<in> set ?n \<or> length path > 4096 - length ?n - 1)"
      and rec: "rel_path_guarded env u i w (depth + 1) (insert (so_parentDentryFile p) visited) parent (?n @ ''/'' @ path) = (0, r)"
      using "1.prems" False parent g lk by (simp_all add: rel_path_guarded.simps [of _ _ _ _ _ _ p] Let_def split: if_splits)
    have len: "length (?n @ ''/'' @ path) \<le> 4096" using ok(2) by auto
    have z: "\<not> ret \<noteq> 0" using ok(1) by simp
    from "1.IH" [OF False g parent lk [symmetric] refl z ok(2) rec] obtain ns where
      ns: "r = ''/'' @ join_names ns @ ?n @ ''/'' @ path" "length ns + (depth + 1) \<le> max (depth + 1) 1024"
        "ns = [] \<or> length (join_names ns @ ?n @ ''/'' @ path) \<le> 4096" "\<forall>n \<in> set ns. n \<noteq> [] \<and> CHR ''/'' \<notin> set n" by auto
    then show ?thesis using ok(2) g len by (intro exI [of _ "ns @ [?n]"]) (auto simp: join_names_def)
  qed
qed

lemma rel_path_guarded_fails:
  assumes "rel_path_guarded env u i w depth visited p path = (ret, r)" and "ret \<noteq> E_OK"
  shows "ret = E_PATH_NOT_EXIST \<and> r = []"
  using assms
proof (induction env u i w depth visited p path rule: rel_path_guarded.induct)
  case (1 env u i w depth visited p path)
  from "1.prems" show ?case
    by (subst (asm) rel_path_guarded.simps) (auto simp: Let_def split: if_splits option.splits prod.splits dest: "1.IH")
qed

definition world_w :: "svc_file \<Rightarrow> string \<Rightarrow> svc_world" where
  "world_w f parent =
     \<lparr>sw_disk = [obj_path env_w (obj_w 7 parent) \<mapsto> \<lparr>dk_header = \<lparr>hd_parentDentryfile = parent,
        hd_selfRecordId = ''id'' @ replicate 14 NUL, hd_selfHash = DentryHash ''a'' False\<rparr>, dk_file = f\<rparr>],
      sw_cache = \<lparr>mgr_list = [((100, ConvertToHex 1 @ ConvertToHex 7), obj_w 7 parent)], mgr_keys = {(100, ConvertToHex 1 @ ConvertToHex 7)}\<rparr>\<rparr>"

lemma obj_w_sel [simp]:
  "so_userId (obj_w n p) = 100" "so_syncFolderIndex (obj_w n p) = ConvertToHex 1" "so_selfInode (obj_w n p) = ConvertToHex n"
  "so_parentDentryFile (obj_w n p) = p" "so_selfRecordId (obj_w n p) = ''id'' @ replicate 14 NUL"
  "so_selfHash (obj_w n p) = DentryHash ''a'' False" "so_fd (obj_w n p) = 3" "IsValid (obj_w n p)"
  "ucast (1 :: u64) = (1 :: u32)" "ucast (1 :: u32) = (1 :: u64)"
  by (simp_all add: obj_w_def blank_obj_def IsValid_def)

lemma world_lookup:
  assumes "\<forall>io b. good_io io \<and> sb_recordId b = ''id'' @ replicate 14 NUL \<and> sb_hash b = DentryHash ''a'' False \<longrightarrow>
    fst (svc_DoLookupByRecordId io b VALIDATE f) = E_OK \<and> sb_name (snd (svc_DoLookupByRecordId io b VALIDATE f)) = ''a''"
  shows "fst (lookup_child env_w (world_w f p) (obj_w 7 p) (obj_w n p')) = 0 \<and>
    sb_name (snd (lookup_child env_w (world_w f p) (obj_w 7 p) (obj_w n p'))) = ''a''"
proof -
  have "good_io (svc_io\<lparr>fd := 3\<rparr>)" using svc_witness_state(1) by (simp add: good_io_def)
  then show ?thesis using assms by (simp add: lookup_child_def world_w_def Let_def env_w_def hdr_ok_def SvcBase_id_def)
qed

lemma world_ctor:
  assumes "36 \<le> st_size f"
  shows "CloudDiskServiceMetaFile env_w 100 1 7 b (sw_disk (world_w f p)) = (obj_w 7 p, sw_disk (world_w f p))"
proof -
  have "GetDentryFilePath (se_signed env_w) 100 (ConvertToHex 1) (ConvertToHex 7) = obj_path env_w (obj_w 7 p)"
    by (simp add: obj_path_def)
  then show ?thesis using assms
    by (simp add: CloudDiskServiceMetaFile_def Let_def DecodeDentryHeader_def world_w_def)
      (simp add: env_w_def hdr_ok_def svc_io_def obj_w_def blank_obj_def)
qed

lemma world_path:
  "\<exists>w. GetRelativePathIfExists env_w (Some (obj_w 8 (ConvertToHex 7))) [] w = (E_OK, ''/a/'') \<and> coherent env_w w"
proof -
  from svc_witness_lookup obtain f where f: "36 \<le> st_size f" and look: "\<forall>io b. good_io io \<and> sb_recordId b = ''id'' @ replicate 14 NUL \<and>
    sb_hash b = DentryHash ''a'' False \<longrightarrow> fst (svc_DoLookupByRecordId io b VALIDATE f) = E_OK \<and>
    sb_name (snd (svc_DoLookupByRecordId io b VALIDATE f)) = ''a''" by blast
  let ?m = "obj_w 8 (ConvertToHex 7)" and ?w = "world_w f ROOT_PARENTDENTRYFILE" and ?p = "obj_w 7 ROOT_PARENTDENTRYFILE"
  have c: "ConvertToHex 7 \<noteq> ROOT_PARENTDENTRYFILE" "ConvertToHex 7 \<noteq> ConvertToHex 8" by code_simp+
  have ex: "GetCloudDiskServiceMetaFileIfExists env_w 100 1 7 ?w = Some ?p"
    using world_ctor [OF f, of False] by (simp add: GetCloudDiskServiceMetaFileIfExists_def)
  obtain mb where l: "lookup_child env_w ?w ?p ?m = (0, mb)" "sb_name mb = ''a''"
    using world_lookup [OF look, of ROOT_PARENTDENTRYFILE 8 "ConvertToHex 7"] by (metis prod.collapse)
  have "rel_path_guarded env_w 100 1 ?w 0 {ConvertToHex 8} ?m [] = (0, ''/a/'')"
    using c ex l by (simp add: rel_path_guarded.simps)
  moreover have "coherent env_w ?w"
    using world_ctor [OF f, of True ROOT_PARENTDENTRYFILE]
    by (auto simp: coherent_def mgr_find_def mgr_inv_def world_w_def ucast_u32_inject [where j = 1, simplified] split: if_splits)
  ultimately show ?thesis by (intro exI [of _ ?w]) (simp add: GetRelativePathIfExists_def)
qed

text \<open>
  C22: GetRelativePathIfExists either fails with E_PATH_NOT_EXIST and an empty path, or returns a
  slash, at most 1024 non-empty names without slashes, each followed by a slash, and then the path
  it was given. Once it has put a name before the given path the result has at most PATH_MAX + 1
  characters; for the root itself the given path is returned behind a slash, whatever its
  length.\<close>

theorem rel_path_bounded:
  assumes "GetRelativePathIfExists env m path w = (ret, r)"
  shows "if ret = E_OK
    then \<exists>ns. r = ''/'' @ join_names ns @ path \<and> length ns \<le> 1024 \<and> (ns = [] \<or> length r \<le> 4097) \<and>
      (\<forall>n \<in> set ns. n \<noteq> [] \<and> CHR ''/'' \<notin> set n)
    else ret = E_PATH_NOT_EXIST \<and> r = []"
proof (cases "ret = E_OK")
  case True
  from assms True obtain obj where "rel_path_guarded env (so_userId obj) (ucast (ConvertFromHex (so_syncFolderIndex obj))) w 0
      {so_selfInode obj} obj path = (0, r)"
    by (auto simp: GetRelativePathIfExists_def split: option.splits if_splits)
  from rel_path_guarded_shape [OF this] True show ?thesis by auto
next
  case False
  then show ?thesis using assms rel_path_guarded_fails
    by (auto simp: GetRelativePathIfExists_def split: option.splits if_splits)
qed

theorem rel_path_bounded_witness:
  "\<exists>w r ns. GetRelativePathIfExists env_w (Some (obj_w 8 (ConvertToHex 7))) [] w = (E_OK, r) \<and> r = ''/'' @ join_names ns \<and> length r \<le> 4097"
proof -
  from world_path obtain w where w: "GetRelativePathIfExists env_w (Some (obj_w 8 (ConvertToHex 7))) [] w = (E_OK, ''/a/'')" by blast
  from rel_path_bounded [OF w] obtain ns where n: "join_names ns = ''a/''" by auto
  then show ?thesis using w by (intro exI [of _ w] exI [of _ "''/a/''"] exI [of _ ns]) (simp add: n)
qed

lemma rel_path_agree_loop:
  assumes "rel_path_guarded env u i w depth visited p path = (E_OK, r)" and "coherent env w1" and "sw_disk w1 = sw_disk w"
  shows "\<exists>w2. rel_path_loop env u i p path w1 = Some (E_OK, r, w2)"
  using assms
proof (induction env u i w depth visited p path arbitrary: w1 rule: rel_path_guarded.induct)
  case (1 env u i w depth visited p path)
  show ?case
  proof (cases "so_parentDentryFile p = ROOT_PARENTDENTRYFILE")
    case True
    then show ?thesis using "1.prems" by (simp add: rel_path_guarded.simps [of _ _ _ _ _ _ p] rel_path_loop.simps [of _ _ _ p])
  next
    case False
    let ?ino = "ConvertFromHex (so_parentDentryFile p)"
    obtain parent where parent: "GetCloudDiskServiceMetaFileIfExists env u i ?ino w = Some parent"
      and g: "\<not> (depth + 1 > 1024 \<or> so_parentDentryFile p \<in> visited)"
      using "1.prems"(1) False by (auto simp: rel_path_guarded.simps [of _ _ _ _ _ _ p] split: if_splits option.splits)
    obtain ret mb where lk: "lookup_child env w parent p = (ret, mb)" by fastforce
    have ok: "ret = 0" "\<not> (sb_name mb = [] \<or> length (sb_name mb) \<ge> 4096 \<or> CHR ''/'' \<in> set (sb_name mb) \<or> length path > 4096 - length (sb_name mb) - 1)"
      and rec: "rel_path_guarded env u i w (depth + 1) (insert (so_parentDentryFile p) visited) parent (sb_name mb @ ''/'' @ path) = (0, r)"
      using "1.prems"(1) False parent g lk by (simp_all add: rel_path_guarded.simps [of _ _ _ _ _ _ p] Let_def split: if_splits)
    have "GetCloudDiskServiceMetaFileIfExists env u i ?ino w1 = Some parent"
      using parent "1.prems"(3) by (simp add: GetCloudDiskServiceMetaFileIfExists_def)
    from get_coherent [OF "1.prems"(2) this] obtain w2 where
      w2: "GetCloudDiskServiceMetaFile env u i ?ino w1 = (parent, w2)" "sw_disk w2 = sw_disk w" "coherent env w2"
      using "1.prems"(3) by auto
    have z: "\<not> ret \<noteq> 0" using ok(1) by simp
    from "1.IH" [OF False g parent lk [symmetric] refl z ok(2) rec w2(3,2)] show ?thesis
      using False w2 lk ok(1) lookup_child_disk [OF w2(2), of env] by (simp add: rel_path_loop.simps [of _ _ _ p])
  qed
qed

text \<open>
  The guarded path computation refines the unguarded one: over the same disk, with a manager
  cache that agrees with it, whenever GetRelativePathIfExists returns a path,
  GetRelativePath returns too, with the same path.\<close>

theorem rel_path_agree:
  assumes "GetRelativePathIfExists env (Some m) path w = (E_OK, r)" and "coherent env w"
  shows "\<exists>w2. GetRelativePath env m path w = Some (E_OK, r, w2)"
  using rel_path_agree_loop [OF _ assms(2) refl] assms(1)
  by (auto simp: GetRelativePathIfExists_def GetRelativePath_def split: if_splits)

theorem rel_path_agree_witness:
  "\<exists>w w2. GetRelativePath env_w (obj_w 8 (ConvertToHex 7)) [] w = Some (E_OK, ''/a/'', w2)"
proof -
  from world_path obtain w where "GetRelativePathIfExists env_w (Some (obj_w 8 (ConvertToHex 7))) [] w = (E_OK, ''/a/'')" "coherent env_w w" by blast
  from rel_path_agree [OF this] show ?thesis by blast
qed

text \<open>
  C23: Without the guards a cyclic parent link is fatal: when a dentry file names itself as its
  parent and lists itself, GetRelativePath never returns, while GetRelativePathIfExists on the
  same file reports that the path does not exist.\<close>

theorem rel_path_cycle:
  assumes "so_parentDentryFile m = so_selfInode m" and "so_parentDentryFile m \<noteq> ROOT_PARENTDENTRYFILE" and "IsValid m"
    and "GetCloudDiskServiceMetaFile env (so_userId m) (ucast (ConvertFromHex (so_syncFolderIndex m)))
      (ConvertFromHex (so_parentDentryFile m)) w = (m, w)"
    and "fst (lookup_child env w m m) = 0"
  shows "GetRelativePath env m path w = None \<and> GetRelativePathIfExists env (Some m) path w = (E_PATH_NOT_EXIST, [])"
proof -
  let ?u = "so_userId m" and ?i = "ucast (ConvertFromHex (so_syncFolderIndex m)) :: u32"
  have "\<not> (e = env \<and> u = ?u \<and> i = ?i \<and> p = m \<and> v = w)" if "rel_path_loop e u i p q v = Some y" for e u i p q v y
    by (rule rel_path_loop.raw_induct [where P = "\<lambda>e u i p q v y. \<not> (e = env \<and> u = ?u \<and> i = ?i \<and> p = m \<and> v = w)", OF _ that])
      (use assms in \<open>auto split: if_splits prod.splits, blast\<close>)
  then have "rel_path_loop env ?u ?i m path w = None" by (metis not_Some_eq)
  moreover have "rel_path_guarded env ?u ?i w 0 {so_selfInode m} m path = (3, [])"
    using assms(1,2) by (simp add: rel_path_guarded.simps [of _ _ _ _ _ _ m])
  ultimately show ?thesis using assms(3) by (simp add: GetRelativePath_def GetRelativePathIfExists_def)
qed

theorem rel_path_cycle_witness:
  "\<exists>w. GetRelativePath env_w (obj_w 7 (ConvertToHex 7)) [] w = None"
proof -
  from svc_witness_lookup obtain f where f: "36 \<le> st_size f" and look: "\<forall>io b. good_io io \<and> sb_recordId b = ''id'' @ replicate 14 NUL \<and>
    sb_hash b = DentryHash ''a'' False \<longrightarrow> fst (svc_DoLookupByRecordId io b VALIDATE f) = E_OK \<and>
    sb_name (snd (svc_DoLookupByRecordId io b VALIDATE f)) = ''a''" by blast
  let ?m = "obj_w 7 (ConvertToHex 7)" and ?w = "world_w f (ConvertToHex 7)"
  have "ConvertToHex 7 \<noteq> ROOT_PARENTDENTRYFILE" by code_simp
  moreover have "GetCloudDiskServiceMetaFile env_w 100 1 7 ?w = (?m, ?w)"
    using world_ctor [OF f, of True "ConvertToHex 7"]
    by (simp add: GetCloudDiskServiceMetaFile_def get_once_def mgr_find_def mgr_touch_def world_w_def Let_def)
  ultimately show ?thesis
    using rel_path_cycle [of ?m env_w ?w "[]"] world_lookup [OF look, of "ConvertToHex 7" 7 "ConvertToHex 7"] by auto
qed

end
