(* ===== verification/Path_Resolution.thy ===== *)
theory Path_Resolution
  imports Dfs_Prelude
begin

text \<open>
  How the kernel reads an absolute path: components between slashes, where empty ones and \<open>.\<close> do not
  count. Two spellings of a path name the same node when they have the same components, so the
  node is written in its canonical spelling. \<open>..\<close> is an ordinary name here, because the program
  refuses it before it makes a call, and there are no symbolic links.
\<close>

fun split_slash :: "string \<Rightarrow> string list" where
  "split_slash [] = [[]]"
| "split_slash (c # cs) =
     (if c = CHR ''/'' then [] # split_slash cs
      else case split_slash cs of [] \<Rightarrow> [[c]] | s # ss \<Rightarrow> (c # s) # ss)"

definition proper :: "string \<Rightarrow> bool" where
  "proper s \<longleftrightarrow> s \<noteq> [] \<and> s \<noteq> ''.''"

definition path_names :: "string \<Rightarrow> string list" where
  "path_names path = filter proper (split_slash path)"

definition spell :: "string list \<Rightarrow> string" where
  "spell ss = (if ss = [] then ''/'' else concat (map (\<lambda>s. CHR ''/'' # s) ss))"

definition kernel_path :: "string \<Rightarrow> string" where
  "kernel_path path = spell (path_names path)"

definition canonical :: "string \<Rightarrow> bool" where
  "canonical path \<longleftrightarrow> kernel_path path = path"

text \<open>The last component is a name: the path does not end in a slash or a dot.\<close>

definition names_entry :: "string \<Rightarrow> bool" where
  "names_entry path \<longleftrightarrow> proper (last (split_slash path))"

section \<open>Components\<close>

lemma split_slash_ne [simp]: "split_slash p \<noteq> []"
  by (induction p) (auto split: list.splits)

lemma split_slash_append: "split_slash (p @ CHR ''/'' # q) = split_slash p @ split_slash q"
  by (induction p) (auto split: list.splits)

lemma split_slash_plain: "CHR ''/'' \<notin> set s \<Longrightarrow> split_slash s = [s]"
  by (induction s) auto

lemma split_slash_no_slash: "s \<in> set (split_slash p) \<Longrightarrow> CHR ''/'' \<notin> set s"
  by (induction p arbitrary: s) (auto split: if_splits list.splits)

lemma path_names_append: "path_names (p @ CHR ''/'' # q) = path_names p @ path_names q"
  by (simp add: path_names_def split_slash_append)

lemma path_names_plain: "CHR ''/'' \<notin> set s \<Longrightarrow> path_names s = (if proper s then [s] else [])"
  by (simp add: path_names_def split_slash_plain)

lemma path_names_child: "CHR ''/'' \<notin> set s \<Longrightarrow> proper s \<Longrightarrow> path_names (p @ CHR ''/'' # s) = path_names p @ [s]"
  by (simp add: path_names_append path_names_plain)

lemma path_names_proper: "s \<in> set (path_names p) \<Longrightarrow> proper s \<and> CHR ''/'' \<notin> set s"
  using split_slash_no_slash by (auto simp: path_names_def)

lemma path_names_spell:
  assumes "\<forall>s \<in> set ss. proper s \<and> CHR ''/'' \<notin> set s"
  shows "path_names (spell ss) = ss"
proof -
  have "path_names (concat (map (\<lambda>s. CHR ''/'' # s) ss)) = ss"
    using assms
  proof (induction ss rule: rev_induct)
    case (snoc s ss)
    then show ?case using path_names_child [of s "concat (map (\<lambda>s. CHR ''/'' # s) ss)"] by simp
  qed (simp add: path_names_def proper_def)
  then show ?thesis by (auto simp: spell_def path_names_def proper_def)
qed

section \<open>Canonical spellings\<close>

lemma path_names_kernel [simp]: "path_names (kernel_path p) = path_names p"
  unfolding kernel_path_def using path_names_proper by (intro path_names_spell) blast

lemma canonical_kernel [simp]: "canonical (kernel_path p)"
  unfolding canonical_def kernel_path_def [of "kernel_path p"] path_names_kernel by (simp only: kernel_path_def)

lemma kernel_path_eq_iff: "kernel_path p = kernel_path q \<longleftrightarrow> path_names p = path_names q"
  by (metis kernel_path_def path_names_kernel)

lemma canonical_child:
  assumes "canonical p" "p \<noteq> ''/''" "CHR ''/'' \<notin> set s" "proper s"
  shows "canonical (p @ CHR ''/'' # s)"
proof -
  have ne: "path_names p \<noteq> []" using assms(1, 2) by (auto simp: canonical_def kernel_path_def spell_def)
  then have "kernel_path (p @ CHR ''/'' # s) = kernel_path p @ CHR ''/'' # s"
    using assms(3, 4) by (simp add: kernel_path_def path_names_child spell_def)
  then show ?thesis using assms(1) by (simp add: canonical_def)
qed

lemma canonical_ends:
  assumes "canonical p" "p \<noteq> ''/''"
  shows "p \<noteq> []" and "last p \<noteq> CHR ''/''" and "hd p = CHR ''/''"
proof -
  have ne: "path_names p \<noteq> []" using assms by (auto simp: canonical_def kernel_path_def spell_def)
  then obtain ss s where s: "path_names p = ss @ [s]" by (metis append_butlast_last_id)
  then have "proper s" "CHR ''/'' \<notin> set s" using path_names_proper [of s p] by auto
  then have l: "s \<noteq> []" "last s \<noteq> CHR ''/''" using last_in_set [of s] by (auto simp: proper_def simp del: last_in_set)
  have p: "p = concat (map (\<lambda>s. CHR ''/'' # s) (path_names p))"
    using assms(1) ne by (simp add: canonical_def kernel_path_def spell_def)
  show "p \<noteq> []" using p s by auto
  have "p = concat (map (\<lambda>s. CHR ''/'' # s) ss) @ CHR ''/'' # s" using p s by simp
  then have "last p = last s" using l(1) by simp
  then show "last p \<noteq> CHR ''/''" using l(2) by simp
  show "hd p = CHR ''/''" using p ne by (cases "path_names p") auto
qed

lemma canonical_entry:
  assumes "canonical p" "p \<noteq> ''/''"
  shows "names_entry p"
proof -
  have ne: "path_names p \<noteq> []" using assms by (auto simp: canonical_def kernel_path_def spell_def)
  then obtain ss s where s: "path_names p = ss @ [s]" by (metis append_butlast_last_id)
  then have n: "proper s" "CHR ''/'' \<notin> set s" using path_names_proper [of s p] by auto
  have "p = concat (map (\<lambda>s. CHR ''/'' # s) ss) @ CHR ''/'' # s"
    using assms(1) ne s by (simp add: canonical_def kernel_path_def spell_def)
  then have "split_slash p = split_slash (concat (map (\<lambda>s. CHR ''/'' # s) ss)) @ split_slash s" using split_slash_append by metis
  then show ?thesis using n by (simp add: names_entry_def split_slash_plain)
qed

end
