(* ===== verification/Placeholder_State.thy ===== *)
theory Placeholder_State
  imports Service_Meta_Mgr Path_Resolution
begin

text \<open>
  Placeholder states and counts, \<open>services/clouddiskservice/ipc/src/placeholder_helper.cpp\<close>. A file
  carries its placeholder state and its sync state in one extended attribute byte; a directory
  carries the number of its children that are or contain placeholders. Changing a file's state
  updates the counts of its ancestors as far as they turn to or from zero; a recount recomputes
  them from the tree.
\<close>

unbundle bit_operations_syntax

abbreviation (input) PLACEHOLDER_STATE_NONE :: u8 where "PLACEHOLDER_STATE_NONE \<equiv> 0"
abbreviation (input) PLACEHOLDER_STATE_UNHYDRATED :: u8 where "PLACEHOLDER_STATE_UNHYDRATED \<equiv> 1"
abbreviation (input) PLACEHOLDER_STATE_PARTIALLY_HYDRATED :: u8 where "PLACEHOLDER_STATE_PARTIALLY_HYDRATED \<equiv> 2"
abbreviation (input) PLACEHOLDER_STATE_FULLY_HYDRATED :: u8 where "PLACEHOLDER_STATE_FULLY_HYDRATED \<equiv> 3"
abbreviation (input) PLACEHOLDER_STATE_HAS_PLACEHOLDER :: u8 where "PLACEHOLDER_STATE_HAS_PLACEHOLDER \<equiv> 1"
abbreviation (input) ENODATA :: int where "ENODATA \<equiv> 61"
abbreviation (input) ERANGE :: int where "ERANGE \<equiv> 34"
abbreviation (input) EOVERFLOW :: int where "EOVERFLOW \<equiv> 75"

section \<open>Bytes\<close>

definition IsPlaceholderState :: "u8 \<Rightarrow> bool" where
  "IsPlaceholderState placeholderState \<longleftrightarrow> placeholderState \<noteq> PLACEHOLDER_STATE_NONE"

definition GetPlaceholderStateFromFileSyncState :: "u8 \<Rightarrow> u8" where
  "GetPlaceholderStateFromFileSyncState state = drop_bit 5 (state AND 0xE0)"

definition GetSyncStateFromFileSyncState :: "u8 \<Rightarrow> u8" where
  "GetSyncStateFromFileSyncState state = state AND 0x1F"

definition MakeFileSyncState :: "u8 \<Rightarrow> u8 \<Rightarrow> u8" where
  "MakeFileSyncState placeholderState syncState = (push_bit 5 placeholderState AND 0xE0) OR (syncState AND 0x1F)"

definition EncodePlaceholderCount :: "u32 \<Rightarrow> u8 list" where
  "EncodePlaceholderCount count = map (\<lambda>index. ucast (drop_bit (index * 8) count AND 0xFF)) [0..<4]"

definition DecodePlaceholderCount :: "u8 list \<Rightarrow> u32" where
  "DecodePlaceholderCount data = fold (\<lambda>index count. count OR push_bit (index * 8) (ucast (data ! index))) [0..<length data] 0"

section \<open>Extended attributes\<close>

text \<open>
  The two attributes of a node. A node is the canonical spelling of a path, or the file behind a
  descriptor: the overloads of the source for the two are the same code. A call on a path acts on
  the node the path names, \<open>kernel_path path\<close>.
\<close>

record xattrs =
  xa_state :: "u8 list option"
  xa_count :: "u8 list option"

type_synonym 'n xstore = "'n \<Rightarrow> xattrs"

text \<open>The error number of a call on a node, zero when it works.\<close>

datatype xop = GetState | SetState | GetCount | SetCount | RemoveCount

type_synonym 'n xerr = "xop \<Rightarrow> 'n \<Rightarrow> int"

definition ReadFileSyncStateByteNoLock :: "'n xerr \<Rightarrow> 'n xstore \<Rightarrow> 'n \<Rightarrow> bool \<Rightarrow> int \<times> u8" where
  "ReadFileSyncStateByteNoLock err st path missingAsZero =
     (if err GetState path \<noteq> 0 then (if err GetState path = ENODATA \<and> missingAsZero then (E_OK, 0) else (err GetState path, 0))
      else case xa_state (st path) of
        None \<Rightarrow> if missingAsZero then (E_OK, 0) else (ENODATA, 0)
      | Some [] \<Rightarrow> (EINVAL, 0)
      | Some [state] \<Rightarrow> (E_OK, state)
      | Some (_ # _ # _) \<Rightarrow> (ERANGE, 0))"

definition WriteFileSyncStateByteNoLock :: "'n xerr \<Rightarrow> 'n xstore \<Rightarrow> 'n \<Rightarrow> u8 \<Rightarrow> int \<times> 'n xstore" where
  "WriteFileSyncStateByteNoLock err st path state =
     (if err SetState path \<noteq> 0 then (err SetState path, st)
      else (E_OK, st(path := (st path)\<lparr>xa_state := Some [state]\<rparr>)))"

definition ReadPlaceholderCountNoLock :: "'n xerr \<Rightarrow> 'n xstore \<Rightarrow> 'n \<Rightarrow> int \<times> u32" where
  "ReadPlaceholderCountNoLock err st path =
     (if err GetCount path \<noteq> 0 then (if err GetCount path = ENODATA then (E_OK, 0) else (err GetCount path, 0))
      else case xa_count (st path) of
        None \<Rightarrow> (E_OK, 0)
      | Some data \<Rightarrow> if length data = 4 then (E_OK, DecodePlaceholderCount data)
                     else if length data > 4 then (ERANGE, 0) else (EINVAL, 0))"

definition WritePlaceholderCountNoLock :: "'n xerr \<Rightarrow> 'n xstore \<Rightarrow> 'n \<Rightarrow> u32 \<Rightarrow> int \<times> 'n xstore" where
  "WritePlaceholderCountNoLock err st path count =
     (if count = 0
      then if err RemoveCount path \<noteq> 0 \<and> err RemoveCount path \<noteq> ENODATA then (err RemoveCount path, st)
           else if err RemoveCount path = ENODATA then (E_OK, st)
           else (E_OK, st(path := (st path)\<lparr>xa_count := None\<rparr>))
      else if err SetCount path \<noteq> 0 then (err SetCount path, st)
      else (E_OK, st(path := (st path)\<lparr>xa_count := Some (EncodePlaceholderCount count)\<rparr>)))"

section \<open>States of files\<close>

definition GetFileSyncStateByte :: "'n xerr \<Rightarrow> 'n xstore \<Rightarrow> 'n \<Rightarrow> bool \<Rightarrow> int \<times> u8" where
  "GetFileSyncStateByte err st path missingAsZero = ReadFileSyncStateByteNoLock err st path missingAsZero"

definition GetFilePlaceholderState :: "'n xerr \<Rightarrow> 'n xstore \<Rightarrow> 'n \<Rightarrow> int \<times> u8 option" where
  "GetFilePlaceholderState err st path =
     (case GetFileSyncStateByte err st path True of (ret, state) \<Rightarrow>
        if ret \<noteq> E_OK then (ret, None) else (E_OK, Some (GetPlaceholderStateFromFileSyncState state)))"

definition SetFilePlaceholderState :: "'n xerr \<Rightarrow> 'n xstore \<Rightarrow> 'n \<Rightarrow> u8 \<Rightarrow> int \<times> u8 option \<times> 'n xstore" where
  "SetFilePlaceholderState err st path newState =
     (if \<not> IsValidPlaceholderState newState then (EINVAL, None, st)
      else case ReadFileSyncStateByteNoLock err st path True of (ret, state) \<Rightarrow>
        if ret \<noteq> E_OK then (ret, None, st)
        else case WriteFileSyncStateByteNoLock err st path (MakeFileSyncState newState (GetSyncStateFromFileSyncState state)) of
          (ret1, st1) \<Rightarrow> (ret1, Some (GetPlaceholderStateFromFileSyncState state), st1))"

definition SetNewFilePlaceholderState :: "'n xerr \<Rightarrow> 'n xstore \<Rightarrow> 'n \<Rightarrow> u8 \<Rightarrow> int \<times> 'n xstore" where
  "SetNewFilePlaceholderState err st path newState =
     (if \<not> IsValidPlaceholderState newState then (EINVAL, st)
      else WriteFileSyncStateByteNoLock err st path (MakeFileSyncState newState 0))"

definition SetFileSyncState :: "'n xerr \<Rightarrow> 'n xstore \<Rightarrow> 'n \<Rightarrow> u8 \<Rightarrow> int \<times> 'n xstore" where
  "SetFileSyncState err st path syncState =
     (if syncState > 0x1F then (EINVAL, st)
      else case ReadFileSyncStateByteNoLock err st path True of (ret, state) \<Rightarrow>
        if ret \<noteq> E_OK then (ret, st)
        else WriteFileSyncStateByteNoLock err st path (MakeFileSyncState (GetPlaceholderStateFromFileSyncState state) syncState))"

section \<open>Counts of directories\<close>

definition UpdateDirectoryCountAndState :: "'n xerr \<Rightarrow> 'n xstore \<Rightarrow> 'n \<Rightarrow> int \<Rightarrow> int \<times> bool \<times> 'n xstore" where
  "UpdateDirectoryCountAndState err st path delta =
     (if delta \<noteq> 1 \<and> delta \<noteq> -1 then (EINVAL, False, st)
      else case ReadPlaceholderCountNoLock err st path of (ret, oldCount) \<Rightarrow>
        if ret \<noteq> E_OK then (ret, False, st)
        else if delta = 1 \<and> oldCount = 0xFFFFFFFF then (EOVERFLOW, False, st)
        else let newCount = (if delta = 1 then oldCount + 1 else if oldCount > 0 then oldCount - 1 else oldCount)
             in case WritePlaceholderCountNoLock err st path newCount of (ret1, st1) \<Rightarrow>
               if ret1 \<noteq> E_OK then (ret1, False, st1)
               else let newHasPlaceholder = newCount > 0;
                        shouldPropagate = ((oldCount > 0) \<noteq> newHasPlaceholder)
                    in if \<not> shouldPropagate then (E_OK, False, st1)
                       else case ReadFileSyncStateByteNoLock err st1 path True of (ret2, oldState) \<Rightarrow>
                         if ret2 \<noteq> E_OK then (ret2, True, st1)
                         else case WriteFileSyncStateByteNoLock err st1 path
                                (MakeFileSyncState (if newHasPlaceholder then PLACEHOLDER_STATE_HAS_PLACEHOLDER else PLACEHOLDER_STATE_NONE)
                                   (GetSyncStateFromFileSyncState oldState)) of (ret3, st2) \<Rightarrow> (ret3, True, st2))"

section \<open>Paths\<close>

definition IsSameOrUnderPath :: "string \<Rightarrow> string \<Rightarrow> bool" where
  "IsSameOrUnderPath root path \<longleftrightarrow>
     root \<noteq> [] \<and> path \<noteq> [] \<and>
     (path = root \<or>
      (let prefix = (if last root \<noteq> CHR ''/'' then root @ ''/'' else root)
       in length path > length prefix \<and> take (length prefix) path = prefix))"

definition GetParentPath :: "string \<Rightarrow> string" where
  "GetParentPath path =
     (case find_last_of CHR ''/'' path of
        None \<Rightarrow> '''' | Some pos \<Rightarrow> if pos = 0 then ''/'' else take pos path)"

definition PathFileName :: "string \<Rightarrow> string" where
  "PathFileName path = (case find_last_of CHR ''/'' path of None \<Rightarrow> path | Some pos \<Rightarrow> drop (pos + 1) path)"

text \<open>The loop of \<open>RefreshAncestorPlaceholderCount\<close>: it climbs one directory per round.\<close>

lemma under_parent_shorter:
  assumes "IsSameOrUnderPath root path" and "path \<noteq> root"
  shows "length (GetParentPath path) < length path"
proof -
  have "root \<noteq> []" using assms(1) by (simp add: IsSameOrUnderPath_def)
  then have "0 < length root" by simp
  then have "1 < length path" using assms by (auto simp: IsSameOrUnderPath_def Let_def simp del: length_greater_0_conv split: if_splits)
  then show ?thesis by (auto simp: GetParentPath_def dest: find_last_of_Some split: option.splits)
qed

function refresh_loop :: "string xerr \<Rightarrow> string \<Rightarrow> int \<Rightarrow> string \<Rightarrow> int \<Rightarrow> string xstore \<Rightarrow> int \<times> string xstore" where
  "refresh_loop err syncRoot delta curPath lastError st =
     (if \<not> IsSameOrUnderPath syncRoot curPath then (lastError, st)
      else case UpdateDirectoryCountAndState err st (kernel_path curPath) delta of (ret, shouldPropagate, st1) \<Rightarrow>
        if ret \<noteq> E_OK
        then if curPath = syncRoot then (ret, st1) else refresh_loop err syncRoot delta (GetParentPath curPath) ret st1
        else if \<not> shouldPropagate \<or> curPath = syncRoot then (lastError, st1)
        else refresh_loop err syncRoot delta (GetParentPath curPath) lastError st1)"
  by pat_completeness auto
termination
  by (relation "measure (\<lambda>(err, root, delta, cur, last, st). length cur)") (auto intro: under_parent_shorter)

declare refresh_loop.simps [simp del]

definition RefreshAncestorPlaceholderCount :: "string xerr \<Rightarrow> string \<Rightarrow> string \<Rightarrow> int \<Rightarrow> string xstore \<Rightarrow> int \<times> string xstore" where
  "RefreshAncestorPlaceholderCount err syncRoot path delta st =
     (if delta = 0 \<or> syncRoot = [] \<or> path = [] then (E_OK, st)
      else refresh_loop err syncRoot delta (GetParentPath path) E_OK st)"

section \<open>Lemmas on the bytes\<close>

lemma state_byte_get: "GetPlaceholderStateFromFileSyncState (MakeFileSyncState p s) = take_bit 3 p"
  "GetSyncStateFromFileSyncState (MakeFileSyncState p s) = take_bit 5 s"
proof -
  have e0: "(0xE0 :: u8) = push_bit 5 (mask 3)" and f: "(0x1F :: u8) = mask 5" by (simp_all add: mask_eq_exp_minus_1)
  show "GetPlaceholderStateFromFileSyncState (MakeFileSyncState p s) = take_bit 3 p"
    unfolding GetPlaceholderStateFromFileSyncState_def MakeFileSyncState_def e0 f
    by (rule bit_word_eqI) (auto simp: bit_simps)
  show "GetSyncStateFromFileSyncState (MakeFileSyncState p s) = take_bit 5 s"
    unfolding GetSyncStateFromFileSyncState_def MakeFileSyncState_def e0 f
    by (rule bit_word_eqI) (auto simp: bit_simps)
qed

lemma valid_state_bits: "IsValidPlaceholderState p \<Longrightarrow> take_bit 3 p = p"
  by (simp add: IsValidPlaceholderState_def take_bit_eq_mod word_unat_eq_iff unat_mod_distrib word_le_nat_alt)

lemma decode_encode: "DecodePlaceholderCount (EncodePlaceholderCount count) = count"
proof -
  have l: "[0..<4] = [0, 1, 2, 3::nat]" by (simp add: upt_rec)
  have ff: "(0xFF :: u32) = mask 8" by (simp add: mask_eq_exp_minus_1)
  show ?thesis
  proof (rule bit_word_eqI)
    fix n assume "n < LENGTH(32)"
    then consider "n < 8" | "8 \<le> n" "n < 16" | "16 \<le> n" "n < 24" | "24 \<le> n" "n < 32" by force
    then show "bit (DecodePlaceholderCount (EncodePlaceholderCount count)) n = bit count n"
      by cases (auto simp: DecodePlaceholderCount_def EncodePlaceholderCount_def l ff bit_simps)
  qed
qed

lemma length_encode [simp]: "length (EncodePlaceholderCount count) = 4"
  by (simp add: EncodePlaceholderCount_def)

section \<open>The count invariant\<close>

definition state_byte :: "'n xstore \<Rightarrow> 'n \<Rightarrow> u8" where
  "state_byte st p = (case xa_state (st p) of Some [b] \<Rightarrow> b | _ \<Rightarrow> 0)"

definition ph_of :: "'n xstore \<Rightarrow> 'n \<Rightarrow> u8" where
  "ph_of st p = GetPlaceholderStateFromFileSyncState (state_byte st p)"

definition count_of :: "'n xstore \<Rightarrow> 'n \<Rightarrow> u32" where
  "count_of st p = (case xa_count (st p) of Some d \<Rightarrow> DecodePlaceholderCount d | None \<Rightarrow> 0)"

definition attrs_ok :: "'n xstore \<Rightarrow> 'n \<Rightarrow> bool" where
  "attrs_ok st p \<longleftrightarrow> (\<forall>d. xa_state (st p) = Some d \<longrightarrow> length d = 1) \<and> (\<forall>d. xa_count (st p) = Some d \<longrightarrow> length d = 4)"

definition no_err :: "'n xerr" where
  "no_err = (\<lambda>_ _. 0)"

lemma read_state_ok: "attrs_ok st p \<Longrightarrow> ReadFileSyncStateByteNoLock no_err st p True = (E_OK, state_byte st p)"
  by (auto simp: ReadFileSyncStateByteNoLock_def no_err_def attrs_ok_def state_byte_def length_Suc_conv split: option.splits)

lemma read_count_ok: "attrs_ok st p \<Longrightarrow> ReadPlaceholderCountNoLock no_err st p = (E_OK, count_of st p)"
  by (auto simp: ReadPlaceholderCountNoLock_def no_err_def attrs_ok_def count_of_def split: option.splits)

lemma write_count_ok:
  "WritePlaceholderCountNoLock no_err st p n =
    (E_OK, st(p := (st p)\<lparr>xa_count := (if n = 0 then None else Some (EncodePlaceholderCount n))\<rparr>))"
  by (simp add: WritePlaceholderCountNoLock_def no_err_def)

lemma write_state_ok: "WriteFileSyncStateByteNoLock no_err st p b = (E_OK, st(p := (st p)\<lparr>xa_state := Some [b]\<rparr>))"
  by (simp add: WriteFileSyncStateByteNoLock_def no_err_def)

lemmas xattr_ok = read_state_ok read_count_ok write_count_ok write_state_ok

text \<open>
  A sync folder: its directories, in their canonical spelling, and the children of each. Child paths
  extend the path of their directory, and no directory has \<open>UINT32_MAX\<close> children or more.
\<close>

record ph_tree =
  pt_dirs :: "string set"
  pt_kids :: "string \<Rightarrow> string set"

definition tree_ok :: "string \<Rightarrow> ph_tree \<Rightarrow> bool" where
  "tree_ok root T \<longleftrightarrow> root \<in> pt_dirs T \<and>
     (\<forall>d \<in> pt_dirs T. canonical d \<and> IsSameOrUnderPath root d \<and> finite (pt_kids T d) \<and> card (pt_kids T d) < 4294967295 \<and>
        (\<forall>c \<in> pt_kids T d. GetParentPath c = d \<and> c \<noteq> d \<and> c \<noteq> root) \<and>
        (d \<noteq> root \<longrightarrow> GetParentPath d \<in> pt_dirs T \<and> d \<in> pt_kids T (GetParentPath d)))"

definition has_placeholder :: "ph_tree \<Rightarrow> string xstore \<Rightarrow> string \<Rightarrow> bool" where
  "has_placeholder T st c = (if c \<in> pt_dirs T then count_of st c > 0 else IsPlaceholderState (ph_of st c))"

definition placeholder_kids :: "ph_tree \<Rightarrow> string xstore \<Rightarrow> string \<Rightarrow> string set" where
  "placeholder_kids T st d = {c \<in> pt_kids T d. has_placeholder T st c}"

definition dir_ok :: "ph_tree \<Rightarrow> string xstore \<Rightarrow> string \<Rightarrow> bool" where
  "dir_ok T st d \<longleftrightarrow> unat (count_of st d) = card (placeholder_kids T st d)"

text \<open>Every directory counts the children that have placeholders, and its own state says whether it has any.\<close>

definition counts_ok :: "ph_tree \<Rightarrow> string xstore \<Rightarrow> bool" where
  "counts_ok T st \<longleftrightarrow> (\<forall>d \<in> pt_dirs T. dir_ok T st d \<and> attrs_ok st d \<and>
     (IsPlaceholderState (ph_of st d) \<longleftrightarrow> count_of st d > 0))"

text \<open>All but one directory agree with the tree; that one is off by \<open>delta\<close>.\<close>

definition off_by :: "ph_tree \<Rightarrow> string xstore \<Rightarrow> string \<Rightarrow> int \<Rightarrow> bool" where
  "off_by T st cur delta \<longleftrightarrow> cur \<in> pt_dirs T \<and> int (card (placeholder_kids T st cur)) = int (unat (count_of st cur)) + delta \<and>
     (\<forall>d \<in> pt_dirs T. (d \<noteq> cur \<longrightarrow> dir_ok T st d) \<and> attrs_ok st d \<and>
        (IsPlaceholderState (ph_of st d) \<longleftrightarrow> count_of st d > 0))"

lemma ph_of_make: "IsValidPlaceholderState p \<Longrightarrow> GetPlaceholderStateFromFileSyncState (MakeFileSyncState p s) = p"
  by (simp add: state_byte_get valid_state_bits)

lemma new_count:
  assumes "delta = 1 \<or> delta = -1" and "0 \<le> int (unat c) + delta" and "int (unat c) + delta < 4294967295"
  shows "int (unat (if delta = 1 then c + 1 else if c > 0 then c - 1 else c :: u32)) = int (unat c) + delta"
    "\<not> (delta = 1 \<and> c = 0xFFFFFFFF)"
proof -
  show "\<not> (delta = 1 \<and> c = 0xFFFFFFFF)" using assms(3) by auto
  show "int (unat (if delta = 1 then c + 1 else if c > 0 then c - 1 else c)) = int (unat c) + delta"
  proof (cases "delta = 1")
    case True
    then have "unat c + 1 < 4294967296" using assms(3) by linarith
    then show ?thesis using True by (simp add: unat_word_ariths)
  next
    case False
    then have "0 < unat c" using assms(1,2) by linarith
    then have "c > 0" "1 \<le> c" by (simp_all add: word_less_nat_alt word_le_nat_alt)
    then show ?thesis using False assms(1) \<open>0 < unat c\<close> by (simp add: unat_sub)
  qed
qed

lemma update_dir_ok:
  assumes a: "attrs_ok st p" and d: "delta = 1 \<or> delta = -1"
    and b: "0 \<le> int (unat (count_of st p)) + delta" "int (unat (count_of st p)) + delta < 4294967295"
    and h: "IsPlaceholderState (ph_of st p) \<longleftrightarrow> count_of st p > 0"
  shows "\<exists>st1. UpdateDirectoryCountAndState no_err st p delta = (E_OK, (count_of st p > 0) \<noteq> (count_of st1 p > 0), st1) \<and>
    int (unat (count_of st1 p)) = int (unat (count_of st p)) + delta \<and> attrs_ok st1 p \<and>
    (IsPlaceholderState (ph_of st1 p) \<longleftrightarrow> count_of st1 p > 0) \<and> (\<forall>q. q \<noteq> p \<longrightarrow> st1 q = st q)"
proof -
  let ?c = "count_of st p"
  define n where "n = (if delta = 1 then ?c + 1 else if ?c > 0 then ?c - 1 else ?c)"
  note nc = new_count [OF d b, folded n_def]
  let ?s1 = "st(p := (st p)\<lparr>xa_count := (if n = 0 then None else Some (EncodePlaceholderCount n))\<rparr>)"
  have a1: "attrs_ok ?s1 p" and c1: "count_of ?s1 p = n" and s1: "state_byte ?s1 p = state_byte st p"
    using a by (auto simp: attrs_ok_def count_of_def state_byte_def decode_encode)
  let ?b = "MakeFileSyncState (if n > 0 then 1 else 0) (GetSyncStateFromFileSyncState (state_byte st p))"
  let ?s2 = "?s1(p := (?s1 p)\<lparr>xa_state := Some [?b]\<rparr>)"
  have a2: "attrs_ok ?s2 p" and c2: "count_of ?s2 p = n" and s2: "ph_of ?s2 p = (if n > 0 then 1 else 0)"
    using a1 c1 by (auto simp: attrs_ok_def count_of_def ph_of_def state_byte_def ph_of_make IsValidPlaceholderState_def)
  let ?r = "if (?c > 0) = (n > 0) then ?s1 else ?s2"
  have "UpdateDirectoryCountAndState no_err st p delta = (0, (?c > 0) \<noteq> (n > 0), ?r)"
    using d nc(2) a a1 s1 unfolding UpdateDirectoryCountAndState_def
    by (auto simp: xattr_ok Let_def n_def [symmetric])
  moreover have "count_of ?r p = n" "attrs_ok ?r p" "IsPlaceholderState (ph_of ?r p) \<longleftrightarrow> n > 0" "\<forall>q. q \<noteq> p \<longrightarrow> ?r q = st q"
    using a1 a2 c1 c2 s1 s2 h by (auto simp: ph_of_def IsPlaceholderState_def)
  ultimately show ?thesis using nc(1) by (intro exI [of _ ?r]) simp
qed

lemma count_pos_iff: "(count_of st d > 0) \<longleftrightarrow> unat (count_of st d) > 0"
  by (simp add: word_less_nat_alt)

lemma placeholder_kids_cong:
  assumes "\<And>c. c \<in> pt_kids T d \<Longrightarrow> has_placeholder T st' c = has_placeholder T st c"
  shows "placeholder_kids T st' d = placeholder_kids T st d"
  using assms by (auto simp: placeholder_kids_def)

lemma has_placeholder_upd:
  assumes "\<forall>q. q \<noteq> p \<longrightarrow> st1 q = st q" and "c \<noteq> p"
  shows "has_placeholder T st1 c = has_placeholder T st c"
  using assms by (simp add: has_placeholder_def count_of_def ph_of_def state_byte_def)

text \<open>One node turning to or from having placeholders moves its parent's count by one.\<close>

lemma kids_flip:
  assumes fin: "finite (pt_kids T d)" and c: "c \<in> pt_kids T d"
    and others: "\<And>c'. c' \<noteq> c \<Longrightarrow> has_placeholder T st1 c' = has_placeholder T st c'"
  shows "int (card (placeholder_kids T st1 d)) = int (card (placeholder_kids T st d)) +
    (of_bool (has_placeholder T st1 c) - of_bool (has_placeholder T st c))"
proof -
  define K where "K = placeholder_kids T st d - {c}"
  have K: "finite K" "c \<notin> K" using fin by (auto simp: K_def placeholder_kids_def)
  have e: "placeholder_kids T s d = (if has_placeholder T s c then insert c K else K)" if "s = st \<or> s = st1" for s
    using that c others by (auto simp: placeholder_kids_def K_def) metis+
  have "int (card (placeholder_kids T s d)) = int (card K) + of_bool (has_placeholder T s c)" if "s = st \<or> s = st1" for s
    using K by (simp add: e [OF that])
  then show ?thesis by simp
qed

lemma refresh_loop_correct:
  assumes T: "tree_ok root T" and d: "delta = 1 \<or> delta = -1" and "off_by T st cur delta"
  shows "\<exists>st'. refresh_loop no_err root delta cur lastError st = (lastError, st') \<and> counts_ok T st' \<and>
    (\<forall>q. q \<notin> pt_dirs T \<longrightarrow> st' q = st q)"
  using assms(3)
proof (induction "length cur" arbitrary: cur st rule: less_induct)
  case less
  have cur: "cur \<in> pt_dirs T" "attrs_ok st cur" "IsPlaceholderState (ph_of st cur) \<longleftrightarrow> count_of st cur > 0"
    and off: "int (card (placeholder_kids T st cur)) = int (unat (count_of st cur)) + delta" using less.prems by (auto simp: off_by_def)
  have kp: "kernel_path cur = cur" using T cur(1) by (auto simp: tree_ok_def canonical_def)
  have td: "IsSameOrUnderPath root cur" "finite (pt_kids T cur)" "card (pt_kids T cur) < 4294967295"
    using T cur(1) by (auto simp: tree_ok_def)
  have "card (placeholder_kids T st cur) \<le> card (pt_kids T cur)" using td(2) by (intro card_mono) (auto simp: placeholder_kids_def)
  then have bnd: "0 \<le> int (unat (count_of st cur)) + delta" "int (unat (count_of st cur)) + delta < 4294967295" using off td(3) by linarith+
  from update_dir_ok [OF cur(2) d bnd cur(3)] obtain st1 where
    u: "UpdateDirectoryCountAndState no_err st cur delta = (0, (count_of st cur > 0) \<noteq> (count_of st1 cur > 0), st1)"
      "int (unat (count_of st1 cur)) = int (unat (count_of st cur)) + delta" "attrs_ok st1 cur"
      "IsPlaceholderState (ph_of st1 cur) \<longleftrightarrow> count_of st1 cur > 0" "\<forall>q. q \<noteq> cur \<longrightarrow> st1 q = st q" by blast
  note same = has_placeholder_upd [OF u(5)]
  have kids: "placeholder_kids T st1 d = placeholder_kids T st d" if "cur \<notin> pt_kids T d \<or> has_placeholder T st1 cur = has_placeholder T st cur" for d
    using that by (intro placeholder_kids_cong) (metis same)
  have cnt: "count_of st1 d = count_of st d" "attrs_ok st1 d = attrs_ok st d" "ph_of st1 d = ph_of st d" if "d \<noteq> cur" for d
    using that u(5) by (simp_all add: count_of_def attrs_ok_def ph_of_def state_byte_def)
  have rest: "attrs_ok st1 d \<and> (IsPlaceholderState (ph_of st1 d) \<longleftrightarrow> count_of st1 d > 0)" if "d \<in> pt_dirs T" for d
    using that less.prems u(3,4) cnt [of d] by (cases "d = cur") (auto simp: off_by_def)
  have "cur \<notin> pt_kids T cur" using T cur(1) by (auto simp: tree_ok_def)
  then have "placeholder_kids T st1 cur = placeholder_kids T st cur" using kids by blast
  then have here: "dir_ok T st1 cur" using off u(2) unfolding dir_ok_def by (metis nat_int_comparison(1))
  have ok1: "dir_ok T st1 d" if "d \<in> pt_dirs T" "d \<noteq> cur" "cur \<notin> pt_kids T d \<or> has_placeholder T st1 cur = has_placeholder T st cur" for d
    using that less.prems kids [OF that(3)] cnt(1) [OF that(2)] by (simp add: off_by_def dir_ok_def)
  show ?case
  proof (cases "(count_of st cur > 0) \<noteq> (count_of st1 cur > 0) \<and> cur \<noteq> root")
    case False
    then have fin: "refresh_loop no_err root delta cur lastError st = (lastError, st1)"
      using u(1) td(1) kp by (auto simp: refresh_loop.simps [of _ _ _ cur])
    have "dir_ok T st1 d" if "d \<in> pt_dirs T" for d
    proof (cases "d = cur")
      case other: False
      have "has_placeholder T st1 cur = has_placeholder T st cur" if "cur \<in> pt_kids T d"
        using that False T \<open>d \<in> pt_dirs T\<close> cur(1) by (auto simp: tree_ok_def has_placeholder_def)
      then show ?thesis using ok1 [OF that other] by blast
    qed (simp add: here)
    then have "counts_ok T st1" using rest by (simp add: counts_ok_def)
    moreover have "\<forall>q. q \<notin> pt_dirs T \<longrightarrow> st1 q = st q" using u(5) cur(1) by metis
    ultimately show ?thesis using fin by blast
  next
    case True
    let ?p = "GetParentPath cur"
    have p: "?p \<in> pt_dirs T" "cur \<in> pt_kids T ?p" "?p \<noteq> cur" "finite (pt_kids T ?p)" "length ?p < length cur"
      using T cur(1) True under_parent_shorter [OF td(1)] by (auto simp: tree_ok_def)
    have step: "refresh_loop no_err root delta cur lastError st = refresh_loop no_err root delta ?p lastError st1"
      using u(1) td(1) True kp by (subst refresh_loop.simps) auto
    have pos: "delta = 1 \<Longrightarrow> 0 < unat (count_of st1 cur)" "delta = -1 \<Longrightarrow> 0 < unat (count_of st cur)" using u(2) by linarith+
    have "of_bool (has_placeholder T st1 cur) - of_bool (has_placeholder T st cur) = delta"
      using True pos d cur(1) by (auto simp: has_placeholder_def count_pos_iff)
    then have "int (card (placeholder_kids T st1 ?p)) = int (card (placeholder_kids T st ?p)) + delta"
      using kids_flip [OF p(4,2), of st1 st] same by simp
    then have "int (card (placeholder_kids T st1 ?p)) = int (unat (count_of st1 ?p)) + delta"
      using less.prems p(1,3) cnt(1) [OF p(3)] by (simp add: off_by_def dir_ok_def)
    moreover have "dir_ok T st1 d" if "d \<in> pt_dirs T" "d \<noteq> ?p" for d
    proof (cases "d = cur")
      case False
      have "cur \<notin> pt_kids T d" using T that by (auto simp: tree_ok_def)
      then show ?thesis using ok1 [OF that(1) False] by blast
    qed (simp add: here)
    ultimately have "off_by T st1 ?p delta" using p(1) rest by (simp add: off_by_def)
    from less.hyps [OF p(5) this] step u(5) cur(1) show ?thesis by metis
  qed
qed


section \<open>What a refresh leaves alone\<close>

lemma parent_split:
  assumes "CHR ''/'' \<in> set p"
  obtains q n where "p = q @ CHR ''/'' # n" "CHR ''/'' \<notin> set n" "GetParentPath p = (if q = [] then ''/'' else q)"
proof -
  obtain i where i: "find_last_of CHR ''/'' p = Some i" using assms find_last_of_None [of "CHR ''/''" p] by (cases "find_last_of CHR ''/'' p") auto
  note f = find_last_of_Some [OF i]
  have "p = take i p @ CHR ''/'' # drop (Suc i) p" using f id_take_nth_drop [of i p] by simp
  then show thesis using that f i by (auto simp: GetParentPath_def)
qed

lemma path_names_root [simp]: "path_names ''/'' = []" "path_names [] = []"
  by (simp_all add: path_names_def proper_def)

lemma parent_path_names:
  shows "length (path_names (GetParentPath p)) \<le> length (path_names p)"
    and "CHR ''/'' \<in> set p \<Longrightarrow> names_entry p \<Longrightarrow> length (path_names (GetParentPath p)) < length (path_names p)"
proof -
  have "length (path_names (GetParentPath p)) \<le> length (path_names p) \<and> (names_entry p \<longrightarrow> length (path_names (GetParentPath p)) < length (path_names p))"
    if "CHR ''/'' \<in> set p"
    using that
  proof (rule parent_split)
    fix q n assume p: "p = q @ CHR ''/'' # n" "CHR ''/'' \<notin> set n" "GetParentPath p = (if q = [] then ''/'' else q)"
    then have "path_names (GetParentPath p) = path_names q" by simp
    then show ?thesis using p by (simp add: path_names_append path_names_plain names_entry_def split_slash_append split_slash_plain)
  qed
  moreover have "GetParentPath p = []" if "CHR ''/'' \<notin> set p" using that by (simp add: GetParentPath_def find_last_of_None [THEN iffD2])
  ultimately show "length (path_names (GetParentPath p)) \<le> length (path_names p)"
    "CHR ''/'' \<in> set p \<Longrightarrow> names_entry p \<Longrightarrow> length (path_names (GetParentPath p)) < length (path_names p)"
    by (cases "CHR ''/'' \<in> set p"; simp)+
qed

lemma update_dir_frame:
  assumes "UpdateDirectoryCountAndState err st p delta = (ret, pg, st1)" and "q \<noteq> p"
  shows "st1 q = st q"
  using assms unfolding UpdateDirectoryCountAndState_def
  by (auto simp: Let_def WritePlaceholderCountNoLock_def WriteFileSyncStateByteNoLock_def split: if_splits prod.splits)

lemma refresh_loop_frame:
  assumes "refresh_loop err root delta cur e st = (ret, st')" and "length (path_names cur) < length (path_names q)"
  shows "st' (kernel_path q) = st (kernel_path q)"
  using assms
proof (induction err root delta cur e st rule: refresh_loop.induct)
  case (1 err root delta cur e st)
  obtain r pg st1 where u: "UpdateDirectoryCountAndState err st (kernel_path cur) delta = (r, pg, st1)" by (rule prod_cases3)
  have "kernel_path q \<noteq> kernel_path cur" using "1.prems"(2) by (auto simp: kernel_path_eq_iff)
  then have st1: "st1 (kernel_path q) = st (kernel_path q)" by (rule update_dir_frame [OF u])
  have up: "length (path_names (GetParentPath cur)) < length (path_names q)" using parent_path_names(1) [of cur] "1.prems"(2) by linarith
  note d = "1.prems"(1) [unfolded refresh_loop.simps [of err root delta cur e st]]
  show ?case
  proof (cases "IsSameOrUnderPath root cur")
    case True
    then show ?thesis using d u st1 "1.IH"(1) [OF _ u [symmetric] refl _ _ _ up] "1.IH"(2) [OF _ u [symmetric] refl _ _ _ up]
      by (auto split: if_splits)
  qed (use d in simp)
qed

lemma refresh_ancestors_frame:
  assumes "RefreshAncestorPlaceholderCount err root p delta st = (ret, st')" and "names_entry p" and "CHR ''/'' \<in> set p"
  shows "st' (kernel_path p) = st (kernel_path p)"
  using assms refresh_loop_frame [OF _ parent_path_names(2) [OF assms(3, 2)]]
  by (auto simp: RefreshAncestorPlaceholderCount_def split: if_splits)

section \<open>Changing the state of a file\<close>

text \<open>A file whose state changes, with its ancestors refreshed by the difference.\<close>

lemma set_state_ok:
  assumes "attrs_ok st p" and "IsValidPlaceholderState newState"
  shows "\<exists>st1. SetFilePlaceholderState no_err st p newState = (E_OK, Some (ph_of st p), st1) \<and>
    ph_of st1 p = newState \<and> GetSyncStateFromFileSyncState (state_byte st1 p) = GetSyncStateFromFileSyncState (state_byte st p) \<and>
    attrs_ok st1 p \<and> xa_count (st1 p) = xa_count (st p) \<and> (\<forall>q. q \<noteq> p \<longrightarrow> st1 q = st q)"
proof -
  let ?st1 = "st(p := (st p)\<lparr>xa_state := Some [MakeFileSyncState newState (GetSyncStateFromFileSyncState (state_byte st p))]\<rparr>)"
  have b: "state_byte ?st1 p = MakeFileSyncState newState (GetSyncStateFromFileSyncState (state_byte st p))" by (simp add: state_byte_def)
  have "take_bit 5 (GetSyncStateFromFileSyncState s) = GetSyncStateFromFileSyncState s" for s
  proof -
    have f: "(0x1F :: u8) = mask 5" by (simp add: mask_eq_exp_minus_1)
    show ?thesis unfolding GetSyncStateFromFileSyncState_def f by (rule bit_word_eqI) (auto simp: bit_simps)
  qed
  then show ?thesis using assms
    by (intro exI [of _ ?st1]) (auto simp: SetFilePlaceholderState_def xattr_ok ph_of_def b ph_of_make state_byte_get(2) attrs_ok_def)
qed

lemma set_state_off_by:
  assumes T: "tree_ok root T" and ok: "counts_ok T st" and c: "c \<notin> pt_dirs T" and kid: "c \<in> pt_kids T d" "d \<in> pt_dirs T"
    and upd: "\<forall>q. q \<noteq> c \<longrightarrow> st1 q = st q"
  shows "off_by T st1 d (of_bool (IsPlaceholderState (ph_of st1 c)) - of_bool (IsPlaceholderState (ph_of st c)))"
proof -
  note same = has_placeholder_upd [OF upd]
  have fin: "finite (pt_kids T d)" using T kid(2) by (auto simp: tree_ok_def)
  have cnt: "count_of st1 q = count_of st q \<and> attrs_ok st1 q = attrs_ok st q \<and> ph_of st1 q = ph_of st q" if "q \<in> pt_dirs T" for q
    using that c upd by (cases "q = c") (auto simp: count_of_def attrs_ok_def ph_of_def state_byte_def)
  have "dir_ok T st1 q" if "q \<in> pt_dirs T" "q \<noteq> d" for q
  proof -
    have "c \<notin> pt_kids T q" using T that kid unfolding tree_ok_def by metis
    then have "placeholder_kids T st1 q = placeholder_kids T st q" by (intro placeholder_kids_cong) (metis same)
    then show ?thesis using ok that cnt by (simp add: dir_ok_def counts_ok_def)
  qed
  moreover have "int (card (placeholder_kids T st1 d)) = int (unat (count_of st1 d)) +
      (of_bool (IsPlaceholderState (ph_of st1 c)) - of_bool (IsPlaceholderState (ph_of st c)))"
    using kids_flip [OF fin kid(1), of st1 st] same ok kid(2) c cnt by (simp add: has_placeholder_def counts_ok_def dir_ok_def)
  ultimately show ?thesis using ok kid(2) cnt by (simp add: off_by_def counts_ok_def)
qed

lemma off_by_zero:
  assumes "off_by T st d 0"
  shows "counts_ok T st"
proof -
  have "int (card (placeholder_kids T st d)) = int (unat (count_of st d))" using assms by (simp only: off_by_def add_0_right)
  then have "dir_ok T st d" unfolding dir_ok_def by (metis nat_int_comparison(1))
  then show ?thesis using assms by (auto simp: off_by_def counts_ok_def)
qed

lemma refresh_correct:
  assumes T: "tree_ok root T" and ok: "counts_ok T st" and c: "c \<notin> pt_dirs T" "c \<in> pt_kids T d" "d \<in> pt_dirs T"
    and upd: "\<forall>q. q \<noteq> c \<longrightarrow> st1 q = st q"
    and delta: "delta = of_bool (IsPlaceholderState (ph_of st1 c)) - of_bool (IsPlaceholderState (ph_of st c))"
  shows "\<exists>st2. RefreshAncestorPlaceholderCount no_err root c delta st1 = (E_OK, st2) \<and> counts_ok T st2 \<and>
    (\<forall>q. q \<notin> pt_dirs T \<longrightarrow> st2 q = st1 q)"
proof (cases "delta = 0")
  case True
  have "off_by T st1 d 0" using set_state_off_by [OF T ok c upd] delta True by simp
  then have "counts_ok T st1" by (rule off_by_zero)
  then show ?thesis using True by (simp add: RefreshAncestorPlaceholderCount_def)
next
  case False
  then have d: "delta = 1 \<or> delta = -1" using delta by (auto simp: of_bool_def split: if_splits)
  have par: "GetParentPath c = d" "root \<noteq> []" "d \<noteq> []" using T c by (auto simp: tree_ok_def IsSameOrUnderPath_def)
  then have "c \<noteq> []" by (auto simp: GetParentPath_def split: option.splits)
  then have r: "RefreshAncestorPlaceholderCount no_err root c delta st1 = refresh_loop no_err root delta d E_OK st1"
    using False par by (simp add: RefreshAncestorPlaceholderCount_def)
  have "off_by T st1 d delta" using set_state_off_by [OF T ok c upd] delta by simp
  from refresh_loop_correct [OF T d this, of E_OK] r show ?thesis by simp
qed


section \<open>The dentry and the recount\<close>

text \<open>
  What the functions below read of the file system: the errors of the attribute calls, the
  environment of the dentry store, and the inode \<open>stat\<close> gives of a path or its error.
\<close>

record recount_env =
  re_xerr :: "string xerr"
  re_svc :: svc_env
  re_stat :: "string \<Rightarrow> int + u64"

definition UpdateDentryPlaceholderState :: "recount_env \<Rightarrow> int \<Rightarrow> u32 \<Rightarrow> string \<Rightarrow> u8 \<Rightarrow> svc_world \<Rightarrow> int \<times> svc_world" where
  "UpdateDentryPlaceholderState env userId syncFolderIndex path placeholderState w =
     (let parentPath = GetParentPath path; name = PathFileName path
      in if parentPath = [] \<or> name = [] then (EINVAL, w)
         else case re_stat env parentPath of
           Inl err \<Rightarrow> (err, w)
         | Inr ino \<Rightarrow>
             (case GetCloudDiskServiceMetaFile (re_svc env) userId syncFolderIndex ino w of (parentMetaFile, w1) \<Rightarrow>
                let p = obj_path (re_svc env) parentMetaFile;
                    io = (hdr_io (se_hdr (re_svc env) p))\<lparr>fd := so_fd parentMetaFile\<rparr>
                in case sw_disk w1 p of
                     None \<Rightarrow> (fst (svc_DoUpdatePlaceholderState io (SvcBase_id name []) placeholderState (empty_file svc_layout)), w1)
                   | Some d \<Rightarrow>
                       (case svc_DoUpdatePlaceholderState io (SvcBase_id name []) placeholderState (dk_file d) of (ret, f) \<Rightarrow>
                          (ret, w1\<lparr>sw_disk := (sw_disk w1)(p \<mapsto> d\<lparr>dk_file := f\<rparr>)\<rparr>))))"

text \<open>
  The tree a recount meets: a path \<open>lstat\<close> fails on, a file, or a directory with the error of
  \<open>opendir\<close> and the entries \<open>readdir\<close> gives, in their order. \<open>lstat\<close> does not follow links, so the
  tree is finite.
\<close>

datatype fsnode = NoNode int | FileNode | DirNode int "(string \<times> fsnode) list"

type_synonym recount_state = "string xstore \<times> svc_world"

definition RecountFileNode :: "recount_env \<Rightarrow> string \<Rightarrow> int \<Rightarrow> u32 \<Rightarrow> recount_state \<Rightarrow> int \<times> bool \<times> recount_state" where
  "RecountFileNode env path userId syncFolderIndex s =
     (let (ret, placeholderState0) = GetFilePlaceholderState (re_xerr env) (fst s) (kernel_path path);
          placeholderState = (if ret \<noteq> E_OK then PLACEHOLDER_STATE_NONE
                              else case placeholderState0 of None \<Rightarrow> PLACEHOLDER_STATE_NONE | Some v \<Rightarrow> v);
          (_, w1) = UpdateDentryPlaceholderState env userId syncFolderIndex path placeholderState (snd s)
      in (E_OK, IsPlaceholderState placeholderState, fst s, w1))"

definition UpdateDirectoryRecountState :: "string xerr \<Rightarrow> string \<Rightarrow> u32 \<Rightarrow> string xstore \<Rightarrow> string xstore" where
  "UpdateDirectoryRecountState err path count st =
     (case WritePlaceholderCountNoLock err st path count of (_, st1) \<Rightarrow>
        case ReadFileSyncStateByteNoLock err st1 path True of (ret, oldState) \<Rightarrow>
          if ret \<noteq> E_OK then st1
          else snd (WriteFileSyncStateByteNoLock err st1 path
                 (MakeFileSyncState (if count > 0 then PLACEHOLDER_STATE_HAS_PLACEHOLDER else PLACEHOLDER_STATE_NONE)
                    (GetSyncStateFromFileSyncState oldState))))"

fun RecountNode :: "recount_env \<Rightarrow> string \<Rightarrow> string \<Rightarrow> int \<Rightarrow> u32 \<Rightarrow> fsnode \<Rightarrow> recount_state \<Rightarrow> int \<times> bool \<times> recount_state"
  and RecountDirectoryChildren ::
    "recount_env \<Rightarrow> string \<Rightarrow> string \<Rightarrow> int \<Rightarrow> u32 \<Rightarrow> (string \<times> fsnode) list \<Rightarrow> u32 \<Rightarrow> recount_state \<Rightarrow> u32 \<times> recount_state" where
  "RecountNode env syncRoot path userId syncFolderIndex (NoNode err) s = (err, False, s)"
| "RecountNode env syncRoot path userId syncFolderIndex FileNode s = RecountFileNode env path userId syncFolderIndex s"
| "RecountNode env syncRoot path userId syncFolderIndex (DirNode err entries) s =
     (if err \<noteq> 0 then (err, False, s)
      else case RecountDirectoryChildren env syncRoot path userId syncFolderIndex entries 0 s of (count, st1, w1) \<Rightarrow>
        let st2 = UpdateDirectoryRecountState (re_xerr env) (kernel_path path) count st1;
            w2 = (if path \<noteq> syncRoot
                  then snd (UpdateDentryPlaceholderState env userId syncFolderIndex path
                         (if count > 0 then PLACEHOLDER_STATE_HAS_PLACEHOLDER else PLACEHOLDER_STATE_NONE) w1)
                  else w1)
        in (E_OK, count > 0, st2, w2))"
| "RecountDirectoryChildren env syncRoot path userId syncFolderIndex [] count s = (count, s)"
| "RecountDirectoryChildren env syncRoot path userId syncFolderIndex ((d_name, node) # entries) count s =
     (if d_name = ''.'' \<or> d_name = ''..''
      then RecountDirectoryChildren env syncRoot path userId syncFolderIndex entries count s
      else case RecountNode env syncRoot (path @ ''/'' @ d_name) userId syncFolderIndex node s of (ret, childPlaceholder, s1) \<Rightarrow>
        RecountDirectoryChildren env syncRoot path userId syncFolderIndex entries
          (if ret = E_OK \<and> childPlaceholder \<and> count < 0xFFFFFFFF then count + 1 else count) s1)"

definition RecountPlaceholderState ::
  "recount_env \<Rightarrow> string \<Rightarrow> string \<Rightarrow> int \<Rightarrow> u32 \<Rightarrow> fsnode \<Rightarrow> recount_state \<Rightarrow> int \<times> recount_state" where
  "RecountPlaceholderState env syncRoot subPath userId syncFolderIndex node s =
     (if \<not> IsSameOrUnderPath syncRoot subPath then (EINVAL, s)
      else case RecountNode env syncRoot subPath userId syncFolderIndex node s of (ret, _, s1) \<Rightarrow> (ret, s1))"

text \<open>The entries a recount visits, and whether a node is or contains a placeholder.\<close>

definition children :: "(string \<times> 'a) list \<Rightarrow> (string \<times> 'a) list" where
  "children entries = filter (\<lambda>(n, _). n \<noteq> ''.'' \<and> n \<noteq> ''..'') entries"

lemma children_simps [simp]:
  "children [] = []"
  "children ((n, x) # es) = (if n = ''.'' \<or> n = ''..'' then children es else (n, x) # children es)"
  by (simp_all add: children_def)

lemma children_mem: "(n, x) \<in> set (children es) \<Longrightarrow> (n, x) \<in> set es"
  by (auto simp: children_def)

lemma child_size [termination_simp]: "(n, x) \<in> set (children es) \<Longrightarrow> size x < Suc (size_list (\<lambda>y. Suc (size (snd y))) es)"
  by (induction es) (auto split: if_splits)

fun node_has :: "string \<Rightarrow> fsnode \<Rightarrow> string xstore \<Rightarrow> bool" where
  "node_has p (NoNode e) st = False"
| "node_has p FileNode st = IsPlaceholderState (ph_of st p)"
| "node_has p (DirNode e es) st = (e = 0 \<and> (\<exists>c \<in> set (children es). node_has (p @ ''/'' @ fst c) (snd c) st))"

text \<open>
  Every directory that could be read counts its entries that are or contain a placeholder file, up
  to \<open>UINT32_MAX\<close>, and its state says whether there is one.
\<close>

fun recounted :: "string \<Rightarrow> fsnode \<Rightarrow> string xstore \<Rightarrow> bool" where
  "recounted p (NoNode e) st = True"
| "recounted p FileNode st = True"
| "recounted p (DirNode e es) st = (e = 0 \<longrightarrow>
     unat (count_of st p) = min 4294967295 (length (filter (\<lambda>c. node_has (p @ ''/'' @ fst c) (snd c) st) (children es))) \<and>
     ph_of st p = of_bool (node_has p (DirNode e es) st) \<and>
     (\<forall>c \<in> set (children es). recounted (p @ ''/'' @ fst c) (snd c) st))"

text \<open>Names in a directory are distinct, not empty and have no slash.\<close>

fun node_ok :: "fsnode \<Rightarrow> bool" where
  "node_ok (DirNode e es) = (distinct (map fst (children es)) \<and>
     (\<forall>c \<in> set (children es). fst c \<noteq> [] \<and> CHR ''/'' \<notin> set (fst c) \<and> node_ok (snd c)))"
| "node_ok _ = True"

text \<open>The directories of the subtree that can be read.\<close>

fun node_dirs :: "string \<Rightarrow> fsnode \<Rightarrow> string set" where
  "node_dirs p (DirNode e es) = (if e = 0 then insert p (\<Union>c \<in> set (children es). node_dirs (p @ ''/'' @ fst c) (snd c)) else {})"
| "node_dirs p _ = {}"

lemma child_path:
  assumes "canonical p \<and> p \<noteq> ''/''" "n \<noteq> []" "n \<noteq> ''.''" "CHR ''/'' \<notin> set n"
  shows "canonical (p @ ''/'' @ n) \<and> p @ ''/'' @ n \<noteq> ''/''"
  using canonical_child [of p n] assms by (auto simp: proper_def append_eq_Cons_conv)

definition under :: "string \<Rightarrow> string \<Rightarrow> bool" where
  "under p q \<longleftrightarrow> q = p \<or> (\<exists>r. q = p @ ''/'' @ r)"

lemma under_child: "under (p @ ''/'' @ n) q \<Longrightarrow> under p q"
  by (auto simp: under_def)

lemma not_under_child: "\<not> under (p @ ''/'' @ n) p"
  by (auto simp: under_def)

lemma under_sibling:
  assumes "under (p @ ''/'' @ n) q" "under (p @ ''/'' @ m) q" "CHR ''/'' \<notin> set n" "CHR ''/'' \<notin> set m"
  shows "n = m"
proof -
  have seg: "takeWhile (\<lambda>x. x \<noteq> CHR ''/'') (drop (length p + 1) q) = k" if "under (p @ ''/'' @ k) q" "CHR ''/'' \<notin> set k" for k
    using that by (auto simp: under_def takeWhile_append2 takeWhile_append)
  show ?thesis using seg [of n] seg [of m] assms by simp
qed

lemma node_has_cong: "\<forall>q. under p q \<longrightarrow> st' q = st q \<Longrightarrow> node_has p nd st' = node_has p nd st"
proof (induction p nd st rule: node_has.induct)
  case (2 p st)
  then show ?case by (simp add: ph_of_def state_byte_def under_def)
next
  case (3 p e es st)
  then show ?case using under_child by (auto 0 4)
qed simp

lemma recounted_cong: "\<forall>q. under p q \<longrightarrow> st' q = st q \<Longrightarrow> recounted p nd st' = recounted p nd st"
proof (induction p nd st rule: recounted.induct)
  case (3 p e es st)
  have "st' p = st p" using 3(2) by (simp add: under_def)
  then have p: "count_of st' p = count_of st p" "ph_of st' p = ph_of st p" by (simp_all add: count_of_def ph_of_def state_byte_def)
  have c: "\<forall>q. under (p @ ''/'' @ n) q \<longrightarrow> st' q = st q" for n using 3(2) under_child by blast
  have "node_has (p @ ''/'' @ n) x st' = node_has (p @ ''/'' @ n) x st" for n x by (rule node_has_cong [OF c])
  moreover have "recounted (p @ ''/'' @ fst x) (snd x) st' = recounted (p @ ''/'' @ fst x) (snd x) st" if "x \<in> set (children es)" "e = 0" for x
    using 3(1) [OF that(2,1) c] .
  ultimately show ?case by (cases "e = 0") (simp_all add: p)
qed simp_all


lemma update_recount_ok:
  fixes c :: u32
  assumes "attrs_ok st p"
  defines "st' \<equiv> UpdateDirectoryRecountState no_err p c st"
  shows "count_of st' p = c" "ph_of st' p = of_bool (c > 0)" "attrs_ok st' p" "q \<noteq> p \<Longrightarrow> st' q = st q"
proof -
  let ?st1 = "st(p := (st p)\<lparr>xa_count := (if c = 0 then None else Some (EncodePlaceholderCount c))\<rparr>)"
  have a: "attrs_ok ?st1 p" using assms(1) by (simp add: attrs_ok_def)
  let ?b = "MakeFileSyncState (if c > 0 then 1 else 0) (GetSyncStateFromFileSyncState (state_byte ?st1 p))"
  have st': "st' = ?st1(p := (?st1 p)\<lparr>xa_state := Some [?b]\<rparr>)"
    unfolding st'_def UpdateDirectoryRecountState_def by (simp only: xattr_ok a prod.case snd_conv) simp
  show "count_of st' p = c" unfolding st' by (simp add: count_of_def decode_encode)
  show "ph_of st' p = of_bool (c > 0)" unfolding st' by (simp add: ph_of_def state_byte_def ph_of_make IsValidPlaceholderState_def)
  show "attrs_ok st' p" using assms(1) unfolding st' by (simp add: attrs_ok_def)
  show "st' q = st q" if "q \<noteq> p" using that unfolding st' by simp
qed

lemma min_u32 [simp]: "min 4294967295 (unat (c :: u32)) = unat c"
proof -
  have "unat c < 4294967296" using unsigned_less [of c] by simp
  then show ?thesis by simp
qed

lemma min_add_min: "min m (min m a + b) = min m (a + b :: nat)"
  by auto

lemma min_count_step:
  "unat (if b \<and> c < 0xFFFFFFFF then c + 1 else c :: u32) = min 4294967295 (unat c + of_bool b)"
proof (cases "c < 0xFFFFFFFF")
  case True
  then have "unat c < 4294967295" by (simp add: word_less_nat_alt)
  then show ?thesis using True by (auto simp: unat_word_ariths)
next
  case False
  then have "unat c \<ge> 4294967295" by (simp add: word_less_nat_alt)
  moreover have "unat c < 4294967296" using unsigned_less [of c] by simp
  ultimately show ?thesis using False by auto
qed

definition node_reach :: "fsnode \<Rightarrow> bool" where
  "node_reach nd = (case nd of NoNode _ \<Rightarrow> False | FileNode \<Rightarrow> True | DirNode e _ \<Rightarrow> e = 0)"

lemma node_has_reach: "node_has p nd st \<Longrightarrow> node_reach nd"
  by (cases nd) (auto simp: node_reach_def)

definition same_but :: "string xstore \<Rightarrow> string xstore \<Rightarrow> (string \<Rightarrow> bool) \<Rightarrow> bool" where
  "same_but st st' P \<longleftrightarrow> (\<forall>q. \<not> P q \<longrightarrow> st' q = st q)"

definition recount_post :: "string \<Rightarrow> fsnode \<Rightarrow> string xstore \<Rightarrow> string xstore \<Rightarrow> bool" where
  "recount_post p nd st st' \<longleftrightarrow> recounted p nd st' \<and> node_has p nd st' = node_has p nd st \<and> same_but st st' (under p) \<and>
     same_but st st' (\<lambda>q. q \<in> node_dirs p nd) \<and> (\<forall>q. attrs_ok st' q)"

definition children_post :: "string \<Rightarrow> (string \<times> fsnode) list \<Rightarrow> string xstore \<Rightarrow> string xstore \<Rightarrow> bool" where
  "children_post p es st st' \<longleftrightarrow>
     (\<forall>c \<in> set (children es). recounted (p @ ''/'' @ fst c) (snd c) st' \<and>
        node_has (p @ ''/'' @ fst c) (snd c) st' = node_has (p @ ''/'' @ fst c) (snd c) st) \<and>
     same_but st st' (\<lambda>q. \<exists>c \<in> set (children es). under (p @ ''/'' @ fst c) q) \<and>
     same_but st st' (\<lambda>q. \<exists>c \<in> set (children es). q \<in> node_dirs (p @ ''/'' @ fst c) (snd c)) \<and> (\<forall>q. attrs_ok st' q)"

lemma children_post_Cons:
  assumes h: "recount_post (p @ ''/'' @ n) x st st1" and t: "children_post p es st1 st2"
    and ok: "node_ok (DirNode 0 ((n, x) # es))" and dots: "n \<noteq> ''.''" "n \<noteq> ''..''"
  shows "children_post p ((n, x) # es) st st2"
proof -
  have sep: "\<not> under (p @ ''/'' @ fst c) q" if "under (p @ ''/'' @ n) q" "c \<in> set (children es)" for c q
    using under_sibling [OF that(1)] that(2) ok dots by force
  have up: "\<forall>q. under (p @ ''/'' @ n) q \<longrightarrow> st2 q = st1 q" using t sep by (auto simp: children_post_def same_but_def)
  have down: "\<forall>q. under (p @ ''/'' @ fst c) q \<longrightarrow> st1 q = st q" if "c \<in> set (children es)" for c
    using h sep that unfolding recount_post_def same_but_def by blast
  have "recounted (p @ ''/'' @ n) x st2" "node_has (p @ ''/'' @ n) x st2 = node_has (p @ ''/'' @ n) x st"
    using h recounted_cong [OF up] node_has_cong [OF up] by (simp_all add: recount_post_def)
  moreover have "node_has (p @ ''/'' @ fst c) (snd c) st2 = node_has (p @ ''/'' @ fst c) (snd c) st" if "c \<in> set (children es)" for c
    using t node_has_cong [OF down [OF that]] that by (simp add: children_post_def)
  ultimately show ?thesis using h t dots by (auto simp: children_post_def recount_post_def same_but_def)
qed

lemma children_post_dir:
  assumes c: "children_post p es st st1" and ok: "node_ok (DirNode 0 es)"
    and cnt: "unat c = min 4294967295 (length (filter (\<lambda>c. node_has (p @ ''/'' @ fst c) (snd c) st) (children es)))"
  shows "recount_post p (DirNode 0 es) st (UpdateDirectoryRecountState no_err p c st1)"
proof -
  let ?st2 = "UpdateDirectoryRecountState no_err p c st1"
  have a: "attrs_ok st1 p" using c by (simp add: children_post_def)
  note u = update_recount_ok [OF a, where c = c]
  have same: "\<forall>q. under (p @ ''/'' @ n) q \<longrightarrow> ?st2 q = st1 q" for n using not_under_child u(4) by metis
  note cong = node_has_cong [OF same, simplified] recounted_cong [OF same, simplified]
  have has: "node_has (p @ ''/'' @ fst k) (snd k) ?st2 = node_has (p @ ''/'' @ fst k) (snd k) st" if "k \<in> set (children es)" for k
    using that c by (simp add: cong children_post_def)
  then have "filter (\<lambda>c. node_has (p @ ''/'' @ fst c) (snd c) ?st2) (children es) = filter (\<lambda>c. node_has (p @ ''/'' @ fst c) (snd c) st) (children es)"
    by (intro filter_cong) auto
  moreover have "c > 0 \<longleftrightarrow> node_has p (DirNode 0 es) ?st2" using has by (auto simp: word_less_nat_alt cnt filter_empty_conv)
  moreover have "attrs_ok ?st2 q" for q using c u(3) u(4) [of q] by (cases "q = p") (simp_all add: children_post_def attrs_ok_def)
  moreover have "?st2 q = st q" if "q \<notin> node_dirs p (DirNode 0 es)" for q
    using that c u(4) [of q] by (auto simp: children_post_def same_but_def)
  moreover have "?st2 q = st q" if "\<not> under p q" for q
    using that c u(4) [of q] under_child by (auto simp: under_def children_post_def same_but_def)
  ultimately show ?thesis using c has u(1,2) cnt by (auto simp: recount_post_def children_post_def same_but_def cong)
qed


lemma recount_ok:
  assumes env: "re_xerr env = no_err"
  shows "canonical p \<and> p \<noteq> ''/'' \<Longrightarrow> node_ok nd \<Longrightarrow> \<forall>q. attrs_ok (fst s) q \<Longrightarrow>
      \<exists>r st' w'. RecountNode env root p u i nd s = (r, node_has p nd (fst s), st', w') \<and>
        (node_reach nd \<longrightarrow> r = E_OK) \<and> recount_post p nd (fst s) st'"
    "canonical p \<and> p \<noteq> ''/'' \<Longrightarrow> node_ok (DirNode 0 es) \<Longrightarrow> \<forall>q. attrs_ok (fst s) q \<Longrightarrow>
      \<exists>c' st' w'. RecountDirectoryChildren env root p u i es c s = (c', st', w') \<and> children_post p es (fst s) st' \<and>
        unat c' = min 4294967295 (unat c + length (filter (\<lambda>c. node_has (p @ ''/'' @ fst c) (snd c) (fst s)) (children es)))"
  using env
proof (induction env root p u i nd s and env root p u i es c s rule: RecountNode_RecountDirectoryChildren.induct)
  case (2 env syncRoot path userId syncFolderIndex s)
  then have "GetFilePlaceholderState (re_xerr env) (fst s) (kernel_path path) = (E_OK, Some (ph_of (fst s) path))"
    by (simp add: GetFilePlaceholderState_def GetFileSyncStateByte_def xattr_ok ph_of_def canonical_def)
  then show ?case using 2
    by (auto simp: RecountFileNode_def Let_def recount_post_def same_but_def node_reach_def split: prod.splits)
next
  case (3 env syncRoot path userId syncFolderIndex err es s)
  show ?case
  proof (cases "err = 0")
    case True
    obtain c st1 w1 where r: "RecountDirectoryChildren env syncRoot path userId syncFolderIndex es 0 s = (c, st1, w1)"
      and post: "children_post path es (fst s) st1"
      and cnt: "unat c = min 4294967295 (length (filter (\<lambda>c. node_has (path @ ''/'' @ fst c) (snd c) (fst s)) (children es)))"
      using "3.IH" True "3.prems" by auto
    have "c > 0 \<longleftrightarrow> node_has path (DirNode 0 es) (fst s)" by (auto simp: word_less_nat_alt cnt filter_empty_conv)
    moreover note children_post_dir [OF post _ cnt]
    ultimately show ?thesis using True r "3.prems" by (simp add: node_reach_def Let_def canonical_def)
  qed (use 3 in \<open>cases s, auto simp: recount_post_def same_but_def node_reach_def\<close>)
next
  case (5 env syncRoot path userId syncFolderIndex n x es c s)
  show ?case
  proof (cases "n = ''.'' \<or> n = ''..''")
    case True
    then show ?thesis using 5 by (auto simp: children_post_def)
  next
    case False
    have okx: "node_ok x" "node_ok (DirNode 0 es)" using "5.prems" False by auto
    obtain r st1 w1 where h: "RecountNode env syncRoot (path @ ''/'' @ n) userId syncFolderIndex x s = (r, node_has (path @ ''/'' @ n) x (fst s), st1, w1)"
      "node_reach x \<longrightarrow> r = E_OK" and p1: "recount_post (path @ ''/'' @ n) x (fst s) st1"
      using "5.IH"(2) [OF False _ okx(1)] child_path [OF "5.prems"(1), of n] "5.prems"(2-4) False by auto
    let ?b = "node_has (path @ ''/'' @ n) x (fst s)"
    let ?c1 = "if ?b \<and> c < 0xFFFFFFFF then c + 1 else c"
    have b: "r = E_OK \<and> ?b \<and> c < 0xFFFFFFFF \<longleftrightarrow> ?b \<and> c < 0xFFFFFFFF" using h(2) node_has_reach by blast
    have a1: "\<forall>q. attrs_ok (fst (st1, w1)) q" using p1 by (simp add: recount_post_def)
    obtain c' st2 w2 where t: "RecountDirectoryChildren env syncRoot path userId syncFolderIndex es ?c1 (st1, w1) = (c', st2, w2)"
      and p2: "children_post path es st1 st2"
      and cnt: "unat c' = min 4294967295 (unat ?c1 + length (filter (\<lambda>c. node_has (path @ ''/'' @ fst c) (snd c) st1) (children es)))"
      using "5.IH"(3) [OF False h(1) [symmetric] refl "5.prems"(1) okx(2) a1] "5.prems" b by auto
    have post: "children_post path ((n, x) # es) (fst s) st2" using children_post_Cons [OF p1 p2 "5.prems"(2)] False by blast
    have "node_has (path @ ''/'' @ fst k) (snd k) st1 = node_has (path @ ''/'' @ fst k) (snd k) (fst s)" if "k \<in> set (children es)" for k
      using post p2 that False by (simp add: children_post_def)
    then have "filter (\<lambda>c. node_has (path @ ''/'' @ fst c) (snd c) st1) (children es) = filter (\<lambda>c. node_has (path @ ''/'' @ fst c) (snd c) (fst s)) (children es)"
      by (intro filter_cong) auto
    then have "unat c' = min 4294967295 (unat c + length (filter (\<lambda>c. node_has (path @ ''/'' @ fst c) (snd c) (fst s)) (children ((n, x) # es))))"
      using cnt False by (simp add: min_count_step min_add_min)
    then show ?thesis using h(1) t post b False by auto
  qed
qed (auto simp: recount_post_def children_post_def same_but_def node_reach_def)


text \<open>
  C24: A recount of a subtree that can be read, started at a path in canonical spelling and with
  attribute calls that work, returns success and leaves every readable directory of the subtree
  with the number of its entries that are or contain a placeholder file (up to UINT32_MAX) and
  with a state that says whether there is one. It changes the attributes of these directories
  only: no file, no directory that cannot be read and nothing outside the subtree. Entries that
  cannot be examined count as none.\<close>

theorem recount_correct:
  assumes "re_xerr env = no_err" and "IsSameOrUnderPath root p" and "canonical p" and "p \<noteq> ''/''"
    and "node_ok nd" and "node_reach nd" and "\<forall>q. attrs_ok st q"
  shows "\<exists>st' w'. RecountPlaceholderState env root p u i nd (st, w) = (E_OK, st', w') \<and> recounted p nd st' \<and>
    node_has p nd st' = node_has p nd st \<and> (\<forall>q. q \<notin> node_dirs p nd \<longrightarrow> st' q = st q)"
proof -
  obtain r st' w' where "RecountNode env root p u i nd (st, w) = (r, node_has p nd st, st', w')" "r = E_OK" "recount_post p nd st st'"
    using recount_ok(1) [OF assms(1) _ assms(5), of p "(st, w)" root u i] assms by auto
  then show ?thesis using assms(2) by (auto simp: RecountPlaceholderState_def recount_post_def same_but_def)
qed

definition st_w :: "string xstore" where
  "st_w = (\<lambda>_. \<lparr>xa_state = None, xa_count = None\<rparr>)(''/r/a'' := \<lparr>xa_state = Some [0x20], xa_count = None\<rparr>)"

definition renv_w :: recount_env where
  "renv_w = \<lparr>re_xerr = no_err, re_svc = env_w, re_stat = (\<lambda>_. Inl 2)\<rparr>"

theorem recount_correct_witness:
  "\<exists>st' w'. RecountPlaceholderState renv_w ''/r'' ''/r'' 100 1
      (DirNode 0 [(''.'', FileNode), (''a'', FileNode), (''d'', DirNode 0 []), (''x'', NoNode 2)])
      (st_w, \<lparr>sw_disk = Map.empty, sw_cache = mgr_empty\<rparr>) = (E_OK, st', w') \<and> count_of st' ''/r'' = 1"
proof -
  let ?nd = "DirNode 0 [(''.'', FileNode), (''a'', FileNode), (''d'', DirNode 0 []), (''x'', NoNode 2)]"
  have h: "re_xerr renv_w = no_err" "IsSameOrUnderPath ''/r'' ''/r''" "canonical ''/r''" "''/r'' \<noteq> ''/''" "node_ok ?nd" "node_reach ?nd"
    by (simp_all add: renv_w_def IsSameOrUnderPath_def node_reach_def canonical_def kernel_path_def path_names_def proper_def spell_def)
  have "\<forall>q. attrs_ok st_w q" by (simp add: st_w_def attrs_ok_def)
  from recount_correct [OF h this] obtain st' w' where
    r: "RecountPlaceholderState renv_w ''/r'' ''/r'' 100 1 ?nd (st_w, \<lparr>sw_disk = Map.empty, sw_cache = mgr_empty\<rparr>) = (E_OK, st', w')"
    "recounted ''/r'' ?nd st'" "node_has ''/r'' ?nd st' = node_has ''/r'' ?nd st_w"
    by blast
  have "node_has ''/r'' ?nd st_w"
    by (simp add: st_w_def ph_of_def state_byte_def IsPlaceholderState_def GetPlaceholderStateFromFileSyncState_def)
  then have "unat (count_of st' ''/r'') = 1" using r(2,3) by auto
  then have "count_of st' ''/r'' = 1" by (metis unat_1 word_unat_eq_iff)
  with r(1) show ?thesis by blast
qed

end
