(* ===== verification/Disk_Service_Utils.thy ===== *)
theory Disk_Service_Utils
  imports Dfs_Prelude
begin

text \<open>
  Error codes and path helpers of the cloud disk service,
  \<open>utils/clouddiskservice/include/cloud_disk_service_error.h\<close> and
  \<open>utils/clouddiskservice/src/cloud_disk_service_utils.cpp\<close>.
\<close>

abbreviation (input) E_PERM :: int where "E_PERM \<equiv> 13900001"
abbreviation (input) E_ACCES :: int where "E_ACCES \<equiv> 13900012"
abbreviation (input) E_INVALID_ARG :: int where "E_INVALID_ARG \<equiv> 34400001"
abbreviation (input) E_SYNC_FOLDER_PATH_NOT_EXIST :: int where "E_SYNC_FOLDER_PATH_NOT_EXIST \<equiv> 34400010"
abbreviation (input) E_TRY_AGAIN :: int where "E_TRY_AGAIN \<equiv> 34400014"
abbreviation (input) E_FILE_ALREADY_EXISTS :: int where "E_FILE_ALREADY_EXISTS \<equiv> 34400016"
abbreviation (input) E_NOT_A_PLACEHOLDER :: int where "E_NOT_A_PLACEHOLDER \<equiv> 34400017"
abbreviation (input) E_IS_A_PLACEHOLDER :: int where "E_IS_A_PLACEHOLDER \<equiv> 34400018"
abbreviation (input) E_HYDRATE_IN_PROGRESS :: int where "E_HYDRATE_IN_PROGRESS \<equiv> 34400019"
abbreviation (input) E_NO_SPACE_LEFT :: int where "E_NO_SPACE_LEFT \<equiv> 34400020"
abbreviation (input) E_CALLBACK_NOT_REGISTERED :: int where "E_CALLBACK_NOT_REGISTERED \<equiv> 34400021"
abbreviation (input) E_CALLBACK_ALREADY_REGISTERED :: int where "E_CALLBACK_ALREADY_REGISTERED \<equiv> 34400022"
abbreviation (input) E_NOT_A_DIRECTORY :: int where "E_NOT_A_DIRECTORY \<equiv> 34400023"
abbreviation (input) E_FILE_NOT_EXIST :: int where "E_FILE_NOT_EXIST \<equiv> 34400024"
abbreviation (input) E_NAME_TOO_LONG :: int where "E_NAME_TOO_LONG \<equiv> 34400025"
abbreviation (input) E_FILE_TOO_LARGE :: int where "E_FILE_TOO_LARGE \<equiv> 34400026"
abbreviation (input) E_PLACEHOLDER_NOT_FULLY_HYDRATED :: int where "E_PLACEHOLDER_NOT_FULLY_HYDRATED \<equiv> 34400028"
abbreviation (input) E_CANCELLED :: int where "E_CANCELLED \<equiv> 34400030"
abbreviation (input) E_ALREADY_HYDRATED :: int where "E_ALREADY_HYDRATED \<equiv> 34400031"
abbreviation (input) E_NO_HYDRATION_IN_PROGRESS :: int where "E_NO_HYDRATION_IN_PROGRESS \<equiv> 34400032"
abbreviation (input) E_INVALID_PLACEHOLDER_STATE :: int where "E_INVALID_PLACEHOLDER_STATE \<equiv> 34400033"
abbreviation (input) E_HYDRATION_TASK_LIMIT_REACHED :: int where "E_HYDRATION_TASK_LIMIT_REACHED \<equiv> 34400034"
abbreviation (input) E_NOT_SUPPORTED :: int where "E_NOT_SUPPORTED \<equiv> 801"

abbreviation (input) EPERM :: int where "EPERM \<equiv> 1"
abbreviation (input) EINTR :: int where "EINTR \<equiv> 4"
abbreviation (input) EBADF :: int where "EBADF \<equiv> 9"
abbreviation (input) EACCES :: int where "EACCES \<equiv> 13"
abbreviation (input) ENOTDIR :: int where "ENOTDIR \<equiv> 20"
abbreviation (input) EISDIR :: int where "EISDIR \<equiv> 21"
abbreviation (input) ENOTTY :: int where "ENOTTY \<equiv> 25"
abbreviation (input) EFBIG :: int where "EFBIG \<equiv> 27"
abbreviation (input) ELOOP :: int where "ELOOP \<equiv> 40"
abbreviation (input) EOPNOTSUPP :: int where "EOPNOTSUPP \<equiv> 95"
abbreviation (input) EDQUOT :: int where "EDQUOT \<equiv> 122"

definition ConvertErrnoToCloudDiskError :: "int \<Rightarrow> int" where
  "ConvertErrnoToCloudDiskError err =
     (if err = EEXIST then E_FILE_ALREADY_EXISTS
      else if err = ENOTDIR then E_NOT_A_DIRECTORY
      else if err = ENOSPC \<or> err = EDQUOT then E_NO_SPACE_LEFT
      else if err = EINVAL \<or> err = EISDIR \<or> err = ELOOP then E_INVALID_ARG
      else if err = ENAMETOOLONG then E_NAME_TOO_LONG
      else if err = EFBIG then E_FILE_TOO_LARGE
      else if err = ENOENT then E_SYNC_FOLDER_PATH_NOT_EXIST
      else if err = EACCES then E_ACCES
      else if err = EPERM then E_PERM
      else if err = ENOTTY \<or> err = EOPNOTSUPP then E_NOT_SUPPORTED
      else E_TRY_AGAIN)"

text \<open>A failed call never maps to success.\<close>

lemma ConvertErrno_nonzero [simp]: "ConvertErrnoToCloudDiskError err \<noteq> 0"
  by (simp add: ConvertErrnoToCloudDiskError_def)

definition IsPathInSyncFolder :: "string \<Rightarrow> string \<Rightarrow> bool" where
  "IsPathInSyncFolder syncFolder filePath =
     (syncFolder \<noteq> [] \<and>
      (let prefix = (if last syncFolder \<noteq> CHR ''/'' then syncFolder @ ''/'' else syncFolder)
       in length filePath > length prefix \<and> take (length prefix) filePath = prefix))"

definition JoinSyncFolderAndRelativePath :: "string \<Rightarrow> string \<Rightarrow> string" where
  "JoinSyncFolderAndRelativePath syncFolderPath relativePath =
     (if syncFolderPath \<noteq> [] \<and> last syncFolderPath \<noteq> CHR ''/'' then syncFolderPath @ ''/'' else syncFolderPath) @ relativePath"

text \<open>The part of a path after its first slash, if it has one.\<close>

fun after_slash :: "string \<Rightarrow> string option" where
  "after_slash [] = None"
| "after_slash (c # cs) = (if c = CHR ''/'' then Some cs else after_slash cs)"

lemma after_slash_length [termination_simp]: "after_slash s = Some r \<Longrightarrow> length r < length s"
  by (induction s) (auto split: if_splits)

fun segment_loop :: "string \<Rightarrow> bool" where
  "segment_loop path =
     (if path = [] then False
      else let segment = takeWhile (\<lambda>c. c \<noteq> CHR ''/'') path
           in if segment = ''.'' \<or> segment = ''..'' then True
              else case after_slash path of None \<Rightarrow> False | Some rest \<Rightarrow> segment_loop rest)"

declare segment_loop.simps [simp del]

definition HasInvalidRelativePathSegment :: "string \<Rightarrow> bool" where
  "HasInvalidRelativePathSegment path = (path = [] \<or> segment_loop path)"

text \<open>The segments of a path between its slashes.\<close>

fun segments :: "string \<Rightarrow> string list" where
  "segments path =
     takeWhile (\<lambda>c. c \<noteq> CHR ''/'') path # (case after_slash path of None \<Rightarrow> [] | Some rest \<Rightarrow> segments rest)"

declare segments.simps [simp del]

lemma segment_loop_iff: "segment_loop path \<longleftrightarrow> ''.'' \<in> set (segments path) \<or> ''..'' \<in> set (segments path)"
proof (induction path rule: segment_loop.induct)
  case (1 path)
  then show ?case
    by (cases "path = []") (auto simp: segment_loop.simps [of path] segments.simps [of path] segment_loop.simps [of "[]"]
        segments.simps [of "[]"] Let_def split: option.splits)
qed

text \<open>
  A relative path that passes the check has no segment that stands for a directory above or for
  the directory itself, so joining it to a folder cannot name anything outside the folder.
\<close>

lemma valid_relative_path:
  "\<not> HasInvalidRelativePathSegment path \<longleftrightarrow> path \<noteq> [] \<and> ''.'' \<notin> set (segments path) \<and> ''..'' \<notin> set (segments path)"
  by (auto simp: HasInvalidRelativePathSegment_def segment_loop_iff)

lemma join_in_folder:
  assumes "folder \<noteq> []" and "rel \<noteq> []"
  shows "IsPathInSyncFolder folder (JoinSyncFolderAndRelativePath folder rel)"
  using assms by (auto simp: IsPathInSyncFolder_def JoinSyncFolderAndRelativePath_def Let_def)

end
