(* ===== verification/Sync_Folder.thy ===== *)
theory Sync_Folder
  imports Placeholder_State Disk_Service_Utils "HOL-Library.AList" "HOL-Library.Sublist"
begin

text \<open>
  The table of registered sync folders and the translation of paths,
  \<open>services/clouddiskservice/ipc/src/cloud_disk_sync_folder.cpp\<close>, and the functions of
  \<open>cloud_disk_service.cpp\<close> beside it that find the folder a request is about: the check that the
  caller owns the folder, the mount path of a file of it, and the choice of the folder that
  contains a path. \<open>realpath\<close>, \<open>access\<close>, \<open>stat\<close> and the identity of the caller are inputs.
\<close>

abbreviation (input) E_SYNC_FOLDER_PATH_UNAUTHORIZED :: int where "E_SYNC_FOLDER_PATH_UNAUTHORIZED \<equiv> 34400002"
abbreviation (input) E_IPC_FAILED :: int where "E_IPC_FAILED \<equiv> 34400003"
abbreviation (input) E_SYNC_FOLDER_NOT_REGISTERED :: int where "E_SYNC_FOLDER_NOT_REGISTERED \<equiv> 34400008"
abbreviation (input) PATH_MAX :: nat where "PATH_MAX \<equiv> 4096"

section \<open>The table\<close>

record SyncFolderValue =
  sf_bundleName :: string
  sf_path :: string

text \<open>An unordered map; a loop over it visits the list from its head.\<close>

type_synonym sync_folder_map = "(u32 \<times> SyncFolderValue) list"

definition AddSyncFolder :: "u32 \<Rightarrow> SyncFolderValue \<Rightarrow> sync_folder_map \<Rightarrow> sync_folder_map" where
  "AddSyncFolder syncFolderIndex syncFolderValue m =
     (case map_of m syncFolderIndex of None \<Rightarrow> AList.update syncFolderIndex syncFolderValue m | Some _ \<Rightarrow> m)"

definition DeleteSyncFolder :: "u32 \<Rightarrow> sync_folder_map \<Rightarrow> sync_folder_map" where
  "DeleteSyncFolder syncFolderIndex m =
     (case map_of m syncFolderIndex of None \<Rightarrow> m | Some _ \<Rightarrow> AList.delete syncFolderIndex m)"

definition GetSyncFolderSize :: "sync_folder_map \<Rightarrow> int" where
  "GetSyncFolderSize m = int (length m)"

definition CheckSyncFolder :: "u32 \<Rightarrow> sync_folder_map \<Rightarrow> bool" where
  "CheckSyncFolder syncFolderIndex m = (map_of m syncFolderIndex \<noteq> None)"

definition GetSyncFolderByIndex :: "u32 \<Rightarrow> sync_folder_map \<Rightarrow> string option" where
  "GetSyncFolderByIndex syncFolderIndex m = map_option sf_path (map_of m syncFolderIndex)"

definition GetSyncFolderValueByIndex :: "u32 \<Rightarrow> sync_folder_map \<Rightarrow> SyncFolderValue option" where
  "GetSyncFolderValueByIndex syncFolderIndex m = map_of m syncFolderIndex"

fun GetIndexBySyncFolder :: "string \<Rightarrow> sync_folder_map \<Rightarrow> u32 option" where
  "GetIndexBySyncFolder path [] = None"
| "GetIndexBySyncFolder path ((index, value) # items) =
     (if sf_path value = path then Some index else GetIndexBySyncFolder path items)"

definition ClearMap :: "sync_folder_map \<Rightarrow> sync_folder_map" where
  "ClearMap m = []"

section \<open>Translating paths\<close>

definition ReplacePathPrefix :: "(string \<Rightarrow> int + string) \<Rightarrow> string \<Rightarrow> string \<Rightarrow> string \<Rightarrow> int + string" where
  "ReplacePathPrefix realpath oldPrefix newPrefix inputPath =
     (if length inputPath < length oldPrefix \<or> take (length oldPrefix) inputPath \<noteq> oldPrefix then Inl E_INVALID_ARG
      else case realpath (newPrefix @ drop (length oldPrefix) inputPath) of
        Inl errno \<Rightarrow> Inl (if errno = ENOENT then E_SYNC_FOLDER_PATH_NOT_EXIST else E_INVALID_ARG)
      | Inr newRealPath \<Rightarrow> if take (length newPrefix) newRealPath \<noteq> newPrefix then Inl E_INVALID_ARG else Inr newRealPath)"

definition PathToPhysicalPath :: "(string \<Rightarrow> int + string) \<Rightarrow> string \<Rightarrow> string \<Rightarrow> int + string" where
  "PathToPhysicalPath realpath path userId =
     ReplacePathPrefix realpath ''/storage/Users/currentUser/'' (''/data/service/el2/'' @ userId @ ''/hmdfs/account/files/Docs/'') path"

definition PathToMntPathBySandboxPath :: "(string \<Rightarrow> int + string) \<Rightarrow> string \<Rightarrow> string \<Rightarrow> int + string" where
  "PathToMntPathBySandboxPath realpath path userId =
     ReplacePathPrefix realpath ''/storage/Users/currentUser''
       (''/mnt/hmdfs/'' @ userId @ ''/account/device_view/local/files/Docs'') path"

definition PathToMntPathByPhysicalPath :: "string \<Rightarrow> string \<Rightarrow> string option" where
  "PathToMntPathByPhysicalPath path userId =
     (let physicalPath = ''/data/service/el2/'' @ userId @ ''/hmdfs/account/files/Docs'';
          replacementPath = ''/mnt/hmdfs/'' @ userId @ ''/account/device_view/local/files/Docs''
      in if take (length physicalPath) path \<noteq> physicalPath then None
         else Some (replacementPath @ drop (length physicalPath) path))"

definition PathToSandboxPathByPhysicalPath :: "string \<Rightarrow> string \<Rightarrow> string option" where
  "PathToSandboxPathByPhysicalPath path userId =
     (let physicalPath = ''/data/service/el2/'' @ userId @ ''/hmdfs/account/files/Docs'';
          replacementPath = ''/storage/Users/currentUser''
      in if take (length physicalPath) path \<noteq> physicalPath then None
         else Some (replacementPath @ drop (length physicalPath) path))"

section \<open>The folder of a request\<close>

text \<open>
  The caller: its user id, the outcome of \<open>GetAccountId\<close> with the user id it leaves, the outcome of
  \<open>GetCallerBundleName\<close> with the name; and the calls on paths.
\<close>

record caller_env =
  ce_userId :: int
  ce_account :: "int \<times> int"
  ce_bundle :: "int \<times> string"
  ce_realpath :: "string \<Rightarrow> int + string"
  ce_access :: "string \<Rightarrow> int"
  ce_isdir :: "string \<Rightarrow> bool"

definition caller_user :: "caller_env \<Rightarrow> int" where
  "caller_user env = (if ce_userId env = 0 then snd (ce_account env) else ce_userId env)"

definition ResolveOwnedSyncFolder :: "caller_env \<Rightarrow> sync_folder_map \<Rightarrow> string \<Rightarrow> int + string \<times> u32 \<times> string" where
  "ResolveOwnedSyncFolder env m syncFolder =
     (case PathToPhysicalPath (ce_realpath env) syncFolder (to_string (ce_userId env)) of
        Inl ret \<Rightarrow> Inl ret
      | Inr physicalPath \<Rightarrow>
          if fst (ce_bundle env) \<noteq> E_OK then Inl E_TRY_AGAIN
          else let bundleName = snd (ce_bundle env); syncFolderIndex = DentryHash physicalPath False
               in case GetSyncFolderValueByIndex syncFolderIndex m of
                    None \<Rightarrow> Inl E_SYNC_FOLDER_NOT_REGISTERED
                  | Some v \<Rightarrow> if sf_bundleName v \<noteq> bundleName then Inl E_SYNC_FOLDER_PATH_UNAUTHORIZED
                              else Inr (bundleName, syncFolderIndex, physicalPath))"

definition CheckSyncFolderBundleName :: "caller_env \<Rightarrow> sync_folder_map \<Rightarrow> string \<Rightarrow> int \<Rightarrow> string \<Rightarrow> int + u32" where
  "CheckSyncFolderBundleName env m syncFolder userId bundleName =
     (case PathToPhysicalPath (ce_realpath env) syncFolder (to_string userId) of
        Inl ret \<Rightarrow> Inl ret
      | Inr physicalSyncFolder \<Rightarrow>
          let syncFolderIndex = DentryHash physicalSyncFolder False
          in case GetSyncFolderValueByIndex syncFolderIndex m of
               None \<Rightarrow> Inl E_SYNC_FOLDER_NOT_REGISTERED
             | Some v \<Rightarrow> if sf_bundleName v \<noteq> bundleName then Inl E_SYNC_FOLDER_PATH_UNAUTHORIZED else Inr syncFolderIndex)"

definition IsValidPlaceholderRelativePath :: "string \<Rightarrow> bool" where
  "IsValidPlaceholderRelativePath relativePath \<longleftrightarrow>
     relativePath \<noteq> [] \<and> \<not> HasInvalidRelativePathSegment relativePath \<and> hd relativePath \<noteq> CHR ''/'' \<and> last relativePath \<noteq> CHR ''/''"

definition ConvertTargetErrnoToCloudDiskError :: "int \<Rightarrow> int" where
  "ConvertTargetErrnoToCloudDiskError error = (if error = ENOENT then E_FILE_NOT_EXIST else ConvertErrnoToCloudDiskError error)"

definition ConvertPlaceholderStateErrnoToCloudDiskError :: "int \<Rightarrow> int" where
  "ConvertPlaceholderStateErrnoToCloudDiskError error =
     (if error = EINVAL \<or> error = ERANGE then E_INVALID_PLACEHOLDER_STATE else ConvertTargetErrnoToCloudDiskError error)"

definition GetHmdfsPath :: "caller_env \<Rightarrow> string \<Rightarrow> string \<Rightarrow> int \<Rightarrow> int + string" where
  "GetHmdfsPath env syncFolder relativePath userId =
     (if \<not> IsValidPlaceholderRelativePath relativePath then Inl E_INVALID_ARG
      else case PathToMntPathBySandboxPath (ce_realpath env) (syncFolder @ ''/'' @ relativePath) (to_string userId) of
        Inl ret \<Rightarrow> Inl (if ret = E_SYNC_FOLDER_PATH_NOT_EXIST then E_FILE_NOT_EXIST else ret)
      | Inr hmdfsPath \<Rightarrow>
          if ce_access env hmdfsPath \<noteq> 0 then Inl (ConvertTargetErrnoToCloudDiskError (ce_access env hmdfsPath)) else Inr hmdfsPath)"

definition GetSyncRootContext :: "caller_env \<Rightarrow> string \<Rightarrow> int \<Rightarrow> int + string \<times> u32" where
  "GetSyncRootContext env syncFolder userId =
     (case PathToPhysicalPath (ce_realpath env) syncFolder (to_string userId) of
        Inl ret \<Rightarrow> Inl ret
      | Inr physicalSyncFolder \<Rightarrow>
          (case PathToMntPathBySandboxPath (ce_realpath env) syncFolder (to_string userId) of
             Inl ret \<Rightarrow> Inl ret | Inr mntSyncFolder \<Rightarrow> Inr (mntSyncFolder, DentryHash physicalSyncFolder False)))"

record PlaceholderStatePathContext =
  cx_hmdfsPath :: string
  cx_mntSyncFolder :: string
  cx_userId :: int
  cx_syncFolderIndex :: u32
  cx_bundleName :: string
  cx_syncFolder :: string
  cx_absolutePath :: string

definition no_context :: PlaceholderStatePathContext where
  "no_context = \<lparr>cx_hmdfsPath = [], cx_mntSyncFolder = [], cx_userId = -1, cx_syncFolderIndex = 0, cx_bundleName = [],
     cx_syncFolder = [], cx_absolutePath = []\<rparr>"


definition ResolvePlaceholderOwner ::
  "caller_env \<Rightarrow> sync_folder_map \<Rightarrow> string \<Rightarrow> PlaceholderStatePathContext \<Rightarrow> int + PlaceholderStatePathContext" where
  "ResolvePlaceholderOwner env m syncFolder context =
     (let context1 = context\<lparr>cx_userId := caller_user env\<rparr>
      in if fst (ce_bundle env) \<noteq> E_OK then Inl E_TRY_AGAIN
         else let context2 = context1\<lparr>cx_bundleName := snd (ce_bundle env)\<rparr>
              in case CheckSyncFolderBundleName env m syncFolder (cx_userId context2) (cx_bundleName context2) of
                   Inl ret \<Rightarrow> Inl ret | Inr index \<Rightarrow> Inr (context2\<lparr>cx_syncFolderIndex := index\<rparr>))"

definition ResolvePlaceholderTaskContext ::
  "caller_env \<Rightarrow> sync_folder_map \<Rightarrow> string \<Rightarrow> string \<Rightarrow> int + PlaceholderStatePathContext" where
  "ResolvePlaceholderTaskContext env m syncFolder relativePath =
     (case ResolvePlaceholderOwner env m syncFolder no_context of
        Inl ret \<Rightarrow> Inl ret
      | Inr context \<Rightarrow> if \<not> IsValidPlaceholderRelativePath relativePath then Inl E_INVALID_ARG
                       else Inr (context\<lparr>cx_syncFolder := syncFolder\<rparr>))"

definition ResolvePlaceholderStatePath ::
  "caller_env \<Rightarrow> sync_folder_map \<Rightarrow> string \<Rightarrow> string \<Rightarrow> int + PlaceholderStatePathContext" where
  "ResolvePlaceholderStatePath env m syncFolder relativePath =
     (case ResolvePlaceholderOwner env m syncFolder no_context of
        Inl ret \<Rightarrow> Inl ret
      | Inr context \<Rightarrow>
          (case GetHmdfsPath env syncFolder relativePath (cx_userId context) of
             Inl ret \<Rightarrow> Inl ret
           | Inr hmdfsPath \<Rightarrow>
               (case GetSyncRootContext env syncFolder (cx_userId context) of
                  Inl ret \<Rightarrow> Inl ret
                | Inr (mntSyncFolder, syncFolderIndex) \<Rightarrow>
                    Inr (context\<lparr>cx_hmdfsPath := hmdfsPath, cx_mntSyncFolder := mntSyncFolder,
                           cx_syncFolderIndex := syncFolderIndex, cx_syncFolder := syncFolder\<rparr>))))"

definition GetRegisteredMntSyncFolder :: "caller_env \<Rightarrow> sync_folder_map \<Rightarrow> string \<Rightarrow> int \<Rightarrow> int + string" where
  "GetRegisteredMntSyncFolder env m syncFolder userId =
     (case PathToPhysicalPath (ce_realpath env) syncFolder (to_string userId) of
        Inl ret \<Rightarrow> Inl ret
      | Inr physicalSyncFolder \<Rightarrow>
          if fst (ce_bundle env) \<noteq> E_OK then Inl E_TRY_AGAIN
          else if case GetSyncFolderValueByIndex (DentryHash physicalSyncFolder False) m of
                    None \<Rightarrow> True | Some v \<Rightarrow> sf_bundleName v \<noteq> snd (ce_bundle env)
          then Inl E_SYNC_FOLDER_NOT_REGISTERED
          else case PathToMntPathByPhysicalPath physicalSyncFolder (to_string userId) of
                 None \<Rightarrow> Inl E_INVALID_ARG | Some mntSyncFolder \<Rightarrow> Inr mntSyncFolder)"

definition ResolvePlaceholderQueryPath :: "caller_env \<Rightarrow> sync_folder_map \<Rightarrow> string \<Rightarrow> string \<Rightarrow> int + string" where
  "ResolvePlaceholderQueryPath env m syncFolder relativePath =
     (case GetRegisteredMntSyncFolder env m syncFolder (caller_user env) of
        Inl ret \<Rightarrow> Inl ret
      | Inr mntSyncFolder \<Rightarrow>
          if relativePath = [] \<or> HasInvalidRelativePathSegment relativePath \<or> hd relativePath = CHR ''/'' \<or>
             last relativePath = CHR ''/'' then Inl E_INVALID_ARG
          else let queryPath = JoinSyncFolderAndRelativePath mntSyncFolder relativePath
               in if \<not> IsPathInSyncFolder mntSyncFolder queryPath then Inl E_INVALID_ARG
                  else if ce_isdir env queryPath then Inl E_INVALID_ARG
                  else Inr queryPath)"

section \<open>The folder of an absolute path\<close>

definition ResolveSystemAccessorUser :: "caller_env \<Rightarrow> int + int" where
  "ResolveSystemAccessorUser env =
     (if ce_userId env = 0 \<and> fst (ce_account env) \<noteq> E_OK then Inl E_TRY_AGAIN
      else if caller_user env < 0 then Inl E_TRY_AGAIN else Inr (caller_user env))"

definition IsValidSystemAccessorPath :: "string \<Rightarrow> bool" where
  "IsValidSystemAccessorPath path \<longleftrightarrow>
     \<not> (path = [] \<or> length path > PATH_MAX \<or> NUL \<in> set path \<or>
        take (length ''/storage/Users/currentUser/'') path \<noteq> ''/storage/Users/currentUser/'' \<or>
        sublist ''/../'' path \<or> sublist ''/./'' path \<or> last path = CHR ''/'' \<or>
        PathFileName path = ''..'' \<or> PathFileName path = ''.'')"

text \<open>The loop over the table that keeps the longest sandbox path containing the path asked for.\<close>

fun task_path_loop ::
  "string \<Rightarrow> string \<Rightarrow> sync_folder_map \<Rightarrow> (u32 \<times> string \<times> string) option \<Rightarrow> (u32 \<times> string \<times> string) option" where
  "task_path_loop user path [] selected = selected"
| "task_path_loop user path ((index, folder) # items) selected =
     task_path_loop user path items
       (case PathToSandboxPathByPhysicalPath (sf_path folder) user of
          None \<Rightarrow> selected
        | Some sandboxPath \<Rightarrow>
            if sf_bundleName folder = [] \<or>
               \<not> IsPathInSyncFolder (''/data/service/el2/'' @ user @ ''/hmdfs/account/files/Docs'') (sf_path folder) \<or>
               length sandboxPath \<le> (case selected of None \<Rightarrow> 0 | Some (_, _, s) \<Rightarrow> length s) \<or>
               \<not> IsPathInSyncFolder sandboxPath path then selected
            else Some (index, sf_bundleName folder, sandboxPath))"

definition ResolveSystemAccessorTaskPath ::
  "sync_folder_map \<Rightarrow> string \<Rightarrow> int \<Rightarrow> PlaceholderStatePathContext \<Rightarrow> int + PlaceholderStatePathContext \<times> string" where
  "ResolveSystemAccessorTaskPath m path userId context =
     (case task_path_loop (to_string userId) path m None of
        None \<Rightarrow> Inl E_CALLBACK_NOT_REGISTERED
      | Some (index, bundleName, sandboxPath) \<Rightarrow>
          Inr (context\<lparr>cx_syncFolderIndex := index, cx_absolutePath := path, cx_bundleName := bundleName,
                 cx_syncFolder := sandboxPath\<rparr>, drop (length sandboxPath + 1) path))"

fun target_path_loop :: "string \<Rightarrow> sync_folder_map \<Rightarrow> (u32 \<times> SyncFolderValue) option \<Rightarrow> (u32 \<times> SyncFolderValue) option" where
  "target_path_loop physicalPath [] selected = selected"
| "target_path_loop physicalPath ((index, folder) # items) selected =
     target_path_loop physicalPath items
       (if sf_bundleName folder \<noteq> [] \<and> length (sf_path folder) > (case selected of None \<Rightarrow> 0 | Some (_, s) \<Rightarrow> length (sf_path s)) \<and>
           IsPathInSyncFolder (sf_path folder) physicalPath
        then Some (index, folder) else selected)"

definition ResolveSystemAccessorTargetPath ::
  "caller_env \<Rightarrow> sync_folder_map \<Rightarrow> string \<Rightarrow> PlaceholderStatePathContext \<Rightarrow> int + PlaceholderStatePathContext \<times> string" where
  "ResolveSystemAccessorTargetPath env m path context =
     (let user = to_string (cx_userId context)
      in case PathToPhysicalPath (ce_realpath env) path user of
           Inl ret \<Rightarrow> Inl ret
         | Inr physicalPath \<Rightarrow>
             (case target_path_loop physicalPath m None of
                None \<Rightarrow> Inl E_CALLBACK_NOT_REGISTERED
              | Some (index, selected) \<Rightarrow>
                  (case PathToSandboxPathByPhysicalPath (sf_path selected) user of
                     None \<Rightarrow> Inl E_CALLBACK_NOT_REGISTERED
                   | Some syncFolder \<Rightarrow>
                       let relativePath = drop (length (sf_path selected) + 1) physicalPath
                       in case PathToMntPathBySandboxPath (ce_realpath env) syncFolder user of
                            Inl ret \<Rightarrow> Inl ret
                          | Inr mntSyncFolder \<Rightarrow>
                              (case GetHmdfsPath env syncFolder relativePath (cx_userId context) of
                                 Inl ret \<Rightarrow> Inl ret
                               | Inr hmdfsPath \<Rightarrow>
                                   Inr (context\<lparr>cx_syncFolderIndex := index, cx_syncFolder := syncFolder, cx_absolutePath := path,
                                          cx_bundleName := sf_bundleName selected, cx_mntSyncFolder := mntSyncFolder,
                                          cx_hmdfsPath := hmdfsPath\<rparr>, relativePath)))))"

definition ResolveSystemAccessorPath ::
  "caller_env \<Rightarrow> sync_folder_map \<Rightarrow> string \<Rightarrow> bool \<Rightarrow> int + PlaceholderStatePathContext \<times> string" where
  "ResolveSystemAccessorPath env m path resolveTarget =
     (if \<not> IsValidSystemAccessorPath path then Inl E_INVALID_ARG
      else case ResolveSystemAccessorUser env of
        Inl ret \<Rightarrow> Inl ret
      | Inr userId \<Rightarrow>
          if resolveTarget then ResolveSystemAccessorTargetPath env m path (no_context\<lparr>cx_userId := userId\<rparr>)
          else ResolveSystemAccessorTaskPath m path userId (no_context\<lparr>cx_userId := userId\<rparr>))"


section \<open>Lemmas on paths\<close>

definition user_root :: "string \<Rightarrow> string" where
  "user_root user = ''/data/service/el2/'' @ user @ ''/hmdfs/account/files/Docs''"

lemma in_folder_iff:
  assumes "last f \<noteq> CHR ''/''"
  shows "IsPathInSyncFolder f p \<longleftrightarrow> f \<noteq> [] \<and> (\<exists>r. r \<noteq> [] \<and> p = f @ ''/'' @ r)"
proof -
  have "(\<exists>r. r \<noteq> [] \<and> p = f @ ''/'' @ r) \<longleftrightarrow> length p > length (f @ ''/'') \<and> take (length (f @ ''/'')) p = f @ ''/''"
  proof
    assume a: "length p > length (f @ ''/'') \<and> take (length (f @ ''/'')) p = f @ ''/''"
    then have "p = (f @ ''/'') @ drop (length (f @ ''/'')) p" by (metis append_take_drop_id)
    then show "\<exists>r. r \<noteq> [] \<and> p = f @ ''/'' @ r" using a by (intro exI [of _ "drop (length (f @ ''/'')) p"]) simp
  qed auto
  then show ?thesis using assms by (simp add: IsPathInSyncFolder_def Let_def)
qed

lemma take_prefix:
  assumes "take (length (a @ b)) p = a @ b"
  shows "p = a @ drop (length a) p"
proof -
  have "p = (a @ b) @ drop (length (a @ b)) p" using assms by (metis append_take_drop_id)
  then obtain d where "p = a @ b @ d" by (metis append_assoc)
  then show ?thesis by simp
qed

lemma last_user_root: "last (user_root user) \<noteq> CHR ''/''" "user_root user \<noteq> []"
  by (simp_all add: user_root_def)

lemma slash_split: "CHR ''/'' \<notin> set u \<Longrightarrow> CHR ''/'' \<notin> set v \<Longrightarrow> u @ CHR ''/'' # a = v @ CHR ''/'' # b \<Longrightarrow> u = v"
  by (induction u arbitrary: v) (auto simp: Cons_eq_append_conv)

lemma user_root_eq:
  assumes "CHR ''/'' \<notin> set u" and "CHR ''/'' \<notin> set v" and "user_root u @ a = user_root v @ b"
  shows "u = v"
  using assms(3) by (intro slash_split [OF assms(1, 2)]) (simp add: user_root_def)

lemma digits_no_slash: "CHR ''/'' \<notin> set (to_string i)"
proof -
  have d: "char_of (48 + k) \<noteq> CHR ''/''" if "k < 10" for k :: nat
  proof
    assume "char_of (48 + k) = CHR ''/''"
    then have "of_char (char_of (48 + k) :: char) = (47 :: nat)" by simp
    then show False using that by simp
  qed
  have "CHR ''/'' \<notin> set (to_string_nat n)" for n
  proof (induction n rule: to_string_nat.induct)
    case (1 n)
    then show ?case using d [of n] d [of "n mod 10"] by (auto simp: to_string_nat.simps [of n])
  qed
  then show ?thesis by (simp add: to_string_def)
qed

text \<open>
  What a registration puts into the table: the physical path of a folder below the root of a
  user, in the canonical form \<open>realpath\<close> gives.
\<close>

definition folders_ok :: "sync_folder_map \<Rightarrow> bool" where
  "folders_ok m \<longleftrightarrow> (\<forall>(index, v) \<in> set m. last (sf_path v) \<noteq> CHR ''/'' \<and>
     (\<exists>user. CHR ''/'' \<notin> set user \<and> IsPathInSyncFolder (user_root user) (sf_path v)))"

lemma physical_in_root:
  assumes "PathToPhysicalPath rp path user = Inr q" and "last q \<noteq> CHR ''/''"
  shows "IsPathInSyncFolder (user_root user) q"
proof -
  have "take (length (user_root user @ ''/'')) q = user_root user @ ''/''"
    using assms(1) by (auto simp: PathToPhysicalPath_def ReplacePathPrefix_def user_root_def split: if_splits sum.splits)
  then have q: "q = user_root user @ ''/'' @ drop (length (user_root user @ ''/'')) q" by (metis append_take_drop_id append_assoc)
  have "drop (length (user_root user @ ''/'')) q \<noteq> []"
  proof
    assume "drop (length (user_root user @ ''/'')) q = []"
    then have "q = user_root user @ ''/''" using q by (metis append_Nil2)
    then show False using assms(2) by simp
  qed
  then show ?thesis using q unfolding in_folder_iff [OF last_user_root(1)] using last_user_root(2) by blast
qed

lemma folders_ok_add:
  assumes "folders_ok m" and "PathToPhysicalPath rp path (to_string userId) = Inr q" and "last q \<noteq> CHR ''/''" and "sf_path v = q"
  shows "folders_ok (AddSyncFolder index v m)"
proof -
  have v: "last (sf_path v) \<noteq> CHR ''/'' \<and> (\<exists>user. CHR ''/'' \<notin> set user \<and> IsPathInSyncFolder (user_root user) (sf_path v))"
    using physical_in_root [OF assms(2, 3)] digits_no_slash assms(3, 4) by blast
  have "x \<in> set m \<or> x = (index, v)" if "x \<in> set (AList.update index v m)" for x
    using that by (induction m) (auto split: if_splits)
  then show ?thesis using assms(1) v unfolding folders_ok_def AddSyncFolder_def by (fastforce split: option.splits)
qed

lemma folders_ok_delete: "folders_ok m \<Longrightarrow> folders_ok (DeleteSyncFolder index m)"
  by (fastforce simp: folders_ok_def DeleteSyncFolder_def AList.delete_eq split: option.splits)


section \<open>Choosing the folder\<close>

text \<open>Where the two loops stand, seen from the one over physical paths.\<close>

definition sandbox_of :: "string \<Rightarrow> string \<Rightarrow> string" where
  "sandbox_of user path = ''/storage/Users/currentUser'' @ drop (length (user_root user)) path"

definition as_task :: "string \<Rightarrow> u32 \<times> SyncFolderValue \<Rightarrow> u32 \<times> string \<times> string" where
  "as_task user = (\<lambda>(index, v). (index, sf_bundleName v, sandbox_of user (sf_path v)))"

lemma sandbox_root: "PathToSandboxPathByPhysicalPath (user_root user @ s) user = Some (''/storage/Users/currentUser'' @ s)"
  by (simp add: PathToSandboxPathByPhysicalPath_def user_root_def Let_def)

lemma sandbox_Some:
  assumes "PathToSandboxPathByPhysicalPath p user = Some s"
  shows "p = user_root user @ drop (length (user_root user)) p" and "s = sandbox_of user p"
  using assms by (auto simp: PathToSandboxPathByPhysicalPath_def user_root_def sandbox_of_def Let_def split: if_splits)
    (metis append_take_drop_id append_assoc append_Cons append_Nil)

lemma in_folder_shift:
  assumes "last (a @ s) \<noteq> CHR ''/''" and "s \<noteq> []"
  shows "IsPathInSyncFolder (a @ s) (a @ r) \<longleftrightarrow> IsPathInSyncFolder (b @ s) (b @ r)"
proof -
  have "last (b @ s) \<noteq> CHR ''/''" using assms by simp
  then show ?thesis using assms by (simp add: in_folder_iff)
qed

lemma other_user_outside:
  assumes "CHR ''/'' \<notin> set u" and "CHR ''/'' \<notin> set v" and "u \<noteq> v"
  shows "\<not> IsPathInSyncFolder (user_root u) (user_root v @ s)"
    and "last (user_root v @ s) \<noteq> CHR ''/'' \<Longrightarrow> \<not> IsPathInSyncFolder (user_root v @ s) (user_root u @ r)"
proof -
  show "\<not> IsPathInSyncFolder (user_root u) (user_root v @ s)"
    using user_root_eq [OF assms(2, 1)] assms(3) by (auto simp: in_folder_iff last_user_root)
  show "\<not> IsPathInSyncFolder (user_root v @ s) (user_root u @ r)" if ls: "last (user_root v @ s) \<noteq> CHR ''/''"
  proof
    assume "IsPathInSyncFolder (user_root v @ s) (user_root u @ r)"
    then obtain x where "user_root u @ r = (user_root v @ s) @ ''/'' @ x" unfolding in_folder_iff [OF ls] by blast
    then have "user_root u @ r = user_root v @ (s @ ''/'' @ x)" by simp
    then show False using user_root_eq [OF assms(1, 2)] assms(3) by blast
  qed
qed

lemma loops_agree:
  assumes "folders_ok m" and u: "CHR ''/'' \<notin> set user"
    and sel: "\<forall>x \<in> set_option selected. \<exists>s. s \<noteq> [] \<and> sf_path (snd x) = user_root user @ s"
  shows "task_path_loop user (''/storage/Users/currentUser'' @ r) m (map_option (as_task user) selected) =
    map_option (as_task user) (target_path_loop (user_root user @ r) m selected) \<and>
    (\<forall>x \<in> set_option (target_path_loop (user_root user @ r) m selected). \<exists>s. s \<noteq> [] \<and> sf_path (snd x) = user_root user @ s)"
  using assms(1) sel
proof (induction m arbitrary: selected)
  case (Cons e m)
  obtain index v where e: "e = (index, v)" by force
  have m: "folders_ok m" using Cons.prems(1) by (simp add: folders_ok_def)
  obtain user' where v: "last (sf_path v) \<noteq> CHR ''/''" "CHR ''/'' \<notin> set user'" "IsPathInSyncFolder (user_root user') (sf_path v)"
    using Cons.prems(1) e by (auto simp: folders_ok_def)
  obtain s where s: "sf_path v = user_root user' @ s" "s \<noteq> []" using v(3) by (auto simp: in_folder_iff last_user_root)
  define sel1 where "sel1 = (if sf_bundleName v \<noteq> [] \<and>
      length (sf_path v) > (case selected of None \<Rightarrow> 0 | Some (_, s) \<Rightarrow> length (sf_path s)) \<and>
      IsPathInSyncFolder (sf_path v) (user_root user @ r) then Some (index, v) else selected)"
  have len: "length (sandbox_of user (user_root user @ s)) \<le> (case map_option (as_task user) selected of None \<Rightarrow> 0 | Some (_, _, s) \<Rightarrow> length s) \<longleftrightarrow>
      length (user_root user @ s) \<le> (case selected of None \<Rightarrow> 0 | Some (_, s) \<Rightarrow> length (sf_path s))"
    using Cons.prems(2) s(2) by (cases selected) (auto simp: as_task_def sandbox_of_def)
  have sb: "sandbox_of user (user_root user @ s) = ''/storage/Users/currentUser'' @ s" by (simp add: sandbox_of_def)
  have step: "(case PathToSandboxPathByPhysicalPath (sf_path v) user of None \<Rightarrow> map_option (as_task user) selected
      | Some sandboxPath \<Rightarrow>
          if sf_bundleName v = [] \<or> \<not> IsPathInSyncFolder (user_root user) (sf_path v) \<or>
             length sandboxPath \<le> (case map_option (as_task user) selected of None \<Rightarrow> 0 | Some (_, _, s) \<Rightarrow> length s) \<or>
             \<not> IsPathInSyncFolder sandboxPath (''/storage/Users/currentUser'' @ r) then map_option (as_task user) selected
          else Some (index, sf_bundleName v, sandboxPath)) = map_option (as_task user) sel1"
  proof (cases "user' = user")
    case True
    have "IsPathInSyncFolder (''/storage/Users/currentUser'' @ s) (''/storage/Users/currentUser'' @ r) \<longleftrightarrow>
        IsPathInSyncFolder (user_root user @ s) (user_root user @ r)"
      using in_folder_shift [of "user_root user" s r "''/storage/Users/currentUser''"] v(1) s True by metis
    then show ?thesis using len v(3) s True by (simp add: sel1_def sandbox_root sb not_le as_task_def)
  next
    case False
    then have "\<not> IsPathInSyncFolder (user_root user) (sf_path v)" "\<not> IsPathInSyncFolder (sf_path v) (user_root user @ r)"
      using other_user_outside [OF u v(2), of s] v(1) s(1) by auto
    then show ?thesis by (simp add: sel1_def split: option.split)
  qed
  have "task_path_loop user (''/storage/Users/currentUser'' @ r) (e # m) (map_option (as_task user) selected) =
      task_path_loop user (''/storage/Users/currentUser'' @ r) m (map_option (as_task user) sel1)"
    unfolding e task_path_loop.simps step [unfolded user_root_def] ..
  moreover have "target_path_loop (user_root user @ r) (e # m) selected = target_path_loop (user_root user @ r) m sel1"
    by (simp only: e target_path_loop.simps sel1_def)
  moreover have "\<forall>x \<in> set_option sel1. \<exists>s. s \<noteq> [] \<and> sf_path (snd x) = user_root user @ s"
    using Cons.prems(2) other_user_outside(2) [OF u v(2), of s r] v(1) s by (auto simp: sel1_def)
  ultimately show ?case using Cons.IH [OF m, of sel1] by metis
qed simp


lemma target_loop_longest:
  assumes "folders_ok m"
  shows "case target_path_loop p m selected of
      None \<Rightarrow> selected = None \<and> (\<forall>(i, v) \<in> set m. sf_bundleName v = [] \<or> \<not> IsPathInSyncFolder (sf_path v) p)
    | Some (i, v) \<Rightarrow> (selected = Some (i, v) \<or> (i, v) \<in> set m \<and> sf_bundleName v \<noteq> [] \<and> IsPathInSyncFolder (sf_path v) p) \<and>
        (\<forall>x \<in> set_option selected. length (sf_path (snd x)) \<le> length (sf_path v)) \<and>
        (\<forall>(j, w) \<in> set m. sf_bundleName w \<noteq> [] \<and> IsPathInSyncFolder (sf_path w) p \<longrightarrow> length (sf_path w) \<le> length (sf_path v))"
  using assms
proof (induction m arbitrary: selected)
  case (Cons e m)
  obtain index v where e: "e = (index, v)" by force
  have m: "folders_ok m" and "sf_path v \<noteq> []" using Cons.prems e by (auto simp: folders_ok_def IsPathInSyncFolder_def Let_def)
  then show ?case using Cons.IH [OF m, of "if sf_bundleName v \<noteq> [] \<and>
      length (sf_path v) > (case selected of None \<Rightarrow> 0 | Some (_, s) \<Rightarrow> length (sf_path s)) \<and>
      IsPathInSyncFolder (sf_path v) p then Some (index, v) else selected"]
    unfolding e target_path_loop.simps by (cases selected) (auto split: option.splits if_splits)
qed (auto split: option.splits)

text \<open>
  A path of a system application that resolves for a hydration resolves to the registered
  folder that contains its physical path and is the longest such folder: the context carries the
  index and the bundle of that folder, the relative path is the rest of the physical path after
  the folder and a slash, and it passes the check of relative paths. No folder with a bundle
  that contains the path is longer.
\<close>

theorem accessor_longest:
  assumes "folders_ok m" and "ResolveSystemAccessorPath env m path True = Inr (context, relativePath)"
  shows "\<exists>v physicalPath. (cx_syncFolderIndex context, v) \<in> set m \<and> cx_bundleName context = sf_bundleName v \<and>
    PathToPhysicalPath (ce_realpath env) path (to_string (cx_userId context)) = Inr physicalPath \<and>
    physicalPath = sf_path v @ ''/'' @ relativePath \<and> IsValidPlaceholderRelativePath relativePath \<and>
    (\<forall>(j, w) \<in> set m. sf_bundleName w \<noteq> [] \<and> IsPathInSyncFolder (sf_path w) physicalPath \<longrightarrow> length (sf_path w) \<le> length (sf_path v))"
proof -
  obtain userId physicalPath index v syncFolder mnt hmdfs where r:
    "PathToPhysicalPath (ce_realpath env) path (to_string userId) = Inr physicalPath"
    "target_path_loop physicalPath m None = Some (index, v)"
    "relativePath = drop (length (sf_path v) + 1) physicalPath"
    "GetHmdfsPath env syncFolder relativePath userId = Inr hmdfs"
    "context = (no_context\<lparr>cx_userId := userId\<rparr>)\<lparr>cx_syncFolderIndex := index, cx_syncFolder := syncFolder, cx_absolutePath := path,
       cx_bundleName := sf_bundleName v, cx_mntSyncFolder := mnt, cx_hmdfsPath := hmdfs\<rparr>"
    using assms(2) unfolding ResolveSystemAccessorPath_def ResolveSystemAccessorTargetPath_def Let_def
    by (auto split: if_splits sum.splits option.splits prod.splits)
  have l: "(index, v) \<in> set m" "IsPathInSyncFolder (sf_path v) physicalPath"
    "\<forall>(j, w) \<in> set m. sf_bundleName w \<noteq> [] \<and> IsPathInSyncFolder (sf_path w) physicalPath \<longrightarrow> length (sf_path w) \<le> length (sf_path v)"
    using target_loop_longest [OF assms(1), where p = physicalPath and selected = None] r(2) by auto
  have "last (sf_path v) \<noteq> CHR ''/''" using assms(1) l(1) by (auto simp: folders_ok_def)
  then have "physicalPath = sf_path v @ ''/'' @ relativePath" using l(2) r(3) by (auto simp: in_folder_iff)
  moreover have "IsValidPlaceholderRelativePath relativePath" using r(4) by (auto simp: GetHmdfsPath_def split: if_splits)
  ultimately show ?thesis using l r(1, 5) by (intro exI [of _ v] exI [of _ physicalPath]) simp
qed

text \<open>A user with a folder, a folder inside it and a file in the inner one.\<close>

definition example_folders :: sync_folder_map where
  "example_folders =
     [(1, \<lparr>sf_bundleName = ''a'', sf_path = user_root ''100'' @ ''/f''\<rparr>),
      (2, \<lparr>sf_bundleName = ''b'', sf_path = user_root ''100'' @ ''/f/g''\<rparr>),
      (3, \<lparr>sf_bundleName = [], sf_path = user_root ''100'' @ ''/f/g/h''\<rparr>)]"

definition example_caller :: caller_env where
  "example_caller = \<lparr>ce_userId = 100, ce_account = (0, 100), ce_bundle = (0, ''a''), ce_realpath = Inr, ce_access = (\<lambda>_. 0), ce_isdir = (\<lambda>_. False)\<rparr>"

lemma example_folders_ok: "folders_ok example_folders"
proof -
  have "\<exists>user. CHR ''/'' \<notin> set user \<and> IsPathInSyncFolder (user_root user) (user_root ''100'' @ CHR ''/'' # s)" if "s \<noteq> []" for s
  proof (intro exI conjI)
    show "CHR ''/'' \<notin> set ''100''" by simp
    show "IsPathInSyncFolder (user_root ''100'') (user_root ''100'' @ CHR ''/'' # s)"
      using that by (simp add: in_folder_iff last_user_root)
  qed
  then show ?thesis by (simp add: folders_ok_def example_folders_def)
qed

lemma example_resolved:
  "map_sum id (\<lambda>(c, r). (cx_syncFolderIndex c, cx_bundleName c, cx_syncFolder c, r))
     (ResolveSystemAccessorPath example_caller example_folders ''/storage/Users/currentUser/f/g/h/x'' True) =
   Inr (2, ''b'', ''/storage/Users/currentUser/f/g'', ''h/x'')"
  by code_simp

lemma example_run:
  obtains ctx where
    "ResolveSystemAccessorPath example_caller example_folders ''/storage/Users/currentUser/f/g/h/x'' True = Inr (ctx, ''h/x'')"
    "cx_syncFolderIndex ctx = 2" "cx_syncFolder ctx = ''/storage/Users/currentUser/f/g''"
  using example_resolved
  by (cases "ResolveSystemAccessorPath example_caller example_folders ''/storage/Users/currentUser/f/g/h/x'' True") auto

theorem accessor_longest_witness:
  "folders_ok example_folders \<and>
   (\<exists>ctx v. ResolveSystemAccessorPath example_caller example_folders ''/storage/Users/currentUser/f/g/h/x'' True = Inr (ctx, ''h/x'') \<and>
      (2, v) \<in> set example_folders \<and> cx_bundleName ctx = sf_bundleName v)"
proof -
  obtain ctx where c:
    "ResolveSystemAccessorPath example_caller example_folders ''/storage/Users/currentUser/f/g/h/x'' True = Inr (ctx, ''h/x'')"
    "cx_syncFolderIndex ctx = 2" "cx_syncFolder ctx = ''/storage/Users/currentUser/f/g''" by (rule example_run)
  show ?thesis using accessor_longest [OF example_folders_ok c(1)] c example_folders_ok by auto
qed

text \<open>
  C36: Starting a hydration by an absolute path goes through realpath, cancelling it compares
  strings. The two agree where realpath returns the physical path as it was spelled (so without
  links and doubled slashes), in a table whose folders are below the root of a user and do not
  end in a slash, as a registration makes them: when the start finds a folder and a relative path
  for the path, the cancellation finds the same user, index, bundle, sync folder and relative
  path, so that it names the task the start created.
\<close>

theorem accessor_paths_agree:
  assumes "folders_ok m" and "ResolveSystemAccessorPath env m path True = Inr (context, relativePath)"
    and "PathToPhysicalPath (ce_realpath env) path (to_string (caller_user env)) =
      Inr (user_root (to_string (caller_user env)) @ drop (length ''/storage/Users/currentUser'') path)"
  shows "\<exists>context1. ResolveSystemAccessorPath env m path False = Inr (context1, relativePath) \<and>
    cx_userId context1 = cx_userId context \<and> cx_syncFolderIndex context1 = cx_syncFolderIndex context \<and>
    cx_bundleName context1 = cx_bundleName context \<and> cx_syncFolder context1 = cx_syncFolder context"
proof -
  let ?u = "to_string (caller_user env)" and ?r = "drop (length ''/storage/Users/currentUser'') path"
  obtain index v syncFolder where r: "IsValidSystemAccessorPath path" "ResolveSystemAccessorUser env = Inr (caller_user env)"
    "target_path_loop (user_root ?u @ ?r) m None = Some (index, v)"
    "PathToSandboxPathByPhysicalPath (sf_path v) ?u = Some syncFolder"
    "relativePath = drop (length (sf_path v) + 1) (user_root ?u @ ?r)"
    "cx_userId context = caller_user env" "cx_syncFolderIndex context = index" "cx_bundleName context = sf_bundleName v"
    "cx_syncFolder context = syncFolder"
    using assms(2, 3) unfolding ResolveSystemAccessorPath_def ResolveSystemAccessorTargetPath_def Let_def ResolveSystemAccessorUser_def
    by (auto split: if_splits sum.splits option.splits prod.splits)
  have "take (length (''/storage/Users/currentUser'' @ ''/'')) path = ''/storage/Users/currentUser'' @ ''/''"
    using r(1) by (simp add: IsValidSystemAccessorPath_def)
  then have p: "path = ''/storage/Users/currentUser'' @ ?r" by (rule take_prefix)
  have "task_path_loop ?u (''/storage/Users/currentUser'' @ ?r) m None = Some (as_task ?u (index, v))"
    and s: "\<exists>s. s \<noteq> [] \<and> sf_path v = user_root ?u @ s"
    using loops_agree [OF assms(1) digits_no_slash, of None "caller_user env" ?r] r(3) by auto
  then have "task_path_loop ?u path m None = Some (index, sf_bundleName v, syncFolder)"
    using p sandbox_Some(2) [OF r(4)] by (simp add: as_task_def)
  moreover have "drop (length syncFolder + 1) path = relativePath"
  proof -
    obtain s where s: "sf_path v = user_root ?u @ s" using s by blast
    then have "syncFolder = ''/storage/Users/currentUser'' @ s" using r(4) sandbox_root by simp
    then have "drop (length syncFolder + 1) (''/storage/Users/currentUser'' @ ?r) = drop (length s + 1) ?r" by simp
    moreover have "relativePath = drop (length s + 1) ?r" using r(5) s by simp
    ultimately show ?thesis using p by metis
  qed
  ultimately show ?thesis using r
    by (simp add: ResolveSystemAccessorPath_def ResolveSystemAccessorTaskPath_def)
qed


theorem accessor_paths_agree_witness:
  "\<exists>ctx. ResolveSystemAccessorPath example_caller example_folders ''/storage/Users/currentUser/f/g/h/x'' False = Inr (ctx, ''h/x'') \<and>
     cx_syncFolderIndex ctx = 2 \<and> cx_syncFolder ctx = ''/storage/Users/currentUser/f/g''"
proof -
  obtain ctx where c:
    "ResolveSystemAccessorPath example_caller example_folders ''/storage/Users/currentUser/f/g/h/x'' True = Inr (ctx, ''h/x'')"
    "cx_syncFolderIndex ctx = 2" "cx_syncFolder ctx = ''/storage/Users/currentUser/f/g''" by (rule example_run)
  have p: "PathToPhysicalPath (ce_realpath example_caller) ''/storage/Users/currentUser/f/g/h/x'' (to_string (caller_user example_caller)) =
      Inr (user_root (to_string (caller_user example_caller)) @ drop (length ''/storage/Users/currentUser'') ''/storage/Users/currentUser/f/g/h/x'')"
    by code_simp
  show ?thesis using accessor_paths_agree [OF example_folders_ok c(1) p] c(2, 3) by auto
qed

text \<open>
  With a doubled slash they do not agree: the start creates a task for the file \<open>x\<close> of the folder, and
  the cancellation looks for a task of the file \<open>/x\<close>.
\<close>

lemma accessor_doubled_slash:
  defines "env \<equiv> example_caller\<lparr>ce_realpath := (\<lambda>p. Inr (kernel_path p))\<rparr>"
  shows "map_sum id (\<lambda>(c, r). (cx_syncFolder c, r)) (ResolveSystemAccessorPath env example_folders ''/storage/Users/currentUser/f//x'' True) =
      Inr (''/storage/Users/currentUser/f'', ''x'')"
    and "map_sum id (\<lambda>(c, r). (cx_syncFolder c, r)) (ResolveSystemAccessorPath env example_folders ''/storage/Users/currentUser/f//x'' False) =
      Inr (''/storage/Users/currentUser/f'', ''/x'')"
  unfolding env_def by code_simp+

text \<open>
  The prefix check after \<open>realpath\<close> has no slash at the end of the mount prefix: a link that leads
  to a sibling of the folder \<open>Docs\<close> whose name starts with \<open>Docs\<close> passes it.
\<close>

lemma mnt_prefix_sibling:
  "PathToMntPathBySandboxPath (\<lambda>_. Inr ''/mnt/hmdfs/100/account/device_view/local/files/Docs2/x'') ''/storage/Users/currentUser/f/x'' ''100'' =
     Inr ''/mnt/hmdfs/100/account/device_view/local/files/Docs2/x'' \<and>
   \<not> IsPathInSyncFolder ''/mnt/hmdfs/100/account/device_view/local/files/Docs'' ''/mnt/hmdfs/100/account/device_view/local/files/Docs2/x''"
  by code_simp

end
