(* ===== verification/Hydration_File.thy ===== *)
theory Hydration_File
  imports Placeholder_State Disk_Service_Utils
begin

text \<open>
  The file side of hydration, \<open>services/clouddiskservice/ipc/src/placeholder_task_manager.cpp\<close>: a
  placeholder below a sync root is resolved and opened component by component, its state is
  checked, and data the provider delivers is written at an offset and committed to the state
  byte. Open files are identified by device and inode number, which is also what the task
  manager compares.
\<close>

type_synonym file_id = "u64 \<times> u64"

record hyd_files =
  hf_attr :: "file_id xstore"
  hf_data :: "file_id \<Rightarrow> u8 list"

record CallbackExecuteRequest =
  rq_reqKey :: "u8 list"
  rq_syncFolder :: string
  rq_filePath :: string
  rq_callbackType :: int
  rq_offset :: u64
  rq_size :: u64
  rq_totalSize :: u64
  rq_data :: "u8 list"
  rq_isComplete :: bool

section \<open>Errors\<close>

definition ConvertHydrationTargetError :: "int \<Rightarrow> int" where
  "ConvertHydrationTargetError error = (if error = ENOENT then E_FILE_NOT_EXIST else ConvertErrnoToCloudDiskError error)"

definition ConvertHydrationStateError :: "int \<Rightarrow> int" where
  "ConvertHydrationStateError error =
     (if error = EINVAL \<or> error = ERANGE then E_INVALID_PLACEHOLDER_STATE else ConvertHydrationTargetError error)"

definition ConvertHydrationIoError :: "int \<Rightarrow> int" where
  "ConvertHydrationIoError error =
     (if error = ENOSPC \<or> error = EDQUOT then E_NO_SPACE_LEFT
      else if error = EFBIG then E_FILE_TOO_LARGE
      else if error = EACCES then E_ACCES
      else if error = EPERM then E_PERM
      else E_TRY_AGAIN)"

lemma hydration_errors_nonzero [simp]:
  "ConvertHydrationTargetError e \<noteq> 0" "ConvertHydrationStateError e \<noteq> 0" "ConvertHydrationIoError e \<noteq> 0"
  by (simp_all add: ConvertHydrationTargetError_def ConvertHydrationStateError_def ConvertHydrationIoError_def)

section \<open>Writing data\<close>

text \<open>Bytes written at an offset; a gap before them reads as zero.\<close>

definition pwrite_bytes :: "u8 list \<Rightarrow> nat \<Rightarrow> u8 list \<Rightarrow> u8 list" where
  "pwrite_bytes c off d = take off (c @ replicate (off - length c) 0) @ d @ drop (off + length d) c"

text \<open>
  The outcomes of the calls of \<open>pwrite\<close>, in order: a negative value is a failure with that error
  number, a positive one is the number of bytes accepted. After the listed calls every call
  accepts all it is given.
\<close>

primrec write_loop :: "int list \<Rightarrow> u8 list \<Rightarrow> nat \<Rightarrow> nat \<Rightarrow> u8 list \<Rightarrow> int \<times> u8 list" where
  "write_loop [] data offset writtenSize c =
     (if writtenSize < length data then (E_OK, pwrite_bytes c (offset + writtenSize) (drop writtenSize data)) else (E_OK, c))"
| "write_loop (r # rs) data offset writtenSize c =
     (if writtenSize < length data
      then if r < 0 then (if - r = EINTR then write_loop rs data offset writtenSize c else (ConvertHydrationIoError (- r), c))
           else if r = 0 then (E_TRY_AGAIN, c)
           else let written = min (nat r) (length data - writtenSize)
                in write_loop rs data offset (writtenSize + written)
                     (pwrite_bytes c (offset + writtenSize) (take written (drop writtenSize data)))
      else (E_OK, c))"

definition WriteHydrationData :: "int list \<Rightarrow> file_id \<Rightarrow> CallbackExecuteRequest \<Rightarrow> hyd_files \<Rightarrow> int \<times> hyd_files" where
  "WriteHydrationData rs f request fs =
     (case write_loop rs (rq_data request) (unat (rq_offset request)) 0 (hf_data fs f) of
        (ret, c) \<Rightarrow> (ret, fs\<lparr>hf_data := (hf_data fs)(f := c)\<rparr>))"

section \<open>Opening the file\<close>

text \<open>
  What the calls return: \<open>realpath\<close> of a path, the error of opening a root directory, the outcome
  of \<open>openat\<close> on the last of a list of components below a root (with whether it is opened as the
  file itself), the error of \<open>fstat\<close> on a file, whether it is a directory, and its size.
\<close>

record open_env =
  oe_realpath :: "string \<Rightarrow> int + string"
  oe_root :: "string \<Rightarrow> int"
  oe_at :: "string \<Rightarrow> string list \<Rightarrow> bool \<Rightarrow> int + file_id"
  oe_stat :: "file_id \<Rightarrow> int"
  oe_isdir :: "file_id \<Rightarrow> bool"
  oe_size :: "file_id \<Rightarrow> int"
  oe_xerr :: "file_id xerr"

definition ResolveHydrationPath :: "open_env \<Rightarrow> string \<Rightarrow> string \<Rightarrow> int + string \<times> string" where
  "ResolveHydrationPath env syncRoot path =
     (if syncRoot = [] \<or> path = [] then Inl E_INVALID_ARG
      else case oe_realpath env syncRoot of
        Inl error \<Rightarrow> Inl (ConvertErrnoToCloudDiskError error)
      | Inr rootPath \<Rightarrow>
          (case oe_realpath env path of
             Inl error \<Rightarrow> Inl (ConvertHydrationTargetError error)
           | Inr filePath \<Rightarrow> if \<not> IsPathInSyncFolder rootPath filePath then Inl E_INVALID_ARG else Inr (rootPath, filePath)))"

definition CheckHydrationState :: "open_env \<Rightarrow> file_id xstore \<Rightarrow> file_id \<Rightarrow> int" where
  "CheckHydrationState env attr f =
     (case GetFilePlaceholderState (oe_xerr env) attr f of
        (ret, None) \<Rightarrow> ConvertHydrationStateError ret
      | (ret, Some state) \<Rightarrow>
          if \<not> IsValidPlaceholderState state then E_INVALID_PLACEHOLDER_STATE
          else if state = PLACEHOLDER_STATE_NONE then E_NOT_A_PLACEHOLDER
          else if state = PLACEHOLDER_STATE_FULLY_HYDRATED then E_ALREADY_HYDRATED else E_OK)"

fun open_components :: "open_env \<Rightarrow> string \<Rightarrow> string list \<Rightarrow> string \<Rightarrow> int + file_id" where
  "open_components env rootPath opened rest =
     (if rest = [] then Inl E_INVALID_ARG
      else let component = takeWhile (\<lambda>c. c \<noteq> CHR ''/'') rest
           in case after_slash rest of
                None \<Rightarrow> (case oe_at env rootPath (opened @ [component]) True of
                           Inl error \<Rightarrow> Inl (ConvertHydrationTargetError error) | Inr f \<Rightarrow> Inr f)
              | Some rest' \<Rightarrow> (case oe_at env rootPath (opened @ [component]) False of
                           Inl error \<Rightarrow> Inl (ConvertHydrationTargetError error)
                         | Inr _ \<Rightarrow> open_components env rootPath (opened @ [component]) rest'))"

declare open_components.simps [simp del]

definition OpenCanonicalHydrationFile :: "open_env \<Rightarrow> string \<Rightarrow> string \<Rightarrow> int + file_id" where
  "OpenCanonicalHydrationFile env rootPath filePath =
     (if oe_root env rootPath \<noteq> 0 then Inl (ConvertHydrationTargetError (oe_root env rootPath))
      else open_components env rootPath [] (drop (if rootPath = ''/'' then 1 else length rootPath + 1) filePath))"

definition OpenHydrationFile :: "open_env \<Rightarrow> file_id xstore \<Rightarrow> string \<Rightarrow> string \<Rightarrow> int + file_id \<times> u64" where
  "OpenHydrationFile env attr rootPath filePath =
     (case OpenCanonicalHydrationFile env rootPath filePath of
        Inl ret \<Rightarrow> Inl ret
      | Inr f \<Rightarrow>
          if oe_stat env f \<noteq> 0 then Inl (ConvertErrnoToCloudDiskError (oe_stat env f))
          else if oe_isdir env f \<or> oe_size env f < 0 then Inl E_INVALID_ARG
          else let ret = CheckHydrationState env attr f
               in if ret \<noteq> E_OK then Inl ret else Inr (f, word_of_int (oe_size env f)))"

definition OpenValidatedHydrationFile :: "open_env \<Rightarrow> file_id xstore \<Rightarrow> string \<Rightarrow> string \<Rightarrow> int + file_id \<times> u64" where
  "OpenValidatedHydrationFile env attr syncRoot path =
     (case ResolveHydrationPath env syncRoot path of
        Inl ret \<Rightarrow> Inl ret | Inr (rootPath, filePath) \<Rightarrow> OpenHydrationFile env attr rootPath filePath)"

section \<open>Lemmas\<close>

lemma length_pwrite: "length (pwrite_bytes c off d) = max (length c) (off + length d)"
  by (simp add: pwrite_bytes_def)

lemma nth_pwrite:
  assumes "i < length (pwrite_bytes c off d)"
  shows "pwrite_bytes c off d ! i = (if off \<le> i \<and> i < off + length d then d ! (i - off) else if i < length c then c ! i else 0)"
  using assms by (auto simp: pwrite_bytes_def nth_append min_def)

lemma pwrite_nil: "off \<le> length c \<Longrightarrow> pwrite_bytes c off [] = c"
  by (simp add: pwrite_bytes_def)

text \<open>Writing a prefix and then the rest is writing the whole.\<close>

lemma pwrite_append: "pwrite_bytes (pwrite_bytes c off d) (off + length d) e = pwrite_bytes c off (d @ e)"
proof (rule nth_equalityI)
  fix i assume i: "i < length (pwrite_bytes (pwrite_bytes c off d) (off + length d) e)"
  then have i2: "i < length (pwrite_bytes c off (d @ e))" by (simp add: length_pwrite)
  note inner = nth_pwrite [of i c off d, unfolded length_pwrite]
  show "pwrite_bytes (pwrite_bytes c off d) (off + length d) e ! i = pwrite_bytes c off (d @ e) ! i"
  proof -
    consider "i < off" | "off \<le> i" "i < off + length d" | "off + length d \<le> i" by linarith
    then show ?thesis
    proof cases
      case 2
      then have "i - off < length d" "i < max (length c) (off + length d)" by auto
      then show ?thesis using 2 by (simp add: nth_pwrite [OF i] nth_pwrite [OF i2] length_pwrite inner nth_append)
    next
      case 3
      then have "\<not> i - off < length d" "i - off - length d = i - (off + length d)" "off \<le> i" by auto
      then show ?thesis using 3 by (auto simp: nth_pwrite [OF i] nth_pwrite [OF i2] length_pwrite inner nth_append)
    qed (auto simp: nth_pwrite [OF i] nth_pwrite [OF i2] length_pwrite inner)
  qed
qed (simp add: length_pwrite)

lemma write_loop_ok:
  assumes "write_loop rs data off w c = (E_OK, c')" and "w \<le> length data" and "c = pwrite_bytes c0 off (take w data)"
  shows "c' = pwrite_bytes c0 off data"
  using assms
proof (induction rs arbitrary: w c)
  case Nil
  then show ?case using pwrite_append [of c0 off "take w data" "drop w data"] by (auto split: if_splits)
next
  case (Cons r rs)
  show ?case
  proof (cases "w < length data \<and> 0 < r")
    case True
    let ?n = "min (nat r) (length data - w)"
    define d1 where "d1 = take ?n (drop w data)"
    have "length (take w data) = w" using True by simp
    moreover have "take w data @ d1 = take (w + ?n) data" unfolding d1_def by (rule take_add [symmetric])
    ultimately have e: "pwrite_bytes c (off + w) d1 = pwrite_bytes c0 off (take (w + ?n) data)"
      unfolding Cons.prems(3) using pwrite_append [of c0 off "take w data" d1] by (simp only:)
    have "write_loop (r # rs) data off w c = write_loop rs data off (w + ?n) (pwrite_bytes c (off + w) d1)"
      using True by (simp add: Let_def d1_def)
    then have l: "write_loop rs data off (w + ?n) (pwrite_bytes c (off + w) d1) = (E_OK, c')" using Cons.prems(1) by (simp only:)
    have "w + ?n \<le> length data" using True by linarith
    then show ?thesis by (rule Cons.IH [OF l _ e])
  next
    case False
    show ?thesis
    proof (cases "w < length data")
      case True
      with False have "write_loop rs data off w c = (E_OK, c')" using Cons.prems(1) by (simp split: if_splits)
      then show ?thesis using Cons.IH Cons.prems(2,3) by blast
    qed (use Cons.prems in simp)
  qed
qed

end
