(* ===== verification/Ordered_Map.thy ===== *)
theory Ordered_Map
  imports Main
begin

text \<open>
  \<open>std::map\<close> as an association list in the order of its keys, which is the order the loops of the
  source visit it in.
\<close>

fun omap_put :: "'k::linorder \<Rightarrow> 'v \<Rightarrow> ('k \<times> 'v) list \<Rightarrow> ('k \<times> 'v) list" where
  "omap_put k v [] = [(k, v)]"
| "omap_put k v ((k', v') # m) =
     (if k < k' then (k, v) # (k', v') # m else if k = k' then (k, v) # m else (k', v') # omap_put k v m)"

definition omap_del :: "'k \<Rightarrow> ('k \<times> 'v) list \<Rightarrow> ('k \<times> 'v) list" where
  "omap_del k m = filter (\<lambda>e. fst e \<noteq> k) m"

definition omap_ok :: "('k::linorder \<times> 'v) list \<Rightarrow> bool" where
  "omap_ok m \<longleftrightarrow> sorted_wrt (<) (map fst m)"

named_theorems omap "facts on ordered maps"

lemma omap_ok_Nil [omap]: "omap_ok []"
  by (simp add: omap_ok_def)

lemma omap_ok_distinct: "omap_ok m \<Longrightarrow> distinct (map fst m)"
  unfolding omap_ok_def by (auto simp: strict_sorted_iff)

lemma map_of_put [omap, simp]: "map_of (omap_put k v m) = (map_of m)(k \<mapsto> v)"
  by (induction k v m rule: omap_put.induct) auto

lemma map_of_del [omap, simp]: "map_of (omap_del k m) = (map_of m)(k := None)"
  by (induction m) (auto simp: omap_del_def)

lemma fst_set_put: "fst ` set (omap_put k v m) = insert k (fst ` set m)"
  by (induction k v m rule: omap_put.induct) auto

lemma omap_ok_put [omap]: "omap_ok m \<Longrightarrow> omap_ok (omap_put k v m)"
proof (induction k v m rule: omap_put.induct)
  case (2 k v k' v' m)
  have "\<forall>x \<in> set (map fst (omap_put k v m)). k' < x" if "k' < k"
    using 2(2) that fst_set_put [of k v m] by (auto simp: omap_ok_def)
  then show ?case using 2 by (auto simp: omap_ok_def not_less_iff_gr_or_eq)
qed (simp add: omap_ok_def)

lemma omap_ok_filter [omap]: "omap_ok m \<Longrightarrow> omap_ok (filter P m)"
  unfolding omap_ok_def by (induction m) auto

lemma omap_ok_del [omap]: "omap_ok m \<Longrightarrow> omap_ok (omap_del k m)"
  unfolding omap_del_def by (rule omap_ok_filter)

lemma set_del: "set (omap_del k m) = {e \<in> set m. fst e \<noteq> k}"
  by (auto simp: omap_del_def)

lemma set_put: "omap_ok m \<Longrightarrow> set (omap_put k v m) = insert (k, v) {e \<in> set m. fst e \<noteq> k}"
proof (induction k v m rule: omap_put.induct)
  case (2 k v k' v' m)
  then show ?case by (auto simp: omap_ok_def not_less_iff_gr_or_eq)
qed auto

lemma set_put_new: "k \<notin> fst ` set m \<Longrightarrow> set (omap_put k v m) = insert (k, v) (set m)"
  by (induction k v m rule: omap_put.induct) auto

lemma map_of_iff [omap]: "omap_ok m \<Longrightarrow> map_of m k = Some v \<longleftrightarrow> (k, v) \<in> set m"
  by (rule map_of_eq_Some_iff [OF omap_ok_distinct])

text \<open>Counting the entries with a property.\<close>

definition omap_count :: "('k \<Rightarrow> 'v \<Rightarrow> bool) \<Rightarrow> ('k \<times> 'v) list \<Rightarrow> nat" where
  "omap_count P m = length (filter (\<lambda>(k, v). P k v) m)"

lemma count_put_new: "k \<notin> fst ` set m \<Longrightarrow> omap_count P (omap_put k v m) = omap_count P m + of_bool (P k v)"
  by (induction k v m rule: omap_put.induct) (auto simp: omap_count_def)

lemma count_del_le: "omap_count P (omap_del k m) \<le> omap_count P m"
  by (induction m) (auto simp: omap_count_def omap_del_def)

lemma count_mono: "(\<And>k v. (k, v) \<in> set m \<Longrightarrow> P k v \<Longrightarrow> Q k v) \<Longrightarrow> omap_count P m \<le> omap_count Q m"
  by (induction m) (auto simp: omap_count_def split: prod.splits)

lemma count_cong: "(\<And>k v. (k, v) \<in> set m \<Longrightarrow> P k v = Q k v) \<Longrightarrow> omap_count P m = omap_count Q m"
  unfolding omap_count_def by (rule arg_cong [where f = length], rule filter_cong) auto

lemma count_pos: "omap_count P m > 0 \<longleftrightarrow> (\<exists>(k, v) \<in> set m. P k v)"
  by (auto simp: omap_count_def filter_empty_conv)

end
