(* ===== verification/Hydration_Tasks.thy ===== *)
theory Hydration_Tasks
  imports Hydration_File Ordered_Map "HOL-Library.List_Lexorder"
begin

text \<open>
  The hydration task manager, \<open>services/clouddiskservice/ipc/src/placeholder_task_manager.cpp\<close> and
  its header. A request to hydrate a placeholder becomes a task; the dispatcher activates pending
  tasks by priority and age within limits per application and over all; the provider delivers data
  through \<open>Execute\<close>; tasks end by completion or cancellation, and recent cancellations are remembered
  so that a late delivery is told about them.

  Task records are objects: \<open>taskMap_\<close> holds references, and a caller may keep a reference to a
  record that has left the map. Each handler is one atomic step (it holds the record's lock, and the
  map's lock whenever it touches the map), except that the dispatcher's choice of a task and its
  activation are separate.
\<close>

unbundle bit_operations_syntax

section \<open>Data\<close>

datatype PlaceholderTaskState = PENDING | IN_PROGRESS | COMPLETED | CANCELLED

datatype PlaceholderTaskCancelReason =
  USER_REQUEST | TIMEOUT | INTERNAL_ERROR | UNREGISTER | CALLBACK_DIED | USER_SWITCH | SERVICE_STOP | DISPATCH_FAILED

type_synonym RequestKey = "u8 list"

abbreviation (input) CLOUD_DISK_MAX_ACTIVE_TASKS_PER_APP :: nat where "CLOUD_DISK_MAX_ACTIVE_TASKS_PER_APP \<equiv> 5"
abbreviation (input) CLOUD_DISK_MAX_ACTIVE_TASKS_GLOBAL :: nat where "CLOUD_DISK_MAX_ACTIVE_TASKS_GLOBAL \<equiv> 10"
abbreviation (input) CLOUD_DISK_MAX_PENDING_TASKS_PER_APP :: nat where "CLOUD_DISK_MAX_PENDING_TASKS_PER_APP \<equiv> 20"
abbreviation (input) CLOUD_DISK_MAX_PENDING_TASKS_GLOBAL :: nat where "CLOUD_DISK_MAX_PENDING_TASKS_GLOBAL \<equiv> 40"
abbreviation (input) MAX_CANCELLATION_RECORDS_PER_APP :: nat where "MAX_CANCELLATION_RECORDS_PER_APP \<equiv> 16"
abbreviation (input) MAX_CANCELLATION_RECORDS_GLOBAL :: nat where "MAX_CANCELLATION_RECORDS_GLOBAL \<equiv> 32"
abbreviation (input) MAX_EXECUTE_DATA_SIZE :: u64 where "MAX_EXECUTE_DATA_SIZE \<equiv> 131072"
abbreviation (input) MAX_OFFSET :: u64 where "MAX_OFFSET \<equiv> 0x7FFFFFFFFFFFFFFF"
abbreviation (input) UINT64_MAX :: u64 where "UINT64_MAX \<equiv> 0xFFFFFFFFFFFFFFFF"

text \<open>Times are nanoseconds of the steady clock.\<close>

abbreviation (input) HYDRATION_IDLE_TIMEOUT :: int where "HYDRATION_IDLE_TIMEOUT \<equiv> 300000000000"
abbreviation (input) CANCELLATION_RECORD_TTL :: int where "CANCELLATION_RECORD_TTL \<equiv> 60000000000"

record HydrateProgressOwner =
  ow_tokenId :: u64
  ow_pid :: int
  ow_accessorId :: u64

definition no_owner :: HydrateProgressOwner where
  "no_owner = \<lparr>ow_tokenId = 0, ow_pid = 0, ow_accessorId = 0\<rparr>"

record PlaceholderProgressContext =
  pc_userId :: int
  pc_absolutePath :: string
  pc_hmdfsPath :: string
  pc_mountSyncFolder :: string
  pc_owner :: HydrateProgressOwner

record PlaceholderTaskRecord =
  t_reqKey :: RequestKey
  t_syncFolder :: string
  t_filePath :: string
  t_bundleName :: string
  t_syncFolderIndex :: u32
  t_priority :: int
  t_hmdfsPath :: string
  t_mountSyncFolder :: string
  t_fileId :: file_id
  t_outputFd :: "file_id option"
  t_state :: PlaceholderTaskState
  t_absolutePath :: string
  t_userId :: int
  t_owner :: HydrateProgressOwner
  t_cachedSize :: u64
  t_terminalProgressSent :: bool
  t_totalSize :: u64
  t_totalSizeInitialized :: bool
  t_hasPartialState :: bool
  t_fetchDispatched :: bool
  t_cancelCallbackAttempted :: bool
  t_createSeq :: u64

record CancelledTaskRecord =
  c_reqKey :: RequestKey
  c_syncFolder :: string
  c_filePath :: string
  c_bundleName :: string
  c_syncFolderIndex :: u32
  c_expiresAt :: int
  c_createSeq :: u64

text \<open>
  Calls out of the manager, in order: progress of the object given first (with the recipient, the
  state and the processed and total sizes), and the two callbacks of the provider.
\<close>

datatype task_event =
    Progress nat HydrateProgressOwner PlaceholderTaskState u64 u64
  | FetchData nat
  | CancelFetchData nat

record task_mgr =
  tm_obj :: "nat \<Rightarrow> PlaceholderTaskRecord"
  tm_new :: nat
  tm_taskMap :: "(RequestKey \<times> nat) list"
  tm_cancellationRecordMap :: "(RequestKey \<times> CancelledTaskRecord) list"
  tm_cancellationOrder :: "(RequestKey \<times> u64) list"
  tm_deadlineMap :: "(RequestKey \<times> int) list"
  tm_nextReqKeyValue :: u64
  tm_nextCreateSeq :: u64
  tm_nextCancellationSeq :: u64
  tm_running :: bool
  tm_stopping :: bool
  tm_dispatchScheduled :: bool
  tm_events :: "task_event list"

definition upd_task :: "nat \<Rightarrow> (PlaceholderTaskRecord \<Rightarrow> PlaceholderTaskRecord) \<Rightarrow> task_mgr \<Rightarrow> task_mgr" where
  "upd_task t f m = m\<lparr>tm_obj := (tm_obj m)(t := f (tm_obj m t))\<rparr>"

abbreviation task_state :: "task_mgr \<Rightarrow> nat \<Rightarrow> PlaceholderTaskState" where
  "task_state m t \<equiv> t_state (tm_obj m t)"

definition outstanding :: "PlaceholderTaskRecord \<Rightarrow> bool" where
  "outstanding r \<longleftrightarrow> t_state r = PENDING \<or> t_state r = IN_PROGRESS"

text \<open>The tasks of the map that satisfy a condition, and their number.\<close>

definition tasks_where :: "(PlaceholderTaskRecord \<Rightarrow> bool) \<Rightarrow> task_mgr \<Rightarrow> nat list" where
  "tasks_where P m = map snd (filter (\<lambda>e. P (tm_obj m (snd e))) (tm_taskMap m))"

definition count_tasks :: "(PlaceholderTaskRecord \<Rightarrow> bool) \<Rightarrow> task_mgr \<Rightarrow> nat" where
  "count_tasks P m = length (tasks_where P m)"

section \<open>Policies\<close>

definition IsValidPriority :: "int \<Rightarrow> bool" where
  "IsValidPriority priority \<longleftrightarrow> 0 \<le> priority \<and> priority \<le> 2"

definition ShouldKeepCancellationRecord :: "PlaceholderTaskCancelReason \<Rightarrow> bool" where
  "ShouldKeepCancellationRecord reason \<longleftrightarrow> reason \<noteq> DISPATCH_FAILED \<and> reason \<noteq> USER_SWITCH \<and> reason \<noteq> SERVICE_STOP"

definition ShouldNotifyCancellation :: "PlaceholderTaskCancelReason \<Rightarrow> bool" where
  "ShouldNotifyCancellation reason \<longleftrightarrow> reason = USER_REQUEST \<or> reason = TIMEOUT \<or> reason = INTERNAL_ERROR"

definition IsInvalidFetchDataRequest :: "PlaceholderTaskRecord \<Rightarrow> CallbackExecuteRequest \<Rightarrow> bool" where
  "IsInvalidFetchDataRequest task request =
     (let invalidDataBounds =
            unat (rq_size request) \<noteq> length (rq_data request) \<or> rq_size request > MAX_EXECUTE_DATA_SIZE \<or>
            rq_offset request > rq_totalSize request \<or> rq_size request > rq_totalSize request - rq_offset request \<or>
            rq_offset request > MAX_OFFSET \<or> rq_size request > MAX_OFFSET - rq_offset request;
          invalidCompletion =
            \<not> rq_isComplete request \<and> rq_size request = 0 \<or>
            rq_isComplete request \<and> rq_totalSize request \<noteq> 0 \<and> rq_size request = 0 \<or>
            rq_totalSize request = 0 \<and> (rq_offset request \<noteq> 0 \<or> rq_size request \<noteq> 0 \<or> \<not> rq_isComplete request);
          invalidTaskSize =
            t_cachedSize task > rq_totalSize request \<or> t_totalSizeInitialized task \<and> t_totalSize task \<noteq> rq_totalSize request
      in invalidDataBounds \<or> invalidCompletion \<or> invalidTaskSize)"

definition SetHydrateProgressContext :: "PlaceholderTaskRecord \<Rightarrow> PlaceholderProgressContext \<Rightarrow> PlaceholderTaskRecord" where
  "SetHydrateProgressContext task context =
     task\<lparr>t_absolutePath := (if pc_absolutePath context = [] then t_syncFolder task @ ''/'' @ t_filePath task else pc_absolutePath context),
          t_hmdfsPath := pc_hmdfsPath context, t_mountSyncFolder := pc_mountSyncFolder context,
          t_userId := pc_userId context, t_owner := pc_owner context\<rparr>"

section \<open>Cancellation records\<close>

definition PurgeExpiredCancellationRecordsLocked :: "int \<Rightarrow> task_mgr \<Rightarrow> task_mgr" where
  "PurgeExpiredCancellationRecordsLocked now m =
     (let recs = filter (\<lambda>(_, r). \<not> c_expiresAt r \<le> now) (tm_cancellationRecordMap m)
      in m\<lparr>tm_cancellationRecordMap := recs,
           tm_cancellationOrder := filter (\<lambda>(k, seq). case map_of recs k of None \<Rightarrow> False | Some r \<Rightarrow> c_createSeq r = seq)
             (tm_cancellationOrder m)\<rparr>)"

text \<open>The first entry of the order that names a current record of the application.\<close>

definition is_record :: "(RequestKey \<times> CancelledTaskRecord) list \<Rightarrow> (CancelledTaskRecord \<Rightarrow> bool) \<Rightarrow> RequestKey \<times> u64 \<Rightarrow> bool" where
  "is_record recs P e = (case map_of recs (fst e) of None \<Rightarrow> False | Some r \<Rightarrow> c_createSeq r = snd e \<and> P r)"

definition count_app :: "string \<Rightarrow> (RequestKey \<times> CancelledTaskRecord) list \<Rightarrow> nat" where
  "count_app bundle recs = length (filter (\<lambda>(_, r). c_bundleName r = bundle) recs)"

function trim_app ::
  "string \<Rightarrow> (RequestKey \<times> CancelledTaskRecord) list \<Rightarrow> (RequestKey \<times> u64) list \<Rightarrow>
   (RequestKey \<times> CancelledTaskRecord) list \<times> (RequestKey \<times> u64) list" where
  "trim_app bundle recs order =
     (if count_app bundle recs > MAX_CANCELLATION_RECORDS_PER_APP
      then case find (is_record recs (\<lambda>r. c_bundleName r = bundle)) order of
             None \<Rightarrow> (recs, order)
           | Some oldest \<Rightarrow> trim_app bundle (omap_del (fst oldest) recs) (remove1 oldest order)
      else (recs, order))"
  by pat_completeness auto
termination
  by (relation "measure (\<lambda>(b, recs, order). length order)")
    (auto simp: find_Some_iff length_remove1 intro!: diff_less)

declare trim_app.simps [simp del]

fun trim_global ::
  "(RequestKey \<times> CancelledTaskRecord) list \<Rightarrow> (RequestKey \<times> u64) list \<Rightarrow>
   (RequestKey \<times> CancelledTaskRecord) list \<times> (RequestKey \<times> u64) list" where
  "trim_global recs [] = (recs, [])"
| "trim_global recs (oldest # order) =
     (if length recs > MAX_CANCELLATION_RECORDS_GLOBAL
      then trim_global (if is_record recs (\<lambda>_. True) oldest then omap_del (fst oldest) recs else recs) order
      else (recs, oldest # order))"

definition AddCancellationRecordLocked :: "int \<Rightarrow> nat \<Rightarrow> task_mgr \<Rightarrow> task_mgr" where
  "AddCancellationRecordLocked now t m =
     (let m1 = PurgeExpiredCancellationRecordsLocked now m;
          task = tm_obj m t;
          seq = (if tm_nextCancellationSeq m1 = UINT64_MAX then 1 else tm_nextCancellationSeq m1);
          cancellationRecord =
            \<lparr>c_reqKey = t_reqKey task, c_syncFolder = t_syncFolder task, c_filePath = t_filePath task, c_bundleName = t_bundleName task,
             c_syncFolderIndex = t_syncFolderIndex task, c_expiresAt = now + CANCELLATION_RECORD_TTL, c_createSeq = seq\<rparr>;
          recs = omap_put (t_reqKey task) cancellationRecord (tm_cancellationRecordMap m1);
          order = tm_cancellationOrder m1 @ [(t_reqKey task, seq)];
          (recs1, order1) = trim_app (t_bundleName task) recs order;
          (recs2, order2) = trim_global recs1 order1
      in m1\<lparr>tm_nextCancellationSeq := seq + 1, tm_cancellationRecordMap := recs2, tm_cancellationOrder := order2\<rparr>)"

definition FindCancellationResultLocked ::
  "int \<Rightarrow> string \<Rightarrow> u32 \<Rightarrow> CallbackExecuteRequest \<Rightarrow> task_mgr \<Rightarrow> int \<times> task_mgr" where
  "FindCancellationResultLocked now callerBundleName syncFolderIndex request m =
     (let m1 = PurgeExpiredCancellationRecordsLocked now m
      in (case map_of (tm_cancellationRecordMap m1) (rq_reqKey request) of
            None \<Rightarrow> E_NO_HYDRATION_IN_PROGRESS
          | Some r \<Rightarrow>
              if c_bundleName r \<noteq> callerBundleName \<or> c_syncFolderIndex r \<noteq> syncFolderIndex then E_CALLBACK_NOT_REGISTERED
              else if c_syncFolder r \<noteq> rq_syncFolder request \<or> c_filePath r \<noteq> rq_filePath request then E_INVALID_ARG
              else E_CANCELLED, m1))"

definition ClearCancellationRecords :: "task_mgr \<Rightarrow> task_mgr" where
  "ClearCancellationRecords m = m\<lparr>tm_cancellationRecordMap := [], tm_cancellationOrder := []\<rparr>"


section \<open>Progress, deadlines, removal\<close>

definition NotifyProgressLocked :: "HydrateProgressOwner \<Rightarrow> nat \<Rightarrow> task_mgr \<Rightarrow> task_mgr" where
  "NotifyProgressLocked recipient t m =
     (let task = tm_obj m t
      in if t_terminalProgressSent task then m
         else (upd_task t (\<lambda>r. r\<lparr>t_terminalProgressSent := (t_state r = COMPLETED \<or> t_state r = CANCELLED)\<rparr>) m)
           \<lparr>tm_events := tm_events m @
             [Progress t (if ow_accessorId recipient \<noteq> 0 then recipient else t_owner task) (t_state task) (t_cachedSize task) (t_totalSize task)]\<rparr>)"

definition EraseTaskLocked :: "nat \<Rightarrow> task_mgr \<Rightarrow> task_mgr" where
  "EraseTaskLocked t m =
     (let m1 = upd_task t (\<lambda>r. r\<lparr>t_outputFd := None\<rparr>) m;
          key = t_reqKey (tm_obj m t)
      in m1\<lparr>tm_taskMap := (if map_of (tm_taskMap m) key = Some t then omap_del key (tm_taskMap m) else tm_taskMap m),
            tm_deadlineMap := omap_del key (tm_deadlineMap m)\<rparr>)"

definition RefreshDeadlineLocked :: "int \<Rightarrow> nat \<Rightarrow> task_mgr \<Rightarrow> task_mgr" where
  "RefreshDeadlineLocked now t m =
     (let key = t_reqKey (tm_obj m t)
      in if map_of (tm_taskMap m) key = Some t
         then m\<lparr>tm_deadlineMap := omap_put key (now + HYDRATION_IDLE_TIMEOUT) (tm_deadlineMap m)\<rparr> else m)"

definition CancelTaskRecordLocked ::
  "int \<Rightarrow> PlaceholderTaskCancelReason \<Rightarrow> HydrateProgressOwner \<Rightarrow> nat \<Rightarrow> task_mgr \<Rightarrow> task_mgr" where
  "CancelTaskRecordLocked now reason cancelOwner t m =
     (if \<not> outstanding (tm_obj m t) then m
      else let notifyCallback = \<not> t_cancelCallbackAttempted (tm_obj m t) \<and> ShouldNotifyCancellation reason;
               m1 = upd_task t (\<lambda>r. r\<lparr>t_state := CANCELLED\<rparr>) m;
               m2 = NotifyProgressLocked cancelOwner t m1;
               m3 = (if notifyCallback then upd_task t (\<lambda>r. r\<lparr>t_cancelCallbackAttempted := True\<rparr>) m2 else m2);
               m4 = (if ShouldKeepCancellationRecord reason \<and>
                        (t_fetchDispatched (tm_obj m3 t) \<or> t_cancelCallbackAttempted (tm_obj m3 t))
                     then AddCancellationRecordLocked now t m3 else m3);
               m5 = (if notifyCallback then m4\<lparr>tm_events := tm_events m4 @ [CancelFetchData t]\<rparr> else m4)
           in EraseTaskLocked t m5)"

definition ScheduleDispatch :: "task_mgr \<Rightarrow> task_mgr" where
  "ScheduleDispatch m =
     (if \<not> tm_running m \<or> tm_stopping m \<or> tm_dispatchScheduled m then m else m\<lparr>tm_dispatchScheduled := True\<rparr>)"

section \<open>Creating tasks\<close>

definition request_key :: "u64 \<Rightarrow> RequestKey" where
  "request_key v = map (\<lambda>index. ucast (drop_bit (index * 8) v)) [0..<8]"

lemma key_loop_less:
  assumes "next1 = (if v = UINT64_MAX then 1 else v + 1)" and "v = (if n = 0 then 1 else n)" and "next1 \<noteq> (1 :: u64)"
  shows "2 ^ 64 - unat next1 < 2 ^ 64 - unat n"
proof -
  have v: "v \<noteq> UINT64_MAX" using assms by auto
  then have "unat v \<noteq> unat UINT64_MAX" by (simp only: word_unat_eq_iff not_False_eq_True)
  then have "unat v \<noteq> 18446744073709551615" by simp
  moreover have "unat v < 18446744073709551616" using unsigned_less [of v] by simp
  ultimately have "unat next1 = unat v + 1" using assms(1) v by (simp add: unat_word_ariths)
  moreover have "unat n \<le> unat v" using assms(2) by auto
  moreover have "unat n < 2 ^ 64" using unsigned_less [of n] by simp
  ultimately show ?thesis by simp
qed

function key_loop :: "(RequestKey \<Rightarrow> bool) \<Rightarrow> u64 \<Rightarrow> RequestKey \<times> u64" where
  "key_loop used next0 =
     (let requestValue = (if next0 = 0 then 1 else next0);
          next1 = (if requestValue = UINT64_MAX then 1 else requestValue + 1)
      in if \<not> used (request_key requestValue) then (request_key requestValue, next1)
         else if next1 \<noteq> 1 then key_loop used next1 else ([], next1))"
  by pat_completeness auto

termination
proof (relation "measure (\<lambda>(used, n). 2 ^ 64 - unat n)")
  fix used :: "RequestKey \<Rightarrow> bool" and n v next1 :: u64
  assume "v = (if n = 0 then 1 else n)" "next1 = (if v = UINT64_MAX then 1 else v + 1)" "next1 \<noteq> 1"
  then show "((used, next1), used, n) \<in> measure (\<lambda>(used, n). 2 ^ 64 - unat n)" using key_loop_less by simp
qed simp

declare key_loop.simps [simp del]

definition GenerateRequestKeyLocked :: "int \<Rightarrow> task_mgr \<Rightarrow> RequestKey \<times> task_mgr" where
  "GenerateRequestKeyLocked now m =
     (let m1 = PurgeExpiredCancellationRecordsLocked now m;
          (reqKey, next1) = key_loop (\<lambda>k. map_of (tm_taskMap m1) k \<noteq> None \<or> map_of (tm_cancellationRecordMap m1) k \<noteq> None)
            (tm_nextReqKeyValue m1)
      in (reqKey, m1\<lparr>tm_nextReqKeyValue := next1\<rparr>))"

definition same_file :: "string \<Rightarrow> string \<Rightarrow> u32 \<Rightarrow> PlaceholderTaskRecord \<Rightarrow> bool" where
  "same_file syncFolder filePath syncFolderIndex r \<longleftrightarrow>
     t_syncFolder r = syncFolder \<and> t_filePath r = filePath \<and> t_syncFolderIndex r = syncFolderIndex"

definition HasOutstandingTask :: "string \<Rightarrow> string \<Rightarrow> u32 \<Rightarrow> task_mgr \<Rightarrow> bool" where
  "HasOutstandingTask syncFolder filePath syncFolderIndex m \<longleftrightarrow>
     tasks_where (\<lambda>r. same_file syncFolder filePath syncFolderIndex r \<and> outstanding r) m \<noteq> []"

definition PrepareHydrateTaskLocked ::
  "int \<Rightarrow> string \<Rightarrow> string \<Rightarrow> string \<Rightarrow> u32 \<Rightarrow> task_mgr \<Rightarrow> int \<times> RequestKey \<times> task_mgr" where
  "PrepareHydrateTaskLocked now syncFolder filePath bundleName syncFolderIndex m =
     (if tm_stopping m then (E_TRY_AGAIN, [], m)
      else if HasOutstandingTask syncFolder filePath syncFolderIndex m then (E_HYDRATE_IN_PROGRESS, [], m)
      else if count_tasks (\<lambda>r. t_state r = PENDING \<and> t_bundleName r = bundleName) m \<ge> CLOUD_DISK_MAX_PENDING_TASKS_PER_APP \<or>
              count_tasks (\<lambda>r. t_state r = PENDING) m \<ge> CLOUD_DISK_MAX_PENDING_TASKS_GLOBAL
      then (E_HYDRATION_TASK_LIMIT_REACHED, [], m)
      else if tm_nextCreateSeq m = UINT64_MAX \<and> tm_taskMap m \<noteq> [] then (E_TRY_AGAIN, [], m)
      else let m1 = (if tm_nextCreateSeq m = UINT64_MAX then m\<lparr>tm_nextCreateSeq := 1\<rparr> else m);
               (reqKey, m2) = GenerateRequestKeyLocked now m1
           in if reqKey = [] then (E_TRY_AGAIN, [], m2) else (E_OK, reqKey, m2))"

definition new_task ::
  "RequestKey \<Rightarrow> string \<Rightarrow> string \<Rightarrow> string \<Rightarrow> u32 \<Rightarrow> int \<Rightarrow> file_id \<Rightarrow> u64 \<Rightarrow> u64 \<Rightarrow> PlaceholderTaskRecord" where
  "new_task reqKey syncFolder filePath bundleName syncFolderIndex priority fileId fileSize seq =
     \<lparr>t_reqKey = reqKey, t_syncFolder = syncFolder, t_filePath = filePath, t_bundleName = bundleName,
      t_syncFolderIndex = syncFolderIndex, t_priority = priority, t_hmdfsPath = [], t_mountSyncFolder = [],
      t_fileId = fileId, t_outputFd = None, t_state = PENDING, t_absolutePath = [], t_userId = -1, t_owner = no_owner,
      t_cachedSize = 0, t_terminalProgressSent = False, t_totalSize = fileSize, t_totalSizeInitialized = False,
      t_hasPartialState = False, t_fetchDispatched = False, t_cancelCallbackAttempted = False, t_createSeq = seq\<rparr>"

text \<open>
  \<open>validationFd\<close> is the open file with the size \<open>fstat\<close> gives of it; \<open>None\<close> stands for a negative
  descriptor, and \<open>Some (f, None)\<close> for a failing \<open>fstat\<close>.
\<close>

definition CreateHydrateTask ::
  "int \<Rightarrow> string \<Rightarrow> string \<Rightarrow> string \<Rightarrow> u32 \<Rightarrow> int \<Rightarrow> (file_id \<times> int option) option \<Rightarrow> PlaceholderProgressContext \<Rightarrow>
   task_mgr \<Rightarrow> int \<times> RequestKey \<times> task_mgr" where
  "CreateHydrateTask now syncFolder filePath bundleName syncFolderIndex priority validationFd progressContext m =
     (if syncFolder = [] \<or> filePath = [] \<or> bundleName = [] \<or> validationFd = None \<or> \<not> IsValidPriority priority
      then (E_INVALID_ARG, [], m)
      else case validationFd of
        Some (f, Some statSize) \<Rightarrow>
          if statSize < 0 then (E_TRY_AGAIN, [], m)
          else (case PrepareHydrateTaskLocked now syncFolder filePath bundleName syncFolderIndex m of (ret, reqKey, m1) \<Rightarrow>
             if ret \<noteq> E_OK then (ret, reqKey, m1)
             else let t = tm_new m1;
                      task = SetHydrateProgressContext
                        (new_task reqKey syncFolder filePath bundleName syncFolderIndex priority f (word_of_int statSize) (tm_nextCreateSeq m1))
                        progressContext;
                      m2 = m1\<lparr>tm_obj := (tm_obj m1)(t := task), tm_new := t + 1, tm_nextCreateSeq := tm_nextCreateSeq m1 + 1,
                             tm_taskMap := omap_put reqKey t (tm_taskMap m1)\<rparr>
                  in (E_OK, reqKey, ScheduleDispatch (NotifyProgressLocked no_owner t m2)))
      | _ \<Rightarrow> (E_TRY_AGAIN, [], m))"


section \<open>Cancelling tasks\<close>

primrec cancel_each ::
  "int \<Rightarrow> PlaceholderTaskCancelReason \<Rightarrow> HydrateProgressOwner \<Rightarrow> nat list \<Rightarrow> task_mgr \<Rightarrow> bool \<times> task_mgr" where
  "cancel_each now reason owner [] m = (False, m)"
| "cancel_each now reason owner (t # ts) m =
     (if outstanding (tm_obj m t)
      then (True, snd (cancel_each now reason owner ts (CancelTaskRecordLocked now reason owner t m)))
      else cancel_each now reason owner ts m)"

definition CancelTask :: "int \<Rightarrow> string \<Rightarrow> string \<Rightarrow> u32 \<Rightarrow> HydrateProgressOwner \<Rightarrow> task_mgr \<Rightarrow> int \<times> task_mgr" where
  "CancelTask now syncFolder filePath syncFolderIndex cancelOwner m =
     (case cancel_each now USER_REQUEST cancelOwner (tasks_where (same_file syncFolder filePath syncFolderIndex) m) m of
        (cancelled, m1) \<Rightarrow> (if cancelled then E_OK else E_NO_HYDRATION_IN_PROGRESS, ScheduleDispatch m1))"

definition CancelTasksBySyncFolder :: "int \<Rightarrow> string \<Rightarrow> u32 \<Rightarrow> PlaceholderTaskCancelReason \<Rightarrow> task_mgr \<Rightarrow> task_mgr" where
  "CancelTasksBySyncFolder now bundleName syncFolderIndex reason m =
     ScheduleDispatch (snd (cancel_each now reason no_owner
       (tasks_where (\<lambda>r. t_bundleName r = bundleName \<and> t_syncFolderIndex r = syncFolderIndex) m) m))"

definition CancelAllTasks :: "int \<Rightarrow> PlaceholderTaskCancelReason \<Rightarrow> task_mgr \<Rightarrow> task_mgr" where
  "CancelAllTasks now reason m = ScheduleDispatch (snd (cancel_each now reason no_owner (tasks_where (\<lambda>_. True) m) m))"

definition StartScheduler :: "task_mgr \<Rightarrow> task_mgr" where
  "StartScheduler m = (if tm_running m then m else ScheduleDispatch (m\<lparr>tm_running := True, tm_stopping := False\<rparr>))"

text \<open>Stopping: the part before the wait for the dispatcher and the deadline loop, and the part after it.\<close>

definition stop_begin :: "int \<Rightarrow> task_mgr \<Rightarrow> task_mgr" where
  "stop_begin now m =
     snd (cancel_each now SERVICE_STOP no_owner (tasks_where (\<lambda>_. True) m) (m\<lparr>tm_running := False, tm_stopping := True\<rparr>))"

definition stop_end :: "task_mgr \<Rightarrow> task_mgr" where
  "stop_end m =
     m\<lparr>tm_deadlineMap := [], tm_cancellationRecordMap := [], tm_cancellationOrder := [], tm_dispatchScheduled := False,
       tm_stopping := False\<rparr>"

definition StopScheduler :: "int \<Rightarrow> task_mgr \<Rightarrow> task_mgr" where
  "StopScheduler now m = stop_end (stop_begin now m)"

section \<open>The dispatcher\<close>

definition active_count :: "task_mgr \<Rightarrow> nat" where
  "active_count m = count_tasks (\<lambda>r. t_state r = IN_PROGRESS) m"

definition app_active :: "string \<Rightarrow> task_mgr \<Rightarrow> nat" where
  "app_active bundleName m = count_tasks (\<lambda>r. t_state r = IN_PROGRESS \<and> t_bundleName r = bundleName) m"

definition precedes :: "PlaceholderTaskRecord \<Rightarrow> PlaceholderTaskRecord \<Rightarrow> bool" where
  "precedes task selected \<longleftrightarrow>
     t_priority task > t_priority selected \<or> t_priority task = t_priority selected \<and> t_createSeq task < t_createSeq selected"

primrec select_loop :: "(PlaceholderTaskRecord \<Rightarrow> bool) \<Rightarrow> (nat \<Rightarrow> PlaceholderTaskRecord) \<Rightarrow> nat list \<Rightarrow> nat option \<Rightarrow> nat option" where
  "select_loop skip obj [] selected = selected"
| "select_loop skip obj (t # ts) selected =
     select_loop skip obj ts
       (if skip (obj t) then selected
        else case selected of None \<Rightarrow> Some t | Some s \<Rightarrow> if precedes (obj t) (obj s) then Some t else selected)"

definition SelectNextTaskLocked :: "task_mgr \<Rightarrow> nat option" where
  "SelectNextTaskLocked m =
     (if active_count m \<ge> CLOUD_DISK_MAX_ACTIVE_TASKS_GLOBAL then None
      else select_loop (\<lambda>r. t_state r \<noteq> PENDING \<or> app_active (t_bundleName r) m \<ge> CLOUD_DISK_MAX_ACTIVE_TASKS_PER_APP)
             (tm_obj m) (map snd (tm_taskMap m)) None)"

text \<open>What activation meets: the open calls, the attributes of files, and the result of the provider's callback.\<close>

record activate_env =
  ae_open :: open_env
  ae_attr :: "file_id xstore"
  ae_fetch :: "nat \<Rightarrow> int"

definition ActivateAndDispatch :: "activate_env \<Rightarrow> int \<Rightarrow> nat \<Rightarrow> task_mgr \<Rightarrow> task_mgr" where
  "ActivateAndDispatch env now t m =
     (let task = tm_obj m t
      in if t_state task \<noteq> PENDING then m
         else case OpenValidatedHydrationFile (ae_open env) (ae_attr env) (t_mountSyncFolder task) (t_hmdfsPath task) of
           Inl ret \<Rightarrow> CancelTaskRecordLocked now INTERNAL_ERROR no_owner t m
         | Inr (f, logicalSize) \<Rightarrow>
             if f \<noteq> t_fileId task then CancelTaskRecordLocked now INTERNAL_ERROR no_owner t m
             else let m1 = m\<lparr>tm_events := tm_events m @ [FetchData t]\<rparr>
                  in if ae_fetch env t \<noteq> E_OK then CancelTaskRecordLocked now DISPATCH_FAILED no_owner t m1
                     else NotifyProgressLocked no_owner t (RefreshDeadlineLocked now t
                            (upd_task t (\<lambda>r. r\<lparr>t_outputFd := Some f, t_totalSize := logicalSize, t_fetchDispatched := True,
                               t_state := IN_PROGRESS\<rparr>) m1)))"

definition dispatch_select :: "task_mgr \<Rightarrow> nat option \<times> task_mgr" where
  "dispatch_select m =
     (if \<not> tm_running m \<or> tm_stopping m then (None, m\<lparr>tm_dispatchScheduled := False\<rparr>)
      else case SelectNextTaskLocked m of
        None \<Rightarrow> (None, m\<lparr>tm_dispatchScheduled := False\<rparr>) | Some t \<Rightarrow> (Some t, m))"

section \<open>Deadlines\<close>

text \<open>
  A round of the deadline loop: when the earliest deadline has passed at \<open>now\<close>, the tasks of all
  passed deadlines are cancelled if their deadline, read again at \<open>later\<close>, still has passed.
\<close>

primrec expire_each :: "int \<Rightarrow> RequestKey list \<Rightarrow> task_mgr \<Rightarrow> task_mgr" where
  "expire_each later [] m = m"
| "expire_each later (k # ks) m =
     expire_each later ks
       (case map_of (tm_taskMap m) k of
          None \<Rightarrow> m
        | Some t \<Rightarrow> (case map_of (tm_deadlineMap m) k of
            None \<Rightarrow> m | Some deadline \<Rightarrow> if deadline \<le> later then CancelTaskRecordLocked later TIMEOUT no_owner t m else m))"

definition deadline_round :: "int \<Rightarrow> int \<Rightarrow> task_mgr \<Rightarrow> task_mgr" where
  "deadline_round now later m =
     (let expired = map fst (filter (\<lambda>(_, deadline). deadline \<le> now) (tm_deadlineMap m))
      in if \<not> tm_running m \<or> expired = [] then m else ScheduleDispatch (expire_each later expired m))"


section \<open>Delivering data\<close>

type_synonym exec_state = "task_mgr \<times> hyd_files"

text \<open>
  The outcomes of the calls on the output file: the errors of its attributes, of \<open>fsync\<close>, and the
  results of \<open>pwrite\<close>.
\<close>

record exec_env =
  xe_xerr :: "file_id xerr"
  xe_fsync :: int
  xe_pwrite :: "int list"

definition hydration_state :: "exec_env \<Rightarrow> hyd_files \<Rightarrow> file_id option \<Rightarrow> int + u8" where
  "hydration_state env fs outputFd =
     (case outputFd of
        None \<Rightarrow> Inl EBADF
      | Some f \<Rightarrow> (case GetFilePlaceholderState (xe_xerr env) (hf_attr fs) f of
                     (ret, None) \<Rightarrow> Inl ret | (ret, Some placeholderState) \<Rightarrow> Inr placeholderState))"

definition write_state :: "exec_env \<Rightarrow> hyd_files \<Rightarrow> file_id option \<Rightarrow> u8 \<Rightarrow> int \<times> hyd_files" where
  "write_state env fs outputFd newState =
     (case outputFd of
        None \<Rightarrow> (ConvertHydrationIoError EBADF, fs)
      | Some f \<Rightarrow>
          (case SetFilePlaceholderState (xe_xerr env) (hf_attr fs) f newState of (ret, oldState, attr) \<Rightarrow>
             (if ret \<noteq> E_OK then ConvertHydrationIoError ret
              else case oldState of
                None \<Rightarrow> E_TRY_AGAIN
              | Some old \<Rightarrow> if \<not> IsValidPlaceholderState old then E_INVALID_PLACEHOLDER_STATE
                           else if old \<noteq> PLACEHOLDER_STATE_UNHYDRATED \<and> old \<noteq> PLACEHOLDER_STATE_PARTIALLY_HYDRATED then E_TRY_AGAIN
                           else E_OK,
              fs\<lparr>hf_attr := attr\<rparr>)))"

definition EnsurePartialStateLocked :: "exec_env \<Rightarrow> nat \<Rightarrow> exec_state \<Rightarrow> int \<times> exec_state" where
  "EnsurePartialStateLocked env t s =
     (case s of (m, fs) \<Rightarrow>
        let task = tm_obj m t;
            finish = upd_task t (\<lambda>r. r\<lparr>t_hasPartialState := True\<rparr>) m
        in if t_hasPartialState task then (E_OK, s)
           else case hydration_state env fs (t_outputFd task) of
             Inl ret \<Rightarrow> (ConvertHydrationStateError ret, s)
           | Inr placeholderState \<Rightarrow>
               if \<not> IsValidPlaceholderState placeholderState then (E_INVALID_PLACEHOLDER_STATE, s)
               else if placeholderState \<noteq> PLACEHOLDER_STATE_UNHYDRATED \<and> placeholderState \<noteq> PLACEHOLDER_STATE_PARTIALLY_HYDRATED
               then (E_TRY_AGAIN, s)
               else if placeholderState = PLACEHOLDER_STATE_UNHYDRATED
               then (case write_state env fs (t_outputFd task) PLACEHOLDER_STATE_PARTIALLY_HYDRATED of (ret, fs1) \<Rightarrow>
                       if ret \<noteq> E_OK then (ret, m, fs1) else (E_OK, finish, fs1))
               else (E_OK, finish, fs))"

definition SetCompleteStateLocked :: "exec_env \<Rightarrow> nat \<Rightarrow> exec_state \<Rightarrow> int \<times> exec_state" where
  "SetCompleteStateLocked env t s =
     (case s of (m, fs) \<Rightarrow>
        let task = tm_obj m t
        in case hydration_state env fs (t_outputFd task) of
             Inl ret \<Rightarrow> (ConvertHydrationStateError ret, s)
           | Inr placeholderState \<Rightarrow>
               if \<not> IsValidPlaceholderState placeholderState then (E_INVALID_PLACEHOLDER_STATE, s)
               else if placeholderState \<noteq> PLACEHOLDER_STATE_UNHYDRATED \<and> placeholderState \<noteq> PLACEHOLDER_STATE_PARTIALLY_HYDRATED
               then (E_TRY_AGAIN, s)
               else case write_state env fs (t_outputFd task) PLACEHOLDER_STATE_FULLY_HYDRATED of (ret, fs1) \<Rightarrow> (ret, m, fs1))"

definition CommitFetchDataLocked :: "exec_env \<Rightarrow> nat \<Rightarrow> CallbackExecuteRequest \<Rightarrow> exec_state \<Rightarrow> int \<times> exec_state" where
  "CommitFetchDataLocked env t request s =
     (if \<not> rq_isComplete request then EnsurePartialStateLocked env t s
      else if xe_fsync env \<noteq> 0 then (ConvertHydrationIoError (xe_fsync env), s)
      else if rq_size request \<noteq> 0
      then (case EnsurePartialStateLocked env t s of (ret, s1) \<Rightarrow> if ret \<noteq> E_OK then (ret, s1) else SetCompleteStateLocked env t s1)
      else SetCompleteStateLocked env t s)"

definition ExecuteFetchDataLocked :: "exec_env \<Rightarrow> int \<Rightarrow> nat \<Rightarrow> CallbackExecuteRequest \<Rightarrow> exec_state \<Rightarrow> int \<times> exec_state" where
  "ExecuteFetchDataLocked env now t request s =
     (case s of (m, fs) \<Rightarrow>
        if IsInvalidFetchDataRequest (tm_obj m t) request then (E_INVALID_ARG, s)
        else case t_outputFd (tm_obj m t) of
          None \<Rightarrow> (E_TRY_AGAIN, ScheduleDispatch (CancelTaskRecordLocked now INTERNAL_ERROR no_owner t m), fs)
        | Some f \<Rightarrow>
            let m1 = upd_task t (\<lambda>r. r\<lparr>t_totalSize := rq_totalSize request, t_totalSizeInitialized := True\<rparr>) m
            in case WriteHydrationData (xe_pwrite env) f request fs of (ret, fs1) \<Rightarrow>
                 if ret \<noteq> E_OK then (ret, m1, fs1)
                 else case CommitFetchDataLocked env t request (m1, fs1) of (ret1, m2, fs2) \<Rightarrow>
                   if ret1 \<noteq> E_OK then (ret1, m2, fs2)
                   else let m3 = upd_task t (\<lambda>r. r\<lparr>t_cachedSize := t_cachedSize r +
                                   min (rq_size request) (if t_cachedSize r < t_totalSize r then t_totalSize r - t_cachedSize r else 0)\<rparr>) m2
                        in (E_OK,
                            if rq_isComplete request
                            then ScheduleDispatch (EraseTaskLocked t (NotifyProgressLocked no_owner t (upd_task t (\<lambda>r. r\<lparr>t_state := COMPLETED\<rparr>) m3)))
                            else NotifyProgressLocked no_owner t (RefreshDeadlineLocked now t m3),
                            fs2))"

definition Execute :: "exec_env \<Rightarrow> int \<Rightarrow> string \<Rightarrow> u32 \<Rightarrow> CallbackExecuteRequest \<Rightarrow> exec_state \<Rightarrow> int \<times> exec_state" where
  "Execute env now callerBundleName syncFolderIndex request s =
     (case s of (m, fs) \<Rightarrow>
        if rq_reqKey request = [] \<or> length (rq_reqKey request) > 8 \<or> (rq_callbackType request \<noteq> 0 \<and> rq_callbackType request \<noteq> 1)
        then (E_INVALID_ARG, s)
        else case map_of (tm_taskMap m) (rq_reqKey request) of
          None \<Rightarrow> (case FindCancellationResultLocked now callerBundleName syncFolderIndex request m of (ret, m1) \<Rightarrow> (ret, m1, fs))
        | Some t \<Rightarrow>
            let task = tm_obj m t
            in if t_bundleName task \<noteq> callerBundleName \<or> t_syncFolderIndex task \<noteq> syncFolderIndex then (E_CALLBACK_NOT_REGISTERED, s)
               else if t_syncFolder task \<noteq> rq_syncFolder request \<or> t_filePath task \<noteq> rq_filePath request then (E_INVALID_ARG, s)
               else case t_state task of
                 CANCELLED \<Rightarrow> (E_CANCELLED, s)
               | COMPLETED \<Rightarrow> (E_NO_HYDRATION_IN_PROGRESS, s)
               | PENDING \<Rightarrow> (E_TRY_AGAIN, s)
               | IN_PROGRESS \<Rightarrow>
                   if rq_callbackType request = 1
                   then (E_OK, ScheduleDispatch (CancelTaskRecordLocked now USER_REQUEST no_owner t m), fs)
                   else ExecuteFetchDataLocked env now t request s)"

definition GetTaskState :: "RequestKey \<Rightarrow> task_mgr \<Rightarrow> PlaceholderTaskState option" where
  "GetTaskState reqKey m = map_option (task_state m) (map_of (tm_taskMap m) reqKey)"

end
