(* ===== verification/Hydration_Limits.thy ===== *)
theory Hydration_Limits
  imports Hydration_Tasks
begin

text \<open>
  Invariants of the hydration task manager over interleaved steps: the limits on pending and active
  tasks, one outstanding task per file, the order of selection, and the end of the dispatch loop.
\<close>

section \<open>Effects of the parts\<close>

named_theorems task_frame "what an operation leaves of the task state"

lemma upd_task_sel [simp]:
  "tm_obj (upd_task t f m) = (tm_obj m)(t := f (tm_obj m t))" "tm_new (upd_task t f m) = tm_new m"
  "tm_taskMap (upd_task t f m) = tm_taskMap m" "tm_events (upd_task t f m) = tm_events m"
  "tm_nextCreateSeq (upd_task t f m) = tm_nextCreateSeq m" "tm_cancellationRecordMap (upd_task t f m) = tm_cancellationRecordMap m"
  "tm_cancellationOrder (upd_task t f m) = tm_cancellationOrder m" "tm_deadlineMap (upd_task t f m) = tm_deadlineMap m"
  "tm_running (upd_task t f m) = tm_running m" "tm_stopping (upd_task t f m) = tm_stopping m"
  "tm_dispatchScheduled (upd_task t f m) = tm_dispatchScheduled m"
  by (simp_all add: upd_task_def)

lemma purge_frame [task_frame]:
  "tm_obj (PurgeExpiredCancellationRecordsLocked now m) = tm_obj m" "tm_new (PurgeExpiredCancellationRecordsLocked now m) = tm_new m"
  "tm_taskMap (PurgeExpiredCancellationRecordsLocked now m) = tm_taskMap m"
  "tm_events (PurgeExpiredCancellationRecordsLocked now m) = tm_events m"
  "tm_nextCreateSeq (PurgeExpiredCancellationRecordsLocked now m) = tm_nextCreateSeq m"
  "tm_running (PurgeExpiredCancellationRecordsLocked now m) = tm_running m"
  "tm_stopping (PurgeExpiredCancellationRecordsLocked now m) = tm_stopping m"
  by (simp_all add: PurgeExpiredCancellationRecordsLocked_def Let_def)

lemma add_record_frame [task_frame]:
  "tm_obj (AddCancellationRecordLocked now t m) = tm_obj m" "tm_new (AddCancellationRecordLocked now t m) = tm_new m"
  "tm_taskMap (AddCancellationRecordLocked now t m) = tm_taskMap m"
  "tm_events (AddCancellationRecordLocked now t m) = tm_events m"
  "tm_nextCreateSeq (AddCancellationRecordLocked now t m) = tm_nextCreateSeq m"
  "tm_running (AddCancellationRecordLocked now t m) = tm_running m"
  "tm_stopping (AddCancellationRecordLocked now t m) = tm_stopping m"
  by (simp_all add: AddCancellationRecordLocked_def Let_def task_frame split: prod.splits)

lemma schedule_frame [task_frame]:
  "tm_obj (ScheduleDispatch m) = tm_obj m" "tm_new (ScheduleDispatch m) = tm_new m" "tm_taskMap (ScheduleDispatch m) = tm_taskMap m"
  "tm_events (ScheduleDispatch m) = tm_events m" "tm_nextCreateSeq (ScheduleDispatch m) = tm_nextCreateSeq m"
  "tm_cancellationRecordMap (ScheduleDispatch m) = tm_cancellationRecordMap m"
  "tm_cancellationOrder (ScheduleDispatch m) = tm_cancellationOrder m"
  "tm_running (ScheduleDispatch m) = tm_running m" "tm_stopping (ScheduleDispatch m) = tm_stopping m"
  by (simp_all add: ScheduleDispatch_def)

lemma refresh_frame [task_frame]:
  "tm_obj (RefreshDeadlineLocked now t m) = tm_obj m" "tm_new (RefreshDeadlineLocked now t m) = tm_new m"
  "tm_taskMap (RefreshDeadlineLocked now t m) = tm_taskMap m" "tm_events (RefreshDeadlineLocked now t m) = tm_events m"
  "tm_nextCreateSeq (RefreshDeadlineLocked now t m) = tm_nextCreateSeq m"
  "tm_cancellationRecordMap (RefreshDeadlineLocked now t m) = tm_cancellationRecordMap m"
  "tm_cancellationOrder (RefreshDeadlineLocked now t m) = tm_cancellationOrder m"
  "tm_running (RefreshDeadlineLocked now t m) = tm_running m" "tm_stopping (RefreshDeadlineLocked now t m) = tm_stopping m"
  by (simp_all add: RefreshDeadlineLocked_def Let_def)

lemma notify_frame [task_frame]:
  "tm_new (NotifyProgressLocked w t m) = tm_new m" "tm_taskMap (NotifyProgressLocked w t m) = tm_taskMap m"
  "tm_nextCreateSeq (NotifyProgressLocked w t m) = tm_nextCreateSeq m"
  "tm_cancellationRecordMap (NotifyProgressLocked w t m) = tm_cancellationRecordMap m"
  "tm_cancellationOrder (NotifyProgressLocked w t m) = tm_cancellationOrder m"
  "tm_running (NotifyProgressLocked w t m) = tm_running m" "tm_stopping (NotifyProgressLocked w t m) = tm_stopping m"
  by (simp_all add: NotifyProgressLocked_def Let_def)

lemma notify_obj:
  "tm_obj (NotifyProgressLocked w t m) =
     (if t_terminalProgressSent (tm_obj m t) then tm_obj m
      else (tm_obj m)(t := (tm_obj m t)\<lparr>t_terminalProgressSent := (task_state m t = COMPLETED \<or> task_state m t = CANCELLED)\<rparr>))"
  by (simp add: NotifyProgressLocked_def Let_def)

lemma erase_frame [task_frame]:
  "tm_obj (EraseTaskLocked t m) = (tm_obj m)(t := (tm_obj m t)\<lparr>t_outputFd := None\<rparr>)" "tm_new (EraseTaskLocked t m) = tm_new m"
  "tm_events (EraseTaskLocked t m) = tm_events m" "tm_nextCreateSeq (EraseTaskLocked t m) = tm_nextCreateSeq m"
  "tm_taskMap (EraseTaskLocked t m) =
     (if map_of (tm_taskMap m) (t_reqKey (tm_obj m t)) = Some t then omap_del (t_reqKey (tm_obj m t)) (tm_taskMap m) else tm_taskMap m)"
  "tm_cancellationRecordMap (EraseTaskLocked t m) = tm_cancellationRecordMap m"
  "tm_cancellationOrder (EraseTaskLocked t m) = tm_cancellationOrder m"
  "tm_running (EraseTaskLocked t m) = tm_running m" "tm_stopping (EraseTaskLocked t m) = tm_stopping m"
  by (simp_all add: EraseTaskLocked_def Let_def)

text \<open>The part of a record that no step changes.\<close>

definition ident :: "PlaceholderTaskRecord \<Rightarrow> RequestKey \<times> string \<times> string \<times> string \<times> u32 \<times> int \<times> u64" where
  "ident r = (t_reqKey r, t_syncFolder r, t_filePath r, t_bundleName r, t_syncFolderIndex r, t_priority r, t_createSeq r)"

lemma ident_upd [simp]:
  "ident (r\<lparr>t_state := s\<rparr>) = ident r" "ident (r\<lparr>t_outputFd := f\<rparr>) = ident r" "ident (r\<lparr>t_terminalProgressSent := b\<rparr>) = ident r"
  "ident (r\<lparr>t_cancelCallbackAttempted := b\<rparr>) = ident r" "ident (r\<lparr>t_totalSize := n\<rparr>) = ident r"
  "ident (r\<lparr>t_totalSizeInitialized := b\<rparr>) = ident r" "ident (r\<lparr>t_hasPartialState := b\<rparr>) = ident r"
  "ident (r\<lparr>t_fetchDispatched := b\<rparr>) = ident r" "ident (r\<lparr>t_cachedSize := n\<rparr>) = ident r"
  by (simp_all add: ident_def)

lemma identD:
  "ident r = ident s \<Longrightarrow> t_reqKey r = t_reqKey s \<and> t_syncFolder r = t_syncFolder s \<and> t_filePath r = t_filePath s \<and>
     t_bundleName r = t_bundleName s \<and> t_syncFolderIndex r = t_syncFolderIndex s \<and> t_priority r = t_priority s \<and> t_createSeq r = t_createSeq s"
  by (simp add: ident_def)

lemma cancel_effect:
  fixes now :: int and reason :: PlaceholderTaskCancelReason and w :: HydrateProgressOwner
  assumes "outstanding (tm_obj m t)"
  defines "m' \<equiv> CancelTaskRecordLocked now reason w t m"
  shows "tm_new m' = tm_new m" "tm_nextCreateSeq m' = tm_nextCreateSeq m" "t' \<noteq> t \<Longrightarrow> tm_obj m' t' = tm_obj m t'"
    "ident (tm_obj m' t) = ident (tm_obj m t)" "task_state m' t = CANCELLED"
    "tm_taskMap m' = (if map_of (tm_taskMap m) (t_reqKey (tm_obj m t)) = Some t then omap_del (t_reqKey (tm_obj m t)) (tm_taskMap m) else tm_taskMap m)"
    "tm_running m' = tm_running m" "tm_stopping m' = tm_stopping m"
  using assms(1) unfolding m'_def CancelTaskRecordLocked_def
  by (simp_all add: Let_def task_frame notify_obj)

lemma cancel_not_outstanding: "\<not> outstanding (tm_obj m t) \<Longrightarrow> CancelTaskRecordLocked now reason w t m = m"
  by (simp add: CancelTaskRecordLocked_def)

section \<open>Steps that only remove tasks\<close>

definition tasks_ok :: "task_mgr \<Rightarrow> bool" where
  "tasks_ok m \<longleftrightarrow> omap_ok (tm_taskMap m) \<and>
     (\<forall>k t. (k, t) \<in> set (tm_taskMap m) \<longrightarrow> t < tm_new m \<and> t_reqKey (tm_obj m t) = k \<and> outstanding (tm_obj m t)) \<and>
     (\<forall>t < tm_new m. outstanding (tm_obj m t) \<longrightarrow> (t_reqKey (tm_obj m t), t) \<in> set (tm_taskMap m))"

lemma tasks_ok_mem: "tasks_ok m \<Longrightarrow> (k, t) \<in> set (tm_taskMap m) \<Longrightarrow> t < tm_new m \<and> t_reqKey (tm_obj m t) = k \<and> outstanding (tm_obj m t)"
  by (simp add: tasks_ok_def)

lemma tasks_ok_key: "tasks_ok m \<Longrightarrow> (k, t) \<in> set (tm_taskMap m) \<Longrightarrow> (k, t') \<in> set (tm_taskMap m) \<Longrightarrow> t = t'"
  using omap_ok_distinct by (auto simp: tasks_ok_def dest: eq_key_imp_eq_value)

text \<open>No task appears or becomes active; what stays in the map keeps its state.\<close>

definition shrinks :: "task_mgr \<Rightarrow> task_mgr \<Rightarrow> bool" where
  "shrinks m m' \<longleftrightarrow> tm_new m' = tm_new m \<and> tm_nextCreateSeq m' = tm_nextCreateSeq m \<and>
     (\<forall>t. ident (tm_obj m' t) = ident (tm_obj m t)) \<and>
     tm_taskMap m' = filter (\<lambda>e. outstanding (tm_obj m' (snd e))) (tm_taskMap m) \<and>
     (\<forall>t. outstanding (tm_obj m' t) \<longrightarrow> task_state m' t = task_state m t)"

lemma shrinks_refl: "tasks_ok m \<Longrightarrow> shrinks m m"
  by (auto simp: shrinks_def tasks_ok_def intro!: filter_True [symmetric])

lemma shrinks_trans: "shrinks m m1 \<Longrightarrow> shrinks m1 m2 \<Longrightarrow> shrinks m m2"
  unfolding shrinks_def by (auto intro!: filter_cong simp: outstanding_def)

lemma shrinks_ok:
  assumes ok: "tasks_ok m" and s: "shrinks m m'"
  shows "tasks_ok m'"
proof -
  have id: "t_reqKey (tm_obj m' t) = t_reqKey (tm_obj m t)" for t using s identD by (metis shrinks_def)
  have st: "outstanding (tm_obj m t)" if "outstanding (tm_obj m' t)" for t using s that by (auto simp: shrinks_def outstanding_def)
  have map: "tm_taskMap m' = filter (\<lambda>e. outstanding (tm_obj m' (snd e))) (tm_taskMap m)" and new: "tm_new m' = tm_new m"
    using s by (simp_all add: shrinks_def)
  have mem: "(k, t) \<in> set (tm_taskMap m') \<longleftrightarrow> (k, t) \<in> set (tm_taskMap m) \<and> outstanding (tm_obj m' t)" for k t by (simp add: map)
  show ?thesis unfolding tasks_ok_def
  proof (intro conjI allI impI)
    show "omap_ok (tm_taskMap m')" unfolding map by (rule omap_ok_filter) (use ok in \<open>simp add: tasks_ok_def\<close>)
    fix k t assume "(k, t) \<in> set (tm_taskMap m')"
    then have k: "(k, t) \<in> set (tm_taskMap m)" "outstanding (tm_obj m' t)" by (simp_all only: mem)
    then show "t < tm_new m'" "t_reqKey (tm_obj m' t) = k" "outstanding (tm_obj m' t)" using ok by (auto simp: new id tasks_ok_def)
  next
    fix t assume "t < tm_new m'" "outstanding (tm_obj m' t)"
    then show "(t_reqKey (tm_obj m' t), t) \<in> set (tm_taskMap m')" using ok st by (simp add: mem new id tasks_ok_def)
  qed
qed

lemma shrinks_same:
  assumes "tasks_ok m" and "tm_new m' = tm_new m" "tm_nextCreateSeq m' = tm_nextCreateSeq m" "tm_taskMap m' = tm_taskMap m"
    and same: "\<And>t. ident (tm_obj m' t) = ident (tm_obj m t) \<and> task_state m' t = task_state m t"
  shows "shrinks m m'"
proof -
  have "outstanding (tm_obj m' t) = outstanding (tm_obj m t)" for t using same [of t] by (simp add: outstanding_def)
  then show ?thesis using assms shrinks_refl [OF assms(1)] by (simp add: shrinks_def)
qed

text \<open>A task ends: it gets a final state and leaves the map.\<close>

lemma shrinks_finish:
  assumes ok: "tasks_ok m" and t: "t < tm_new m" "outstanding (tm_obj m t)"
    and e: "tm_new m' = tm_new m" "tm_nextCreateSeq m' = tm_nextCreateSeq m" "\<And>u. u \<noteq> t \<Longrightarrow> tm_obj m' u = tm_obj m u"
      "ident (tm_obj m' t) = ident (tm_obj m t)" "\<not> outstanding (tm_obj m' t)"
    and del: "tm_taskMap m' = (if map_of (tm_taskMap m) (t_reqKey (tm_obj m t)) = Some t then omap_del (t_reqKey (tm_obj m t)) (tm_taskMap m) else tm_taskMap m)"
  shows "shrinks m m'"
proof -
  have mem: "(t_reqKey (tm_obj m t), t) \<in> set (tm_taskMap m)" and dist: "omap_ok (tm_taskMap m)" using ok t by (auto simp: tasks_ok_def)
  then have "tm_taskMap m' = omap_del (t_reqKey (tm_obj m t)) (tm_taskMap m)" using del by (simp add: map_of_iff)
  also have "\<dots> = filter (\<lambda>x. outstanding (tm_obj m' (snd x))) (tm_taskMap m)"
  proof (unfold omap_del_def, rule filter_cong [OF refl])
    fix x assume "x \<in> set (tm_taskMap m)"
    then obtain k t' where x: "x = (k, t')" "(k, t') \<in> set (tm_taskMap m)" by (metis surj_pair)
    show "fst x \<noteq> t_reqKey (tm_obj m t) \<longleftrightarrow> outstanding (tm_obj m' (snd x))"
    proof (cases "t' = t")
      case True
      then show ?thesis using tasks_ok_mem [OF ok x(2)] e(5) x(1) by simp
    next
      case False
      then have "k \<noteq> t_reqKey (tm_obj m t)" using tasks_ok_key [OF ok x(2)] mem by blast
      then show ?thesis using False e(3) tasks_ok_mem [OF ok x(2)] x(1) by simp
    qed
  qed
  finally have map: "tm_taskMap m' = filter (\<lambda>x. outstanding (tm_obj m' (snd x))) (tm_taskMap m)" .
  have "ident (tm_obj m' u) = ident (tm_obj m u)" for u using e(3,4) by (cases "u = t") simp_all
  moreover have "outstanding (tm_obj m' u) \<longrightarrow> task_state m' u = task_state m u" for u using e(3,5) by (cases "u = t") simp_all
  ultimately show ?thesis using e(1,2) map by (simp add: shrinks_def)
qed

lemma shrinks_cancel:
  assumes ok: "tasks_ok m" and t: "t < tm_new m"
  shows "shrinks m (CancelTaskRecordLocked now reason w t m)"
proof (cases "outstanding (tm_obj m t)")
  case False
  then show ?thesis using shrinks_refl [OF ok] by (simp add: cancel_not_outstanding)
next
  case True
  note e = cancel_effect [OF True, where now = now and reason = reason and w = w]
  show ?thesis using e by (intro shrinks_finish [OF ok t True]) (simp_all add: outstanding_def)
qed

lemma shrinks_frame [simp]: "shrinks m (ScheduleDispatch m') = shrinks m m'" "tasks_ok (ScheduleDispatch m) = tasks_ok m"
  by (simp_all add: shrinks_def tasks_ok_def task_frame)

lemma shrinks_cancel_each:
  "tasks_ok m \<Longrightarrow> \<forall>t \<in> set ts. t < tm_new m \<Longrightarrow> shrinks m (snd (cancel_each now reason w ts m))"
proof (induction ts arbitrary: m)
  case (Cons t ts)
  let ?m1 = "CancelTaskRecordLocked now reason w t m"
  have s: "shrinks m ?m1" using Cons.prems shrinks_cancel by simp
  then have ok: "tasks_ok ?m1" "tm_new ?m1 = tm_new m" using Cons.prems shrinks_ok by (auto simp: shrinks_def)
  show ?case
  proof (cases "outstanding (tm_obj m t)")
    case True
    have "shrinks ?m1 (snd (cancel_each now reason w ts ?m1))" using Cons ok by simp
    then show ?thesis using True shrinks_trans [OF s] by simp
  qed (use Cons in simp)
qed (simp add: shrinks_refl)

lemma tasks_where_new: "tasks_ok m \<Longrightarrow> t \<in> set (tasks_where P m) \<Longrightarrow> t < tm_new m"
  by (auto simp: tasks_where_def dest: tasks_ok_mem)

lemma shrinks_expire_each: "tasks_ok m \<Longrightarrow> shrinks m (expire_each later ks m)"
proof (induction ks arbitrary: m)
  case (Cons k ks)
  define m1 where "m1 = (case map_of (tm_taskMap m) k of None \<Rightarrow> m
        | Some t \<Rightarrow> (case map_of (tm_deadlineMap m) k of
            None \<Rightarrow> m | Some deadline \<Rightarrow> if deadline \<le> later then CancelTaskRecordLocked later TIMEOUT no_owner t m else m))"
  have "shrinks m m1" using Cons.prems
    by (auto simp: m1_def shrinks_refl dest!: map_of_SomeD tasks_ok_mem [OF Cons.prems] intro: shrinks_cancel split: option.split)
  moreover have "expire_each later (k # ks) m = expire_each later ks m1" by (simp add: m1_def)
  ultimately show ?case using Cons.IH Cons.prems shrinks_ok shrinks_trans by metis
qed (simp add: shrinks_refl)


section \<open>Counting\<close>

text \<open>In a well-formed manager the tasks of the map are the outstanding records.\<close>

definition live :: "task_mgr \<Rightarrow> nat set" where
  "live m = {t. t < tm_new m \<and> outstanding (tm_obj m t)}"

lemma finite_live [simp]: "finite (live m)"
  by (simp add: live_def)

lemma live_map: "tasks_ok m \<Longrightarrow> live m = snd ` set (tm_taskMap m)"
  unfolding live_def by (force simp: tasks_ok_def)

lemma live_distinct: "tasks_ok m \<Longrightarrow> distinct (map snd (tm_taskMap m))"
proof -
  assume ok: "tasks_ok m"
  have "inj_on snd (set (tm_taskMap m))"
  proof (rule inj_onI)
    fix x y assume "x \<in> set (tm_taskMap m)" "y \<in> set (tm_taskMap m)" "snd x = snd y"
    then show "x = y" using tasks_ok_mem [OF ok] by (metis prod.collapse)
  qed
  moreover have "distinct (tm_taskMap m)" using ok omap_ok_distinct by (auto simp: tasks_ok_def distinct_map)
  ultimately show ?thesis by (simp add: distinct_map)
qed

lemma count_card:
  assumes "tasks_ok m"
  shows "count_tasks P m = card {t \<in> live m. P (tm_obj m t)}"
proof -
  have "distinct (tasks_where P m)" using live_distinct [OF assms] by (simp add: tasks_where_def distinct_map_filter)
  moreover have "set (tasks_where P m) = {t \<in> live m. P (tm_obj m t)}" by (auto simp: live_map [OF assms] tasks_where_def)
  ultimately show ?thesis by (metis count_tasks_def distinct_card)
qed

lemma shrinks_live: "shrinks m m' \<Longrightarrow> live m' \<subseteq> live m"
  by (auto simp: shrinks_def live_def outstanding_def)

text \<open>Properties of records that depend only on what stays the same while a task lives.\<close>

definition stable :: "(PlaceholderTaskRecord \<Rightarrow> bool) \<Rightarrow> bool" where
  "stable P \<longleftrightarrow> (\<forall>r s. ident r = ident s \<longrightarrow> t_state r = t_state s \<longrightarrow> P r = P s)"

lemma stable_rules [simp]:
  "stable (\<lambda>r. t_state r = st)" "stable (\<lambda>r. t_state r = st \<and> t_bundleName r = b)"
  unfolding stable_def by (metis, metis identD)

lemma shrinks_count:
  assumes "tasks_ok m" "shrinks m m'" "stable P"
  shows "count_tasks P m' \<le> count_tasks P m"
proof -
  have "{t \<in> live m'. P (tm_obj m' t)} \<subseteq> {t \<in> live m. P (tm_obj m t)}"
    using assms(2,3) shrinks_live [OF assms(2)] unfolding stable_def shrinks_def live_def by blast
  then show ?thesis using assms shrinks_ok by (simp add: count_card card_mono)
qed

section \<open>The invariant\<close>

definition limits_ok :: "task_mgr \<Rightarrow> bool" where
  "limits_ok m \<longleftrightarrow> active_count m \<le> CLOUD_DISK_MAX_ACTIVE_TASKS_GLOBAL \<and>
     count_tasks (\<lambda>r. t_state r = PENDING) m \<le> CLOUD_DISK_MAX_PENDING_TASKS_GLOBAL \<and>
     (\<forall>b. app_active b m \<le> CLOUD_DISK_MAX_ACTIVE_TASKS_PER_APP \<and>
          count_tasks (\<lambda>r. t_state r = PENDING \<and> t_bundleName r = b) m \<le> CLOUD_DISK_MAX_PENDING_TASKS_PER_APP)"

definition file_of :: "PlaceholderTaskRecord \<Rightarrow> string \<times> string \<times> u32" where
  "file_of r = (t_syncFolder r, t_filePath r, t_syncFolderIndex r)"

definition unique_ok :: "task_mgr \<Rightarrow> bool" where
  "unique_ok m \<longleftrightarrow> inj_on (\<lambda>t. file_of (tm_obj m t)) (live m) \<and> inj_on (\<lambda>t. t_createSeq (tm_obj m t)) (live m) \<and>
     (\<forall>t \<in> live m. t_createSeq (tm_obj m t) < tm_nextCreateSeq m)"

definition task_inv :: "task_mgr \<Rightarrow> bool" where
  "task_inv m \<longleftrightarrow> tasks_ok m \<and> limits_ok m \<and> unique_ok m"

lemma shrinks_inv:
  assumes inv: "task_inv m" and s: "shrinks m m'"
  shows "task_inv m'"
proof -
  have ok: "tasks_ok m" using inv by (simp add: task_inv_def)
  note c = shrinks_count [OF ok s]
  have id: "file_of (tm_obj m' t) = file_of (tm_obj m t)" "t_createSeq (tm_obj m' t) = t_createSeq (tm_obj m t)" for t
    using s identD [of "tm_obj m' t" "tm_obj m t"] by (auto simp: shrinks_def file_of_def)
  have "limits_ok m'" using inv c [OF stable_rules(1)] c [OF stable_rules(2)] unfolding task_inv_def limits_ok_def active_count_def app_active_def
    by (meson order_trans)
  moreover have "unique_ok m'" using inv shrinks_live [OF s] s
    unfolding task_inv_def unique_ok_def id by (auto simp: shrinks_def intro: inj_on_subset)
  ultimately show ?thesis using shrinks_ok [OF ok s] by (simp add: task_inv_def)
qed

section \<open>New tasks\<close>

lemma key_loop_unused: "fst (key_loop used n) \<noteq> [] \<Longrightarrow> \<not> used (fst (key_loop used n))"
proof (induction used n rule: key_loop.induct)
  case (1 used n)
  let ?v = "if n = 0 then 1 else n"
  let ?n = "if ?v = UINT64_MAX then 1 else ?v + 1"
  have e: "key_loop used n = (if \<not> used (request_key ?v) then (request_key ?v, ?n) else if ?n \<noteq> 1 then key_loop used ?n else ([], ?n))"
    by (subst key_loop.simps) (simp only: Let_def)
  show ?case
  proof (cases "used (request_key ?v) \<and> ?n \<noteq> 1")
    case True
    then have "key_loop used n = key_loop used ?n" using e by presburger
    then show ?thesis using "1.IH" [OF refl refl] True "1.prems" by presburger
  next
    case False
    then show ?thesis using e "1.prems" by (metis fst_conv)
  qed
qed

lemma generate_frame:
  assumes "GenerateRequestKeyLocked now m = (key, m')"
  shows "tm_obj m' = tm_obj m" "tm_new m' = tm_new m" "tm_taskMap m' = tm_taskMap m" "tm_nextCreateSeq m' = tm_nextCreateSeq m"
    "tm_events m' = tm_events m" "key \<noteq> [] \<Longrightarrow> map_of (tm_taskMap m) key = None"
    "tm_cancellationRecordMap m' = tm_cancellationRecordMap (PurgeExpiredCancellationRecordsLocked now m)"
    "tm_cancellationOrder m' = tm_cancellationOrder (PurgeExpiredCancellationRecordsLocked now m)"
proof -
  let ?m1 = "PurgeExpiredCancellationRecordsLocked now m"
  let ?used = "\<lambda>k. map_of (tm_taskMap ?m1) k \<noteq> None \<or> map_of (tm_cancellationRecordMap ?m1) k \<noteq> None"
  obtain k n where kl: "key_loop ?used (tm_nextReqKeyValue ?m1) = (k, n)" by (rule prod.exhaust)
  then have e: "key = k" "m' = ?m1\<lparr>tm_nextReqKeyValue := n\<rparr>"
    using assms unfolding GenerateRequestKeyLocked_def Let_def by simp_all
  then show "tm_obj m' = tm_obj m" "tm_new m' = tm_new m" "tm_taskMap m' = tm_taskMap m" "tm_nextCreateSeq m' = tm_nextCreateSeq m"
    "tm_events m' = tm_events m" "tm_cancellationRecordMap m' = tm_cancellationRecordMap ?m1" "tm_cancellationOrder m' = tm_cancellationOrder ?m1"
    by (simp_all add: task_frame)
  show "map_of (tm_taskMap m) key = None" if "key \<noteq> []"
    using key_loop_unused [of ?used "tm_nextReqKeyValue ?m1"] kl e(1) that by (simp add: task_frame)
qed


lemma prepare_frame:
  assumes p: "PrepareHydrateTaskLocked now syncFolder filePath bundleName idx m = (ret, key, m')"
  shows "tm_obj m' = tm_obj m" "tm_new m' = tm_new m" "tm_taskMap m' = tm_taskMap m" "tm_events m' = tm_events m"
    "tm_nextCreateSeq m' = tm_nextCreateSeq m \<or> tm_taskMap m = []"
    "ret = E_OK \<Longrightarrow> \<not> HasOutstandingTask syncFolder filePath idx m \<and> map_of (tm_taskMap m) key = None \<and> key \<noteq> [] \<and>
       tm_nextCreateSeq m' \<noteq> UINT64_MAX \<and> count_tasks (\<lambda>r. t_state r = PENDING) m < CLOUD_DISK_MAX_PENDING_TASKS_GLOBAL \<and>
       count_tasks (\<lambda>r. t_state r = PENDING \<and> t_bundleName r = bundleName) m < CLOUD_DISK_MAX_PENDING_TASKS_PER_APP"
proof -
  let ?m1 = "if tm_nextCreateSeq m = UINT64_MAX then m\<lparr>tm_nextCreateSeq := 1\<rparr> else m"
  obtain k m2 where g: "GenerateRequestKeyLocked now ?m1 = (k, m2)" by (rule prod.exhaust)
  note f = generate_frame [OF g]
  show "tm_obj m' = tm_obj m" "tm_new m' = tm_new m" "tm_taskMap m' = tm_taskMap m" "tm_events m' = tm_events m"
    "tm_nextCreateSeq m' = tm_nextCreateSeq m \<or> tm_taskMap m = []"
    using p f(1-5) g unfolding PrepareHydrateTaskLocked_def Let_def by (auto split: if_splits)
  show "\<not> HasOutstandingTask syncFolder filePath idx m \<and> map_of (tm_taskMap m) key = None \<and> key \<noteq> [] \<and>
       tm_nextCreateSeq m' \<noteq> UINT64_MAX \<and> count_tasks (\<lambda>r. t_state r = PENDING) m < CLOUD_DISK_MAX_PENDING_TASKS_GLOBAL \<and>
       count_tasks (\<lambda>r. t_state r = PENDING \<and> t_bundleName r = bundleName) m < CLOUD_DISK_MAX_PENDING_TASKS_PER_APP" if "ret = E_OK"
    using p f(3,4,6) g that unfolding PrepareHydrateTaskLocked_def Let_def by (auto split: if_splits)
qed

lemma count_insert:
  assumes "tasks_ok m" "tasks_ok m'" "live m' = insert t (live m)" "t \<notin> live m" "\<And>u. u \<in> live m \<Longrightarrow> tm_obj m' u = tm_obj m u"
  shows "count_tasks P m' = count_tasks P m + of_bool (P (tm_obj m' t))"
proof -
  have "{u \<in> live m'. P (tm_obj m' u)} = (if P (tm_obj m' t) then insert t {u \<in> live m. P (tm_obj m u)} else {u \<in> live m. P (tm_obj m u)})"
    using assms(3,5) by auto
  then show ?thesis using assms by (simp add: count_card)
qed

lemma unat_succ: "n \<noteq> UINT64_MAX \<Longrightarrow> unat (n + 1) = unat n + 1"
proof -
  assume "n \<noteq> UINT64_MAX"
  then have "unat n \<noteq> unat UINT64_MAX" by (simp only: word_unat_eq_iff not_False_eq_True)
  then have "unat n \<noteq> 18446744073709551615" by simp
  moreover have "unat n < 18446744073709551616" using unsigned_less [of n] by simp
  ultimately show ?thesis by (simp add: unat_word_ariths)
qed

lemma add_task_ok:
  assumes ok: "tasks_ok m" and r: "t_reqKey r = key" "t_state r = PENDING" and fresh: "map_of (tm_taskMap m) key = None"
    and m': "tm_obj m' = (tm_obj m)(tm_new m := r)" "tm_new m' = tm_new m + 1" "tm_taskMap m' = omap_put key (tm_new m) (tm_taskMap m)"
  shows "tasks_ok m'" "live m' = insert (tm_new m) (live m)" "tm_new m \<notin> live m"
proof -
  have nk: "key \<notin> fst ` set (tm_taskMap m)" using fresh by (simp add: map_of_eq_None_iff)
  have map: "set (tm_taskMap m') = insert (key, tm_new m) (set (tm_taskMap m))" using set_put_new [OF nk] m'(3) by simp
  have obj: "tm_obj m' t = (if t = tm_new m then r else tm_obj m t)" for t by (simp add: m'(1))
  show "tasks_ok m'" unfolding tasks_ok_def
  proof (intro conjI allI impI)
    show "omap_ok (tm_taskMap m')" using ok m'(3) by (simp add: tasks_ok_def omap_ok_put)
    fix k t assume "(k, t) \<in> set (tm_taskMap m')"
    then have "(k, t) = (key, tm_new m) \<or> (k, t) \<in> set (tm_taskMap m)" by (simp add: map)
    then show "t < tm_new m'" "t_reqKey (tm_obj m' t) = k" "outstanding (tm_obj m' t)"
      using tasks_ok_mem [OF ok, of k t] r m'(2) by (auto simp: obj outstanding_def)
  next
    fix t assume "t < tm_new m'" "outstanding (tm_obj m' t)"
    then show "(t_reqKey (tm_obj m' t), t) \<in> set (tm_taskMap m')" using ok r(1) m'(2) unfolding map obj tasks_ok_def by auto
  qed
  show "live m' = insert (tm_new m) (live m)" "tm_new m \<notin> live m" using r(2) m'(2) by (auto simp: live_def obj outstanding_def)
qed

lemma inj_on_new_task:
  assumes "live m' = insert t (live m)" "t \<notin> live m" "\<And>u. u \<in> live m \<Longrightarrow> tm_obj m' u = tm_obj m u" "tm_obj m' t = r"
    and "inj_on (\<lambda>t. f (tm_obj m t)) (live m)" "\<forall>t \<in> live m. f (tm_obj m t) \<noteq> f r"
  shows "inj_on (\<lambda>t. f (tm_obj m' t)) (live m')"
proof -
  have "inj_on (\<lambda>t. f (tm_obj m' t)) (live m)"
    using assms(5) inj_on_cong [of "live m" "\<lambda>t. f (tm_obj m' t)" "\<lambda>t. f (tm_obj m t)"] assms(3) by simp
  moreover have "f (tm_obj m' t) \<notin> (\<lambda>t. f (tm_obj m' t)) ` live m" using assms(3,4,6) by (auto simp: image_iff)
  ultimately show ?thesis using assms(2) by (simp add: assms(1) inj_on_insert)
qed

lemma add_task_inv:
  assumes inv: "task_inv m" and r: "t_reqKey r = key" "t_state r = PENDING" "t_createSeq r = tm_nextCreateSeq m"
    and fresh: "map_of (tm_taskMap m) key = None" and new: "\<forall>t \<in> live m. file_of (tm_obj m t) \<noteq> file_of r"
    and seq: "tm_nextCreateSeq m \<noteq> UINT64_MAX" and room: "count_tasks (\<lambda>r. t_state r = PENDING) m < 40"
      "count_tasks (\<lambda>s. t_state s = PENDING \<and> t_bundleName s = t_bundleName r) m < 20"
    and m': "tm_obj m' = (tm_obj m)(tm_new m := r)" "tm_new m' = tm_new m + 1" "tm_taskMap m' = omap_put key (tm_new m) (tm_taskMap m)"
      "tm_nextCreateSeq m' = tm_nextCreateSeq m + 1"
  shows "task_inv m'"
proof -
  have ok: "tasks_ok m" using inv by (simp add: task_inv_def)
  note a = add_task_ok [OF ok r(1,2) fresh m'(1-3)]
  have same: "tm_obj m' u = tm_obj m u" if "u \<in> live m" for u using that by (auto simp: m'(1) live_def)
  have new': "tm_obj m' (tm_new m) = r" by (simp add: m'(1))
  have c: "count_tasks P m' = count_tasks P m + of_bool (P r)" for P
    using count_insert [OF ok a, of P] same new' by simp
  have "limits_ok m'" using inv room r(2) unfolding task_inv_def limits_ok_def active_count_def app_active_def c by auto
  moreover have "unique_ok m'"
  proof -
    have nx: "s \<le> tm_nextCreateSeq m \<Longrightarrow> s < tm_nextCreateSeq m + 1" for s using unat_succ [OF seq] by (simp add: word_less_nat_alt word_le_nat_alt)
    have u: "unique_ok m" using inv by (simp add: task_inv_def)
    note ins = inj_on_new_task [OF a(2,3) same new']
    have seqs: "\<forall>t \<in> live m. t_createSeq (tm_obj m t) < t_createSeq r" using u r(3) by (simp add: unique_ok_def)
    then have "\<forall>t \<in> live m. t_createSeq (tm_obj m t) \<noteq> t_createSeq r" by auto
    moreover have "\<forall>t \<in> live m'. t_createSeq (tm_obj m' t) < tm_nextCreateSeq m'"
      using seqs r(3) same new' by (auto simp: a(2) m'(4) intro!: nx)
    ultimately show ?thesis using u new ins [where f = file_of] ins [where f = t_createSeq] unfolding unique_ok_def by blast
  qed
  ultimately show ?thesis using a(1) by (simp add: task_inv_def)
qed


lemma frame_inv:
  assumes "task_inv m" and "tm_obj m' = tm_obj m" "tm_new m' = tm_new m" "tm_taskMap m' = tm_taskMap m"
    and "tm_nextCreateSeq m' = tm_nextCreateSeq m \<or> tm_taskMap m = []"
  shows "task_inv m'"
proof -
  have ok: "tasks_ok m" "tasks_ok m'" and live: "live m' = live m" using assms by (auto simp: task_inv_def tasks_ok_def live_def)
  have c: "count_tasks P m' = count_tasks P m" for P by (simp add: count_tasks_def tasks_where_def assms(2,4))
  have "tm_taskMap m = [] \<Longrightarrow> live m = {}" using live_map [OF ok(1)] by simp
  then show ?thesis using assms ok live unfolding task_inv_def limits_ok_def unique_ok_def active_count_def app_active_def c by auto
qed

lemma notify_shrinks:
  assumes "tasks_ok m"
  shows "shrinks m (NotifyProgressLocked w t m)"
  by (rule shrinks_same [OF assms]) (simp_all add: task_frame notify_obj)

lemma notify_inv: "task_inv m \<Longrightarrow> task_inv (NotifyProgressLocked w t m)"
  using shrinks_inv notify_shrinks by (metis task_inv_def)

lemma schedule_inv [simp]: "task_inv (ScheduleDispatch m) = task_inv m"
  by (rule iffI; erule frame_inv) (simp_all add: task_frame)

lemma context_sel [simp]:
  "t_reqKey (SetHydrateProgressContext r c) = t_reqKey r" "t_state (SetHydrateProgressContext r c) = t_state r"
  "t_createSeq (SetHydrateProgressContext r c) = t_createSeq r" "t_bundleName (SetHydrateProgressContext r c) = t_bundleName r"
  "file_of (SetHydrateProgressContext r c) = file_of r" "t_cachedSize (SetHydrateProgressContext r c) = t_cachedSize r"
  "t_terminalProgressSent (SetHydrateProgressContext r c) = t_terminalProgressSent r"
  by (simp_all add: SetHydrateProgressContext_def file_of_def)

lemma has_outstanding_iff:
  assumes "tasks_ok m"
  shows "HasOutstandingTask syncFolder filePath idx m \<longleftrightarrow> (\<exists>t \<in> live m. file_of (tm_obj m t) = (syncFolder, filePath, idx))"
proof -
  have "HasOutstandingTask syncFolder filePath idx m \<longleftrightarrow>
      (\<exists>t \<in> snd ` set (tm_taskMap m). same_file syncFolder filePath idx (tm_obj m t) \<and> outstanding (tm_obj m t))"
    by (auto simp: HasOutstandingTask_def tasks_where_def filter_empty_conv)
  also have "\<dots> \<longleftrightarrow> (\<exists>t \<in> live m. same_file syncFolder filePath idx (tm_obj m t))"
    unfolding live_map [OF assms, symmetric] by (auto simp: live_def)
  finally show ?thesis by (auto simp: same_file_def file_of_def)
qed

lemma create_cases:
  assumes "CreateHydrateTask now syncFolder filePath bundleName idx priority vfd context m = (ret, key, m')"
  obtains (rejected) ret1 where "ret \<noteq> E_OK" "m' = m \<or> PrepareHydrateTaskLocked now syncFolder filePath bundleName idx m = (ret1, key, m')"
  | (created) f n m1 where "ret = E_OK" "PrepareHydrateTaskLocked now syncFolder filePath bundleName idx m = (E_OK, key, m1)" "IsValidPriority priority"
    "m' = ScheduleDispatch (NotifyProgressLocked no_owner (tm_new m1)
       (m1\<lparr>tm_obj := (tm_obj m1)(tm_new m1 := SetHydrateProgressContext
              (new_task key syncFolder filePath bundleName idx priority f n (tm_nextCreateSeq m1)) context),
           tm_new := tm_new m1 + 1, tm_nextCreateSeq := tm_nextCreateSeq m1 + 1, tm_taskMap := omap_put key (tm_new m1) (tm_taskMap m1)\<rparr>))"
  using assms unfolding CreateHydrateTask_def Let_def
  by (auto split: if_splits option.splits prod.splits)

lemma create_inv:
  assumes inv: "task_inv m" and c: "CreateHydrateTask now syncFolder filePath bundleName idx priority vfd context m = (ret, key, m')"
  shows "task_inv m'"
  using c
proof (cases rule: create_cases)
  case (rejected ret1)
  from rejected(2) show ?thesis
  proof
    assume p: "PrepareHydrateTaskLocked now syncFolder filePath bundleName idx m = (ret1, key, m')"
    show ?thesis by (rule frame_inv [OF inv prepare_frame(1-3) [OF p] prepare_frame(5) [OF p]])
  qed (simp add: inv)
next
  case (created f n m1)
  note p = prepare_frame [OF created(2)]
  have inv1: "task_inv m1" using frame_inv [OF inv p(1-3,5)] .
  let ?r = "SetHydrateProgressContext (new_task key syncFolder filePath bundleName idx priority f n (tm_nextCreateSeq m1)) context"
  let ?m2 = "m1\<lparr>tm_obj := (tm_obj m1)(tm_new m1 := ?r), tm_new := tm_new m1 + 1, tm_nextCreateSeq := tm_nextCreateSeq m1 + 1,
           tm_taskMap := omap_put key (tm_new m1) (tm_taskMap m1)\<rparr>"
  have cnt: "count_tasks P m1 = count_tasks P m" for P by (simp add: count_tasks_def tasks_where_def p(1,3))
  have live: "live m1 = live m" by (simp add: live_def p(1,2))
  have "\<forall>t \<in> live m1. file_of (tm_obj m1 t) \<noteq> file_of ?r"
  proof -
    have "file_of ?r = (syncFolder, filePath, idx)" by (simp, simp add: new_task_def file_of_def)
    moreover have "tasks_ok m" using inv by (simp add: task_inv_def)
    ultimately show ?thesis using p(6) has_outstanding_iff [of m] by (auto simp: live p(1))
  qed
  then have "task_inv ?m2" using p(6) by (intro add_task_inv [OF inv1, of ?r key]) (simp_all add: new_task_def cnt p(3))
  then show ?thesis using created(4) notify_inv by simp
qed


section \<open>Delivering data\<close>

text \<open>A change of a record that keeps what the invariants and the progress reports depend on.\<close>

definition quiet :: "PlaceholderTaskRecord \<Rightarrow> PlaceholderTaskRecord \<Rightarrow> bool" where
  "quiet r r' \<longleftrightarrow> ident r' = ident r \<and> t_state r' = t_state r \<and> t_cachedSize r' = t_cachedSize r \<and>
     t_terminalProgressSent r' = t_terminalProgressSent r \<and> t_owner r' = t_owner r"

definition quiet_upd :: "nat \<Rightarrow> task_mgr \<Rightarrow> task_mgr \<Rightarrow> u64 \<Rightarrow> bool" where
  "quiet_upd t m m' n \<longleftrightarrow> (\<exists>r. m' = upd_task t (\<lambda>_. r) m \<and> quiet (tm_obj m t) r \<and> t_totalSize r = n)"

lemma upd_upd [simp]: "upd_task t f (upd_task t g m) = upd_task t (\<lambda>r. f (g r)) m"
  by (simp add: upd_task_def)

lemma upd_id: "upd_task t (\<lambda>_. tm_obj m t) m = m"
  by (simp add: upd_task_def)

lemma quiet_refl: "quiet_upd t m m (t_totalSize (tm_obj m t))"
  unfolding quiet_upd_def by (intro exI [of _ "tm_obj m t"]) (simp add: upd_id quiet_def)

lemma quiet_trans: "quiet_upd t m m1 n1 \<Longrightarrow> quiet_upd t m1 m2 n2 \<Longrightarrow> quiet_upd t m m2 n2"
  by (auto simp: quiet_upd_def quiet_def)

lemma ensure_quiet:
  assumes "EnsurePartialStateLocked env t (m, fs) = (ret, m', fs')"
  shows "quiet_upd t m m' (t_totalSize (tm_obj m t))"
proof -
  have q: "quiet_upd t m (upd_task t (\<lambda>r. r\<lparr>t_hasPartialState := True\<rparr>) m) (t_totalSize (tm_obj m t))"
    unfolding quiet_upd_def by (rule exI [of _ "(tm_obj m t)\<lparr>t_hasPartialState := True\<rparr>"]) (simp add: upd_task_def quiet_def)
  have "m' = m \<or> m' = upd_task t (\<lambda>r. r\<lparr>t_hasPartialState := True\<rparr>) m"
    using assms unfolding EnsurePartialStateLocked_def Let_def by (auto split: if_splits sum.splits prod.splits)
  then show ?thesis using q quiet_refl by auto
qed

lemma complete_same: "SetCompleteStateLocked env t (m, fs) = (ret, m', fs') \<Longrightarrow> m' = m"
  unfolding SetCompleteStateLocked_def Let_def by (auto split: if_splits sum.splits prod.splits)

lemma commit_quiet:
  assumes "CommitFetchDataLocked env t request (m, fs) = (ret, m', fs')"
  shows "quiet_upd t m m' (t_totalSize (tm_obj m t))"
  using assms unfolding CommitFetchDataLocked_def
  by (auto dest: ensure_quiet complete_same intro: quiet_refl split: if_splits prod.splits)

lemma fetch_cases:
  assumes "ExecuteFetchDataLocked env now t request (m, fs) = (ret, m', fs')"
  obtains (invalid) "ret = E_INVALID_ARG" "m' = m" "fs' = fs"
  | (no_file) "m' = ScheduleDispatch (CancelTaskRecordLocked now INTERNAL_ERROR no_owner t m)" "ret = E_TRY_AGAIN" "fs' = fs"
  | (failed) "\<not> IsInvalidFetchDataRequest (tm_obj m t) request" "ret \<noteq> E_OK" "quiet_upd t m m' (rq_totalSize request)"
  | (delivered) f fs1 m1 m2 where "\<not> IsInvalidFetchDataRequest (tm_obj m t) request" "ret = E_OK" "t_outputFd (tm_obj m t) = Some f"
    "WriteHydrationData (xe_pwrite env) f request fs = (E_OK, fs1)" "CommitFetchDataLocked env t request (m1, fs1) = (E_OK, m2, fs')"
    "m1 = upd_task t (\<lambda>r. r\<lparr>t_totalSize := rq_totalSize request, t_totalSizeInitialized := True\<rparr>) m"
    "quiet_upd t m m2 (rq_totalSize request)"
    "m' = (let m3 = upd_task t (\<lambda>r. r\<lparr>t_cachedSize := t_cachedSize r +
                      min (rq_size request) (if t_cachedSize r < t_totalSize r then t_totalSize r - t_cachedSize r else 0)\<rparr>) m2
           in if rq_isComplete request
              then ScheduleDispatch (EraseTaskLocked t (NotifyProgressLocked no_owner t (upd_task t (\<lambda>r. r\<lparr>t_state := COMPLETED\<rparr>) m3)))
              else NotifyProgressLocked no_owner t (RefreshDeadlineLocked now t m3))"
proof (cases "IsInvalidFetchDataRequest (tm_obj m t) request \<or> t_outputFd (tm_obj m t) = None")
  case True
  then show thesis using assms invalid no_file by (auto simp: ExecuteFetchDataLocked_def split: if_splits)
next
  case False
  then obtain f where f: "t_outputFd (tm_obj m t) = Some f" and v: "\<not> IsInvalidFetchDataRequest (tm_obj m t) request" by auto
  define m1 where "m1 = upd_task t (\<lambda>r. r\<lparr>t_totalSize := rq_totalSize request, t_totalSizeInitialized := True\<rparr>) m"
  have q1: "quiet_upd t m m1 (rq_totalSize request)" and tot: "t_totalSize (tm_obj m1 t) = rq_totalSize request"
    unfolding m1_def quiet_upd_def
    by (intro exI [of _ "(tm_obj m t)\<lparr>t_totalSize := rq_totalSize request, t_totalSizeInitialized := True\<rparr>"]) (simp_all add: upd_task_def quiet_def ident_def)
  let ?fin = "\<lambda>m2. let m3 = upd_task t (\<lambda>r. r\<lparr>t_cachedSize := t_cachedSize r +
                      min (rq_size request) (if t_cachedSize r < t_totalSize r then t_totalSize r - t_cachedSize r else 0)\<rparr>) m2
           in if rq_isComplete request
              then ScheduleDispatch (EraseTaskLocked t (NotifyProgressLocked no_owner t (upd_task t (\<lambda>r. r\<lparr>t_state := COMPLETED\<rparr>) m3)))
              else NotifyProgressLocked no_owner t (RefreshDeadlineLocked now t m3)"
  obtain r1 fs1 where w: "WriteHydrationData (xe_pwrite env) f request fs = (r1, fs1)" by (rule prod.exhaust)
  obtain r2 m2 fs2 where c: "CommitFetchDataLocked env t request (m1, fs1) = (r2, m2, fs2)" by (metis prod.exhaust)
  have q2: "quiet_upd t m m2 (rq_totalSize request)" using quiet_trans [OF q1] commit_quiet [OF c] tot by simp
  have x: "(ret, m', fs') = (if r1 \<noteq> E_OK then (r1, m1, fs1) else if r2 \<noteq> E_OK then (r2, m2, fs2)
      else (E_OK, ?fin m2, fs2))"
    unfolding assms [symmetric] ExecuteFetchDataLocked_def Let_def by (simp add: f v w m1_def [symmetric] c)
  show thesis
  proof (cases "r1 = E_OK \<and> r2 = E_OK")
    case True
    then have "ret = E_OK" "m' = ?fin m2" "fs2 = fs'" using x by simp_all
    then show ?thesis using delivered [OF v _ f _ _ m1_def q2] w c True by (simp add: Let_def)
  next
    case False
    then have "ret \<noteq> E_OK" "m' = m1 \<or> m' = m2" using x by (auto split: if_splits)
    then show ?thesis using failed [OF v] q1 q2 by blast
  qed
qed


lemma quiet_shrinks:
  assumes "tasks_ok m" and "quiet_upd t m m' n"
  shows "shrinks m m'"
proof -
  obtain r where m': "m' = upd_task t (\<lambda>_. r) m" and q: "quiet (tm_obj m t) r" using assms(2) by (auto simp: quiet_upd_def)
  show ?thesis by (rule shrinks_same [OF assms(1)]) (use q in \<open>auto simp: m' quiet_def\<close>)
qed

lemma fetch_shrinks:
  assumes ok: "tasks_ok m" and t: "t < tm_new m" "task_state m t = IN_PROGRESS"
    and x: "ExecuteFetchDataLocked env now t request (m, fs) = (ret, m', fs')"
  shows "shrinks m m'"
  using x
proof (cases rule: fetch_cases)
  case (delivered f fs1 m1 m2)
  let ?m3 = "upd_task t (\<lambda>r. r\<lparr>t_cachedSize := t_cachedSize r +
                      min (rq_size request) (if t_cachedSize r < t_totalSize r then t_totalSize r - t_cachedSize r else 0)\<rparr>) m2"
  have s2: "shrinks m m2" by (rule quiet_shrinks [OF ok delivered(7)])
  have ok2: "tasks_ok m2" by (rule shrinks_ok [OF ok s2])
  have "shrinks m2 ?m3" by (rule shrinks_same [OF ok2]) auto
  then have s3: "shrinks m ?m3" by (rule shrinks_trans [OF s2])
  have ok3: "tasks_ok ?m3" by (rule shrinks_ok [OF ok s3])
  have st: "task_state ?m3 t = IN_PROGRESS" "t < tm_new ?m3" using delivered(7) t by (auto simp: quiet_upd_def quiet_def)
  show ?thesis
  proof (cases "rq_isComplete request")
    case True
    have "shrinks ?m3 (EraseTaskLocked t (NotifyProgressLocked no_owner t (upd_task t (\<lambda>r. r\<lparr>t_state := COMPLETED\<rparr>) ?m3)))"
      by (rule shrinks_finish [OF ok3 st(2)]) (use st(1) in \<open>auto simp: outstanding_def task_frame notify_obj\<close>)
    then show ?thesis using delivered(8) True shrinks_trans [OF s3] by (simp add: Let_def)
  next
    case False
    have r: "tasks_ok (RefreshDeadlineLocked now t ?m3)" "shrinks ?m3 (RefreshDeadlineLocked now t ?m3)"
      using ok3 shrinks_refl [OF ok3] by (simp_all add: tasks_ok_def shrinks_def task_frame)
    show ?thesis using delivered(8) False shrinks_trans [OF shrinks_trans [OF s3 r(2)] notify_shrinks [OF r(1)]] by (simp add: Let_def)
  qed
qed (use ok t shrinks_cancel quiet_shrinks shrinks_refl in auto)

lemma execute_shrinks:
  assumes ok: "tasks_ok m" and x: "Execute env now b idx request (m, fs) = (ret, m', fs')"
  shows "shrinks m m'"
proof (cases "map_of (tm_taskMap m) (rq_reqKey request)")
  case None
  have "m' = m \<or> m' = PurgeExpiredCancellationRecordsLocked now m"
    using x None unfolding Execute_def FindCancellationResultLocked_def Let_def by (auto split: if_splits)
  then show ?thesis
  proof
    assume "m' = PurgeExpiredCancellationRecordsLocked now m"
    then show ?thesis by (intro shrinks_same [OF ok]) (simp_all add: task_frame)
  qed (simp add: shrinks_refl ok)
next
  case (Some t)
  then have t: "t < tm_new m" "outstanding (tm_obj m t)" using tasks_ok_mem [OF ok] map_of_SomeD by metis+
  have "m' = m \<or> m' = ScheduleDispatch (CancelTaskRecordLocked now USER_REQUEST no_owner t m) \<or>
      task_state m t = IN_PROGRESS \<and> ExecuteFetchDataLocked env now t request (m, fs) = (ret, m', fs')"
    using x Some unfolding Execute_def Let_def by (auto split: if_splits PlaceholderTaskState.splits)
  then show ?thesis using fetch_shrinks [OF ok t(1)] shrinks_cancel [OF ok t(1)] shrinks_refl [OF ok] by auto
qed

section \<open>Activation\<close>

lemma count_change:
  assumes "tasks_ok m" "tasks_ok m'" "live m' = live m" "t \<in> live m" "\<And>u. u \<noteq> t \<Longrightarrow> tm_obj m' u = tm_obj m u"
  shows "count_tasks P m' + of_bool (P (tm_obj m t)) = count_tasks P m + of_bool (P (tm_obj m' t))"
proof -
  let ?S = "{u \<in> live m - {t}. P (tm_obj m u)}"
  have "{u \<in> live m. P (tm_obj m u)} = (if P (tm_obj m t) then insert t ?S else ?S)" using assms(4) by auto
  moreover have "{u \<in> live m'. P (tm_obj m' u)} = (if P (tm_obj m' t) then insert t ?S else ?S)"
    unfolding assms(3) using assms(4,5) by (auto split: if_splits) (metis assms(5))+
  ultimately show ?thesis using assms(1,2) by (simp add: count_card)
qed

lemma activate_cases:
  obtains (idle) "task_state m t \<noteq> PENDING" "ActivateAndDispatch env now t m = m"
  | (cancelled) reason m1 where "task_state m t = PENDING" "m1 = m \<or> m1 = m\<lparr>tm_events := tm_events m @ [FetchData t]\<rparr>"
      "ActivateAndDispatch env now t m = CancelTaskRecordLocked now reason no_owner t m1"
  | (activated) f n where "task_state m t = PENDING" "f = t_fileId (tm_obj m t)"
      "OpenValidatedHydrationFile (ae_open env) (ae_attr env) (t_mountSyncFolder (tm_obj m t)) (t_hmdfsPath (tm_obj m t)) = Inr (f, n)"
      "ActivateAndDispatch env now t m = NotifyProgressLocked no_owner t (RefreshDeadlineLocked now t
         (upd_task t (\<lambda>r. r\<lparr>t_outputFd := Some f, t_totalSize := n, t_fetchDispatched := True, t_state := IN_PROGRESS\<rparr>)
           (m\<lparr>tm_events := tm_events m @ [FetchData t]\<rparr>)))"
proof (cases "task_state m t = PENDING")
  case False
  then show thesis using idle by (simp add: ActivateAndDispatch_def Let_def)
next
  case True
  show thesis
  proof (cases "OpenValidatedHydrationFile (ae_open env) (ae_attr env) (t_mountSyncFolder (tm_obj m t)) (t_hmdfsPath (tm_obj m t))")
    case (Inl e)
    show thesis by (rule cancelled [of m INTERNAL_ERROR]) (use True Inl in \<open>simp_all add: ActivateAndDispatch_def Let_def\<close>)
  next
    case (Inr p)
    obtain f n where p: "p = (f, n)" by (rule prod.exhaust)
    let ?m1 = "m\<lparr>tm_events := tm_events m @ [FetchData t]\<rparr>"
    consider "f \<noteq> t_fileId (tm_obj m t)" | "f = t_fileId (tm_obj m t)" "ae_fetch env t \<noteq> 0" | "f = t_fileId (tm_obj m t)" "ae_fetch env t = 0" by blast
    then show thesis
    proof cases
      case 1
      show thesis by (rule cancelled [of m INTERNAL_ERROR]) (use True Inr p 1 in \<open>simp_all add: ActivateAndDispatch_def Let_def\<close>)
    next
      case 2
      show thesis by (rule cancelled [of ?m1 DISPATCH_FAILED]) (use True Inr p 2 in \<open>simp_all add: ActivateAndDispatch_def Let_def\<close>)
    next
      case 3
      show thesis by (rule activated [of f n]) (use True Inr p 3 in \<open>simp_all add: ActivateAndDispatch_def Let_def\<close>)
    qed
  qed
qed

end
