(* ===== verification/Hydration_Reach.thy ===== *)
theory Hydration_Reach
  imports Hydration_Limits
begin

text \<open>
  The hydration service as interleaved steps, and what holds in every state it reaches: the choice
  of the next task, the dispatch loop, the limits, and one outstanding task per file.
\<close>

section \<open>The choice of the next task\<close>

lemma precedes_trans: "precedes a b \<Longrightarrow> precedes b c \<Longrightarrow> precedes a c"
  by (auto simp: precedes_def)

lemma precedes_neg_trans: "\<not> precedes a b \<Longrightarrow> \<not> precedes b c \<Longrightarrow> \<not> precedes a c"
  by (auto simp: precedes_def)

lemma precedes_total: "\<not> precedes a b \<Longrightarrow> t_createSeq a \<noteq> t_createSeq b \<Longrightarrow> precedes b a"
  by (auto simp: precedes_def)

lemma precedes_irrefl: "\<not> precedes a a"
  by (simp add: precedes_def)

lemma select_loop_None: "select_loop skip obj ts sel = None \<longleftrightarrow> sel = None \<and> (\<forall>t \<in> set ts. skip (obj t))"
  by (induction ts arbitrary: sel) (auto split: option.splits)

lemma select_loop_Some:
  "select_loop skip obj ts sel = Some s \<Longrightarrow>
     (sel = Some s \<or> s \<in> set ts \<and> \<not> skip (obj s)) \<and> (\<forall>t \<in> set ts. \<not> skip (obj t) \<longrightarrow> \<not> precedes (obj t) (obj s)) \<and>
     (\<forall>s0. sel = Some s0 \<longrightarrow> \<not> precedes (obj s0) (obj s))"
proof (induction ts arbitrary: sel)
  case Nil
  then show ?case by (simp add: precedes_irrefl)
next
  case (Cons t ts)
  let ?sel = "if skip (obj t) then sel else case sel of None \<Rightarrow> Some t | Some s \<Rightarrow> if precedes (obj t) (obj s) then Some t else sel"
  have ih: "(?sel = Some s \<or> s \<in> set ts \<and> \<not> skip (obj s)) \<and> (\<forall>t \<in> set ts. \<not> skip (obj t) \<longrightarrow> \<not> precedes (obj t) (obj s)) \<and>
     (\<forall>s0. ?sel = Some s0 \<longrightarrow> \<not> precedes (obj s0) (obj s))"
    using Cons by simp
  then show ?case
    by (cases sel; cases "skip (obj t)") (auto split: if_splits dest: precedes_trans precedes_neg_trans)
qed

definition eligible :: "task_mgr \<Rightarrow> nat set" where
  "eligible m = {t \<in> live m. task_state m t = PENDING \<and> app_active (t_bundleName (tm_obj m t)) m < CLOUD_DISK_MAX_ACTIVE_TASKS_PER_APP}"

lemma select_facts:
  assumes "tasks_ok m"
  shows "SelectNextTaskLocked m = None \<longleftrightarrow> active_count m \<ge> CLOUD_DISK_MAX_ACTIVE_TASKS_GLOBAL \<or> eligible m = {}"
    "SelectNextTaskLocked m = Some t \<Longrightarrow> active_count m < CLOUD_DISK_MAX_ACTIVE_TASKS_GLOBAL \<and> t \<in> eligible m \<and>
       (\<forall>u \<in> eligible m. \<not> precedes (tm_obj m u) (tm_obj m t))"
proof -
  let ?skip = "\<lambda>r. t_state r \<noteq> PENDING \<or> app_active (t_bundleName r) m \<ge> CLOUD_DISK_MAX_ACTIVE_TASKS_PER_APP"
  have map: "set (map snd (tm_taskMap m)) = live m" using live_map [OF assms] by simp
  have elig: "eligible m = {t \<in> live m. \<not> ?skip (tm_obj m t)}" by (auto simp: eligible_def)
  show "SelectNextTaskLocked m = None \<longleftrightarrow> active_count m \<ge> CLOUD_DISK_MAX_ACTIVE_TASKS_GLOBAL \<or> eligible m = {}"
    unfolding SelectNextTaskLocked_def elig by (auto simp: select_loop_None map simp del: set_map)
  show "active_count m < CLOUD_DISK_MAX_ACTIVE_TASKS_GLOBAL \<and> t \<in> eligible m \<and> (\<forall>u \<in> eligible m. \<not> precedes (tm_obj m u) (tm_obj m t))"
    if "SelectNextTaskLocked m = Some t"
    using that select_loop_Some [of ?skip "tm_obj m" "map snd (tm_taskMap m)" None t] unfolding SelectNextTaskLocked_def elig
    by (auto simp: map simp del: set_map split: if_splits)
qed

lemma select_next_precedes:
  assumes "task_inv m"
  shows "(SelectNextTaskLocked m = Some t \<longleftrightarrow> active_count m < CLOUD_DISK_MAX_ACTIVE_TASKS_GLOBAL \<and> t \<in> eligible m \<and>
      (\<forall>u \<in> eligible m. u \<noteq> t \<longrightarrow> precedes (tm_obj m t) (tm_obj m u))) \<and>
    (SelectNextTaskLocked m = None \<longleftrightarrow> active_count m \<ge> CLOUD_DISK_MAX_ACTIVE_TASKS_GLOBAL \<or> eligible m = {})"
    (is "(?l \<longleftrightarrow> ?r) \<and> _")
proof -
  have ok: "tasks_ok m" using assms by (simp add: task_inv_def)
  note f = select_facts [OF ok]
  have seq: "t_createSeq (tm_obj m u) \<noteq> t_createSeq (tm_obj m v)" if "u \<in> eligible m" "v \<in> eligible m" "u \<noteq> v" for u v
    using assms that by (auto simp: task_inv_def unique_ok_def eligible_def inj_on_def)
  have "?l \<longleftrightarrow> ?r"
  proof
    assume ?l then show ?r using f(2) seq precedes_total by metis
  next
    assume r: ?r
    then obtain s where s: "SelectNextTaskLocked m = Some s" using f(1) by fastforce
    show ?l
    proof (rule ccontr)
      assume "\<not> ?l"
      then have "s \<noteq> t" using s by auto
      then have "precedes (tm_obj m t) (tm_obj m s)" using r f(2) [OF s] by blast
      then show False using f(2) [OF s] r by blast
    qed
  qed
  then show ?thesis using f(1) by blast
qed

section \<open>The dispatch loop\<close>

lemma filter_less:
  assumes "\<And>x. x \<in> set xs \<Longrightarrow> A x \<Longrightarrow> B x" and "y \<in> set xs" "B y" "\<not> A y"
  shows "length (filter A xs) < length (filter B xs)"
proof -
  have "filter A xs = filter A (filter B xs)" using assms(1) by (auto intro!: filter_cong simp: filter_filter)
  then show ?thesis using assms(2-4) length_filter_less [of y "filter B xs" A] by auto
qed

text \<open>Activation of the chosen task leaves one pending task less in the map.\<close>

lemma activate_less:
  assumes t: "t \<in> snd ` set (tm_taskMap m)" "task_state m t = PENDING"
  shows "count_tasks (\<lambda>r. t_state r = PENDING) (ActivateAndDispatch env now t m) < count_tasks (\<lambda>r. t_state r = PENDING) m"
proof -
  let ?m' = "ActivateAndDispatch env now t m"
  have e: "task_state ?m' t \<noteq> PENDING \<and> (\<forall>u. u \<noteq> t \<longrightarrow> tm_obj ?m' u = tm_obj m u) \<and> (\<exists>Q. tm_taskMap ?m' = filter Q (tm_taskMap m))"
  proof (cases rule: activate_cases [of m t env now])
    case (cancelled reason m1)
    have out: "outstanding (tm_obj m1 t)" using cancelled(1,2) by (auto simp: outstanding_def)
    note c = cancel_effect [OF out, where now = now and reason = reason and w = no_owner]
    have "tm_taskMap ?m' = omap_del (t_reqKey (tm_obj m t)) (tm_taskMap m) \<or> tm_taskMap ?m' = filter (\<lambda>_. True) (tm_taskMap m)"
      using c(6) cancelled(2,3) by auto
    then have "\<exists>Q. tm_taskMap ?m' = filter Q (tm_taskMap m)" unfolding omap_del_def by blast
    then show ?thesis using c(3,5) cancelled(2,3) by auto
  next
    case (activated f n)
    have "tm_taskMap ?m' = filter (\<lambda>_. True) (tm_taskMap m)" by (simp add: activated(4) task_frame)
    then have "\<exists>Q. tm_taskMap ?m' = filter Q (tm_taskMap m)" by blast
    then show ?thesis by (auto simp: activated(4) task_frame notify_obj)
  qed (use t in simp)
  then obtain Q where Q: "tm_taskMap ?m' = filter Q (tm_taskMap m)" by blast
  obtain k where k: "(k, t) \<in> set (tm_taskMap m)" using t(1) by auto
  have "count_tasks (\<lambda>r. t_state r = PENDING) ?m' = length (filter (\<lambda>x. Q x \<and> task_state ?m' (snd x) = PENDING) (tm_taskMap m))"
    by (simp add: count_tasks_def tasks_where_def Q filter_filter conj_commute)
  also have "\<dots> < length (filter (\<lambda>x. task_state m (snd x) = PENDING) (tm_taskMap m))"
  proof (rule filter_less [OF _ k])
    show "task_state m (snd x) = PENDING" if "Q x \<and> task_state ?m' (snd x) = PENDING" for x
      using that e by (cases "snd x = t") auto
  qed (use t e in auto)
  finally show ?thesis by (simp add: count_tasks_def tasks_where_def)
qed

lemma select_pending: "SelectNextTaskLocked m = Some t \<Longrightarrow> t \<in> snd ` set (tm_taskMap m) \<and> task_state m t = PENDING"
  by (auto simp: SelectNextTaskLocked_def split: if_splits dest!: select_loop_Some)

lemma dispatch_select_Some: "dispatch_select m = (Some t, m1) \<Longrightarrow> m1 = m \<and> SelectNextTaskLocked m = Some t \<and> tm_running m \<and> \<not> tm_stopping m"
  by (auto simp: dispatch_select_def split: if_splits option.splits)

function DispatchLoop :: "(nat \<Rightarrow> activate_env) \<Rightarrow> (nat \<Rightarrow> int) \<Rightarrow> task_mgr \<Rightarrow> task_mgr" where
  "DispatchLoop env now m =
     (case dispatch_select m of (None, m1) \<Rightarrow> m1 | (Some t, m1) \<Rightarrow> DispatchLoop env now (ActivateAndDispatch (env t) (now t) t m1))"
  by pat_completeness auto
termination
  by (relation "measure (\<lambda>(env, now, m). count_tasks (\<lambda>r. t_state r = PENDING) m)")
    (auto dest!: sym [of "(Some _, _)"] dispatch_select_Some intro: activate_less dest: select_pending)

declare DispatchLoop.simps [simp del]


lemma events_frame:
  "tasks_ok (m\<lparr>tm_events := es\<rparr>) = tasks_ok m" "task_inv (m\<lparr>tm_events := es\<rparr>) = task_inv m" "live (m\<lparr>tm_events := es\<rparr>) = live m"
  "count_tasks P (m\<lparr>tm_events := es\<rparr>) = count_tasks P m" "shrinks m (m\<lparr>tm_events := es\<rparr>) = shrinks m m"
  by (simp_all add: tasks_ok_def live_def count_tasks_def tasks_where_def shrinks_def task_inv_def limits_ok_def unique_ok_def
      active_count_def app_active_def)

lemma set_active_inv:
  assumes inv: "task_inv m" and t: "t \<in> live m" "task_state m t = PENDING"
    and room: "active_count m < CLOUD_DISK_MAX_ACTIVE_TASKS_GLOBAL" "app_active (t_bundleName (tm_obj m t)) m < CLOUD_DISK_MAX_ACTIVE_TASKS_PER_APP"
    and m': "m' = upd_task t f m" "ident (f (tm_obj m t)) = ident (tm_obj m t)" "t_state (f (tm_obj m t)) = IN_PROGRESS"
  shows "task_inv m'"
proof -
  have ok: "tasks_ok m" using inv by (simp add: task_inv_def)
  have id: "ident (tm_obj m' u) = ident (tm_obj m u)" for u using m' by simp
  have out: "outstanding (tm_obj m' u) = outstanding (tm_obj m u)" for u using m' t(2) by (simp add: outstanding_def)
  have ok': "tasks_ok m'" using ok out identD [OF id] m'(1) by (simp add: tasks_ok_def)
  have live: "live m' = live m" using m'(1) out by (simp add: live_def)
  have c: "count_tasks P m' + of_bool (P (tm_obj m t)) = count_tasks P m + of_bool (P (tm_obj m' t))" for P
    by (rule count_change [OF ok ok' live t(1)]) (simp add: m'(1))
  have st: "task_state m' t = IN_PROGRESS" "t_bundleName (tm_obj m' t) = t_bundleName (tm_obj m t)" using m'(1,3) identD [OF m'(2)] by simp_all
  have lim: "limits_ok m'" unfolding limits_ok_def active_count_def app_active_def
  proof (intro conjI allI)
    show "count_tasks (\<lambda>r. t_state r = IN_PROGRESS) m' \<le> 10"
      using room(1) c [of "\<lambda>r. t_state r = IN_PROGRESS"] t(2) st by (simp add: active_count_def)
    show "count_tasks (\<lambda>r. t_state r = PENDING) m' \<le> 40"
      using inv c [of "\<lambda>r. t_state r = PENDING"] t(2) st by (simp add: task_inv_def limits_ok_def)
    fix b
    show "count_tasks (\<lambda>r. t_state r = IN_PROGRESS \<and> t_bundleName r = b) m' \<le> 5"
      using inv room(2) c [of "\<lambda>r. t_state r = IN_PROGRESS \<and> t_bundleName r = b"] t(2) st
      by (cases "b = t_bundleName (tm_obj m t)") (auto simp: task_inv_def limits_ok_def app_active_def dest: spec [of _ b])
    show "count_tasks (\<lambda>r. t_state r = PENDING \<and> t_bundleName r = b) m' \<le> 20"
      using inv c [of "\<lambda>r. t_state r = PENDING \<and> t_bundleName r = b"] t(2) st by (auto simp: task_inv_def limits_ok_def dest: spec [of _ b])
  qed
  have "file_of (tm_obj m' u) = file_of (tm_obj m u)" "t_createSeq (tm_obj m' u) = t_createSeq (tm_obj m u)" for u
    using identD [OF id, of u] by (simp_all add: file_of_def)
  moreover have "tm_nextCreateSeq m' = tm_nextCreateSeq m" by (simp add: m'(1))
  ultimately have "unique_ok m'" using inv by (simp add: task_inv_def unique_ok_def live)
  then show ?thesis using ok' lim by (simp add: task_inv_def)
qed

lemma refresh_inv: "task_inv (RefreshDeadlineLocked now t m) = task_inv m"
  by (rule iffI; erule frame_inv) (simp_all add: task_frame)

lemma activate_inv:
  assumes inv: "task_inv m" and t: "t < tm_new m"
    and room: "task_state m t = PENDING \<Longrightarrow> active_count m < CLOUD_DISK_MAX_ACTIVE_TASKS_GLOBAL \<and>
      app_active (t_bundleName (tm_obj m t)) m < CLOUD_DISK_MAX_ACTIVE_TASKS_PER_APP"
  shows "task_inv (ActivateAndDispatch env now t m)"
proof (cases rule: activate_cases [of m t env now])
  case (cancelled reason m1)
  have inv1: "task_inv m1" "t < tm_new m1" using inv t cancelled(2) by (auto simp: events_frame)
  show ?thesis using shrinks_inv [OF inv1(1) shrinks_cancel] inv1 cancelled(3) by (simp add: task_inv_def)
next
  case (activated f n)
  let ?m1 = "m\<lparr>tm_events := tm_events m @ [FetchData t]\<rparr>"
  let ?f = "\<lambda>r. r\<lparr>t_outputFd := Some f, t_totalSize := n, t_fetchDispatched := True, t_state := IN_PROGRESS\<rparr>"
  have "task_inv (upd_task t ?f ?m1)"
    by (rule set_active_inv [of ?m1 t _ ?f])
      (use inv t activated(1) room in \<open>simp_all add: events_frame live_def outstanding_def active_count_def app_active_def\<close>)
  then show ?thesis by (simp only: activated(4) notify_inv refresh_inv)
qed (simp add: inv)

lemma activate_frame:
  "tm_running (ActivateAndDispatch env now t m) = tm_running m" "tm_stopping (ActivateAndDispatch env now t m) = tm_stopping m"
  "tm_new (ActivateAndDispatch env now t m) = tm_new m"
proof -
  have c: "tm_running (CancelTaskRecordLocked now reason w t m1) = tm_running m1" "tm_stopping (CancelTaskRecordLocked now reason w t m1) = tm_stopping m1"
    "tm_new (CancelTaskRecordLocked now reason w t m1) = tm_new m1" for reason w m1
    using cancel_effect(1,7,8) [of m1 t now reason w] cancel_not_outstanding by (cases "outstanding (tm_obj m1 t)"; simp)+
  show "tm_running (ActivateAndDispatch env now t m) = tm_running m" "tm_stopping (ActivateAndDispatch env now t m) = tm_stopping m"
    "tm_new (ActivateAndDispatch env now t m) = tm_new m"
    by (cases rule: activate_cases [of m t env now]; force simp: c task_frame)+
qed

lemma eligible_room: "t \<in> eligible m \<Longrightarrow> t < tm_new m \<and> app_active (t_bundleName (tm_obj m t)) m < CLOUD_DISK_MAX_ACTIVE_TASKS_PER_APP"
  by (simp add: eligible_def live_def)


lemma dispatch_loop_inv:
  "task_inv m \<Longrightarrow> tm_running m \<Longrightarrow> \<not> tm_stopping m \<Longrightarrow>
     task_inv (DispatchLoop env now m) \<and> \<not> tm_dispatchScheduled (DispatchLoop env now m) \<and>
     SelectNextTaskLocked (DispatchLoop env now m) = None"
proof (induction env now m rule: DispatchLoop.induct)
  case (1 env now m)
  show ?case
  proof (cases "SelectNextTaskLocked m")
    case None
    then have d: "DispatchLoop env now m = m\<lparr>tm_dispatchScheduled := False\<rparr>"
      using 1 by (simp add: DispatchLoop.simps [of _ _ m] dispatch_select_def)
    have "task_inv (m\<lparr>tm_dispatchScheduled := False\<rparr>)" by (rule frame_inv [OF "1.prems"(1)]) simp_all
    moreover have "SelectNextTaskLocked (m\<lparr>tm_dispatchScheduled := False\<rparr>) = SelectNextTaskLocked m"
      by (simp add: SelectNextTaskLocked_def active_count_def app_active_def count_tasks_def tasks_where_def)
    ultimately show ?thesis using d None by simp
  next
    case (Some t)
    let ?m1 = "ActivateAndDispatch (env t) (now t) t m"
    have d: "dispatch_select m = (Some t, m)" using "1.prems" Some by (simp add: dispatch_select_def)
    have f: "active_count m < CLOUD_DISK_MAX_ACTIVE_TASKS_GLOBAL" "t \<in> eligible m"
      using select_facts(2) [OF _ Some] "1.prems"(1) by (auto simp: task_inv_def)
    have "task_inv ?m1" by (rule activate_inv [OF "1.prems"(1)]) (use eligible_room [OF f(2)] f(1) in simp_all)
    moreover have "DispatchLoop env now m = DispatchLoop env now ?m1" using d by (subst DispatchLoop.simps) simp
    ultimately show ?thesis using "1.IH" [OF d [symmetric] refl] "1.prems"(2,3) by (simp add: activate_frame)
  qed
qed

text \<open>
  C28: The dispatch loop returns and keeps the service busy: started in a well-formed running state,
  whatever the open calls and the provider answer, it ends with no further dispatch scheduled, in a
  well-formed state in which the service runs its ten tasks or every task still pending belongs to an
  application that runs its five.\<close>

theorem dispatch_loop_busy:
  assumes "task_inv m" and "tm_running m" and "\<not> tm_stopping m"
  shows "task_inv (DispatchLoop env now m) \<and> \<not> tm_dispatchScheduled (DispatchLoop env now m) \<and>
    (active_count (DispatchLoop env now m) = 10 \<or>
     (\<forall>t \<in> live (DispatchLoop env now m). task_state (DispatchLoop env now m) t = PENDING \<longrightarrow>
        app_active (t_bundleName (tm_obj (DispatchLoop env now m) t)) (DispatchLoop env now m) = 5))"
proof -
  let ?m = "DispatchLoop env now m"
  have i: "task_inv ?m" "\<not> tm_dispatchScheduled ?m" "SelectNextTaskLocked ?m = None" using dispatch_loop_inv [OF assms] by blast+
  have lim: "active_count ?m \<le> 10" "app_active b ?m \<le> 5" for b using i(1) by (auto simp: task_inv_def limits_ok_def)
  have "active_count ?m \<ge> 10 \<or> eligible ?m = {}" using select_facts(1) i(1,3) by (simp add: task_inv_def)
  then show ?thesis
  proof
    assume "eligible ?m = {}"
    then have "app_active (t_bundleName (tm_obj ?m t)) ?m = 5" if "t \<in> live ?m" "task_state ?m t = PENDING" for t
      using that lim(2) [of "t_bundleName (tm_obj ?m t)"] by (auto simp: eligible_def)
    then show ?thesis using i by blast
  qed (use i lim in simp)
qed

section \<open>The service\<close>

text \<open>
  The state of the service: the manager, the files, and the task the dispatcher has chosen but not
  yet activated. The dispatcher runs on a serial queue, so it has one such task at most. Every other
  operation is one step. Starting and stopping exclude each other by a lock, so a start waits until
  the stop has ended, which waits for the dispatcher.
\<close>

record hyd_sys =
  hs_mgr :: task_mgr
  hs_files :: hyd_files
  hs_picked :: "nat option"

definition mgr_init :: "(nat \<Rightarrow> PlaceholderTaskRecord) \<Rightarrow> task_mgr" where
  "mgr_init objs =
     \<lparr>tm_obj = objs, tm_new = 0, tm_taskMap = [], tm_cancellationRecordMap = [], tm_cancellationOrder = [], tm_deadlineMap = [],
      tm_nextReqKeyValue = 1, tm_nextCreateSeq = 1, tm_nextCancellationSeq = 1, tm_running = False, tm_stopping = False,
      tm_dispatchScheduled = False, tm_events = []\<rparr>"

inductive hyd_step :: "hyd_sys \<Rightarrow> hyd_sys \<Rightarrow> bool" where
  create: "CreateHydrateTask now sf fp b i pr vfd ctx (hs_mgr s) = (ret, key, m') \<Longrightarrow> hyd_step s (s\<lparr>hs_mgr := m'\<rparr>)"
| cancel: "CancelTask now sf fp i w (hs_mgr s) = (ret, m') \<Longrightarrow> hyd_step s (s\<lparr>hs_mgr := m'\<rparr>)"
| cancel_folder: "hyd_step s (s\<lparr>hs_mgr := CancelTasksBySyncFolder now b i reason (hs_mgr s)\<rparr>)"
| cancel_all: "hyd_step s (s\<lparr>hs_mgr := CancelAllTasks now reason (hs_mgr s)\<rparr>)"
| clear: "hyd_step s (s\<lparr>hs_mgr := ClearCancellationRecords (hs_mgr s)\<rparr>)"
| start: "\<not> tm_stopping (hs_mgr s) \<Longrightarrow> hyd_step s (s\<lparr>hs_mgr := StartScheduler (hs_mgr s)\<rparr>)"
| stop1: "\<not> tm_stopping (hs_mgr s) \<Longrightarrow> hyd_step s (s\<lparr>hs_mgr := stop_begin now (hs_mgr s)\<rparr>)"
| stop2: "tm_stopping (hs_mgr s) \<Longrightarrow> hs_picked s = None \<Longrightarrow> hyd_step s (s\<lparr>hs_mgr := stop_end (hs_mgr s)\<rparr>)"
| deadlines: "hyd_step s (s\<lparr>hs_mgr := deadline_round now later (hs_mgr s)\<rparr>)"
| execute: "Execute env now b i req (hs_mgr s, hs_files s) = (ret, m', fs') \<Longrightarrow> hyd_step s (s\<lparr>hs_mgr := m', hs_files := fs'\<rparr>)"
| select: "hs_picked s = None \<Longrightarrow> tm_dispatchScheduled (hs_mgr s) \<Longrightarrow> dispatch_select (hs_mgr s) = (t, m') \<Longrightarrow>
    hyd_step s (s\<lparr>hs_mgr := m', hs_picked := t\<rparr>)"
| activate: "hs_picked s = Some t \<Longrightarrow> hyd_step s (s\<lparr>hs_mgr := ActivateAndDispatch env now t (hs_mgr s), hs_picked := None\<rparr>)"
| other: "hyd_step s (s\<lparr>hs_files := fs'\<rparr>)"

inductive hyd_reach :: "hyd_sys \<Rightarrow> bool" where
  init: "hyd_reach \<lparr>hs_mgr = mgr_init objs, hs_files = fs, hs_picked = None\<rparr>"
| step: "hyd_reach s \<Longrightarrow> hyd_step s s' \<Longrightarrow> hyd_reach s'"

definition picked_ok :: "task_mgr \<Rightarrow> nat option \<Rightarrow> bool" where
  "picked_ok m picked \<longleftrightarrow> (\<forall>t. picked = Some t \<longrightarrow> t < tm_new m \<and>
     (task_state m t = PENDING \<longrightarrow> active_count m < CLOUD_DISK_MAX_ACTIVE_TASKS_GLOBAL \<and>
        app_active (t_bundleName (tm_obj m t)) m < CLOUD_DISK_MAX_ACTIVE_TASKS_PER_APP))"

lemma shrinks_picked:
  assumes "tasks_ok m" "shrinks m m'" "picked_ok m p"
  shows "picked_ok m' p"
proof -
  have "active_count m' \<le> active_count m" "app_active b m' \<le> app_active b m" for b
    using shrinks_count [OF assms(1,2)] by (simp_all add: active_count_def app_active_def)
  moreover have "t_bundleName (tm_obj m' t) = t_bundleName (tm_obj m t)" "tm_new m' = tm_new m" for t
    using assms(2) identD by (metis shrinks_def)+
  moreover have "task_state m t = PENDING" if "task_state m' t = PENDING" for t using assms(2) that by (metis outstanding_def shrinks_def)
  ultimately show ?thesis using assms(3) unfolding picked_ok_def by (metis le_less_trans)
qed


lemma create_active:
  assumes inv: "task_inv m" and c: "CreateHydrateTask now syncFolder filePath bundleName idx priority vfd context m = (ret, key, m')"
  shows "active_count m' = active_count m" "app_active b m' = app_active b m" "tm_new m \<le> tm_new m'" "t < tm_new m \<Longrightarrow> tm_obj m' t = tm_obj m t"
proof -
  have "(\<forall>b. active_count m' = active_count m \<and> app_active b m' = app_active b m) \<and> tm_new m \<le> tm_new m' \<and> (\<forall>t < tm_new m. tm_obj m' t = tm_obj m t)"
    using c
  proof (cases rule: create_cases)
    case (rejected ret1)
    then have "tm_obj m' = tm_obj m \<and> tm_new m' = tm_new m \<and> tm_taskMap m' = tm_taskMap m"
      using prepare_frame(1) prepare_frame(2) prepare_frame(3) by metis
    then show ?thesis by (simp add: active_count_def app_active_def count_tasks_def tasks_where_def)
  next
    case (created f n m1)
    note p = prepare_frame [OF created(2)]
    let ?r = "tm_obj m' (tm_new m)"
    have obj: "tm_obj m' u = tm_obj m u" if "u \<noteq> tm_new m" for u using that by (simp add: created(4) task_frame notify_obj p(1,2))
    have r: "t_state ?r = PENDING" by (simp add: created(4) task_frame notify_obj p(1,2)) (simp add: new_task_def)
    have new: "tm_new m' = tm_new m + 1" by (simp add: created(4) task_frame p(2))
    have live: "live m' = insert (tm_new m) (live m)" "tm_new m \<notin> live m"
      using obj r by (auto simp: live_def new outstanding_def less_Suc_eq)
    have ok: "tasks_ok m" "tasks_ok m'" using inv create_inv [OF inv c] by (auto simp: task_inv_def)
    have "count_tasks P m' = count_tasks P m + of_bool (P ?r)" for P
      by (rule count_insert [OF ok live]) (use obj in \<open>auto simp: live_def\<close>)
    then show ?thesis using r obj new by (simp add: active_count_def app_active_def)
  qed
  then show "active_count m' = active_count m" "app_active b m' = app_active b m" "tm_new m \<le> tm_new m'" "t < tm_new m \<Longrightarrow> tm_obj m' t = tm_obj m t"
    by blast+
qed

definition sys_inv :: "hyd_sys \<Rightarrow> bool" where
  "sys_inv s \<longleftrightarrow> task_inv (hs_mgr s) \<and> picked_ok (hs_mgr s) (hs_picked s)"

lemma sys_inv_shrinks: "sys_inv s \<Longrightarrow> shrinks (hs_mgr s) m' \<Longrightarrow> sys_inv (s\<lparr>hs_mgr := m'\<rparr>)"
  using shrinks_inv shrinks_picked by (simp add: sys_inv_def) (metis task_inv_def)

lemma step_shrinks:
  assumes ok: "tasks_ok m"
  shows "shrinks m (snd (CancelTask now sf fp i w m))" "shrinks m (CancelTasksBySyncFolder now b i reason m)" "shrinks m (CancelAllTasks now reason m)"
    "shrinks m (ClearCancellationRecords m)" "shrinks m (StartScheduler m)" "shrinks m (stop_begin now m)" "shrinks m (stop_end m)"
    "shrinks m (deadline_round now later m)" "dispatch_select m = (t, m') \<Longrightarrow> shrinks m m'"
proof -
  note each = shrinks_cancel_each [OF ok]
  have tw: "\<forall>t \<in> set (tasks_where P m). t < tm_new m" for P using tasks_where_new [OF ok] by blast
  show "shrinks m (snd (CancelTask now sf fp i w m))" "shrinks m (CancelTasksBySyncFolder now b i reason m)" "shrinks m (CancelAllTasks now reason m)"
    using each [OF tw] by (simp_all add: CancelTask_def CancelTasksBySyncFolder_def CancelAllTasks_def split: prod.split) (metis snd_conv)
  show "shrinks m (ClearCancellationRecords m)" "shrinks m (stop_end m)"
    by (rule shrinks_same [OF ok]; simp add: ClearCancellationRecords_def stop_end_def)+
  show "shrinks m (StartScheduler m)" by (rule shrinks_same [OF ok]) (simp_all add: StartScheduler_def task_frame)
  show "shrinks m (deadline_round now later m)" using shrinks_expire_each [OF ok] shrinks_refl [OF ok] by (simp add: deadline_round_def Let_def)
  show "shrinks m m'" if "dispatch_select m = (t, m')"
    using that by (intro shrinks_same [OF ok]) (auto simp: dispatch_select_def split: if_splits option.splits)
  let ?m = "m\<lparr>tm_running := False, tm_stopping := True\<rparr>"
  have s: "shrinks m ?m" by (rule shrinks_same [OF ok]) simp_all
  have "shrinks ?m (stop_begin now m)" unfolding stop_begin_def
    by (rule shrinks_cancel_each [OF shrinks_ok [OF ok s]]) (use tw in simp)
  then show "shrinks m (stop_begin now m)" by (rule shrinks_trans [OF s])
qed

lemma sys_inv_step:
  assumes "hyd_step s s'" "sys_inv s"
  shows "sys_inv s'"
proof -
  have inv: "task_inv (hs_mgr s)" and ok: "tasks_ok (hs_mgr s)" using assms(2) by (auto simp: sys_inv_def task_inv_def)
  note sh = step_shrinks [OF ok]
  note shr = sys_inv_shrinks [OF assms(2)]
  show ?thesis using assms(1)
  proof cases
    case (create now sf fp b i pr vfd ctx ret key m')
    note a = create_active [OF inv create(2)]
    have "picked_ok m' (hs_picked s)" using assms(2) a by (auto simp: sys_inv_def picked_ok_def)
    then show ?thesis using create create_inv [OF inv] by (simp add: sys_inv_def)
  next
    case (cancel now sf fp i w ret m')
    then show ?thesis using shr [OF sh(1)] by (metis snd_conv)
  next
    case (execute env now b i req ret m' fs')
    have "sys_inv (s\<lparr>hs_mgr := m'\<rparr>)" by (rule shr [OF execute_shrinks [OF ok execute(2)]])
    then show ?thesis using execute(1) by (simp add: sys_inv_def)
  next
    case (select t m')
    have inv': "task_inv m'" by (rule shrinks_inv [OF inv sh(9) [OF select(4)]])
    have "picked_ok m' t"
    proof (cases t)
      case (Some u)
      then have u: "m' = hs_mgr s" "SelectNextTaskLocked (hs_mgr s) = Some u" using dispatch_select_Some select(4) by blast+
      show ?thesis using select_facts(2) [OF ok u(2)] eligible_room u(1) Some by (auto simp: picked_ok_def)
    qed (simp add: picked_ok_def)
    then show ?thesis using select(1) inv' by (simp add: sys_inv_def)
  next
    case (activate t env now)
    have "task_inv (ActivateAndDispatch env now t (hs_mgr s))"
      by (rule activate_inv [OF inv]) (use assms(2) activate(2) in \<open>auto simp: sys_inv_def picked_ok_def\<close>)
    then show ?thesis using activate(1) by (simp add: sys_inv_def picked_ok_def)
  qed (use assms(2) shr sh in \<open>auto simp: sys_inv_def\<close>)
qed

lemma reach_inv: "hyd_reach s \<Longrightarrow> sys_inv s"
proof (induction rule: hyd_reach.induct)
  case (init objs fs)
  then show ?case by (simp add: sys_inv_def picked_ok_def task_inv_def tasks_ok_def mgr_init_def limits_ok_def unique_ok_def active_count_def
        app_active_def count_tasks_def tasks_where_def live_def omap_ok_Nil)
qed (rule sys_inv_step)

lemmas reach_task_inv = reach_inv [unfolded sys_inv_def, THEN conjunct1]


text \<open>
  C25: The limits hold at every moment: in every reachable state at most ten tasks are in progress and
  at most five for one application, and at most forty are pending and at most twenty for one
  application, whatever the order of requests, cancellations, deliveries, timeouts, restarts and
  dispatches.\<close>

theorem hydration_limits:
  assumes "hyd_reach s"
  shows "active_count (hs_mgr s) \<le> 10 \<and> count_tasks (\<lambda>r. t_state r = PENDING) (hs_mgr s) \<le> 40 \<and>
    app_active b (hs_mgr s) \<le> 5 \<and> count_tasks (\<lambda>r. t_state r = PENDING \<and> t_bundleName r = b) (hs_mgr s) \<le> 20"
  using reach_task_inv [OF assms] by (simp add: task_inv_def limits_ok_def)

lemma live_mem: "tasks_ok m \<Longrightarrow> t \<in> live m \<Longrightarrow> (t_reqKey (tm_obj m t), t) \<in> set (tm_taskMap m)"
  by (simp add: tasks_ok_def live_def)

text \<open>
  C26: A file is hydrated by one task: in every reachable state the outstanding tasks are exactly those
  of the task map, each under its own request key, no two of them are for the same file, and
  HasOutstandingTask answers whether there is one for the file.\<close>

theorem one_task_per_file:
  assumes "hyd_reach s"
  shows "snd ` set (tm_taskMap (hs_mgr s)) = live (hs_mgr s) \<and>
    inj_on (\<lambda>t. t_reqKey (tm_obj (hs_mgr s) t)) (live (hs_mgr s)) \<and> inj_on (\<lambda>t. file_of (tm_obj (hs_mgr s) t)) (live (hs_mgr s)) \<and>
    (HasOutstandingTask sf fp i (hs_mgr s) \<longleftrightarrow> (\<exists>t \<in> live (hs_mgr s). file_of (tm_obj (hs_mgr s) t) = (sf, fp, i)))"
proof -
  have ok: "tasks_ok (hs_mgr s)" and u: "unique_ok (hs_mgr s)" using reach_task_inv [OF assms] by (simp_all add: task_inv_def)
  have "inj_on (\<lambda>t. t_reqKey (tm_obj (hs_mgr s) t)) (live (hs_mgr s))"
  proof (rule inj_onI)
    fix t u assume "t \<in> live (hs_mgr s)" "u \<in> live (hs_mgr s)" and e: "t_reqKey (tm_obj (hs_mgr s) t) = t_reqKey (tm_obj (hs_mgr s) u)"
    then show "t = u" using live_mem [OF ok, of t] live_mem [OF ok, of u] tasks_ok_key [OF ok] by metis
  qed
  then show ?thesis using u live_map [OF ok] has_outstanding_iff [OF ok] by (simp add: unique_ok_def)
qed

section \<open>A run\<close>

text \<open>An application asks for two files; the service is started, and dispatches the task of the higher priority.\<close>

definition run_context :: PlaceholderProgressContext where
  "run_context = \<lparr>pc_userId = 100, pc_absolutePath = [], pc_hmdfsPath = ''/r/b'', pc_mountSyncFolder = ''/r'', pc_owner = no_owner\<rparr>"

definition run_env :: activate_env where
  "run_env =
     \<lparr>ae_open = \<lparr>oe_realpath = (\<lambda>p. Inr p), oe_root = (\<lambda>_. 0), oe_at = (\<lambda>_ _ _. Inr (1, 2)), oe_stat = (\<lambda>_. 0), oe_isdir = (\<lambda>_. False),
        oe_size = (\<lambda>_. 30), oe_xerr = (\<lambda>_ _. 0)\<rparr>,
      ae_attr = (\<lambda>_. \<lparr>xa_state = Some [MakeFileSyncState PLACEHOLDER_STATE_UNHYDRATED 0], xa_count = None\<rparr>), ae_fetch = (\<lambda>_. 0)\<rparr>"


definition run_create :: "string \<Rightarrow> int \<Rightarrow> task_mgr \<Rightarrow> task_mgr" where
  "run_create file priority m =
     snd (snd (CreateHydrateTask 0 ''/r'' file ''app'' 7 priority (Some ((1, 2), Some 30)) run_context m))"

definition run_queued :: task_mgr where
  "run_queued = StartScheduler (run_create ''b'' 2 (run_create ''a'' 0
     (mgr_init (\<lambda>_. new_task [] [] [] [] 0 0 (0, 0) 0 0))))"

definition run_files :: hyd_files where
  "run_files = \<lparr>hf_attr = ae_attr run_env, hf_data = (\<lambda>_. [])\<rparr>"

definition run_active :: hyd_sys where
  "run_active = \<lparr>hs_mgr = ActivateAndDispatch run_env 0 1 run_queued, hs_files = run_files, hs_picked = None\<rparr>"

lemma run_select: "dispatch_select run_queued = (Some 1, run_queued)" "tm_dispatchScheduled run_queued"
proof -
  have "SelectNextTaskLocked run_queued = Some 1" "tm_running run_queued" "\<not> tm_stopping run_queued" by code_simp+
  then show "dispatch_select run_queued = (Some 1, run_queued)" by (simp add: dispatch_select_def)
  show "tm_dispatchScheduled run_queued" by code_simp
qed

lemma run_not_stopping: "\<not> tm_stopping (run_create ''b'' 2 (run_create ''a'' 0 (mgr_init (\<lambda>_. new_task [] [] [] [] 0 0 (0, 0) 0 0))))"
  by code_simp

lemma run_queued_reach: "hyd_reach \<lparr>hs_mgr = run_queued, hs_files = run_files, hs_picked = None\<rparr>"
proof -
  have c: "hyd_reach \<lparr>hs_mgr = run_create f p m, hs_files = run_files, hs_picked = None\<rparr>"
    if "hyd_reach \<lparr>hs_mgr = m, hs_files = run_files, hs_picked = None\<rparr>" for f p m
    using hyd_step.create [of 0 "''/r''" f "''app''" 7 p "Some ((1, 2), Some 30)" run_context "\<lparr>hs_mgr = m, hs_files = run_files, hs_picked = None\<rparr>"]
      hyd_reach.step [OF that] by (simp add: run_create_def) (metis prod.collapse)
  show ?thesis unfolding run_queued_def
    using hyd_reach.step [OF c [OF c [OF hyd_reach.init]] hyd_step.start] run_not_stopping by simp
qed

lemma run_active_reach: "hyd_reach run_active"
proof -
  have "hyd_reach \<lparr>hs_mgr = run_queued, hs_files = run_files, hs_picked = Some 1\<rparr>"
    using hyd_reach.step [OF run_queued_reach hyd_step.select] run_select by simp
  then show ?thesis using hyd_reach.step [OF _ hyd_step.activate] by (fastforce simp: run_active_def)
qed

lemma run_active_count: "active_count (hs_mgr run_active) = 1" "HasOutstandingTask ''/r'' ''a'' 7 (hs_mgr run_active)"
  by code_simp+

lemma run_task_inv: "task_inv run_queued" "tm_running run_queued" "\<not> tm_stopping run_queued"
  using reach_task_inv [OF run_queued_reach] by simp code_simp+

lemma run_eligible: "0 \<in> eligible run_queued"
  unfolding eligible_def live_def mem_Collect_eq by code_simp

theorem hydration_limits_witness:
  "active_count (hs_mgr run_active) = 1 \<and> count_tasks (\<lambda>r. t_state r = PENDING) (hs_mgr run_active) \<le> 40 \<and>
   app_active ''app'' (hs_mgr run_active) \<le> 5"
  using hydration_limits [OF run_active_reach, of "''app''"] run_active_count by blast

theorem one_task_per_file_witness:
  "\<exists>t \<in> live (hs_mgr run_active). file_of (tm_obj (hs_mgr run_active) t) = (''/r'', ''a'', 7)"
  using one_task_per_file [OF run_active_reach, of "''/r''" "''a''" 7] run_active_count by blast

text \<open>
  C27: The dispatcher serves priorities first and age second: in a well-formed state the task chosen
  next is the one pending task of an application below its limit of active tasks such that every
  other such task has a lower priority, or the same priority and a later creation number; nothing is
  chosen exactly when the service is at its limit or no such task exists.\<close>

theorem select_next_best:
  assumes "task_inv m"
  shows "(SelectNextTaskLocked m = Some t \<longleftrightarrow> active_count m < CLOUD_DISK_MAX_ACTIVE_TASKS_GLOBAL \<and> t \<in> eligible m \<and>
      (\<forall>u \<in> eligible m. u \<noteq> t \<longrightarrow> t_priority (tm_obj m u) < t_priority (tm_obj m t) \<or>
         t_priority (tm_obj m u) = t_priority (tm_obj m t) \<and> t_createSeq (tm_obj m t) < t_createSeq (tm_obj m u))) \<and>
    (SelectNextTaskLocked m = None \<longleftrightarrow> active_count m \<ge> CLOUD_DISK_MAX_ACTIVE_TASKS_GLOBAL \<or> eligible m = {})"
  using select_next_precedes [OF assms, of t] by (simp only: precedes_def) auto

theorem select_next_best_witness:
  "1 \<in> eligible run_queued \<and> 0 \<in> eligible run_queued \<and> SelectNextTaskLocked run_queued = Some 1 \<and>
    (t_priority (tm_obj run_queued 0) < t_priority (tm_obj run_queued 1) \<or>
     t_priority (tm_obj run_queued 0) = t_priority (tm_obj run_queued 1) \<and> t_createSeq (tm_obj run_queued 1) < t_createSeq (tm_obj run_queued 0))"
proof -
  have "SelectNextTaskLocked run_queued = Some 1" using dispatch_select_Some [OF run_select(1)] by simp
  then show ?thesis using select_next_best [OF run_task_inv(1), of 1] run_eligible zero_neq_one by blast
qed

theorem dispatch_loop_busy_witness:
  "task_inv (DispatchLoop (\<lambda>_. run_env) (\<lambda>_. 0) run_queued) \<and> \<not> tm_dispatchScheduled (DispatchLoop (\<lambda>_. run_env) (\<lambda>_. 0) run_queued)"
  using dispatch_loop_busy [OF run_task_inv, of "\<lambda>_. run_env" "\<lambda>_. 0"] by blast

end
