(* ===== verification/Hydration_Invariants.thy ===== *)
theory Hydration_Invariants
  imports Hydration_Reach
begin

text \<open>
  A property of the task manager holds in every reachable state of the service when a few elementary
  changes keep it: a task is added, activated, receives data, completes or is cancelled, and
  cancellation records expire. The locale states what they have to keep; the steps of the service
  are built from them.
\<close>

section \<open>Stopping\<close>

text \<open>While the service stops there are no tasks.\<close>

definition stop_ok :: "task_mgr \<Rightarrow> bool" where
  "stop_ok m \<longleftrightarrow> (tm_stopping m \<longrightarrow> tm_taskMap m = [])"

lemma flags_parts:
  "PurgeExpiredCancellationRecordsLocked now (m\<lparr>tm_running := a, tm_stopping := b\<rparr>) = (PurgeExpiredCancellationRecordsLocked now m)\<lparr>tm_running := a, tm_stopping := b\<rparr>"
  "NotifyProgressLocked w t (m\<lparr>tm_running := a, tm_stopping := b\<rparr>) = (NotifyProgressLocked w t m)\<lparr>tm_running := a, tm_stopping := b\<rparr>"
  "EraseTaskLocked t (m\<lparr>tm_running := a, tm_stopping := b\<rparr>) = (EraseTaskLocked t m)\<lparr>tm_running := a, tm_stopping := b\<rparr>"
  "EraseTaskLocked t (m\<lparr>tm_running := a, tm_stopping := b, tm_events := e\<rparr>) = (EraseTaskLocked t (m\<lparr>tm_events := e\<rparr>))\<lparr>tm_running := a, tm_stopping := b\<rparr>"
  "upd_task t f (m\<lparr>tm_running := a, tm_stopping := b\<rparr>) = (upd_task t f m)\<lparr>tm_running := a, tm_stopping := b\<rparr>"
  by (simp_all add: PurgeExpiredCancellationRecordsLocked_def NotifyProgressLocked_def EraseTaskLocked_def upd_task_def Let_def)

lemma add_record_flags:
  "AddCancellationRecordLocked now t (m\<lparr>tm_running := a, tm_stopping := b\<rparr>) = (AddCancellationRecordLocked now t m)\<lparr>tm_running := a, tm_stopping := b\<rparr>"
  unfolding AddCancellationRecordLocked_def flags_parts Let_def by (simp split: prod.split)

lemma cancel_flags:
  "CancelTaskRecordLocked now reason w t (m\<lparr>tm_running := a, tm_stopping := b\<rparr>) =
   (CancelTaskRecordLocked now reason w t m)\<lparr>tm_running := a, tm_stopping := b\<rparr>"
proof (cases "outstanding (tm_obj m t)")
  case True
  show ?thesis
    by (cases "t_cancelCallbackAttempted (tm_obj m t)"; cases "ShouldNotifyCancellation reason")
      (auto simp add: CancelTaskRecordLocked_def True Let_def flags_parts add_record_flags)
qed (simp add: CancelTaskRecordLocked_def)

lemma cancel_each_flags:
  "cancel_each now reason w ts (m\<lparr>tm_running := a, tm_stopping := b\<rparr>) =
   (let r = cancel_each now reason w ts m in (fst r, (snd r)\<lparr>tm_running := a, tm_stopping := b\<rparr>))"
  by (induction ts arbitrary: m) (simp_all add: cancel_flags Let_def)

lemma cancel_each_stopping: "tm_stopping (snd (cancel_each now reason w ts m)) = tm_stopping m"
proof (induction ts arbitrary: m)
  case (Cons t ts)
  then show ?case using cancel_effect(8) by simp
qed simp

lemma shrinks_ended: "shrinks m m' \<Longrightarrow> \<not> outstanding (tm_obj m t) \<Longrightarrow> \<not> outstanding (tm_obj m' t)"
  by (auto simp: shrinks_def outstanding_def)

lemma cancel_each_all:
  assumes "tasks_ok m" "\<forall>t \<in> set ts. t < tm_new m"
  shows "\<forall>t \<in> set ts. \<not> outstanding (tm_obj (snd (cancel_each now reason w ts m)) t)"
  using assms
proof (induction ts arbitrary: m)
  case (Cons t ts)
  let ?m1 = "CancelTaskRecordLocked now reason w t m"
  let ?m = "if outstanding (tm_obj m t) then ?m1 else m"
  have s: "shrinks m ?m" using shrinks_cancel shrinks_refl Cons.prems by simp
  have ok: "tasks_ok ?m" by (rule shrinks_ok [OF Cons.prems(1) s])
  have new: "\<forall>t \<in> set ts. t < tm_new ?m" using s Cons.prems(2) by (simp add: shrinks_def)
  have t: "\<not> outstanding (tm_obj ?m t)" using cancel_effect(5) by (simp add: outstanding_def)
  have "shrinks ?m (snd (cancel_each now reason w ts ?m))" by (rule shrinks_cancel_each [OF ok new])
  then have "\<not> outstanding (tm_obj (snd (cancel_each now reason w ts ?m)) t)" using t by (rule shrinks_ended)
  moreover have "snd (cancel_each now reason w (t # ts) m) = snd (cancel_each now reason w ts ?m)" by simp
  ultimately show ?case using Cons.IH [OF ok new] by (simp only: list.set ball_simps) blast
qed simp

lemma cancel_all_empty:
  assumes ok: "tasks_ok m"
  shows "tm_taskMap (snd (cancel_each now reason w (tasks_where (\<lambda>_. True) m) m)) = []"
proof -
  let ?ts = "tasks_where (\<lambda>_. True) m"
  let ?m = "snd (cancel_each now reason w ?ts m)"
  have new: "\<forall>t \<in> set ?ts. t < tm_new m" using tasks_where_new [OF ok] by blast
  have s: "shrinks m ?m" by (rule shrinks_cancel_each [OF ok new])
  have "\<not> outstanding (tm_obj ?m (snd e))" if "e \<in> set (tm_taskMap m)" for e
    using cancel_each_all [OF ok new] that by (auto simp: tasks_where_def)
  then show ?thesis using s by (simp add: shrinks_def)
qed


lemma cancel_stopping: "tm_stopping (CancelTaskRecordLocked now reason w t m) = tm_stopping m"
  by (cases "outstanding (tm_obj m t)") (simp_all add: cancel_effect(8) cancel_not_outstanding)

lemma expire_stopping: "tm_stopping (expire_each later ks m) = tm_stopping m"
proof (induction ks arbitrary: m)
  case (Cons k ks)
  show ?case unfolding expire_each.simps Cons.IH by (simp add: cancel_stopping split: option.split)
qed simp

lemma quiet_stopping: "quiet_upd t m m' n \<Longrightarrow> tm_stopping m' = tm_stopping m"
  by (auto simp: quiet_upd_def)

lemma fetch_stopping: "ExecuteFetchDataLocked env now t request (m, fs) = (ret, m', fs') \<Longrightarrow> tm_stopping m' = tm_stopping m"
  by (erule fetch_cases) (auto simp: cancel_stopping task_frame Let_def dest: quiet_stopping)

lemma execute_stopping: "Execute env now b i request (m, fs) = (ret, m', fs') \<Longrightarrow> tm_stopping m' = tm_stopping m"
  unfolding Execute_def FindCancellationResultLocked_def Let_def
  by (auto simp: cancel_stopping task_frame dest: fetch_stopping split: if_splits option.splits PlaceholderTaskState.splits)

lemma activate_stopping: "tm_stopping (ActivateAndDispatch env now t m) = tm_stopping m"
proof (cases rule: activate_cases [of m t env now])
  case (cancelled reason m1)
  then show ?thesis by (auto simp: cancel_stopping)
qed (simp_all add: task_frame)

lemma activate_map: "tm_taskMap m = [] \<Longrightarrow> tm_taskMap (ActivateAndDispatch env now t m) = []"
proof (cases rule: activate_cases [of m t env now])
  case (cancelled reason m1)
  then have "outstanding (tm_obj m1 t)" by (auto simp: outstanding_def)
  then show "tm_taskMap m = [] \<Longrightarrow> ?thesis" using cancelled by (auto simp: cancel_effect(6))
qed (simp_all add: task_frame)

text \<open>Preparing a task drops expired records, draws a key that no task and no record has, and counts.\<close>

lemma prepare_shape:
  assumes p: "PrepareHydrateTaskLocked now syncFolder filePath bundleName idx m = (ret, key, m')"
  obtains "m' = m" "ret \<noteq> E_OK"
  | q n where "m' = (PurgeExpiredCancellationRecordsLocked now m)\<lparr>tm_nextReqKeyValue := n, tm_nextCreateSeq := q\<rparr>"
      "\<not> tm_stopping m" "ret = E_OK \<Longrightarrow> map_of (tm_cancellationRecordMap m') key = None"
proof -
  let ?q = "if tm_nextCreateSeq m = UINT64_MAX then 1 else tm_nextCreateSeq m"
  let ?m1 = "if tm_nextCreateSeq m = UINT64_MAX then m\<lparr>tm_nextCreateSeq := 1\<rparr> else m"
  let ?p = "PurgeExpiredCancellationRecordsLocked now m"
  have m1: "PurgeExpiredCancellationRecordsLocked now ?m1 = ?p\<lparr>tm_nextCreateSeq := ?q\<rparr>"
    by (simp add: PurgeExpiredCancellationRecordsLocked_def Let_def)
  let ?used = "\<lambda>k. map_of (tm_taskMap ?p) k \<noteq> None \<or> map_of (tm_cancellationRecordMap ?p) k \<noteq> None"
  obtain k n where kl: "key_loop ?used (tm_nextReqKeyValue ?p) = (k, n)" by (rule prod.exhaust)
  have g: "GenerateRequestKeyLocked now ?m1 = (k, ?p\<lparr>tm_nextReqKeyValue := n, tm_nextCreateSeq := ?q\<rparr>)"
    unfolding GenerateRequestKeyLocked_def m1 Let_def using kl by simp
  have k: "k \<noteq> [] \<Longrightarrow> map_of (tm_cancellationRecordMap ?p) k = None" using key_loop_unused [of ?used "tm_nextReqKeyValue ?p"] kl by simp
  have "m' = m \<and> ret \<noteq> E_OK \<or> \<not> tm_stopping m \<and> m' = ?p\<lparr>tm_nextReqKeyValue := n, tm_nextCreateSeq := ?q\<rparr> \<and> (ret = E_OK \<longrightarrow> key = k \<and> k \<noteq> [])"
    using p g unfolding PrepareHydrateTaskLocked_def Let_def by (auto split: if_splits)
  then show thesis using that k by auto
qed

lemma create_stop_ok: "CreateHydrateTask now sf fp b i pr vfd ctx m = (ret, key, m') \<Longrightarrow> stop_ok m \<Longrightarrow> stop_ok m'"
proof (erule create_cases)
  fix ret1 assume "m' = m \<or> PrepareHydrateTaskLocked now sf fp b i m = (ret1, key, m')" "stop_ok m"
  then show "stop_ok m'" by (auto elim!: prepare_shape simp: stop_ok_def task_frame)
next
  fix f n m1
  assume p: "PrepareHydrateTaskLocked now sf fp b i m = (E_OK, key, m1)" and
    m': "m' = ScheduleDispatch (NotifyProgressLocked no_owner (tm_new m1) (m1\<lparr>tm_obj := (tm_obj m1)(tm_new m1 := SetHydrateProgressContext
       (new_task key sf fp b i pr f n (tm_nextCreateSeq m1)) ctx), tm_new := tm_new m1 + 1, tm_nextCreateSeq := tm_nextCreateSeq m1 + 1,
       tm_taskMap := omap_put key (tm_new m1) (tm_taskMap m1)\<rparr>))"
  have "\<not> tm_stopping m1" using p by (elim prepare_shape) (auto simp: task_frame)
  then show "stop_ok m'" by (simp add: m' stop_ok_def task_frame)
qed


section \<open>The elementary changes\<close>

lemma capped_add:
  fixes c n s :: u64
  assumes "c \<le> n"
  shows "c \<le> c + min s (if c < n then n - c else 0)" "c + min s (if c < n then n - c else 0) \<le> n"
proof -
  let ?d = "min s (if c < n then n - c else 0)"
  have "?d \<le> n - c" using assms by (auto simp: min_def)
  then have "unat ?d \<le> unat n - unat c" using assms by (simp add: word_le_nat_alt unat_sub)
  moreover have "unat c \<le> unat n" "unat n < 2 ^ 64" using assms unsigned_less [of n] by (simp_all add: word_le_nat_alt)
  ultimately have "unat (c + ?d) = unat c + unat ?d" "unat c + unat ?d \<le> unat n" by (simp_all add: unat_word_ariths)
  then show "c \<le> c + ?d" "c + ?d \<le> n" by (simp_all only: word_le_nat_alt)
qed

locale task_invariant =
  fixes I :: "task_mgr \<Rightarrow> bool"
  assumes inv_init: "I (mgr_init objs)"
    and inv_flags: "I m \<Longrightarrow> I (m\<lparr>tm_running := a, tm_stopping := b, tm_dispatchScheduled := c\<rparr>)"
    and inv_counters: "I m \<Longrightarrow> I (m\<lparr>tm_nextReqKeyValue := n, tm_nextCreateSeq := q\<rparr>)"
    and inv_purge: "I m \<Longrightarrow> I (PurgeExpiredCancellationRecordsLocked now m)"
    and inv_clear: "I m \<Longrightarrow> I (ClearCancellationRecords m)"
    and inv_no_deadlines: "I m \<Longrightarrow> tm_taskMap m = [] \<Longrightarrow> I (m\<lparr>tm_deadlineMap := []\<rparr>)"
    and inv_fetch: "I m \<Longrightarrow> I (m\<lparr>tm_events := tm_events m @ [FetchData t]\<rparr>)"
    and inv_cancel: "task_inv m \<Longrightarrow> I m \<Longrightarrow> t < tm_new m \<Longrightarrow> outstanding (tm_obj m t) \<Longrightarrow> I (CancelTaskRecordLocked now reason w t m)"
    and inv_new: "task_inv m \<Longrightarrow> I m \<Longrightarrow> map_of (tm_taskMap m) key = None \<Longrightarrow> map_of (tm_cancellationRecordMap m) key = None \<Longrightarrow>
      t_reqKey r = key \<Longrightarrow> t_state r = PENDING \<Longrightarrow> t_cachedSize r = 0 \<Longrightarrow> \<not> t_terminalProgressSent r \<Longrightarrow>
      I (NotifyProgressLocked no_owner (tm_new m) (m\<lparr>tm_obj := (tm_obj m)(tm_new m := r), tm_new := tm_new m + 1, tm_nextCreateSeq := q,
           tm_taskMap := omap_put key (tm_new m) (tm_taskMap m)\<rparr>))"
    and inv_activate: "task_inv m \<Longrightarrow> I m \<Longrightarrow> t < tm_new m \<Longrightarrow> task_state m t = PENDING \<Longrightarrow>
      I (NotifyProgressLocked no_owner t (RefreshDeadlineLocked now t
         (upd_task t (\<lambda>r. r\<lparr>t_outputFd := Some f, t_totalSize := size0, t_fetchDispatched := True, t_state := IN_PROGRESS\<rparr>) m)))"
    and inv_quiet: "I m \<Longrightarrow> t < tm_new m \<Longrightarrow> task_state m t = IN_PROGRESS \<Longrightarrow> t_cachedSize (tm_obj m t) \<le> size0 \<Longrightarrow> quiet_upd t m m' size0 \<Longrightarrow> I m'"
    and inv_deliver: "task_inv m \<Longrightarrow> I m \<Longrightarrow> t < tm_new m \<Longrightarrow> task_state m t = IN_PROGRESS \<Longrightarrow>
      t_cachedSize (tm_obj m t) \<le> c0 \<Longrightarrow> c0 \<le> t_totalSize (tm_obj m t) \<Longrightarrow>
      I (NotifyProgressLocked no_owner t (RefreshDeadlineLocked now t (upd_task t (\<lambda>r. r\<lparr>t_cachedSize := c0\<rparr>) m)))"
    and inv_finish: "task_inv m \<Longrightarrow> I m \<Longrightarrow> t < tm_new m \<Longrightarrow> task_state m t = IN_PROGRESS \<Longrightarrow>
      t_cachedSize (tm_obj m t) \<le> c0 \<Longrightarrow> c0 \<le> t_totalSize (tm_obj m t) \<Longrightarrow>
      I (EraseTaskLocked t (NotifyProgressLocked no_owner t (upd_task t (\<lambda>r. r\<lparr>t_cachedSize := c0, t_state := COMPLETED\<rparr>) m)))"
begin

lemma inv_schedule: "I m \<Longrightarrow> I (ScheduleDispatch m)"
  using inv_flags [where m = m and a = "tm_running m" and b = "tm_stopping m" and c = True] by (simp add: ScheduleDispatch_def)

lemma inv_cancel_any: "task_inv m \<Longrightarrow> I m \<Longrightarrow> t < tm_new m \<Longrightarrow> I (CancelTaskRecordLocked now reason w t m)"
  using inv_cancel by (cases "outstanding (tm_obj m t)") (auto simp: cancel_not_outstanding)

lemma inv_cancel_each: "task_inv m \<Longrightarrow> I m \<Longrightarrow> \<forall>t \<in> set ts. t < tm_new m \<Longrightarrow> I (snd (cancel_each now reason w ts m))"
proof (induction ts arbitrary: m)
  case (Cons t ts)
  let ?m1 = "CancelTaskRecordLocked now reason w t m"
  have s: "shrinks m ?m1" using Cons.prems shrinks_cancel by (simp add: task_inv_def)
  have "task_inv ?m1" "I ?m1" "\<forall>t \<in> set ts. t < tm_new ?m1"
    using shrinks_inv [OF Cons.prems(1) s] inv_cancel_any Cons.prems s by (simp_all add: shrinks_def)
  then show ?case using Cons by simp
qed simp

lemma inv_expire_each: "task_inv m \<Longrightarrow> I m \<Longrightarrow> I (expire_each later ks m)"
proof (induction ks arbitrary: m)
  case (Cons k ks)
  have "I m' \<and> task_inv m'" if "m' = m \<or> (\<exists>t. map_of (tm_taskMap m) k = Some t \<and> m' = CancelTaskRecordLocked later TIMEOUT no_owner t m)" for m'
  proof -
    have ok: "tasks_ok m" using Cons.prems by (simp add: task_inv_def)
    have "t < tm_new m" if "map_of (tm_taskMap m) k = Some t" for t using tasks_ok_mem [OF ok map_of_SomeD [OF that]] by simp
    then show ?thesis using that inv_cancel_any shrinks_inv [OF Cons.prems(1) shrinks_cancel [OF ok]] Cons.prems by blast
  qed
  then have "I m' \<and> task_inv m'" if "m' = (case map_of (tm_taskMap m) k of None \<Rightarrow> m | Some t \<Rightarrow> (case map_of (tm_deadlineMap m) k of
            None \<Rightarrow> m | Some deadline \<Rightarrow> if deadline \<le> later then CancelTaskRecordLocked later TIMEOUT no_owner t m else m))" for m'
    using that by (simp split: option.splits if_splits)
  then show ?case using Cons.IH by simp
qed simp

lemma inv_fetch_data:
  assumes inv: "task_inv m" "I m" and t: "t < tm_new m" "task_state m t = IN_PROGRESS"
    and x: "ExecuteFetchDataLocked env now t request (m, fs) = (ret, m', fs')"
  shows "I m'"
proof -
  have size0: "t_cachedSize (tm_obj m t) \<le> rq_totalSize request" if "\<not> IsInvalidFetchDataRequest (tm_obj m t) request"
    using that unfolding IsInvalidFetchDataRequest_def Let_def not_less [symmetric] by blast
  show ?thesis using x
  proof (cases rule: fetch_cases)
    case (delivered f fs1 m1 m2)
    let ?grow = "\<lambda>r. t_cachedSize r + min (rq_size request) (if t_cachedSize r < t_totalSize r then t_totalSize r - t_cachedSize r else 0)"
    let ?newSize = "?grow (tm_obj m2 t)"
    have I2: "I m2" by (rule inv_quiet [OF inv(2) t size0 [OF delivered(1)] delivered(7)])
    have inv2: "task_inv m2" by (rule shrinks_inv [OF inv(1) quiet_shrinks [OF _ delivered(7)]]) (use inv in \<open>simp add: task_inv_def\<close>)
    have t2: "t < tm_new m2" "task_state m2 t = IN_PROGRESS" "t_cachedSize (tm_obj m2 t) \<le> t_totalSize (tm_obj m2 t)"
      using delivered(7) t size0 [OF delivered(1)] by (auto simp: quiet_upd_def quiet_def)
    have e: "upd_task t (\<lambda>r. g (r\<lparr>t_cachedSize := ?grow r\<rparr>)) m2 = upd_task t (\<lambda>r. g (r\<lparr>t_cachedSize := ?newSize\<rparr>)) m2" for g
      by (simp add: upd_task_def)
    note e1 = e [of "\<lambda>r. r"] and e2 = e [of "\<lambda>r. r\<lparr>t_state := COMPLETED\<rparr>"]
    note c = capped_add [OF t2(3), of "rq_size request"]
    show ?thesis unfolding delivered(8) Let_def upd_upd e1 e2
      using inv_deliver [OF inv2 I2 t2(1,2) c] inv_schedule [OF inv_finish [OF inv2 I2 t2(1,2) c]] by simp
  next
    case no_file
    then show ?thesis using inv_schedule [OF inv_cancel_any [OF inv t(1)]] by simp
  qed (use inv inv_quiet [OF inv(2) t size0] in auto)
qed

lemma inv_execute:
  assumes inv: "task_inv m" "I m" and x: "Execute env now b idx request (m, fs) = (ret, m', fs')"
  shows "I m'"
proof (cases "map_of (tm_taskMap m) (rq_reqKey request)")
  case None
  have "m' = m \<or> m' = PurgeExpiredCancellationRecordsLocked now m"
    using x None unfolding Execute_def FindCancellationResultLocked_def Let_def by (auto split: if_splits)
  then show ?thesis using inv inv_purge by auto
next
  case (Some t)
  have ok: "tasks_ok m" using inv by (simp add: task_inv_def)
  have t: "t < tm_new m" using tasks_ok_mem [OF ok map_of_SomeD [OF Some]] by simp
  have "m' = m \<or> m' = ScheduleDispatch (CancelTaskRecordLocked now USER_REQUEST no_owner t m) \<or>
      task_state m t = IN_PROGRESS \<and> ExecuteFetchDataLocked env now t request (m, fs) = (ret, m', fs')"
    using x Some unfolding Execute_def Let_def by (auto split: if_splits PlaceholderTaskState.splits)
  then show ?thesis using inv inv_fetch_data [OF inv t] inv_schedule [OF inv_cancel_any [OF inv t]] by auto
qed

lemma inv_activate_dispatch:
  assumes inv: "task_inv m" "I m" and t: "t < tm_new m"
  shows "I (ActivateAndDispatch env now t m)"
proof (cases rule: activate_cases [of m t env now])
  case (cancelled reason m1)
  have "task_inv m1" "I m1" "t < tm_new m1" using cancelled(2) inv inv_fetch t by (auto simp: events_frame)
  then show ?thesis using cancelled(3) inv_cancel_any by simp
next
  case (activated f n)
  have "task_inv (m\<lparr>tm_events := tm_events m @ [FetchData t]\<rparr>)" using inv(1) by (simp add: events_frame)
  then show ?thesis unfolding activated(4) using inv_activate [OF _ inv_fetch [OF inv(2)]] t activated(1) by simp
qed (use inv in simp)

lemma inv_prepare:
  assumes "I m" "PrepareHydrateTaskLocked now sf fp b i m = (ret, key, m')"
  shows "I m'"
  using assms(2)
proof (cases rule: prepare_shape)
  case (2 q n)
  then show ?thesis using inv_counters [OF inv_purge [OF assms(1)]] by simp
qed (use assms in simp)

lemma inv_create:
  assumes inv: "task_inv m" "I m" and c: "CreateHydrateTask now sf fp b i pr vfd ctx m = (ret, key, m')"
  shows "I m'"
  using c
proof (cases rule: create_cases)
  case (rejected ret1)
  then show ?thesis using inv inv_prepare by auto
next
  case (created f n m1)
  note p = prepare_frame [OF created(2)]
  have k: "map_of (tm_cancellationRecordMap m1) key = None" using created(2) by (elim prepare_shape) auto
  have inv1: "task_inv m1" by (rule frame_inv [OF inv(1) p(1-3,5)])
  have I1: "I m1" by (rule inv_prepare [OF inv(2) created(2)])
  have "I (NotifyProgressLocked no_owner (tm_new m1) (m1\<lparr>tm_obj := (tm_obj m1)(tm_new m1 := SetHydrateProgressContext
       (new_task key sf fp b i pr f n (tm_nextCreateSeq m1)) ctx), tm_new := tm_new m1 + 1, tm_nextCreateSeq := tm_nextCreateSeq m1 + 1,
       tm_taskMap := omap_put key (tm_new m1) (tm_taskMap m1)\<rparr>))"
    by (rule inv_new [OF inv1 I1 _ k]) (use p(3) p(6) in simp, simp_all, simp_all add: new_task_def)
  then show ?thesis unfolding created(4) by (rule inv_schedule)
qed

end

section \<open>Reachable states\<close>

lemma stop_ok_shrinks: "stop_ok m \<Longrightarrow> shrinks m m' \<Longrightarrow> tm_stopping m' = tm_stopping m \<Longrightarrow> stop_ok m'"
  by (auto simp: stop_ok_def shrinks_def)

lemma stop_begin_eq:
  "stop_begin now m = (snd (cancel_each now SERVICE_STOP no_owner (tasks_where (\<lambda>_. True) m) m))\<lparr>tm_running := False, tm_stopping := True\<rparr>"
  by (simp add: stop_begin_def cancel_each_flags Let_def)

lemma stop_end_eq:
  "stop_end m = (ClearCancellationRecords (m\<lparr>tm_deadlineMap := []\<rparr>))\<lparr>tm_running := tm_running m, tm_stopping := False, tm_dispatchScheduled := False\<rparr>"
  by (cases m) (simp add: stop_end_def ClearCancellationRecords_def)

lemma stop_ok_step:
  assumes "hyd_step s s'" "sys_inv s" "stop_ok (hs_mgr s)"
  shows "stop_ok (hs_mgr s')"
proof -
  have ok: "tasks_ok (hs_mgr s)" using assms(2) by (auto simp: sys_inv_def task_inv_def)
  note sh = step_shrinks [OF ok]
  note stp = cancel_each_stopping expire_stopping task_frame
  show ?thesis using assms(1)
  proof cases
    case (create now sf fp b i pr vfd ctx ret key m')
    then show ?thesis using create_stop_ok [OF create(2) assms(3)] by simp
  next
    case (cancel now sf fp i w ret m')
    have "tm_stopping (snd (CancelTask now sf fp i w (hs_mgr s))) = tm_stopping (hs_mgr s)"
      by (simp add: CancelTask_def split: prod.split) (metis stp(1) snd_conv schedule_frame(9))
    then show ?thesis using stop_ok_shrinks [OF assms(3) sh(1)] cancel by (metis snd_conv hyd_sys.select_convs(1) hyd_sys.update_convs(1) hyd_sys.surjective)
  next
    case (cancel_folder now b i reason)
    have "tm_stopping (CancelTasksBySyncFolder now b i reason (hs_mgr s)) = tm_stopping (hs_mgr s)"
      by (simp add: CancelTasksBySyncFolder_def stp)
    then show ?thesis using stop_ok_shrinks [OF assms(3) sh(2)] cancel_folder by simp
  next
    case (cancel_all now reason)
    have "tm_stopping (CancelAllTasks now reason (hs_mgr s)) = tm_stopping (hs_mgr s)" by (simp add: CancelAllTasks_def stp)
    then show ?thesis using stop_ok_shrinks [OF assms(3) sh(3)] cancel_all by simp
  next
    case (deadlines now later)
    have "tm_stopping (deadline_round now later (hs_mgr s)) = tm_stopping (hs_mgr s)" by (simp add: deadline_round_def stp Let_def)
    then show ?thesis using stop_ok_shrinks [OF assms(3) sh(8)] deadlines by simp
  next
    case (execute env now b i req ret m' fs')
    then show ?thesis using stop_ok_shrinks [OF assms(3) execute_shrinks [OF ok execute(2)] execute_stopping [OF execute(2)]] by simp
  next
    case (select t m')
    have "tm_stopping m' = tm_stopping (hs_mgr s)" using select(4) by (auto simp: dispatch_select_def split: if_splits option.splits)
    then show ?thesis using stop_ok_shrinks [OF assms(3) sh(9) [OF select(4)]] select(1) by simp
  next
    case (activate t env now)
    show ?thesis
    proof (cases "tm_stopping (hs_mgr s)")
      case True
      then have "tm_taskMap (ActivateAndDispatch env now t (hs_mgr s)) = []" using assms(3) activate_map by (auto simp: stop_ok_def)
      then show ?thesis using activate(1) by (simp add: stop_ok_def)
    qed (use activate activate_stopping in \<open>simp add: stop_ok_def\<close>)
  next
    case (start)
    then show ?thesis by (simp add: stop_ok_def StartScheduler_def task_frame)
  next
    case (stop1 now)
    then show ?thesis using cancel_all_empty [OF ok] by (simp add: stop_ok_def stop_begin_eq)
  qed (use assms(3) in \<open>simp_all add: stop_ok_def ClearCancellationRecords_def stop_end_def\<close>)
qed

context task_invariant
begin

lemma inv_step:
  assumes "hyd_step s s'" "sys_inv s" "stop_ok (hs_mgr s)" "I (hs_mgr s)"
  shows "I (hs_mgr s')"
proof -
  have inv: "task_inv (hs_mgr s)" and ok: "tasks_ok (hs_mgr s)" using assms(2) by (auto simp: sys_inv_def task_inv_def)
  have each: "I (snd (cancel_each now reason w (tasks_where P (hs_mgr s)) (hs_mgr s)))" for now reason w P
    by (rule inv_cancel_each [OF inv assms(4)]) (use tasks_where_new [OF ok] in blast)
  show ?thesis using assms(1)
  proof cases
    case (cancel now sf fp i w ret m')
    have "I (snd (CancelTask now sf fp i w (hs_mgr s)))"
      using inv_schedule [OF each] by (simp add: CancelTask_def split: prod.split) (metis snd_conv)
    then show ?thesis using cancel by simp
  next
    case (start)
    have "I (StartScheduler (hs_mgr s))"
      using assms(4) inv_schedule [OF inv_flags [OF assms(4), where a = True and b = False and c = "tm_dispatchScheduled (hs_mgr s)"]]
      by (simp add: StartScheduler_def)
    then show ?thesis using start by simp
  next
    case (stop1 now)
    then show ?thesis using inv_flags [OF each] by (simp add: stop_begin_eq) (metis task_mgr.surjective task_mgr.update_convs(12))
  next
    case (stop2)
    have "tm_taskMap (hs_mgr s) = []" using stop2 assms(3) by (simp add: stop_ok_def)
    then have "I (ClearCancellationRecords ((hs_mgr s)\<lparr>tm_deadlineMap := []\<rparr>))" using inv_clear inv_no_deadlines assms(4) by blast
    then show ?thesis unfolding stop2(1) stop_end_eq using inv_flags by simp
  next
    case (select t m')
    have "m' = hs_mgr s \<or> m' = (hs_mgr s)\<lparr>tm_dispatchScheduled := False\<rparr>"
      using select(4) by (auto simp: dispatch_select_def split: if_splits option.splits)
    moreover have "I ((hs_mgr s)\<lparr>tm_dispatchScheduled := False\<rparr>)"
      using inv_flags [OF assms(4), where a = "tm_running (hs_mgr s)" and b = "tm_stopping (hs_mgr s)" and c = False] by simp
    ultimately show ?thesis using select(1) assms(4) by auto
  next
    case (activate t env now)
    then show ?thesis using inv_activate_dispatch [OF inv assms(4)] assms(2) by (simp add: sys_inv_def picked_ok_def)
  qed (use assms(4) inv_schedule each inv_create [OF inv assms(4)] inv_execute [OF inv assms(4)] inv_expire_each [OF inv assms(4)] inv_clear
      in \<open>auto simp: CancelTasksBySyncFolder_def CancelAllTasks_def deadline_round_def Let_def\<close>)
qed

lemma inv_reach: "hyd_reach s \<Longrightarrow> I (hs_mgr s)"
proof -
  assume "hyd_reach s"
  then have "I (hs_mgr s) \<and> stop_ok (hs_mgr s)"
  proof (induction rule: hyd_reach.induct)
    case (step s s')
    then show ?case using inv_step stop_ok_step reach_inv by blast
  qed (use inv_init in \<open>auto simp: stop_ok_def mgr_init_def\<close>)
  then show ?thesis ..
qed

end

end
