(* ===== verification/Callback_Manager.thy ===== *)
theory Callback_Manager
  imports Hydration_Invariants "HOL-Library.AList"
begin

text \<open>
  The callback tables of the providers,
  \<open>services/clouddiskservice/ipc/src/placeholder_callback_manager.cpp\<close>: which application and sync
  folder has a table, which tables a remote object owns, and the watch on its death. Losing a
  table cancels the hydration tasks of the folder. An operation is one step, and it is also two:
  the section under the manager's lock that takes tables out of the map, and the cancellation of
  their tasks, with any other step in between.
\<close>

abbreviation (input) E_DEHYDRATE_DENIED :: int where "E_DEHYDRATE_DENIED \<equiv> 34400029"

section \<open>State\<close>

type_synonym CallbackKey = "string \<times> u32"

text \<open>A remote object is a number, the address of the object; so is an entry shared by its users.\<close>

record CallbackEntry =
  en_id :: nat
  en_remote :: nat

record cb_mgr =
  cm_callbackMap :: "(CallbackKey \<times> CallbackEntry) list"
  cm_remoteCallbackMap :: "(nat \<times> CallbackKey list) list"
  cm_deathRecipientMap :: "nat list"
  cm_next :: nat

definition cb_init :: cb_mgr where
  "cb_init = \<lparr>cm_callbackMap = [], cm_remoteCallbackMap = [], cm_deathRecipientMap = [], cm_next = 0\<rparr>"

section \<open>Registration\<close>

text \<open>\<open>watch\<close> says whether the remote object accepts a death recipient.\<close>

definition AddDeathRecipientLocked :: "bool \<Rightarrow> nat \<Rightarrow> cb_mgr \<Rightarrow> cb_mgr" where
  "AddDeathRecipientLocked watch remoteKey cm =
     (if remoteKey \<in> set (cm_deathRecipientMap cm) then cm
      else if \<not> watch then cm
      else cm\<lparr>cm_deathRecipientMap := remoteKey # cm_deathRecipientMap cm\<rparr>)"

definition RemoveRemoteKeyLocked :: "nat \<Rightarrow> CallbackKey \<Rightarrow> cb_mgr \<Rightarrow> cb_mgr" where
  "RemoveRemoteKeyLocked remoteKey key cm =
     (case map_of (cm_remoteCallbackMap cm) remoteKey of
        None \<Rightarrow> cm
      | Some keys0 \<Rightarrow>
          let keys = filter (\<lambda>current. current \<noteq> key) keys0
          in if keys \<noteq> [] then cm\<lparr>cm_remoteCallbackMap := AList.update remoteKey keys (cm_remoteCallbackMap cm)\<rparr>
             else cm\<lparr>cm_remoteCallbackMap := AList.delete remoteKey (cm_remoteCallbackMap cm),
                     cm_deathRecipientMap := removeAll remoteKey (cm_deathRecipientMap cm)\<rparr>)"

definition RegisterCallbackTable :: "bool \<Rightarrow> string \<Rightarrow> u32 \<Rightarrow> nat option \<Rightarrow> cb_mgr \<Rightarrow> int \<times> cb_mgr" where
  "RegisterCallbackTable watch bundleName syncFolderIndex callback cm =
     (case callback of
        None \<Rightarrow> (E_INVALID_ARG, cm)
      | Some remoteKey \<Rightarrow>
          if bundleName = [] then (E_INVALID_ARG, cm)
          else let key = (bundleName, syncFolderIndex)
               in if map_of (cm_callbackMap cm) key \<noteq> None then (E_CALLBACK_ALREADY_REGISTERED, cm)
                  else let entry = \<lparr>en_id = cm_next cm, en_remote = remoteKey\<rparr>;
                           cm1 = AddDeathRecipientLocked watch remoteKey cm;
                           keys = (case map_of (cm_remoteCallbackMap cm1) remoteKey of None \<Rightarrow> [] | Some keys \<Rightarrow> keys)
                       in (E_OK, cm1\<lparr>cm_callbackMap := AList.update key entry (cm_callbackMap cm1),
                                     cm_remoteCallbackMap := AList.update remoteKey (keys @ [key]) (cm_remoteCallbackMap cm1),
                                     cm_next := cm_next cm1 + 1\<rparr>))"

text \<open>The part of \<open>UnregisterCallbackTable\<close> and of \<open>ClearBySyncFolder\<close> under the lock.\<close>

definition erase_entry :: "CallbackKey \<Rightarrow> CallbackEntry \<Rightarrow> cb_mgr \<Rightarrow> cb_mgr" where
  "erase_entry key entry cm =
     RemoveRemoteKeyLocked (en_remote entry) key (cm\<lparr>cm_callbackMap := AList.delete key (cm_callbackMap cm)\<rparr>)"

definition unregister_locked :: "string \<Rightarrow> u32 \<Rightarrow> cb_mgr \<Rightarrow> int \<times> cb_mgr" where
  "unregister_locked bundleName syncFolderIndex cm =
     (if bundleName = [] then (E_INVALID_ARG, cm)
      else case map_of (cm_callbackMap cm) (bundleName, syncFolderIndex) of
        None \<Rightarrow> (E_CALLBACK_NOT_REGISTERED, cm)
      | Some entry \<Rightarrow> (E_OK, erase_entry (bundleName, syncFolderIndex) entry cm))"

definition UnregisterCallbackTable :: "int \<Rightarrow> string \<Rightarrow> u32 \<Rightarrow> cb_mgr \<times> task_mgr \<Rightarrow> int \<times> cb_mgr \<times> task_mgr" where
  "UnregisterCallbackTable now bundleName syncFolderIndex = (\<lambda>(cm, m).
     case unregister_locked bundleName syncFolderIndex cm of (ret, cm1) \<Rightarrow>
       if ret \<noteq> E_OK then (ret, cm1, m)
       else (E_OK, cm1, CancelTasksBySyncFolder now bundleName syncFolderIndex UNREGISTER m))"

definition clear_locked :: "string \<Rightarrow> u32 \<Rightarrow> cb_mgr \<Rightarrow> bool \<times> cb_mgr" where
  "clear_locked bundleName syncFolderIndex cm =
     (case map_of (cm_callbackMap cm) (bundleName, syncFolderIndex) of
        None \<Rightarrow> (False, cm)
      | Some entry \<Rightarrow> (True, erase_entry (bundleName, syncFolderIndex) entry cm))"

definition ClearBySyncFolder :: "int \<Rightarrow> string \<Rightarrow> u32 \<Rightarrow> cb_mgr \<times> task_mgr \<Rightarrow> cb_mgr \<times> task_mgr" where
  "ClearBySyncFolder now bundleName syncFolderIndex = (\<lambda>(cm, m).
     case clear_locked bundleName syncFolderIndex cm of (found, cm1) \<Rightarrow>
       if \<not> found then (cm1, m) else (cm1, CancelTasksBySyncFolder now bundleName syncFolderIndex UNREGISTER m))"

definition ClearAll :: "cb_mgr \<Rightarrow> cb_mgr" where
  "ClearAll cm = fold (\<lambda>(key, entry). erase_entry key entry) (cm_callbackMap cm) cm"

section \<open>Death of a remote object\<close>

fun died_loop :: "CallbackKey list \<Rightarrow> (CallbackKey \<times> CallbackEntry) list \<Rightarrow> CallbackKey list \<times> (CallbackKey \<times> CallbackEntry) list" where
  "died_loop [] callbacks = ([], callbacks)"
| "died_loop (key # keys) callbacks =
     (case map_of callbacks key of
        None \<Rightarrow> died_loop keys callbacks
      | Some entry \<Rightarrow> (case died_loop keys (AList.delete key callbacks) of (entries, rest) \<Rightarrow> (key # entries, rest)))"

definition died_locked :: "nat \<Rightarrow> cb_mgr \<Rightarrow> CallbackKey list \<times> cb_mgr" where
  "died_locked remoteKey cm =
     (case map_of (cm_remoteCallbackMap cm) remoteKey of
        None \<Rightarrow> ([], cm)
      | Some keys \<Rightarrow>
          (case died_loop keys (cm_callbackMap cm) of (entries, callbacks) \<Rightarrow>
             (entries, cm\<lparr>cm_callbackMap := callbacks, cm_remoteCallbackMap := AList.delete remoteKey (cm_remoteCallbackMap cm),
                          cm_deathRecipientMap := removeAll remoteKey (cm_deathRecipientMap cm)\<rparr>)))"

definition OnRemoteDied :: "int \<Rightarrow> nat \<Rightarrow> cb_mgr \<times> task_mgr \<Rightarrow> cb_mgr \<times> task_mgr" where
  "OnRemoteDied now remoteKey = (\<lambda>(cm, m).
     case died_locked remoteKey cm of (entries, cm1) \<Rightarrow>
       (cm1, fold (\<lambda>(bundleName, syncFolderIndex). CancelTasksBySyncFolder now bundleName syncFolderIndex CALLBACK_DIED) entries m))"

text \<open>
  \<open>ClearAll\<close> cancels nothing: the two that call it do, \<open>HandleUserSwitched\<close> of the account listener and
  \<open>OnStop\<close> of the service. These are the lines of the two on the tables and the tasks.
\<close>

definition user_switched :: "int \<Rightarrow> cb_mgr \<times> task_mgr \<Rightarrow> cb_mgr \<times> task_mgr" where
  "user_switched now = (\<lambda>(cm, m). (ClearAll cm, ClearCancellationRecords (CancelAllTasks now USER_SWITCH m)))"

definition service_stopped :: "int \<Rightarrow> cb_mgr \<times> task_mgr \<Rightarrow> cb_mgr \<times> task_mgr" where
  "service_stopped now = (\<lambda>(cm, m). (ClearAll cm, StopScheduler now m))"

section \<open>Use of the tables\<close>

definition GetCallback :: "string \<Rightarrow> u32 \<Rightarrow> cb_mgr \<Rightarrow> nat option" where
  "GetCallback bundleName syncFolderIndex cm = map_option en_remote (map_of (cm_callbackMap cm) (bundleName, syncFolderIndex))"

definition IsCallbackRegistered :: "string \<Rightarrow> u32 \<Rightarrow> cb_mgr \<Rightarrow> bool" where
  "IsCallbackRegistered bundleName syncFolderIndex cm \<longleftrightarrow> GetCallback bundleName syncFolderIndex cm \<noteq> None"

definition RunIfRegistered :: "string \<Rightarrow> u32 \<Rightarrow> ('s \<Rightarrow> int \<times> 's) \<Rightarrow> cb_mgr \<Rightarrow> 's \<Rightarrow> int \<times> 's" where
  "RunIfRegistered bundleName syncFolderIndex operation cm s =
     (if bundleName = [] then (E_INVALID_ARG, s)
      else if map_of (cm_callbackMap cm) (bundleName, syncFolderIndex) = None then (E_CALLBACK_NOT_REGISTERED, s)
      else operation s)"

datatype provider_call = FetchDataCall string int | CancelFetchDataCall string | DehydrateCall string

text \<open>
  A dispatch looks the entry up in \<open>cm\<close>, waits for the entry's mutex and looks again, in the state
  \<open>cm1\<close> the manager then has; \<open>send\<close> is the call, with its result and whether the provider allows.
\<close>

definition DispatchCallback ::
  "(nat \<Rightarrow> provider_call \<Rightarrow> int \<times> bool) \<Rightarrow> string \<Rightarrow> u32 \<Rightarrow> provider_call \<Rightarrow> cb_mgr \<Rightarrow> cb_mgr \<Rightarrow> int \<times> bool \<times> nat option" where
  "DispatchCallback send bundleName syncFolderIndex call cm cm1 =
     (if bundleName = [] then (E_INVALID_ARG, False, None)
      else case map_of (cm_callbackMap cm) (bundleName, syncFolderIndex) of
        None \<Rightarrow> (E_CALLBACK_NOT_REGISTERED, False, None)
      | Some entry \<Rightarrow>
          (case map_of (cm_callbackMap cm1) (bundleName, syncFolderIndex) of
             None \<Rightarrow> (E_CALLBACK_NOT_REGISTERED, False, None)
           | Some entry1 \<Rightarrow>
               if en_id entry1 \<noteq> en_id entry then (E_CALLBACK_NOT_REGISTERED, False, None)
               else (case send (en_remote entry) call of (ret, allow) \<Rightarrow> (ret, allow, Some (en_remote entry)))))"

definition DispatchFetchData ::
  "(nat \<Rightarrow> provider_call \<Rightarrow> int \<times> bool) \<Rightarrow> string \<Rightarrow> u32 \<Rightarrow> string \<Rightarrow> int \<Rightarrow> cb_mgr \<Rightarrow> cb_mgr \<Rightarrow> int" where
  "DispatchFetchData send bundleName syncFolderIndex filePath priority cm cm1 =
     fst (DispatchCallback send bundleName syncFolderIndex (FetchDataCall filePath priority) cm cm1)"

definition DispatchCancelFetchData ::
  "(nat \<Rightarrow> provider_call \<Rightarrow> int \<times> bool) \<Rightarrow> string \<Rightarrow> u32 \<Rightarrow> string \<Rightarrow> cb_mgr \<Rightarrow> cb_mgr \<Rightarrow> int" where
  "DispatchCancelFetchData send bundleName syncFolderIndex filePath cm cm1 =
     fst (DispatchCallback send bundleName syncFolderIndex (CancelFetchDataCall filePath) cm cm1)"

definition DispatchDehydrate ::
  "(nat \<Rightarrow> provider_call \<Rightarrow> int \<times> bool) \<Rightarrow> string \<Rightarrow> u32 \<Rightarrow> string \<Rightarrow> cb_mgr \<Rightarrow> cb_mgr \<Rightarrow> int" where
  "DispatchDehydrate send bundleName syncFolderIndex filePath cm cm1 =
     (case DispatchCallback send bundleName syncFolderIndex (DehydrateCall filePath) cm cm1 of (ret, allow, _) \<Rightarrow>
        if ret \<noteq> E_OK then ret else if allow then E_OK else E_DEHYDRATE_DENIED)"


section \<open>The tables agree\<close>

abbreviation callbacks :: "cb_mgr \<Rightarrow> CallbackKey \<rightharpoonup> CallbackEntry" where "callbacks cm \<equiv> map_of (cm_callbackMap cm)"
abbreviation remotes :: "cb_mgr \<Rightarrow> nat \<rightharpoonup> CallbackKey list" where "remotes cm \<equiv> map_of (cm_remoteCallbackMap cm)"

text \<open>
  A key has an entry exactly when the remote object of the entry lists it, no remote object lists a
  key twice or keeps an empty list, and only objects with keys are watched.
\<close>

definition tables_ok :: "('k \<rightharpoonup> CallbackEntry) \<Rightarrow> (nat \<rightharpoonup> 'k list) \<Rightarrow> nat set \<Rightarrow> nat \<Rightarrow> bool" where
  "tables_ok C R D n \<longleftrightarrow>
     (\<forall>key e. C key = Some e \<longrightarrow> en_id e < n \<and> (\<exists>ks. R (en_remote e) = Some ks \<and> key \<in> set ks)) \<and>
     (\<forall>r ks. R r = Some ks \<longrightarrow> ks \<noteq> [] \<and> distinct ks \<and> (\<forall>key \<in> set ks. \<exists>e. C key = Some e \<and> en_remote e = r)) \<and>
     (\<forall>r \<in> D. R r \<noteq> None)"

definition reg_ok :: "cb_mgr \<Rightarrow> bool" where
  "reg_ok cm \<longleftrightarrow> distinct (map fst (cm_callbackMap cm)) \<and>
     tables_ok (callbacks cm) (remotes cm) (set (cm_deathRecipientMap cm)) (cm_next cm)"

lemma tables_ok_key: "tables_ok C R D n \<Longrightarrow> C key = Some e \<Longrightarrow> \<exists>ks. R (en_remote e) = Some ks \<and> key \<in> set ks"
  unfolding tables_ok_def by blast

lemma tables_ok_remote: "tables_ok C R D n \<Longrightarrow> R r = Some ks \<Longrightarrow> key \<in> set ks \<Longrightarrow> \<exists>e. C key = Some e \<and> en_remote e = r"
  unfolding tables_ok_def by blast

lemma tables_ok_list: "tables_ok C R D n \<Longrightarrow> R r = Some ks \<Longrightarrow> ks \<noteq> [] \<and> distinct ks"
  unfolding tables_ok_def by blast

lemma tables_okI:
  assumes "\<And>key e. C key = Some e \<Longrightarrow> en_id e < n \<and> (\<exists>ks. R (en_remote e) = Some ks \<and> key \<in> set ks)"
    and "\<And>r ks. R r = Some ks \<Longrightarrow> ks \<noteq> [] \<and> distinct ks"
    and "\<And>r ks key. R r = Some ks \<Longrightarrow> key \<in> set ks \<Longrightarrow> \<exists>e. C key = Some e \<and> en_remote e = r"
    and "\<And>r. r \<in> D \<Longrightarrow> R r \<noteq> None"
  shows "tables_ok C R D n"
  using assms unfolding tables_ok_def by blast

lemma tables_ok_id: "tables_ok C R D n \<Longrightarrow> C key = Some e \<Longrightarrow> en_id e < n"
  unfolding tables_ok_def by blast

lemma tables_ok_watch: "tables_ok C R D n \<Longrightarrow> r \<in> D \<Longrightarrow> R r \<noteq> None"
  unfolding tables_ok_def by blast

text \<open>Adding a key, taking one out, and dropping a remote object.\<close>

lemma tables_ok_add:
  assumes ok: "tables_ok C R D n" and k: "C k = None" and D': "D' \<subseteq> insert r D"
  shows "tables_ok (C(k \<mapsto> \<lparr>en_id = n, en_remote = r\<rparr>)) (R(r \<mapsto> (case R r of None \<Rightarrow> [] | Some ks \<Rightarrow> ks) @ [k])) D' (n + 1)"
    (is "tables_ok ?C ?R D' _")
proof (rule tables_okI)
  let ?ks = "case R r of None \<Rightarrow> [] | Some ks \<Rightarrow> ks"
  have new: "k \<notin> set ks" if "R q = Some ks" for q ks using tables_ok_remote [OF ok that, of k] k by auto
  have ks: "distinct ?ks \<and> k \<notin> set ?ks" using new tables_ok_list [OF ok] by (cases "R r") auto
  have old: "\<exists>e. C key = Some e \<and> en_remote e = r" if "key \<in> set ?ks" for key using that tables_ok_remote [OF ok] by (cases "R r") auto
  show "en_id e < n + 1 \<and> (\<exists>l. ?R (en_remote e) = Some l \<and> key \<in> set l)" if "?C key = Some e" for key e
  proof (cases "key = k")
    case False
    then have e: "C key = Some e" using that by simp
    show ?thesis using tables_ok_key [OF ok e] tables_ok_id [OF ok e] by (cases "en_remote e = r") auto
  qed (use that in auto)
  show "l \<noteq> [] \<and> distinct l" if "?R q = Some l" for q l using that ks tables_ok_list [OF ok] by (cases "q = r") auto
  show "\<exists>e. ?C key = Some e \<and> en_remote e = q" if l: "?R q = Some l" "key \<in> set l" for q l key
  proof (cases "key = k")
    case True
    then show ?thesis using l new by (cases "q = r") auto
  next
    case False
    then show ?thesis using l old tables_ok_remote [OF ok] by (cases "q = r") auto
  qed
  show "?R q \<noteq> None" if "q \<in> D'" for q using that D' tables_ok_watch [OF ok, of q] by (cases "q = r") auto
qed

lemma tables_ok_erase:
  assumes ok: "tables_ok C R D n" and k: "C k = Some e" "R (en_remote e) = Some ks"
  defines "ks' \<equiv> filter (\<lambda>c. c \<noteq> k) ks"
  shows "tables_ok (C(k := None)) (R(en_remote e := if ks' = [] then None else Some ks')) (if ks' = [] then D - {en_remote e} else D) n"
    (is "tables_ok ?C ?R ?D n")
proof (rule tables_okI)
  have ks': "distinct ks'" "set ks' = set ks - {k}" using tables_ok_list [OF ok k(2)] by (auto simp: ks'_def)
  show "en_id d < n \<and> (\<exists>l. ?R (en_remote d) = Some l \<and> key \<in> set l)" if "?C key = Some d" for key d
  proof -
    have d: "C key = Some d" "key \<noteq> k" using that by (auto split: if_splits)
    obtain l where l: "R (en_remote d) = Some l" "key \<in> set l" using tables_ok_key [OF ok d(1)] by blast
    show ?thesis
    proof (cases "en_remote d = en_remote e")
      case True
      then have "key \<in> set ks'" using l k(2) ks'(2) d(2) by simp
      then have "ks' \<noteq> [] \<and> key \<in> set ks'" by auto
      then show ?thesis using True tables_ok_id [OF ok d(1)] by simp
    qed (use l tables_ok_id [OF ok d(1)] in simp)
  qed
  show "l \<noteq> [] \<and> distinct l" if "?R q = Some l" for q l
    using that ks'(1) tables_ok_list [OF ok] by (cases "q = en_remote e") (auto split: if_splits)
  show "\<exists>d. ?C key = Some d \<and> en_remote d = q" if l: "?R q = Some l" "key \<in> set l" for q l key
  proof (cases "q = en_remote e")
    case True
    then have "key \<in> set ks" "key \<noteq> k" using l ks'(2) by (auto split: if_splits)
    then show ?thesis using tables_ok_remote [OF ok k(2)] True by auto
  next
    case False
    then have "R q = Some l" using l by simp
    then show ?thesis using tables_ok_remote [OF ok _ l(2)] k(1) False by fastforce
  qed
  show "?R q \<noteq> None" if "q \<in> ?D" for q using that tables_ok_watch [OF ok, of q] by (auto split: if_splits)
qed

lemma tables_ok_drop:
  assumes ok: "tables_ok C R D n" and r: "R r = Some ks"
  shows "tables_ok (\<lambda>k. if k \<in> set ks then None else C k) (R(r := None)) (D - {r}) n"
    (is "tables_ok ?C ?R _ n")
proof (rule tables_okI)
  show "en_id e < n \<and> (\<exists>l. ?R (en_remote e) = Some l \<and> key \<in> set l)" if "?C key = Some e" for key e
  proof -
    have e: "C key = Some e" "key \<notin> set ks" using that by (auto split: if_splits)
    then show ?thesis using tables_ok_key [OF ok e(1)] tables_ok_id [OF ok e(1)] r by auto
  qed
  show "l \<noteq> [] \<and> distinct l" if "?R q = Some l" for q l using that tables_ok_list [OF ok] by (auto split: if_splits)
  show "\<exists>e. ?C key = Some e \<and> en_remote e = q" if l: "?R q = Some l" "key \<in> set l" for q l key
  proof -
    have q: "R q = Some l" "q \<noteq> r" using l by (auto split: if_splits)
    obtain e where e: "C key = Some e" "en_remote e = q" using tables_ok_remote [OF ok q(1) l(2)] by blast
    then have "key \<notin> set ks" using tables_ok_remote [OF ok r, of key] q(2) by auto
    then show ?thesis using e by simp
  qed
  show "?R q \<noteq> None" if "q \<in> D - {r}" for q using that tables_ok_watch [OF ok, of q] by auto
qed


lemma register_cases:
  assumes "RegisterCallbackTable watch b i callback cm = (ret, cm')"
  obtains (rejected) "ret \<noteq> E_OK" "cm' = cm"
  | (registered) r where "ret = E_OK" "callback = Some r" "callbacks cm (b, i) = None"
    "cm_callbackMap cm' = AList.update (b, i) \<lparr>en_id = cm_next cm, en_remote = r\<rparr> (cm_callbackMap cm)"
    "remotes cm' = (remotes cm)(r \<mapsto> (case remotes cm r of None \<Rightarrow> [] | Some ks \<Rightarrow> ks) @ [(b, i)])"
    "set (cm_deathRecipientMap cm') \<subseteq> insert r (set (cm_deathRecipientMap cm))" "cm_next cm' = cm_next cm + 1"
proof (cases "callback = None \<or> b = [] \<or> callbacks cm (b, i) \<noteq> None")
  case True
  then have "ret \<noteq> E_OK \<and> cm' = cm"
    using assms by (auto simp: RegisterCallbackTable_def Let_def simp del: split_paired_All split: option.splits if_splits)
  then show thesis using rejected by blast
next
  case False
  then obtain r where r: "callback = Some r" "b \<noteq> []" "callbacks cm (b, i) = None" by (cases callback) simp_all
  let ?cm1 = "AddDeathRecipientLocked watch r cm"
  have c: "cm_callbackMap ?cm1 = cm_callbackMap cm" "cm_remoteCallbackMap ?cm1 = cm_remoteCallbackMap cm" "cm_next ?cm1 = cm_next cm"
    "set (cm_deathRecipientMap ?cm1) \<subseteq> insert r (set (cm_deathRecipientMap cm))"
    by (auto simp: AddDeathRecipientLocked_def)
  have "ret = E_OK" and m: "cm' = ?cm1\<lparr>cm_callbackMap := AList.update (b, i) \<lparr>en_id = cm_next cm, en_remote = r\<rparr> (cm_callbackMap cm),
      cm_remoteCallbackMap := AList.update r ((case remotes cm r of None \<Rightarrow> [] | Some ks \<Rightarrow> ks) @ [(b, i)]) (cm_remoteCallbackMap cm),
      cm_next := cm_next cm + 1\<rparr>"
    using assms r by (simp_all add: RegisterCallbackTable_def Let_def c)
  then show thesis using registered [of r] r c(4) by (simp add: update_conv')
qed

lemma register_ok:
  assumes "reg_ok cm" and "RegisterCallbackTable watch b i callback cm = (ret, cm')"
  shows "reg_ok cm'" and "dom (callbacks cm) \<subseteq> dom (callbacks cm')"
proof -
  have "reg_ok cm' \<and> dom (callbacks cm) \<subseteq> dom (callbacks cm')" using assms(2)
  proof (cases rule: register_cases)
    case (registered r)
    have "tables_ok (callbacks cm') (remotes cm') (set (cm_deathRecipientMap cm')) (cm_next cm')"
      using tables_ok_add [of "callbacks cm" "remotes cm" "set (cm_deathRecipientMap cm)" "cm_next cm" "(b, i)" "set (cm_deathRecipientMap cm')" r] assms(1) registered
      by (simp add: reg_ok_def update_conv')
    then show ?thesis using assms(1) registered(4) by (auto simp: reg_ok_def distinct_update update_conv')
  qed (use assms(1) in simp)
  then show "reg_ok cm'" "dom (callbacks cm) \<subseteq> dom (callbacks cm')" by auto
qed

lemma erase_ok:
  assumes ok: "reg_ok cm" and e: "callbacks cm key = Some e"
  shows "reg_ok (erase_entry key e cm)" and "callbacks (erase_entry key e cm) = (callbacks cm)(key := None)"
proof -
  let ?cm = "erase_entry key e cm"
  have t: "tables_ok (callbacks cm) (remotes cm) (set (cm_deathRecipientMap cm)) (cm_next cm)" using ok by (simp add: reg_ok_def)
  obtain ks where ks: "remotes cm (en_remote e) = Some ks" using tables_ok_key [OF t e] by blast
  have c: "cm_callbackMap ?cm = AList.delete key (cm_callbackMap cm)" "cm_next ?cm = cm_next cm"
    using ks by (auto simp: erase_entry_def RemoveRemoteKeyLocked_def Let_def)
  then show "callbacks ?cm = (callbacks cm)(key := None)" by (simp add: delete_conv')
  have "remotes ?cm = (remotes cm)(en_remote e := if filter (\<lambda>c. c \<noteq> key) ks = [] then None else Some (filter (\<lambda>c. c \<noteq> key) ks))"
    and "set (cm_deathRecipientMap ?cm) =
      (if filter (\<lambda>c. c \<noteq> key) ks = [] then set (cm_deathRecipientMap cm) - {en_remote e} else set (cm_deathRecipientMap cm))"
    using ks by (auto simp: erase_entry_def RemoveRemoteKeyLocked_def Let_def update_conv' delete_conv')
  then show "reg_ok ?cm" using tables_ok_erase [OF t e ks] ok c by (simp add: reg_ok_def delete_conv' distinct_delete)
qed

lemma died_loop_maps:
  "died_loop ks C = (entries, rest) \<Longrightarrow>
   map_of rest = (\<lambda>k. if k \<in> set ks then None else map_of C k) \<and> set entries = {k \<in> set ks. map_of C k \<noteq> None} \<and>
   (distinct (map fst C) \<longrightarrow> distinct (map fst rest))"
proof (induction ks arbitrary: C entries)
  case (Cons k ks)
  show ?case
  proof (cases "map_of C k")
    case None
    then show ?thesis using Cons by fastforce
  next
    case (Some e)
    then obtain es where es: "died_loop ks (AList.delete k C) = (es, rest)" "entries = k # es" using Cons.prems by (auto split: prod.splits)
    show ?thesis using Cons.IH [OF es(1)] es(2) Some by (auto simp: delete_conv' distinct_delete fun_eq_iff)
  qed
qed auto

lemma died_ok:
  assumes ok: "reg_ok cm" and d: "died_locked r cm = (entries, cm')"
  shows "reg_ok cm'" and "callbacks cm' = (\<lambda>k. if k \<in> set entries then None else callbacks cm k)"
    and "k \<in> set entries \<longleftrightarrow> (\<exists>e. callbacks cm k = Some e \<and> en_remote e = r)"
proof -
  have t: "tables_ok (callbacks cm) (remotes cm) (set (cm_deathRecipientMap cm)) (cm_next cm)" using ok by (simp add: reg_ok_def)
  have "reg_ok cm' \<and> (\<forall>k. callbacks cm' k = (if k \<in> set entries then None else callbacks cm k)) \<and>
      (\<forall>k. k \<in> set entries \<longleftrightarrow> (\<exists>e. callbacks cm k = Some e \<and> en_remote e = r))"
  proof (cases "remotes cm r")
    case None
    then have "\<nexists>e. callbacks cm k = Some e \<and> en_remote e = r" for k using tables_ok_key [OF t, of k] by auto
    then show ?thesis using d ok None by (simp add: died_locked_def)
  next
    case (Some ks)
    obtain rest where l: "died_loop ks (cm_callbackMap cm) = (entries, rest)"
      "cm' = cm\<lparr>cm_callbackMap := rest, cm_remoteCallbackMap := AList.delete r (cm_remoteCallbackMap cm),
        cm_deathRecipientMap := removeAll r (cm_deathRecipientMap cm)\<rparr>"
      using d Some by (auto simp: died_locked_def split: prod.splits)
    note m = died_loop_maps [OF l(1)]
    have ks: "k \<in> set ks \<longleftrightarrow> (\<exists>e. callbacks cm k = Some e \<and> en_remote e = r)" for k
    proof
      assume "\<exists>e. callbacks cm k = Some e \<and> en_remote e = r"
      then show "k \<in> set ks" using tables_ok_key [OF t] Some by (metis option.inject)
    qed (rule tables_ok_remote [OF t Some])
    then have "callbacks cm k \<noteq> None" if "k \<in> set ks" for k using that by auto
    then have "k \<in> set entries \<longleftrightarrow> k \<in> set ks" for k using m by blast
    moreover have "reg_ok cm'" using tables_ok_drop [OF t Some] m ok l(2) by (simp add: reg_ok_def delete_conv')
    ultimately show ?thesis using m ks l(2) by simp
  qed
  note all = this
  show "reg_ok cm'" using all by (rule conjunct1)
  show "callbacks cm' = (\<lambda>k. if k \<in> set entries then None else callbacks cm k)"
    by (rule ext) (rule all [THEN conjunct2, THEN conjunct1, THEN spec])
  show "k \<in> set entries \<longleftrightarrow> (\<exists>e. callbacks cm k = Some e \<and> en_remote e = r)" by (rule all [THEN conjunct2, THEN conjunct2, THEN spec])
qed

lemma clear_fold:
  assumes "reg_ok cm" and "distinct (map fst xs)" and "\<forall>(k, e) \<in> set xs. callbacks cm k = Some e"
  shows "reg_ok (fold (\<lambda>(key, entry). erase_entry key entry) xs cm) \<and>
    callbacks (fold (\<lambda>(key, entry). erase_entry key entry) xs cm) = (\<lambda>k. if k \<in> fst ` set xs then None else callbacks cm k)"
    (is "reg_ok (fold ?erase xs cm) \<and> _")
  using assms
proof (induction xs arbitrary: cm)
  case (Cons x xs)
  obtain k e where x: "x = (k, e)" by (cases x)
  have e: "callbacks cm k = Some e" using Cons.prems(3) x by simp
  have "\<forall>(j, d) \<in> set xs. callbacks (erase_entry k e cm) j = Some d"
    using Cons.prems(2, 3) x erase_ok(2) [OF Cons.prems(1) e] by force
  then have ih: "reg_ok (fold ?erase xs (erase_entry k e cm))"
    "callbacks (fold ?erase xs (erase_entry k e cm)) j = (if j \<in> fst ` set xs then None else callbacks (erase_entry k e cm) j)" for j
    using Cons.IH [OF erase_ok(1) [OF Cons.prems(1) e]] Cons.prems(2) by simp_all
  have f: "fold ?erase (x # xs) cm = fold ?erase xs (erase_entry k e cm)" by (simp add: x)
  have "callbacks (fold ?erase xs (erase_entry k e cm)) j = (if j \<in> fst ` set (x # xs) then None else callbacks cm j)" for j
    unfolding ih(2) erase_ok(2) [OF Cons.prems(1) e] by (simp add: x)
  then show ?case unfolding f using ih(1) by (intro conjI ext)
qed simp

lemma clear_all_ok:
  assumes "reg_ok cm"
  shows "reg_ok (ClearAll cm)" and "callbacks (ClearAll cm) k = None"
proof -
  have d: "distinct (map fst (cm_callbackMap cm))" using assms by (simp add: reg_ok_def)
  then have e: "\<forall>(k, e) \<in> set (cm_callbackMap cm). callbacks cm k = Some e" by auto
  note f = clear_fold [OF assms d e, folded ClearAll_def]
  show "reg_ok (ClearAll cm)" using f by (rule conjunct1)
  have "callbacks (ClearAll cm) k = (if k \<in> fst ` set (cm_callbackMap cm) then None else callbacks cm k)"
    using f [THEN conjunct2] by (rule fun_cong)
  then show "callbacks (ClearAll cm) k = None" by (cases "k \<in> fst ` set (cm_callbackMap cm)") (simp_all add: map_of_eq_None_iff)
qed


section \<open>The registry beside the tasks\<close>

text \<open>
  An operation under way between its two sections, with the tables it has taken out of the map:
  \<open>cs_closing\<close> lists those there are. A task is created under the registry's lock.
\<close>

datatype closing =
    Removed CallbackKey PlaceholderTaskCancelReason
  | UserSwitched "CallbackKey list"
  | ServiceStopped "CallbackKey list"

fun closing_keys :: "closing \<Rightarrow> CallbackKey set" where
  "closing_keys (Removed key reason) = {key}"
| "closing_keys (UserSwitched keys) = set keys"
| "closing_keys (ServiceStopped keys) = set keys"

record cb_sys =
  cs_cm :: cb_mgr
  cs_hyd :: hyd_sys
  cs_closing :: "closing list"

abbreviation cs_tasks :: "cb_sys \<Rightarrow> task_mgr" where "cs_tasks s \<equiv> hs_mgr (cs_hyd s)"

definition set_tasks :: "task_mgr \<Rightarrow> cb_sys \<Rightarrow> cb_sys" where
  "set_tasks m s = s\<lparr>cs_hyd := (cs_hyd s)\<lparr>hs_mgr := m\<rparr>\<rparr>"

definition create_operation ::
  "int \<Rightarrow> string \<Rightarrow> string \<Rightarrow> string \<Rightarrow> u32 \<Rightarrow> int \<Rightarrow> (file_id \<times> int option) option \<Rightarrow> PlaceholderProgressContext \<Rightarrow> task_mgr \<Rightarrow> int \<times> task_mgr" where
  "create_operation now syncFolder filePath bundleName syncFolderIndex priority validationFd progressContext m =
     (case CreateHydrateTask now syncFolder filePath bundleName syncFolderIndex priority validationFd progressContext m of
        (ret, reqKey, m') \<Rightarrow> (ret, m'))"

text \<open>
  The cancellation an operation still has to do. After a user switch the records are cleared and
  after a stop the deadlines, in steps of the task manager.
\<close>

fun cancel_closed :: "int \<Rightarrow> closing \<Rightarrow> task_mgr \<Rightarrow> task_mgr" where
  "cancel_closed now (Removed (bundleName, syncFolderIndex) reason) m = CancelTasksBySyncFolder now bundleName syncFolderIndex reason m"
| "cancel_closed now (UserSwitched keys) m = CancelAllTasks now USER_SWITCH m"
| "cancel_closed now (ServiceStopped keys) m = stop_begin now m"

definition closing_enabled :: "closing \<Rightarrow> task_mgr \<Rightarrow> bool" where
  "closing_enabled c m \<longleftrightarrow> (case c of ServiceStopped keys \<Rightarrow> \<not> tm_stopping m | _ \<Rightarrow> True)"

definition with_both :: "cb_mgr \<times> task_mgr \<Rightarrow> cb_sys \<Rightarrow> cb_sys" where
  "with_both = (\<lambda>(cm, m) s. (set_tasks m s)\<lparr>cs_cm := cm\<rparr>)"

inductive cb_step :: "cb_sys \<Rightarrow> cb_sys \<Rightarrow> bool" where
  register: "RegisterCallbackTable watch b i callback (cs_cm s) = (ret, cm') \<Longrightarrow> cb_step s (s\<lparr>cs_cm := cm'\<rparr>)"
| unregister: "UnregisterCallbackTable now b i (cs_cm s, cs_tasks s) = (ret, cm', m') \<Longrightarrow> cb_step s (with_both (cm', m') s)"
| clear: "cb_step s (with_both (ClearBySyncFolder now b i (cs_cm s, cs_tasks s)) s)"
| died: "cb_step s (with_both (OnRemoteDied now r (cs_cm s, cs_tasks s)) s)"
| switch: "cb_step s (with_both (user_switched now (cs_cm s, cs_tasks s)) s)"
| stop: "\<not> tm_stopping (cs_tasks s) \<Longrightarrow> hs_picked (cs_hyd s) = None \<Longrightarrow>
    cb_step s (with_both (service_stopped now (cs_cm s, cs_tasks s)) s)"
| unregister_begin: "unregister_locked b i (cs_cm s) = (E_OK, cm') \<Longrightarrow>
    cb_step s (s\<lparr>cs_cm := cm', cs_closing := [Removed (b, i) UNREGISTER] @ cs_closing s\<rparr>)"
| clear_begin: "clear_locked b i (cs_cm s) = (True, cm') \<Longrightarrow>
    cb_step s (s\<lparr>cs_cm := cm', cs_closing := [Removed (b, i) UNREGISTER] @ cs_closing s\<rparr>)"
| died_begin: "died_locked r (cs_cm s) = (entries, cm') \<Longrightarrow>
    cb_step s (s\<lparr>cs_cm := cm', cs_closing := map (\<lambda>key. Removed key CALLBACK_DIED) entries @ cs_closing s\<rparr>)"
| switch_begin: "cb_step s (s\<lparr>cs_cm := ClearAll (cs_cm s), cs_closing := [UserSwitched (map fst (cm_callbackMap (cs_cm s)))] @ cs_closing s\<rparr>)"
| stop_begin: "cb_step s (s\<lparr>cs_cm := ClearAll (cs_cm s), cs_closing := [ServiceStopped (map fst (cm_callbackMap (cs_cm s)))] @ cs_closing s\<rparr>)"
| close: "c \<in> set (cs_closing s) \<Longrightarrow> closing_enabled c (cs_tasks s) \<Longrightarrow>
    cb_step s ((set_tasks (cancel_closed now c (cs_tasks s)) s)\<lparr>cs_closing := remove1 c (cs_closing s)\<rparr>)"
| create: "RunIfRegistered b i (create_operation now sf fp b i pr vfd ctx) (cs_cm s) (cs_tasks s) = (ret, m') \<Longrightarrow>
    cb_step s (set_tasks m' s)"
| tasks: "hyd_step (cs_hyd s) h \<Longrightarrow> tm_new (hs_mgr h) = tm_new (cs_tasks s) \<Longrightarrow> cb_step s (s\<lparr>cs_hyd := h\<rparr>)"

inductive cb_reach :: "cb_sys \<Rightarrow> bool" where
  init: "hyd_reach h \<Longrightarrow> tm_new (hs_mgr h) = 0 \<Longrightarrow> cb_reach \<lparr>cs_cm = cb_init, cs_hyd = h, cs_closing = []\<rparr>"
| step: "cb_reach s \<Longrightarrow> cb_step s s' \<Longrightarrow> cb_reach s'"

text \<open>The tasks of the composed system run as the hydration system alone does.\<close>

lemma run_hyd_step:
  assumes "RunIfRegistered b i (create_operation now sf fp b i pr vfd ctx) cm (hs_mgr h) = (ret, m')"
  shows "m' = hs_mgr h \<or> hyd_step h (h\<lparr>hs_mgr := m'\<rparr>)"
  using assms hyd_step.create [of now sf fp b i pr vfd ctx h]
  by (auto simp: RunIfRegistered_def create_operation_def split: if_splits prod.splits)

text \<open>Cancelling, and what the operations do to the tasks, are steps of the task manager.\<close>

lemma reach_cancel_keys:
  "hyd_reach h \<Longrightarrow> hyd_reach (h\<lparr>hs_mgr := fold (\<lambda>(b, i). CancelTasksBySyncFolder now b i reason) ks (hs_mgr h)\<rparr>)"
proof (induction ks arbitrary: h)
  case (Cons k ks)
  obtain b i where k: "k = (b, i)" by (cases k)
  show ?case using Cons.IH [OF hyd_reach.step [OF Cons.prems hyd_step.cancel_folder [of _ now b i reason]]] by (simp add: k)
qed simp

lemma reach_operations:
  assumes r: "hyd_reach h"
  shows "UnregisterCallbackTable now b i (cm, hs_mgr h) = (ret, cm', m') \<Longrightarrow> hyd_reach (h\<lparr>hs_mgr := m'\<rparr>)"
    and "hyd_reach (h\<lparr>hs_mgr := snd (ClearBySyncFolder now b i (cm, hs_mgr h))\<rparr>)"
    and "hyd_reach (h\<lparr>hs_mgr := snd (OnRemoteDied now k (cm, hs_mgr h))\<rparr>)"
    and "hyd_reach (h\<lparr>hs_mgr := snd (user_switched now (cm, hs_mgr h))\<rparr>)"
    and "\<not> tm_stopping (hs_mgr h) \<Longrightarrow> hs_picked h = None \<Longrightarrow> hyd_reach (h\<lparr>hs_mgr := snd (service_stopped now (cm, hs_mgr h))\<rparr>)"
    and "closing_enabled c (hs_mgr h) \<Longrightarrow> hyd_reach (h\<lparr>hs_mgr := cancel_closed now c (hs_mgr h)\<rparr>)"
proof -
  have f: "hyd_reach (h\<lparr>hs_mgr := CancelTasksBySyncFolder now b i reason (hs_mgr h)\<rparr>)" for b i reason
    by (rule hyd_reach.step [OF r hyd_step.cancel_folder])
  have all: "hyd_reach (h\<lparr>hs_mgr := CancelAllTasks now reason (hs_mgr h)\<rparr>)" for reason by (rule hyd_reach.step [OF r hyd_step.cancel_all])
  have stop: "hyd_reach (h\<lparr>hs_mgr := stop_begin now (hs_mgr h)\<rparr>)" if "\<not> tm_stopping (hs_mgr h)" by (rule hyd_reach.step [OF r hyd_step.stop1 [OF that]])
  have "UnregisterCallbackTable now b i (cm, hs_mgr h) = (ret, cm', m') \<Longrightarrow> m' = hs_mgr h \<or> m' = CancelTasksBySyncFolder now b i UNREGISTER (hs_mgr h)"
    by (auto simp: UnregisterCallbackTable_def split: prod.splits if_splits)
  then show "UnregisterCallbackTable now b i (cm, hs_mgr h) = (ret, cm', m') \<Longrightarrow> hyd_reach (h\<lparr>hs_mgr := m'\<rparr>)" using f r by auto
  show "hyd_reach (h\<lparr>hs_mgr := snd (ClearBySyncFolder now b i (cm, hs_mgr h))\<rparr>)"
    using f r by (simp add: ClearBySyncFolder_def split: prod.split)
  show "hyd_reach (h\<lparr>hs_mgr := snd (OnRemoteDied now k (cm, hs_mgr h))\<rparr>)"
    using reach_cancel_keys [OF r] by (simp add: OnRemoteDied_def split: prod.split)
  show "hyd_reach (h\<lparr>hs_mgr := snd (user_switched now (cm, hs_mgr h))\<rparr>)"
    using hyd_reach.step [OF all hyd_step.clear] by (simp add: user_switched_def)
  show "hyd_reach (h\<lparr>hs_mgr := snd (service_stopped now (cm, hs_mgr h))\<rparr>)" if "\<not> tm_stopping (hs_mgr h)" "hs_picked h = None"
    using hyd_reach.step [OF stop [OF that(1)] hyd_step.stop2] that(2) by (simp add: service_stopped_def StopScheduler_def stop_begin_eq)
  show "hyd_reach (h\<lparr>hs_mgr := cancel_closed now c (hs_mgr h)\<rparr>)" if "closing_enabled c (hs_mgr h)"
    using that f all stop by (cases c) (auto simp: closing_enabled_def)
qed

lemma with_both_sel [simp]:
  "cs_cm (with_both x s) = fst x" "cs_hyd (with_both x s) = (cs_hyd s)\<lparr>hs_mgr := snd x\<rparr>" "cs_closing (with_both x s) = cs_closing s"
  by (cases x; simp add: with_both_def set_tasks_def)+

lemma cb_reach_hyd: "cb_reach s \<Longrightarrow> hyd_reach (cs_hyd s)"
proof (induction rule: cb_reach.induct)
  case (step s s')
  note ops = reach_operations [OF step.IH]
  from step.hyps(2) show ?case
  proof cases
    case (unregister now b i ret cm' m')
    then show ?thesis using ops(1) [OF unregister(2)] by simp
  next
    case (close c now)
    then show ?thesis using ops(6) by (simp add: set_tasks_def)
  next
    case (create b i now sf fp pr vfd ctx ret m')
    then show ?thesis using run_hyd_step [OF create(2)] hyd_reach.step [OF step.IH] step.IH by (auto simp: set_tasks_def)
  next
    case (tasks h)
    then show ?thesis using hyd_reach.step [OF step.IH] by simp
  qed (use step.IH ops in auto)
qed simp

lemmas cb_tasks_ok = cb_reach_hyd [THEN reach_task_inv, unfolded task_inv_def, THEN conjunct1]

definition task_key :: "task_mgr \<Rightarrow> nat \<Rightarrow> CallbackKey" where
  "task_key m t = (t_bundleName (tm_obj m t), t_syncFolderIndex (tm_obj m t))"

lemma shrinks_task_key: "shrinks m m' \<Longrightarrow> t \<in> live m' \<Longrightarrow> t \<in> live m \<and> task_key m' t = task_key m t"
  unfolding shrinks_def live_def task_key_def by (auto dest!: identD simp: outstanding_def)

lemma cancel_folder_live:
  assumes ok: "tasks_ok m" and t: "t \<in> live (CancelTasksBySyncFolder now b i reason m)"
  shows "t \<in> live m" and "task_key (CancelTasksBySyncFolder now b i reason m) t = task_key m t" and "task_key m t \<noteq> (b, i)"
proof -
  let ?ts = "tasks_where (\<lambda>r. t_bundleName r = b \<and> t_syncFolderIndex r = i) m"
  have s: "shrinks m (CancelTasksBySyncFolder now b i reason m)" using step_shrinks(2) [OF ok] .
  show l: "t \<in> live m" and "task_key (CancelTasksBySyncFolder now b i reason m) t = task_key m t"
    using shrinks_task_key [OF s t] by blast+
  have "\<forall>u \<in> set ?ts. u < tm_new m" using tasks_where_new [OF ok] by blast
  from cancel_each_all [OF ok this] have "t \<notin> set ?ts"
    using t by (auto simp: live_def CancelTasksBySyncFolder_def task_frame)
  moreover have "(t_reqKey (tm_obj m t), t) \<in> set (tm_taskMap m)" using live_mem [OF ok l] .
  ultimately show "task_key m t \<noteq> (b, i)" by (force simp: tasks_where_def task_key_def)
qed


lemma activate_live:
  assumes "t \<in> live (ActivateAndDispatch env now u m)"
  shows "t \<in> live m \<and> task_key (ActivateAndDispatch env now u m) t = task_key m t"
proof (cases rule: activate_cases [of m u env now])
  case (cancelled reason m1)
  have o: "outstanding (tm_obj m1 u)" "tm_obj m1 = tm_obj m" "tm_new m1 = tm_new m" using cancelled(1, 2) by (auto simp: outstanding_def)
  let ?m' = "CancelTaskRecordLocked now reason no_owner u m1"
  have "t \<noteq> u" using assms cancel_effect(5) [OF o(1), of now reason no_owner] by (auto simp: cancelled(3) live_def outstanding_def)
  then have "tm_obj ?m' t = tm_obj m t" "tm_new ?m' = tm_new m"
    using cancel_effect(1) [OF o(1)] cancel_effect(3) [OF o(1)] o(2, 3) by metis+
  then show ?thesis using assms by (simp add: cancelled(3) live_def task_key_def)
next
  case (activated f n)
  then show ?thesis using assms by (auto simp: live_def task_key_def task_frame notify_obj outstanding_def split: if_splits)
qed (use assms in simp)

lemma step_same_new:
  assumes st: "hyd_step h h'" and inv: "sys_inv h" and new: "tm_new (hs_mgr h') = tm_new (hs_mgr h)" and t: "t \<in> live (hs_mgr h')"
  shows "t \<in> live (hs_mgr h) \<and> task_key (hs_mgr h') t = task_key (hs_mgr h) t"
proof -
  have ok: "tasks_ok (hs_mgr h)" using inv by (simp add: sys_inv_def task_inv_def)
  note sh = step_shrinks [OF ok]
  show ?thesis using st
  proof cases
    case (create now sf fp b i pr vfd ctx ret key m')
    show ?thesis using create(2)
    proof (cases rule: create_cases)
      case (rejected ret1)
      then have "tm_obj m' = tm_obj (hs_mgr h)" using prepare_frame(1) by metis
      then show ?thesis using t new create(1) by (simp add: live_def task_key_def)
    next
      case (created f n m1)
      then show ?thesis using new create(1) prepare_frame(2) [OF created(2)] by (simp add: task_frame)
    qed
  next
    case (cancel now sf fp i w ret m')
    then show ?thesis using shrinks_task_key [OF sh(1) [of now sf fp i w]] t by simp
  next
    case (execute env now b i req ret m' fs')
    then show ?thesis using shrinks_task_key [OF execute_shrinks [OF ok execute(2)]] t by simp
  next
    case (select u m')
    then show ?thesis using shrinks_task_key [OF sh(9) [OF select(4)]] t by simp
  next
    case (activate u env now)
    then show ?thesis using activate_live t by simp
  qed (use t shrinks_task_key [OF sh(2)] shrinks_task_key [OF sh(3)] shrinks_task_key [OF sh(4)] shrinks_task_key [OF sh(5)]
      shrinks_task_key [OF sh(6)] shrinks_task_key [OF sh(7)] shrinks_task_key [OF sh(8)] in simp_all)
qed


lemma cancel_keys_live:
  assumes "tasks_ok m" and "t \<in> live (fold (\<lambda>(b, i). CancelTasksBySyncFolder now b i reason) ks m)"
  shows "t \<in> live m \<and> task_key (fold (\<lambda>(b, i). CancelTasksBySyncFolder now b i reason) ks m) t = task_key m t \<and> task_key m t \<notin> set ks"
  using assms
proof (induction ks arbitrary: m)
  case (Cons k ks)
  obtain b i where k: "k = (b, i)" by (cases k)
  let ?m = "CancelTasksBySyncFolder now b i reason m"
  have ok: "tasks_ok ?m" by (rule shrinks_ok [OF Cons.prems(1) step_shrinks(2) [OF Cons.prems(1)]])
  have f: "fold (\<lambda>(b, i). CancelTasksBySyncFolder now b i reason) (k # ks) m = fold (\<lambda>(b, i). CancelTasksBySyncFolder now b i reason) ks ?m"
    by (simp add: k)
  note ih = Cons.IH [OF ok Cons.prems(2) [unfolded f]]
  note c = cancel_folder_live [OF Cons.prems(1), of t now b i reason]
  show ?case unfolding f using ih c k by auto
qed simp

text \<open>Cancelling everything leaves no task.\<close>

lemma cancel_all_live:
  assumes ok: "tasks_ok m"
  shows "live (CancelAllTasks now reason m) = {}" and "live (stop_begin now m) = {}"
proof -
  have "tm_taskMap (CancelAllTasks now reason m) = []" using cancel_all_empty [OF ok] by (simp add: CancelAllTasks_def task_frame)
  moreover have "tm_taskMap (stop_begin now m) = []" using cancel_all_empty [OF ok] by (simp add: stop_begin_eq)
  moreover have "tasks_ok (CancelAllTasks now reason m)" "tasks_ok (stop_begin now m)" using shrinks_ok [OF ok] step_shrinks [OF ok] by blast+
  ultimately show "live (CancelAllTasks now reason m) = {}" "live (stop_begin now m) = {}" by (simp_all add: live_map)
qed

definition owned :: "cb_sys \<Rightarrow> bool" where
  "owned s \<longleftrightarrow> (\<forall>t \<in> live (cs_tasks s). callbacks (cs_cm s) (task_key (cs_tasks s) t) \<noteq> None \<or>
     (\<exists>c \<in> set (cs_closing s). task_key (cs_tasks s) t \<in> closing_keys c))"

lemma ownedD: "owned s \<Longrightarrow> t \<in> live (cs_tasks s) \<Longrightarrow>
    callbacks (cs_cm s) (task_key (cs_tasks s) t) \<noteq> None \<or> (\<exists>c \<in> set (cs_closing s). task_key (cs_tasks s) t \<in> closing_keys c)"
  unfolding owned_def by blast

text \<open>A step on the registry alone keeps every task owned when it only closes the keys it takes out.\<close>

lemma owned_registry:
  assumes "owned s" and "\<And>k. callbacks (cs_cm s) k \<noteq> None \<Longrightarrow> callbacks cm' k = None \<Longrightarrow> \<exists>c \<in> set cs. k \<in> closing_keys c"
  shows "owned (s\<lparr>cs_cm := cm', cs_closing := cs @ cs_closing s\<rparr>)"
proof -
  let ?s = "s\<lparr>cs_cm := cm', cs_closing := cs @ cs_closing s\<rparr>"
  have e: "cs_tasks ?s = cs_tasks s" "cs_cm ?s = cm'" "set (cs_closing ?s) = set cs \<union> set (cs_closing s)" by simp_all
  show ?thesis unfolding owned_def e using ownedD [OF assms(1)] assms(2) by blast
qed

text \<open>An operation as a whole keeps every task owned when it cancels those of the keys it takes out.\<close>

definition cancels_removed :: "cb_mgr \<Rightarrow> task_mgr \<Rightarrow> cb_mgr \<Rightarrow> task_mgr \<Rightarrow> bool" where
  "cancels_removed cm m cm' m' \<longleftrightarrow>
     (\<forall>t \<in> live m'. t \<in> live m \<and> task_key m' t = task_key m t \<and> (callbacks cm (task_key m' t) \<noteq> None \<longrightarrow> callbacks cm' (task_key m' t) \<noteq> None))"

lemma owned_both:
  assumes "owned s" and "cancels_removed (cs_cm s) (cs_tasks s) cm' m'"
  shows "owned (with_both (cm', m') s)"
proof -
  have e: "cs_tasks (with_both (cm', m') s) = m'" "cs_cm (with_both (cm', m') s) = cm'" "cs_closing (with_both (cm', m') s) = cs_closing s" by simp_all
  show ?thesis unfolding owned_def e using ownedD [OF assms(1)] assms(2) [unfolded cancels_removed_def] by metis
qed

text \<open>A step on the tasks alone keeps them owned when it adds no task but of registered keys.\<close>

lemma owned_tasks:
  assumes "owned s" and "\<And>t. t \<in> live (hs_mgr h) \<Longrightarrow> t \<in> live (cs_tasks s) \<and> task_key (hs_mgr h) t = task_key (cs_tasks s) t \<or>
      callbacks (cs_cm s) (task_key (hs_mgr h) t) \<noteq> None"
  shows "owned (s\<lparr>cs_hyd := h\<rparr>)"
proof -
  have e: "cs_tasks (s\<lparr>cs_hyd := h\<rparr>) = hs_mgr h" "cs_cm (s\<lparr>cs_hyd := h\<rparr>) = cs_cm s" "cs_closing (s\<lparr>cs_hyd := h\<rparr>) = cs_closing s" by simp_all
  show ?thesis unfolding owned_def e using ownedD [OF assms(1)] assms(2) by metis
qed

lemma create_key:
  assumes c: "CreateHydrateTask now sf fp b i pr vfd ctx m = (ret, key, m')" and t: "t \<in> live m'"
  shows "t \<in> live m \<and> task_key m' t = task_key m t \<or> task_key m' t = (b, i)"
  using c
proof (cases rule: create_cases)
  case (rejected ret1)
  then have "tm_obj m' = tm_obj m \<and> tm_new m' = tm_new m" using prepare_frame(1) prepare_frame(2) by metis
  then show ?thesis using t by (simp add: live_def task_key_def)
next
  case (created f n m1)
  note p = prepare_frame [OF created(2)]
  show ?thesis
  proof (cases "t = tm_new m")
    case True
    then show ?thesis by (simp add: created(4) task_frame notify_obj p(1,2) task_key_def) (simp add: new_task_def SetHydrateProgressContext_def)
  next
    case False
    then have "tm_obj m' t = tm_obj m t" by (simp add: created(4) task_frame notify_obj p(1,2))
    moreover have "tm_new m' = tm_new m + 1" by (simp add: created(4) task_frame p(2))
    ultimately show ?thesis using t False by (simp add: task_key_def live_def)
  qed
qed


lemma erased_keys:
  assumes "reg_ok cm" and "unregister_locked b i cm = (E_OK, cm') \<or> clear_locked b i cm = (True, cm')"
  shows "reg_ok cm'" and "callbacks cm' = (callbacks cm)((b, i) := None)"
proof -
  obtain e where "callbacks cm (b, i) = Some e" "cm' = erase_entry (b, i) e cm"
    using assms(2) by (auto simp: unregister_locked_def clear_locked_def simp del: map_of_eq_Some_iff split: if_splits option.splits)
  then show "reg_ok cm'" "callbacks cm' = (callbacks cm)((b, i) := None)" using erase_ok [OF assms(1)] by simp_all
qed

text \<open>What the operations do to the registry and the tasks, seen from the tables.\<close>

lemma cancels_removed_refl: "cancels_removed cm m cm m"
  by (simp add: cancels_removed_def)

lemma cancels_erased:
  assumes "reg_ok cm" and "tasks_ok m" and "unregister_locked b i cm = (E_OK, cm') \<or> clear_locked b i cm = (True, cm')"
  shows "cancels_removed cm m cm' (CancelTasksBySyncFolder now b i reason m)"
  unfolding cancels_removed_def erased_keys(2) [OF assms(1, 3)] using cancel_folder_live [OF assms(2)] by simp

lemma unregister_effect:
  assumes "reg_ok cm" and "tasks_ok m" and u: "UnregisterCallbackTable now b i (cm, m) = (ret, cm', m')"
  shows "reg_ok cm'" and "cancels_removed cm m cm' m'"
proof -
  have "cm' = cm \<and> m' = m \<or> unregister_locked b i cm = (E_OK, cm') \<and> m' = CancelTasksBySyncFolder now b i UNREGISTER m"
    using u by (auto simp: UnregisterCallbackTable_def unregister_locked_def split: prod.splits if_splits option.splits)
  then consider "cm' = cm" "m' = m" | "unregister_locked b i cm = (E_OK, cm')" "m' = CancelTasksBySyncFolder now b i UNREGISTER m" by blast
  note c = this
  show "reg_ok cm'" using c by cases (use assms(1) erased_keys(1) in blast)+
  show "cancels_removed cm m cm' m'" using c
    by cases (simp_all add: cancels_removed_refl cancels_erased [OF assms(1, 2)])
qed

lemma clear_effect:
  assumes "reg_ok cm" and "tasks_ok m" and u: "ClearBySyncFolder now b i (cm, m) = (cm', m')"
  shows "reg_ok cm'" and "cancels_removed cm m cm' m'"
proof -
  have "cm' = cm \<and> m' = m \<or> clear_locked b i cm = (True, cm') \<and> m' = CancelTasksBySyncFolder now b i UNREGISTER m"
    using u by (auto simp: ClearBySyncFolder_def clear_locked_def split: prod.splits if_splits option.splits)
  then consider "cm' = cm" "m' = m" | "clear_locked b i cm = (True, cm')" "m' = CancelTasksBySyncFolder now b i UNREGISTER m" by blast
  note c = this
  show "reg_ok cm'" using c by cases (use assms(1) erased_keys(1) in blast)+
  show "cancels_removed cm m cm' m'" using c
    by cases (simp_all add: cancels_removed_refl cancels_erased [OF assms(1, 2)])
qed

lemma died_effect:
  assumes "reg_ok cm" and "tasks_ok m" and u: "OnRemoteDied now r (cm, m) = (cm', m')"
  shows "reg_ok cm'" and "cancels_removed cm m cm' m'"
proof -
  obtain entries where d: "died_locked r cm = (entries, cm')" and m': "m' = fold (\<lambda>(b, i). CancelTasksBySyncFolder now b i CALLBACK_DIED) entries m"
    using u by (auto simp: OnRemoteDied_def split: prod.splits)
  show "reg_ok cm'" by (rule died_ok(1) [OF assms(1) d])
  show "cancels_removed cm m cm' m'" unfolding m' cancels_removed_def died_ok(2) [OF assms(1) d]
    using cancel_keys_live [OF assms(2)] by simp
qed

lemma all_cleared_live:
  assumes "tasks_ok m"
  shows "live (snd (user_switched now (cm, m))) = {}" and "live (snd (service_stopped now (cm, m))) = {}"
proof -
  show "live (snd (user_switched now (cm, m))) = {}"
    using cancel_all_live(1) [OF assms, of now USER_SWITCH] by (simp add: user_switched_def ClearCancellationRecords_def live_def)
  show "live (snd (service_stopped now (cm, m))) = {}"
    using cancel_all_live(2) [OF assms, of now] by (simp add: service_stopped_def StopScheduler_def stop_end_def live_def)
qed

lemma step_reg_ok:
  assumes r: "cb_reach s" and ok: "reg_ok (cs_cm s)" and st: "cb_step s s'"
  shows "reg_ok (cs_cm s')"
  using st
proof cases
  case (unregister now b i ret cm' m')
  then show ?thesis using unregister_effect(1) [OF ok cb_tasks_ok [OF r] unregister(2)] by simp
next
  case (clear now b i)
  then show ?thesis using clear_effect(1) [OF ok cb_tasks_ok [OF r]] by (metis prod.collapse with_both_sel(1))
next
  case (died now k)
  then show ?thesis using died_effect(1) [OF ok cb_tasks_ok [OF r]] by (metis prod.collapse with_both_sel(1))
qed (use ok in \<open>auto simp: set_tasks_def user_switched_def service_stopped_def intro: register_ok(1) erased_keys(1) clear_all_ok(1) died_ok(1)\<close>)

lemma run_registered:
  assumes "RunIfRegistered b i f cm m = (ret, m')"
  shows "m' = m \<or> callbacks cm (b, i) \<noteq> None \<and> f m = (ret, m')"
  using assms by (simp add: RunIfRegistered_def split: if_splits)

lemma run_create_key:
  assumes r: "RunIfRegistered b i (create_operation now sf fp b i pr vfd ctx) cm m = (ret, m')" and t: "t \<in> live m'"
  shows "t \<in> live m \<and> task_key m' t = task_key m t \<or> callbacks cm (task_key m' t) \<noteq> None"
proof (cases "m' = m")
  case False
  then have c: "callbacks cm (b, i) \<noteq> None" "create_operation now sf fp b i pr vfd ctx m = (ret, m')" using run_registered [OF r] by simp_all
  then obtain key where "CreateHydrateTask now sf fp b i pr vfd ctx m = (ret, key, m')"
    by (auto simp: create_operation_def split: prod.splits)
  from create_key [OF this t] show ?thesis using c(1) by auto
qed (use t in simp)

text \<open>The cancellation of an operation under way leaves no task of the keys it took out.\<close>

lemma cancel_closed_live:
  assumes "tasks_ok m" and "t \<in> live (cancel_closed now c m)"
  shows "t \<in> live m \<and> task_key (cancel_closed now c m) t = task_key m t \<and> task_key m t \<notin> closing_keys c"
proof (cases c)
  case (Removed key reason)
  obtain b i where k: "key = (b, i)" by (cases key)
  show ?thesis using cancel_folder_live [OF assms(1), of t now b i reason] assms(2) by (simp add: Removed k)
qed (use assms cancel_all_live [OF assms(1)] in auto)

lemma step_owned_operation:
  assumes r: "cb_reach s" and ok: "reg_ok (cs_cm s)" and o: "owned s"
  shows "UnregisterCallbackTable now b i (cs_cm s, cs_tasks s) = (ret, cm', m') \<Longrightarrow> owned (with_both (cm', m') s)"
    and "owned (with_both (ClearBySyncFolder now b i (cs_cm s, cs_tasks s)) s)"
    and "owned (with_both (OnRemoteDied now k (cs_cm s, cs_tasks s)) s)"
    and "owned (with_both (user_switched now (cs_cm s, cs_tasks s)) s)"
    and "owned (with_both (service_stopped now (cs_cm s, cs_tasks s)) s)"
proof -
  note ts = cb_tasks_ok [OF r]
  show "owned (with_both (cm', m') s)" if "UnregisterCallbackTable now b i (cs_cm s, cs_tasks s) = (ret, cm', m')"
    by (rule owned_both [OF o]) (rule unregister_effect(2) [OF ok ts that])
  show "owned (with_both (ClearBySyncFolder now b i (cs_cm s, cs_tasks s)) s)"
    by (cases "ClearBySyncFolder now b i (cs_cm s, cs_tasks s)") (simp only:, rule owned_both [OF o], rule clear_effect(2) [OF ok ts])
  show "owned (with_both (OnRemoteDied now k (cs_cm s, cs_tasks s)) s)"
    by (cases "OnRemoteDied now k (cs_cm s, cs_tasks s)") (simp only:, rule owned_both [OF o], rule died_effect(2) [OF ok ts])
  show "owned (with_both (user_switched now (cs_cm s, cs_tasks s)) s)" "owned (with_both (service_stopped now (cs_cm s, cs_tasks s)) s)"
    using all_cleared_live [OF ts, of now "cs_cm s"] by (simp_all add: owned_def)
qed

lemma step_owned:
  assumes r: "cb_reach s" and ok: "reg_ok (cs_cm s)" and o: "owned s" and st: "cb_step s s'"
  shows "owned s'"
  using st
proof cases
  case (register watch b i callback ret cm')
  have "owned (s\<lparr>cs_cm := cm', cs_closing := [] @ cs_closing s\<rparr>)"
    by (rule owned_registry [OF o]) (use register_ok(2) [OF ok register(2)] in blast)
  then show ?thesis using register(1) by simp
next
  case (unregister now b i ret cm' m')
  then show ?thesis using step_owned_operation(1) [OF r ok o] by simp
next
  case (unregister_begin b i cm')
  show ?thesis unfolding unregister_begin(1)
    by (rule owned_registry [OF o]) (use erased_keys(2) [OF ok disjI1 [OF unregister_begin(2)]] in \<open>simp split: if_splits\<close>)
next
  case (clear_begin b i cm')
  show ?thesis unfolding clear_begin(1)
    by (rule owned_registry [OF o]) (use erased_keys(2) [OF ok disjI2 [OF clear_begin(2)]] in \<open>simp split: if_splits\<close>)
next
  case switch_begin
  show ?thesis unfolding switch_begin by (rule owned_registry [OF o]) (simp add: map_of_eq_None_iff)
next
  case stop_begin
  show ?thesis unfolding stop_begin by (rule owned_registry [OF o]) (simp add: map_of_eq_None_iff)
next
  case (died_begin r entries cm')
  show ?thesis unfolding died_begin(1)
    by (rule owned_registry [OF o]) (use died_ok(2) [OF ok died_begin(2)] in \<open>simp split: if_splits\<close>)
next
  case (close c now)
  note l = cancel_closed_live [OF cb_tasks_ok [OF r], where now = now and c = c]
  have t: "cs_tasks s' = cancel_closed now c (cs_tasks s)" "cs_cm s' = cs_cm s" "cs_closing s' = remove1 c (cs_closing s)"
    using close(1) by (simp_all add: set_tasks_def)
  show ?thesis unfolding owned_def t using ownedD [OF o] l by (metis in_set_remove1)
next
  case (create b i now sf fp pr vfd ctx ret m')
  show ?thesis unfolding create(1) set_tasks_def
  proof (rule owned_tasks [OF o])
    fix t assume "t \<in> live (hs_mgr (cs_hyd s\<lparr>hs_mgr := m'\<rparr>))"
    then show "t \<in> live (cs_tasks s) \<and> task_key (hs_mgr (cs_hyd s\<lparr>hs_mgr := m'\<rparr>)) t = task_key (cs_tasks s) t \<or>
        callbacks (cs_cm s) (task_key (hs_mgr (cs_hyd s\<lparr>hs_mgr := m'\<rparr>)) t) \<noteq> None"
      using run_create_key [OF create(2)] by simp
  qed
next
  case (tasks h)
  show ?thesis unfolding tasks(1)
    by (rule owned_tasks [OF o]) (use step_same_new [OF tasks(2) reach_inv [OF cb_reach_hyd [OF r]] tasks(3)] in blast)
qed (use step_owned_operation [OF r ok o] in blast)+

lemma cb_reach_owned: "cb_reach s \<Longrightarrow> reg_ok (cs_cm s) \<and> owned s"
proof (induction rule: cb_reach.induct)
  case (init h)
  then show ?case by (simp add: reg_ok_def tables_ok_def cb_init_def owned_def live_def)
qed (blast intro: step_reg_ok step_owned)

text \<open>
  C34: No hydration task outlives the callback table it would be served by. The registry and the
  tasks run together, by registrations, unregistrations, the clearing of a folder, the death of
  remote objects, user switches, the stop of the service, creations under the registry's lock
  and every step of the task manager, in any order; each operation that removes tables is one
  step, or the removal and the cancellation are two with other steps in between. In every state
  so reached an outstanding task belongs to an application and a sync folder that have a callback
  table registered, or an operation that removed that table is between its two parts. So when no
  operation is between them, every outstanding task has its table.
\<close>

theorem no_orphan_tasks:
  assumes "cb_reach s" and "t < tm_new (cs_tasks s)" and "outstanding (tm_obj (cs_tasks s) t)"
  defines "key \<equiv> (t_bundleName (tm_obj (cs_tasks s) t), t_syncFolderIndex (tm_obj (cs_tasks s) t))"
  shows "(IsCallbackRegistered (fst key) (snd key) (cs_cm s) \<or> (\<exists>c. c \<in> set (cs_closing s) \<and> key \<in> closing_keys c)) \<and>
    (cs_closing s = [] \<longrightarrow> IsCallbackRegistered (fst key) (snd key) (cs_cm s))"
proof -
  have "owned s" using cb_reach_owned [OF assms(1)] by blast
  moreover have "t \<in> live (cs_tasks s)" using assms(2, 3) by (simp add: live_def)
  ultimately have "callbacks (cs_cm s) key \<noteq> None \<or> (\<exists>c \<in> set (cs_closing s). key \<in> closing_keys c)"
    using ownedD [of s t] by (simp add: task_key_def key_def)
  then show ?thesis by (auto simp: IsCallbackRegistered_def GetCallback_def)
qed

text \<open>
  C35: The death of a provider's remote object takes back exactly what the object had: afterwards
  none of its callback tables is registered and the object is neither listed nor watched, every
  other table is as before, and no hydration task of an application and folder it served is
  outstanding. It holds in every state the registry and the tasks reach.
\<close>

theorem remote_died_cleans:
  assumes "cb_reach s" and "OnRemoteDied now r (cs_cm s, cs_tasks s) = (cm', m')"
  shows "GetCallback b i cm' = (if GetCallback b i (cs_cm s) = Some r then None else GetCallback b i (cs_cm s)) \<and>
    map_of (cm_remoteCallbackMap cm') r = None \<and> r \<notin> set (cm_deathRecipientMap cm') \<and>
    (t < tm_new m' \<and> outstanding (tm_obj m' t) \<longrightarrow>
       GetCallback (t_bundleName (tm_obj m' t)) (t_syncFolderIndex (tm_obj m' t)) (cs_cm s) \<noteq> Some r)"
proof -
  have ok: "reg_ok (cs_cm s)" using cb_reach_owned [OF assms(1)] by blast
  obtain entries where d: "died_locked r (cs_cm s) = (entries, cm')"
    and m': "m' = fold (\<lambda>(b, i). CancelTasksBySyncFolder now b i CALLBACK_DIED) entries (cs_tasks s)"
    using assms(2) by (auto simp: OnRemoteDied_def split: prod.splits)
  have e: "k \<in> set entries \<longleftrightarrow> map_option en_remote (callbacks (cs_cm s) k) = Some r" for k
    using died_ok(3) [OF ok d, of k] by (simp only: map_option_eq_Some)
  have g: "GetCallback b i cm' = (if GetCallback b i (cs_cm s) = Some r then None else GetCallback b i (cs_cm s))" for b i
    using e [of "(b, i)"] by (simp add: GetCallback_def died_ok(2) [OF ok d] del: map_option_eq_Some)
  have "tables_ok (callbacks cm') (remotes cm') (set (cm_deathRecipientMap cm')) (cm_next cm')"
    using died_ok(1) [OF ok d] by (simp add: reg_ok_def)
  moreover have "remotes cm' r = None"
    using d by (auto simp: died_locked_def delete_conv' split: option.splits prod.splits)
  ultimately have w: "remotes cm' r = None \<and> r \<notin> set (cm_deathRecipientMap cm')" using tables_ok_watch by metis
  have "task_key m' t \<notin> set entries" if "t \<in> live m'"
    using cancel_keys_live [OF cb_tasks_ok [OF assms(1)]] that unfolding m' by metis
  then have "t < tm_new m' \<and> outstanding (tm_obj m' t) \<longrightarrow>
      GetCallback (t_bundleName (tm_obj m' t)) (t_syncFolderIndex (tm_obj m' t)) (cs_cm s) \<noteq> Some r"
    unfolding e GetCallback_def task_key_def live_def by blast
  then show ?thesis using g w by blast
qed

section \<open>A run\<close>

text \<open>A provider registers two folders with one object, and a file of one of them is to be hydrated.\<close>

definition cb_run_cm :: cb_mgr where
  "cb_run_cm = snd (RegisterCallbackTable True ''app'' 8 (Some 5) (snd (RegisterCallbackTable True ''app'' 7 (Some 5) cb_init)))"

definition cb_run_start :: task_mgr where
  "cb_run_start = mgr_init (\<lambda>_. new_task [] [] [] [] 0 0 (0, 0) 0 0)"

definition cb_run :: cb_sys where
  "cb_run = \<lparr>cs_cm = cb_run_cm, cs_hyd = \<lparr>hs_mgr = run_create ''a'' 0 cb_run_start, hs_files = run_files, hs_picked = None\<rparr>, cs_closing = []\<rparr>"

lemma cb_run_reach: "cb_reach cb_run"
proof -
  have i: "cb_reach \<lparr>cs_cm = cb_init, cs_hyd = \<lparr>hs_mgr = cb_run_start, hs_files = run_files, hs_picked = None\<rparr>, cs_closing = []\<rparr>"
    unfolding cb_run_start_def by (rule cb_reach.init [OF hyd_reach.init]) (simp add: mgr_init_def)
  have reg: "cb_reach (s\<lparr>cs_cm := snd (RegisterCallbackTable True ''app'' k (Some 5) (cs_cm s))\<rparr>)" if "cb_reach s" for s k
    using cb_reach.step [OF that cb_step.register] by (metis prod.collapse)
  have r: "cb_reach \<lparr>cs_cm = cb_run_cm, cs_hyd = \<lparr>hs_mgr = cb_run_start, hs_files = run_files, hs_picked = None\<rparr>, cs_closing = []\<rparr>"
    using reg [OF reg [OF i, of 7], of 8] by (simp add: cb_run_cm_def)
  have "RunIfRegistered ''app'' 7 (create_operation 0 ''/r'' ''a'' ''app'' 7 0 (Some ((1, 2), Some 30)) run_context) cb_run_cm cb_run_start =
      create_operation 0 ''/r'' ''a'' ''app'' 7 0 (Some ((1, 2), Some 30)) run_context cb_run_start"
  proof -
    have "map_of (cm_callbackMap cb_run_cm) (''app'', 7) \<noteq> None" by code_simp
    then show ?thesis by (auto simp: RunIfRegistered_def)
  qed
  then show ?thesis using cb_reach.step [OF r cb_step.create]
    by (simp add: create_operation_def run_create_def cb_run_def set_tasks_def split: prod.splits)
qed

theorem no_orphan_tasks_witness:
  "t_bundleName (tm_obj (cs_tasks cb_run) 0) = ''app'' \<and>
   IsCallbackRegistered (t_bundleName (tm_obj (cs_tasks cb_run) 0)) (t_syncFolderIndex (tm_obj (cs_tasks cb_run) 0)) (cs_cm cb_run)"
proof -
  have "0 < tm_new (cs_tasks cb_run)" "outstanding (tm_obj (cs_tasks cb_run) 0)" "t_bundleName (tm_obj (cs_tasks cb_run) 0) = ''app''" by code_simp+
  then show ?thesis using no_orphan_tasks [OF cb_run_reach, of 0] by (simp add: cb_run_def)
qed


theorem remote_died_cleans_witness:
  "GetCallback ''app'' 7 (cs_cm cb_run) = Some 5 \<and> GetCallback ''app'' 7 (fst (OnRemoteDied 0 5 (cs_cm cb_run, cs_tasks cb_run))) = None"
proof -
  have "GetCallback ''app'' 7 (cs_cm cb_run) = Some 5" by code_simp
  then show ?thesis using remote_died_cleans [OF cb_run_reach, of 0 5 _ _ "''app''" 7] by (metis prod.collapse)
qed

end
