(* ===== verification/Placeholder_Ops.thy ===== *)
theory Placeholder_Ops
  imports Sync_Folder Callback_Manager
begin

text \<open>
  The operations on placeholder files, \<open>services/clouddiskservice/ipc/src/cloud_disk_service.cpp\<close>:
  creating one, updating it, marking an ordinary file as a placeholder and back, turning one into
  an empty file, dropping its data, and the queries. Directories, data and attributes belong to
  nodes, the canonical spellings of paths; a call on a path resolves it as the kernel does, and a
  call on a descriptor acts on the node it was opened on.
\<close>

abbreviation (input) E_PLACEHOLDER_CUSTOM_INFO_NOT_FOUND :: int where "E_PLACEHOLDER_CUSTOM_INFO_NOT_FOUND \<equiv> 34400027"
abbreviation (input) E_PERMISSION_DENIED :: int where "E_PERMISSION_DENIED \<equiv> 201"
abbreviation (input) PLACEHOLDER_CUSTOM_INFO_MAX_SIZE :: nat where "PLACEHOLDER_CUSTOM_INFO_MAX_SIZE \<equiv> 4096"
abbreviation (input) MAX_PLACEHOLDER_LOGICAL_SIZE :: u64 where "MAX_PLACEHOLDER_LOGICAL_SIZE \<equiv> 0x7FFFFFFFFFFFFFFF"
abbreviation (input) DEHYDRATE_EXTEND_MAX_ATTEMPTS :: nat where "DEHYDRATE_EXTEND_MAX_ATTEMPTS \<equiv> 3"

section \<open>Files\<close>

type_synonym timespec = "int \<times> int"

record ph_world =
  pw_dirs :: "string set"
  pw_data :: "string \<Rightarrow> u8 list option"
  pw_attr :: "string xstore"
  pw_custom :: "string \<Rightarrow> u8 list option"
  pw_times :: "string \<Rightarrow> timespec \<times> timespec"
  pw_svc :: svc_world

text \<open>
  The outcomes of the calls of one operation, zero when a call works: the attribute calls and the
  dentry store, \<open>stat\<close> and \<open>open\<close> by path, \<open>openat\<close>, \<open>fstat\<close>, the \<open>ftruncate\<close> calls by number, and the
  calls on the custom information, the times and the directory entry.
\<close>

record ops_env =
  pe_recount :: recount_env
  pe_stat :: "string \<Rightarrow> int"
  pe_open :: "string \<Rightarrow> int"
  pe_openat :: int
  pe_fstat :: int
  pe_trunc :: "nat \<Rightarrow> int"
  pe_setCustom :: int
  pe_getCustom :: "nat \<Rightarrow> int"
  pe_futimens :: int
  pe_unlink :: int

abbreviation pe_xerr :: "ops_env \<Rightarrow> string xerr" where "pe_xerr env \<equiv> re_xerr (pe_recount env)"

text \<open>
  Resolving a path: the node it names, or the error. A file cannot be named with a slash or a dot at
  the end, nor be passed through.
\<close>

definition walk :: "string \<Rightarrow> ph_world \<Rightarrow> int + string" where
  "walk path w =
     (let node = kernel_path path
      in if node \<in> pw_dirs w then Inr node
         else if pw_data w node \<noteq> None then (if names_entry path then Inr node else Inl ENOTDIR)
         else if list_ex (\<lambda>k. pw_data w (spell (take k (path_names path))) \<noteq> None) [0..<length (path_names path)] then Inl ENOTDIR
         else Inl ENOENT)"

text \<open>\<open>stat\<close>: whether the path is a directory; \<open>open\<close> of a file; \<open>ftruncate\<close>.\<close>

definition stat_path :: "ops_env \<Rightarrow> string \<Rightarrow> ph_world \<Rightarrow> int + bool" where
  "stat_path env path w =
     (if pe_stat env path \<noteq> 0 then Inl (pe_stat env path)
      else case walk path w of Inl err \<Rightarrow> Inl err | Inr node \<Rightarrow> Inr (node \<in> pw_dirs w))"

definition open_path :: "ops_env \<Rightarrow> string \<Rightarrow> ph_world \<Rightarrow> int" where
  "open_path env path w =
     (if pe_open env path \<noteq> 0 then pe_open env path
      else case walk path w of Inl err \<Rightarrow> err | Inr node \<Rightarrow> if node \<in> pw_dirs w then EISDIR else 0)"

definition file_bytes :: "ph_world \<Rightarrow> string \<Rightarrow> u8 list" where
  "file_bytes w path = (case pw_data w path of None \<Rightarrow> [] | Some d \<Rightarrow> d)"

definition set_size :: "nat \<Rightarrow> u8 list \<Rightarrow> u8 list" where
  "set_size n d = take n d @ replicate (n - length d) 0"

definition ftruncate :: "ops_env \<Rightarrow> nat \<Rightarrow> string \<Rightarrow> nat \<Rightarrow> ph_world \<Rightarrow> int \<times> ph_world" where
  "ftruncate env call path len w =
     (if pe_trunc env call \<noteq> 0 then (pe_trunc env call, w)
      else (0, w\<lparr>pw_data := (pw_data w)(path \<mapsto> set_size len (file_bytes w path))\<rparr>))"

definition set_state :: "ops_env \<Rightarrow> string \<Rightarrow> u8 \<Rightarrow> ph_world \<Rightarrow> int \<times> u8 \<times> ph_world" where
  "set_state env path newState w =
     (case SetFilePlaceholderState (pe_xerr env) (pw_attr w) path newState of (ret, old, attr) \<Rightarrow>
        (ret, case old of None \<Rightarrow> PLACEHOLDER_STATE_NONE | Some v \<Rightarrow> v, w\<lparr>pw_attr := attr\<rparr>))"

definition refresh_count :: "ops_env \<Rightarrow> string \<Rightarrow> string \<Rightarrow> int \<Rightarrow> ph_world \<Rightarrow> int \<times> ph_world" where
  "refresh_count env syncRoot path delta w =
     (case RefreshAncestorPlaceholderCount (pe_xerr env) syncRoot path delta (pw_attr w) of (ret, attr) \<Rightarrow> (ret, w\<lparr>pw_attr := attr\<rparr>))"

definition update_dentry :: "ops_env \<Rightarrow> int \<Rightarrow> u32 \<Rightarrow> string \<Rightarrow> u8 \<Rightarrow> ph_world \<Rightarrow> ph_world" where
  "update_dentry env userId syncFolderIndex path state w =
     w\<lparr>pw_svc := snd (UpdateDentryPlaceholderState (pe_recount env) userId syncFolderIndex path state (pw_svc w))\<rparr>"

section \<open>Creating a placeholder\<close>

record PlaceholderInfo =
  pi_logicalSize :: u64
  pi_atimeMs :: u64
  pi_mtimeMs :: u64

definition MillisecondsToTimespec :: "u64 \<Rightarrow> timespec" where
  "MillisecondsToTimespec timeMs = (uint (timeMs div 1000), uint ((timeMs mod 1000) * 1000000))"

record CreatePlaceholderPath =
  cp_parentMntPath :: string
  cp_fileName :: string
  cp_syncRootMntPath :: string

definition BuildCreatePlaceholderPath :: "caller_env \<Rightarrow> string \<Rightarrow> string \<Rightarrow> int \<Rightarrow> int + CreatePlaceholderPath" where
  "BuildCreatePlaceholderPath env syncFolder relativePath userId =
     (if relativePath = [] \<or> HasInvalidRelativePathSegment relativePath \<or> hd relativePath = CHR ''/'' \<or> last relativePath = CHR ''/''
      then Inl E_INVALID_ARG
      else let (parentRelativePath, fileName) =
                 (case find_last_of CHR ''/'' relativePath of
                    None \<Rightarrow> ([], relativePath) | Some pos \<Rightarrow> (take pos relativePath, drop (pos + 1) relativePath))
           in case PathToMntPathBySandboxPath (ce_realpath env) syncFolder (to_string userId) of
                Inl ret \<Rightarrow> Inl ret
              | Inr syncRootMntPath \<Rightarrow>
                  Inr \<lparr>cp_parentMntPath = (if parentRelativePath \<noteq> [] then JoinSyncFolderAndRelativePath syncRootMntPath parentRelativePath
                                           else syncRootMntPath),
                       cp_fileName = fileName, cp_syncRootMntPath = syncRootMntPath\<rparr>)"

text \<open>\<open>isNew\<close> stands for a null \<open>oldPlaceholderState\<close>; the old state is part of the result.\<close>

definition SetPlaceholderFileAttributes ::
  "ops_env \<Rightarrow> nat \<Rightarrow> string \<Rightarrow> PlaceholderInfo \<Rightarrow> bool \<Rightarrow> u8 list \<Rightarrow> ph_world \<Rightarrow> int \<times> u8 \<times> ph_world" where
  "SetPlaceholderFileAttributes env call path info isNew customInfo w =
     (if pi_logicalSize info > MAX_PLACEHOLDER_LOGICAL_SIZE then (EFBIG, PLACEHOLDER_STATE_NONE, w)
      else case ftruncate env call path (unat (pi_logicalSize info)) w of (err, w1) \<Rightarrow>
        if err \<noteq> 0 then (err, PLACEHOLDER_STATE_NONE, w1)
        else case (if isNew
                   then case SetNewFilePlaceholderState (pe_xerr env) (pw_attr w1) path PLACEHOLDER_STATE_UNHYDRATED of
                          (err, attr) \<Rightarrow> (err, PLACEHOLDER_STATE_NONE, w1\<lparr>pw_attr := attr\<rparr>)
                   else set_state env path PLACEHOLDER_STATE_UNHYDRATED w1) of (err, oldState, w2) \<Rightarrow>
          if err \<noteq> E_OK then (err, oldState, w2)
          else if customInfo \<noteq> [] \<and> pe_setCustom env \<noteq> 0 then (pe_setCustom env, oldState, w2)
          else let w3 = (if customInfo \<noteq> [] then w2\<lparr>pw_custom := (pw_custom w2)(path \<mapsto> customInfo)\<rparr> else w2)
               in if pe_futimens env \<noteq> 0 then (pe_futimens env, oldState, w3)
                  else (E_OK, oldState, w3\<lparr>pw_times := (pw_times w3)(path :=
                          (MillisecondsToTimespec (pi_atimeMs info), MillisecondsToTimespec (pi_mtimeMs info)))\<rparr>))"

text \<open>A new file has no attributes, whatever a removed file of that name had.\<close>

definition new_file :: "string \<Rightarrow> ph_world \<Rightarrow> ph_world" where
  "new_file path w = w\<lparr>pw_data := (pw_data w)(path \<mapsto> []), pw_attr := (pw_attr w)(path := \<lparr>xa_state = None, xa_count = None\<rparr>),
     pw_custom := (pw_custom w)(path := None)\<rparr>"

definition unlink_file :: "string \<Rightarrow> ph_world \<Rightarrow> ph_world" where
  "unlink_file path w = w\<lparr>pw_data := (pw_data w)(path := None)\<rparr>"

definition CreatePlaceholderFileAt :: "ops_env \<Rightarrow> CreatePlaceholderPath \<Rightarrow> PlaceholderInfo \<Rightarrow> u8 list \<Rightarrow> ph_world \<Rightarrow> int \<times> ph_world" where
  "CreatePlaceholderFileAt env path info customInfo w =
     (let filePath = JoinSyncFolderAndRelativePath (cp_parentMntPath path) (cp_fileName path);
          node = kernel_path filePath
      in if pe_open env (cp_parentMntPath path) \<noteq> 0 then (ConvertErrnoToCloudDiskError (pe_open env (cp_parentMntPath path)), w)
         else case walk (cp_parentMntPath path) w of
           Inl err \<Rightarrow> (ConvertErrnoToCloudDiskError err, w)
         | Inr parent \<Rightarrow>
             if parent \<notin> pw_dirs w then (ConvertErrnoToCloudDiskError ENOTDIR, w)
             else if pe_openat env \<noteq> 0 then (ConvertErrnoToCloudDiskError (pe_openat env), w)
             else if node \<in> pw_dirs w \<or> pw_data w node \<noteq> None then (ConvertErrnoToCloudDiskError EEXIST, w)
             else case SetPlaceholderFileAttributes env 0 node info True customInfo (new_file node w) of (err, _, w1) \<Rightarrow>
               if err \<noteq> E_OK then (ConvertErrnoToCloudDiskError err, if pe_unlink env \<noteq> 0 then w1 else unlink_file node w1)
               else (E_OK, snd (refresh_count env (cp_syncRootMntPath path) filePath 1 w1)))"

definition NormalizeCreatePlaceholderError :: "int \<Rightarrow> int" where
  "NormalizeCreatePlaceholderError ret =
     (if ret \<in> {E_OK, E_PERM, E_ACCES, E_INVALID_ARG, E_PERMISSION_DENIED, E_SYNC_FOLDER_NOT_REGISTERED, E_SYNC_FOLDER_PATH_NOT_EXIST,
                E_NOT_SUPPORTED, E_TRY_AGAIN, E_IPC_FAILED, E_FILE_ALREADY_EXISTS, E_NO_SPACE_LEFT, E_NOT_A_DIRECTORY,
                E_NAME_TOO_LONG, E_FILE_TOO_LARGE} then ret
      else ConvertErrnoToCloudDiskError ret)"

definition ValidateCreatePlaceholderParams :: "string \<Rightarrow> string \<Rightarrow> PlaceholderInfo \<Rightarrow> u8 list \<Rightarrow> int" where
  "ValidateCreatePlaceholderParams syncFolder relativePath info customInfo =
     (if syncFolder = [] \<or> relativePath = [] then E_INVALID_ARG
      else if length customInfo > PLACEHOLDER_CUSTOM_INFO_MAX_SIZE then E_INVALID_ARG
      else if pi_logicalSize info > MAX_PLACEHOLDER_LOGICAL_SIZE then E_FILE_TOO_LARGE
      else E_OK)"

definition CreatePlaceholderFileInner ::
  "caller_env \<Rightarrow> ops_env \<Rightarrow> sync_folder_map \<Rightarrow> string \<Rightarrow> string \<Rightarrow> PlaceholderInfo \<Rightarrow> u8 list \<Rightarrow> ph_world \<Rightarrow> int \<times> ph_world" where
  "CreatePlaceholderFileInner caller env m syncFolder relativePath info customInfo w =
     (let ret = ValidateCreatePlaceholderParams syncFolder relativePath info customInfo
      in if ret \<noteq> E_OK then (ret, w)
         else case PathToPhysicalPath (ce_realpath caller) syncFolder (to_string (ce_userId caller)) of
           Inl ret \<Rightarrow> (NormalizeCreatePlaceholderError ret, w)
         | Inr syncFolderPhysicalPath \<Rightarrow>
             if fst (ce_bundle caller) \<noteq> E_OK then (E_TRY_AGAIN, w)
             else if case GetSyncFolderValueByIndex (DentryHash syncFolderPhysicalPath False) m of
                       None \<Rightarrow> True | Some v \<Rightarrow> sf_bundleName v \<noteq> snd (ce_bundle caller)
             then (E_SYNC_FOLDER_NOT_REGISTERED, w)
             else case BuildCreatePlaceholderPath caller syncFolder relativePath (ce_userId caller) of
               Inl ret \<Rightarrow> (NormalizeCreatePlaceholderError ret, w)
             | Inr createPath \<Rightarrow>
                 (case CreatePlaceholderFileAt env createPath info customInfo w of (ret, w1) \<Rightarrow>
                    if ret \<noteq> E_OK then (NormalizeCreatePlaceholderError ret, w1) else (E_OK, w1)))"


section \<open>Marking and unmarking\<close>

definition CheckPathNotDir :: "ops_env \<Rightarrow> string \<Rightarrow> ph_world \<Rightarrow> int" where
  "CheckPathNotDir env hmdfsPath w =
     (case stat_path env hmdfsPath w of
        Inl err \<Rightarrow> ConvertTargetErrnoToCloudDiskError err
      | Inr isDir \<Rightarrow> if isDir then E_INVALID_ARG else E_OK)"

datatype PlaceholderStateTransition = MARK | UNMARK

definition ResolvePlaceholderStateTransition :: "u8 \<Rightarrow> PlaceholderStateTransition \<Rightarrow> int \<times> u8 \<times> int" where
  "ResolvePlaceholderStateTransition oldState transition =
     (if transition = MARK
      then if IsPlaceholderState oldState then (E_IS_A_PLACEHOLDER, PLACEHOLDER_STATE_NONE, -1)
           else (E_OK, PLACEHOLDER_STATE_FULLY_HYDRATED, 1)
      else if \<not> IsPlaceholderState oldState then (E_NOT_A_PLACEHOLDER, PLACEHOLDER_STATE_NONE, -1)
      else (if oldState = PLACEHOLDER_STATE_FULLY_HYDRATED then E_OK else E_PLACEHOLDER_NOT_FULLY_HYDRATED, PLACEHOLDER_STATE_NONE, -1))"

definition ChangePlaceholderStateOnly ::
  "ops_env \<Rightarrow> task_mgr \<Rightarrow> PlaceholderStatePathContext \<Rightarrow> PlaceholderStateTransition \<Rightarrow> string \<Rightarrow> ph_world \<Rightarrow> int \<times> ph_world" where
  "ChangePlaceholderStateOnly env m context transition relativePath w =
     (let path = cx_hmdfsPath context; node = kernel_path path
      in if relativePath \<noteq> [] \<and> HasOutstandingTask (cx_syncFolder context) relativePath (cx_syncFolderIndex context) m
         then (E_HYDRATE_IN_PROGRESS, w)
         else if CheckPathNotDir env path w \<noteq> E_OK then (CheckPathNotDir env path w, w)
         else if open_path env path w \<noteq> 0 then (ConvertTargetErrnoToCloudDiskError (open_path env path w), w)
         else case GetFilePlaceholderState (pe_xerr env) (pw_attr w) node of
           (ret, None) \<Rightarrow> (ConvertPlaceholderStateErrnoToCloudDiskError ret, w)
         | (ret, Some oldState) \<Rightarrow>
             if \<not> IsValidPlaceholderState oldState then (E_INVALID_PLACEHOLDER_STATE, w)
             else case ResolvePlaceholderStateTransition oldState transition of (ret, newState, delta) \<Rightarrow>
               if ret \<noteq> E_OK then (ret, w)
               else case set_state env node newState w of (ret, _, w1) \<Rightarrow>
                 if ret \<noteq> E_OK then (ConvertPlaceholderStateErrnoToCloudDiskError ret, w1)
                 else (E_OK, update_dentry env (cx_userId context) (cx_syncFolderIndex context) path newState
                               (snd (refresh_count env (cx_mntSyncFolder context) path delta w1))))"

definition change_inner ::
  "caller_env \<Rightarrow> ops_env \<Rightarrow> sync_folder_map \<Rightarrow> task_mgr \<Rightarrow> PlaceholderStateTransition \<Rightarrow> string \<Rightarrow> string \<Rightarrow> ph_world \<Rightarrow> int \<times> ph_world" where
  "change_inner caller env folders m transition syncFolder relativePath w =
     (if syncFolder = [] \<or> relativePath = [] then (E_INVALID_ARG, w)
      else case ResolvePlaceholderStatePath caller folders syncFolder relativePath of
        Inl ret \<Rightarrow> (ret, w)
      | Inr context \<Rightarrow> ChangePlaceholderStateOnly env m context transition relativePath w)"

definition MarkFileAsPlaceholderInner ::
  "caller_env \<Rightarrow> ops_env \<Rightarrow> sync_folder_map \<Rightarrow> task_mgr \<Rightarrow> string \<Rightarrow> string \<Rightarrow> ph_world \<Rightarrow> int \<times> ph_world" where
  "MarkFileAsPlaceholderInner caller env folders m = change_inner caller env folders m MARK"

definition UnmarkPlaceholderFileInner ::
  "caller_env \<Rightarrow> ops_env \<Rightarrow> sync_folder_map \<Rightarrow> task_mgr \<Rightarrow> string \<Rightarrow> string \<Rightarrow> ph_world \<Rightarrow> int \<times> ph_world" where
  "UnmarkPlaceholderFileInner caller env folders m = change_inner caller env folders m UNMARK"

section \<open>Turning a placeholder into an empty file\<close>

definition CheckPlaceHolderXattr :: "ops_env \<Rightarrow> string \<Rightarrow> ph_world \<Rightarrow> int" where
  "CheckPlaceHolderXattr env path w =
     (case GetFilePlaceholderState (pe_xerr env) (pw_attr w) path of
        (ret, None) \<Rightarrow> ConvertPlaceholderStateErrnoToCloudDiskError ret
      | (ret, Some placeholderState) \<Rightarrow>
          if \<not> IsValidPlaceholderState placeholderState then E_INVALID_PLACEHOLDER_STATE
          else if \<not> IsPlaceholderState placeholderState then E_NOT_A_PLACEHOLDER
          else E_OK)"

definition ConvertPlaceholderToEmptyFile :: "ops_env \<Rightarrow> string \<Rightarrow> string \<Rightarrow> int \<Rightarrow> u32 \<Rightarrow> ph_world \<Rightarrow> int \<times> ph_world" where
  "ConvertPlaceholderToEmptyFile env hmdfsPath mntSyncFolder userId syncFolderIndex w =
     (let node = kernel_path hmdfsPath in
      if CheckPathNotDir env hmdfsPath w \<noteq> E_OK then (CheckPathNotDir env hmdfsPath w, w)
      else if open_path env hmdfsPath w \<noteq> 0 then (ConvertTargetErrnoToCloudDiskError (open_path env hmdfsPath w), w)
      else if CheckPlaceHolderXattr env node w \<noteq> E_OK then (CheckPlaceHolderXattr env node w, w)
      else case ftruncate env 0 node 0 w of (err, w1) \<Rightarrow>
        if err \<noteq> 0 then (ConvertErrnoToCloudDiskError err, w1)
        else case set_state env node PLACEHOLDER_STATE_NONE w1 of (ret, oldPlaceholderState, w2) \<Rightarrow>
          if ret \<noteq> E_OK then (ConvertPlaceholderStateErrnoToCloudDiskError ret, w2)
          else (E_OK,
            if IsPlaceholderState oldPlaceholderState \<and> mntSyncFolder \<noteq> []
            then let w3 = snd (refresh_count env mntSyncFolder hmdfsPath (-1) w2)
                 in if userId \<ge> 0 then update_dentry env userId syncFolderIndex hmdfsPath PLACEHOLDER_STATE_NONE w3 else w3
            else w2))"

definition ConvertPlaceholderToFileInner ::
  "caller_env \<Rightarrow> ops_env \<Rightarrow> sync_folder_map \<Rightarrow> task_mgr \<Rightarrow> string \<Rightarrow> string \<Rightarrow> ph_world \<Rightarrow> int \<times> ph_world" where
  "ConvertPlaceholderToFileInner caller env folders m syncFolder relativePath w =
     (if syncFolder = [] \<or> relativePath = [] then (E_INVALID_ARG, w)
      else if fst (ce_bundle caller) \<noteq> E_OK then (E_TRY_AGAIN, w)
      else case CheckSyncFolderBundleName caller folders syncFolder (caller_user caller) (snd (ce_bundle caller)) of
        Inl ret \<Rightarrow> (ret, w)
      | Inr _ \<Rightarrow>
          (case GetHmdfsPath caller syncFolder relativePath (caller_user caller) of
             Inl ret \<Rightarrow> (ret, w)
           | Inr hmdfsPath \<Rightarrow>
               (case GetSyncRootContext caller syncFolder (caller_user caller) of
                  Inl ret \<Rightarrow> (ret, w)
                | Inr (mntSyncFolder, syncFolderIndex) \<Rightarrow>
                    if HasOutstandingTask syncFolder relativePath syncFolderIndex m then (E_HYDRATE_IN_PROGRESS, w)
                    else ConvertPlaceholderToEmptyFile env hmdfsPath mntSyncFolder (caller_user caller) syncFolderIndex w)))"

section \<open>Dropping the data of a placeholder\<close>

definition CheckDehydrateState :: "u8 \<Rightarrow> int" where
  "CheckDehydrateState state =
     (if \<not> IsValidPlaceholderState state then E_INVALID_PLACEHOLDER_STATE
      else if state = PLACEHOLDER_STATE_NONE then E_NOT_A_PLACEHOLDER
      else E_OK)"

text \<open>The attempts to set the size back, the first as call number \<open>attempt + 1\<close>.\<close>

fun extend_loop :: "ops_env \<Rightarrow> string \<Rightarrow> nat \<Rightarrow> nat \<Rightarrow> nat \<Rightarrow> ph_world \<Rightarrow> bool \<times> ph_world" where
  "extend_loop env path len attempt 0 w = (False, w)"
| "extend_loop env path len attempt (Suc left) w =
     (case ftruncate env (attempt + 1) path len w of (err, w1) \<Rightarrow>
        if err = 0 then (True, w1) else extend_loop env path len (attempt + 1) left w1)"

definition DehydrateOpenFile :: "ops_env \<Rightarrow> string \<Rightarrow> ph_world \<Rightarrow> int \<times> ph_world" where
  "DehydrateOpenFile env path w =
     (if pe_fstat env \<noteq> 0 then (ConvertErrnoToCloudDiskError (pe_fstat env), w)
      else case ftruncate env 0 path 0 w of (err, w1) \<Rightarrow>
        if err \<noteq> 0 then (ConvertErrnoToCloudDiskError err, w1)
        else case extend_loop env path (length (file_bytes w path)) 0 DEHYDRATE_EXTEND_MAX_ATTEMPTS w1 of (extendSucceeded, w2) \<Rightarrow>
          if \<not> extendSucceeded then (E_TRY_AGAIN, w2)
          else case set_state env path PLACEHOLDER_STATE_UNHYDRATED w2 of (ret, _, w3) \<Rightarrow>
            if ret \<noteq> E_OK then (ConvertPlaceholderStateErrnoToCloudDiskError ret, w3) else (E_OK, w3))"

text \<open>\<open>authorize\<close> is the answer of the provider, the result of \<open>DispatchDehydrateAuthorization\<close>.\<close>

definition DehydratePlaceholderFile ::
  "ops_env \<Rightarrow> int \<Rightarrow> task_mgr \<Rightarrow> PlaceholderStatePathContext \<Rightarrow> string \<Rightarrow> ph_world \<Rightarrow> int \<times> ph_world" where
  "DehydratePlaceholderFile env authorize m context relativePath w =
     (let path = cx_hmdfsPath context; node = kernel_path path
      in if HasOutstandingTask (cx_syncFolder context) relativePath (cx_syncFolderIndex context) m then (E_HYDRATE_IN_PROGRESS, w)
         else if CheckPathNotDir env path w \<noteq> E_OK then (CheckPathNotDir env path w, w)
         else if open_path env path w \<noteq> 0 then (ConvertTargetErrnoToCloudDiskError (open_path env path w), w)
         else case GetFilePlaceholderState (pe_xerr env) (pw_attr w) node of
           (ret, None) \<Rightarrow> (ConvertPlaceholderStateErrnoToCloudDiskError ret, w)
         | (ret, Some state) \<Rightarrow>
             if CheckDehydrateState state \<noteq> E_OK \<or> state = PLACEHOLDER_STATE_UNHYDRATED then (CheckDehydrateState state, w)
             else if authorize \<noteq> E_OK then (authorize, w)
             else DehydrateOpenFile env node w)"

definition DispatchDehydrateAuthorization ::
  "(nat \<Rightarrow> provider_call \<Rightarrow> int \<times> bool) \<Rightarrow> PlaceholderStatePathContext \<Rightarrow> string \<Rightarrow> cb_mgr \<Rightarrow> cb_mgr \<Rightarrow> int" where
  "DispatchDehydrateAuthorization send context relativePath cm cm1 =
     DispatchDehydrate send (cx_bundleName context) (cx_syncFolderIndex context) relativePath cm cm1"

definition DehydrateInner ::
  "caller_env \<Rightarrow> ops_env \<Rightarrow> (nat \<Rightarrow> provider_call \<Rightarrow> int \<times> bool) \<Rightarrow> cb_mgr \<Rightarrow> cb_mgr \<Rightarrow> sync_folder_map \<Rightarrow> task_mgr \<Rightarrow>
   string \<Rightarrow> string \<Rightarrow> ph_world \<Rightarrow> int \<times> ph_world" where
  "DehydrateInner caller env send cm cm1 folders m syncFolder relativePath w =
     (if syncFolder = [] \<or> relativePath = [] then (E_INVALID_ARG, w)
      else case ResolvePlaceholderStatePath caller folders syncFolder relativePath of
        Inl ret \<Rightarrow> (ret, w)
      | Inr context \<Rightarrow>
          DehydratePlaceholderFile env (DispatchDehydrateAuthorization send context relativePath cm cm1) m context relativePath w)"


section \<open>Updating a placeholder\<close>

record PlaceholderUpdateContext =
  uc_mntSyncFolder :: string
  uc_userId :: int
  uc_syncFolderIndex :: u32

definition ValidatePlaceholderForUpdate :: "ops_env \<Rightarrow> string \<Rightarrow> ph_world \<Rightarrow> int" where
  "ValidatePlaceholderForUpdate env path w =
     (case GetFilePlaceholderState (pe_xerr env) (pw_attr w) path of
        (ret, None) \<Rightarrow> ConvertPlaceholderStateErrnoToCloudDiskError ret
      | (ret, Some currentState) \<Rightarrow> if \<not> IsValidPlaceholderState currentState then E_INVALID_PLACEHOLDER_STATE else E_OK)"

definition RefreshUpdatedPlaceholderState :: "ops_env \<Rightarrow> string \<Rightarrow> u8 \<Rightarrow> PlaceholderUpdateContext \<Rightarrow> ph_world \<Rightarrow> ph_world" where
  "RefreshUpdatedPlaceholderState env hmdfsPath oldState context w =
     (let w1 = (if \<not> IsPlaceholderState oldState \<and> uc_mntSyncFolder context \<noteq> []
                then snd (refresh_count env (uc_mntSyncFolder context) hmdfsPath 1 w) else w)
      in if uc_userId context \<ge> 0
         then update_dentry env (uc_userId context) (uc_syncFolderIndex context) hmdfsPath PLACEHOLDER_STATE_UNHYDRATED w1
         else w1)"

definition UpdatePlaceholderAttr ::
  "ops_env \<Rightarrow> string \<Rightarrow> PlaceholderInfo \<Rightarrow> PlaceholderUpdateContext \<Rightarrow> u8 list \<Rightarrow> ph_world \<Rightarrow> int \<times> ph_world" where
  "UpdatePlaceholderAttr env hmdfsPath metaData context customInfo w =
     (let node = kernel_path hmdfsPath in
      if pi_logicalSize metaData > MAX_PLACEHOLDER_LOGICAL_SIZE then (E_FILE_TOO_LARGE, w)
      else if CheckPathNotDir env hmdfsPath w \<noteq> E_OK then (CheckPathNotDir env hmdfsPath w, w)
      else if open_path env hmdfsPath w \<noteq> 0 then (ConvertTargetErrnoToCloudDiskError (open_path env hmdfsPath w), w)
      else if ValidatePlaceholderForUpdate env node w \<noteq> E_OK then (ValidatePlaceholderForUpdate env node w, w)
      else case ftruncate env 0 node 0 w of (err, w1) \<Rightarrow>
        if err \<noteq> 0 then (ConvertErrnoToCloudDiskError err, w1)
        else case SetPlaceholderFileAttributes env 1 node metaData False customInfo w1 of (ret, oldState, w2) \<Rightarrow>
          if ret \<noteq> E_OK then (ConvertErrnoToCloudDiskError ret, w2)
          else if \<not> IsValidPlaceholderState oldState then (E_INVALID_PLACEHOLDER_STATE, w2)
          else (E_OK, RefreshUpdatedPlaceholderState env hmdfsPath oldState context w2))"

definition ResolvePlaceholderUpdateCaller :: "caller_env \<Rightarrow> sync_folder_map \<Rightarrow> string \<Rightarrow> int + int \<times> string" where
  "ResolvePlaceholderUpdateCaller caller folders syncFolder =
     (if fst (ce_bundle caller) \<noteq> E_OK then Inl E_TRY_AGAIN
      else case CheckSyncFolderBundleName caller folders syncFolder (caller_user caller) (snd (ce_bundle caller)) of
        Inl ret \<Rightarrow> Inl ret | Inr _ \<Rightarrow> Inr (caller_user caller, snd (ce_bundle caller)))"

definition UpdatePlaceholderInner ::
  "caller_env \<Rightarrow> ops_env \<Rightarrow> sync_folder_map \<Rightarrow> task_mgr \<Rightarrow> string \<Rightarrow> string \<Rightarrow> PlaceholderInfo \<Rightarrow> u8 list \<Rightarrow> ph_world \<Rightarrow> int \<times> ph_world" where
  "UpdatePlaceholderInner caller env folders m syncFolder relativePath metaData customInfo w =
     (if syncFolder = [] \<or> relativePath = [] \<or> length customInfo > PLACEHOLDER_CUSTOM_INFO_MAX_SIZE then (E_INVALID_ARG, w)
      else if pi_logicalSize metaData > MAX_PLACEHOLDER_LOGICAL_SIZE then (E_FILE_TOO_LARGE, w)
      else case ResolvePlaceholderUpdateCaller caller folders syncFolder of
        Inl ret \<Rightarrow> (ret, w)
      | Inr (userId, bundleName) \<Rightarrow>
          (case GetHmdfsPath caller syncFolder relativePath userId of
             Inl ret \<Rightarrow> (ret, w)
           | Inr hmdfsPath \<Rightarrow>
               (case GetSyncRootContext caller syncFolder userId of
                  Inl ret \<Rightarrow> (ret, w)
                | Inr (mntSyncFolder, syncFolderIndex) \<Rightarrow>
                    if HasOutstandingTask syncFolder relativePath syncFolderIndex m then (E_HYDRATE_IN_PROGRESS, w)
                    else UpdatePlaceholderAttr env hmdfsPath metaData
                           \<lparr>uc_mntSyncFolder = mntSyncFolder, uc_userId = userId, uc_syncFolderIndex = syncFolderIndex\<rparr> customInfo w)))"

section \<open>Queries\<close>

definition ReadPlaceholderCustomInfo :: "ops_env \<Rightarrow> string \<Rightarrow> ph_world \<Rightarrow> int \<times> u8 list" where
  "ReadPlaceholderCustomInfo env path w =
     (let convert = (\<lambda>error. if error = ENODATA then E_PLACEHOLDER_CUSTOM_INFO_NOT_FOUND
                             else if error = ENOENT then E_FILE_NOT_EXIST else ConvertErrnoToCloudDiskError error)
      in if pe_getCustom env 0 \<noteq> 0 then (convert (pe_getCustom env 0), [])
         else case pw_custom w path of
           None \<Rightarrow> (convert ENODATA, [])
         | Some stored \<Rightarrow>
             if length stored > PLACEHOLDER_CUSTOM_INFO_MAX_SIZE then (E_TRY_AGAIN, [])
             else if stored = [] then (E_OK, [])
             else if pe_getCustom env 1 \<noteq> 0 then (convert (pe_getCustom env 1), [])
             else (E_OK, stored))"

definition GetPlaceholderCustomInfoInner ::
  "caller_env \<Rightarrow> ops_env \<Rightarrow> sync_folder_map \<Rightarrow> string \<Rightarrow> string \<Rightarrow> ph_world \<Rightarrow> int \<times> u8 list" where
  "GetPlaceholderCustomInfoInner caller env folders syncFolder relativePath w =
     (if syncFolder = [] \<or> relativePath = [] then (E_INVALID_ARG, [])
      else if fst (ce_bundle caller) \<noteq> E_OK then (E_TRY_AGAIN, [])
      else case CheckSyncFolderBundleName caller folders syncFolder (caller_user caller) (snd (ce_bundle caller)) of
        Inl ret \<Rightarrow> (ret, [])
      | Inr _ \<Rightarrow>
          (case GetHmdfsPath caller syncFolder relativePath (caller_user caller) of
             Inl ret \<Rightarrow> (if ret = E_SYNC_FOLDER_PATH_NOT_EXIST then E_FILE_NOT_EXIST else ret, [])
           | Inr hmdfsPath \<Rightarrow>
               let ret = CheckPathNotDir env hmdfsPath w
               in if ret \<noteq> E_OK then (if ret = E_SYNC_FOLDER_PATH_NOT_EXIST then E_FILE_NOT_EXIST else ret, [])
                  else if open_path env hmdfsPath w \<noteq> 0
                  then (if open_path env hmdfsPath w = ENOENT then E_FILE_NOT_EXIST else ConvertErrnoToCloudDiskError (open_path env hmdfsPath w), [])
                  else if CheckPlaceHolderXattr env (kernel_path hmdfsPath) w \<noteq> E_OK
                  then (CheckPlaceHolderXattr env (kernel_path hmdfsPath) w, [])
                  else ReadPlaceholderCustomInfo env (kernel_path hmdfsPath) w))"

definition ConvertPlaceholderXattrErrno :: "int \<Rightarrow> int" where
  "ConvertPlaceholderXattrErrno error = (if error = ENODATA then E_OK else ConvertPlaceholderStateErrnoToCloudDiskError error)"

definition QueryPlaceholderStateByXattr :: "ops_env \<Rightarrow> string \<Rightarrow> ph_world \<Rightarrow> int \<times> u8" where
  "QueryPlaceholderStateByXattr env path w =
     (case walk path w of
        Inl err \<Rightarrow> (ConvertPlaceholderXattrErrno err, PLACEHOLDER_STATE_NONE)
      | Inr node \<Rightarrow>
          (case GetFilePlaceholderState (pe_xerr env) (pw_attr w) node of
             (ret, None) \<Rightarrow> (ConvertPlaceholderXattrErrno ret, PLACEHOLDER_STATE_NONE)
           | (ret, Some placeholderState) \<Rightarrow> (E_OK, placeholderState)))"

definition QueryPlaceholderByXattr :: "ops_env \<Rightarrow> string \<Rightarrow> ph_world \<Rightarrow> int \<times> bool" where
  "QueryPlaceholderByXattr env path w =
     (case QueryPlaceholderStateByXattr env path w of (ret, placeholderState) \<Rightarrow>
        if ret \<noteq> E_OK then (ret, False) else (E_OK, IsPlaceholderState placeholderState))"

definition IsPlaceholderFileInner ::
  "caller_env \<Rightarrow> ops_env \<Rightarrow> sync_folder_map \<Rightarrow> string \<Rightarrow> string \<Rightarrow> ph_world \<Rightarrow> int \<times> bool" where
  "IsPlaceholderFileInner caller env folders syncFolder path w =
     (if syncFolder = [] \<or> path = [] then (E_INVALID_ARG, False)
      else case ResolvePlaceholderQueryPath caller folders syncFolder path of
        Inl ret \<Rightarrow> (ret, False) | Inr queryPath \<Rightarrow> QueryPlaceholderByXattr env queryPath w)"

definition GetPlaceholderStateInner ::
  "caller_env \<Rightarrow> ops_env \<Rightarrow> sync_folder_map \<Rightarrow> string \<Rightarrow> string \<Rightarrow> ph_world \<Rightarrow> int \<times> int" where
  "GetPlaceholderStateInner caller env folders syncFolder relativePath w =
     (if syncFolder = [] \<or> relativePath = [] then (E_INVALID_ARG, 0)
      else case ResolvePlaceholderQueryPath caller folders syncFolder relativePath of
        Inl ret \<Rightarrow> (ret, 0)
      | Inr queryPath \<Rightarrow>
          (case QueryPlaceholderStateByXattr env queryPath w of (ret, rawState) \<Rightarrow>
             if ret \<noteq> E_OK then (ret, 0)
             else if \<not> IsValidPlaceholderState rawState then (E_INVALID_PLACEHOLDER_STATE, 0)
             else (E_OK, uint rawState)))"

section \<open>Removing the placeholders of a folder\<close>

text \<open>
  Unregistering a folder removes its placeholder files: a walk over the tree, the entries of a
  directory in the order \<open>readdir\<close> gives them. \<open>realpath\<close> is the outcome of \<open>realpath\<close>; a failed
  \<open>lstat\<close> or \<open>opendir\<close> is in the tree.
\<close>

definition RemovePlaceholderFilesSingle :: "ops_env \<Rightarrow> (string \<Rightarrow> string option) \<Rightarrow> string \<Rightarrow> ph_world \<Rightarrow> ph_world" where
  "RemovePlaceholderFilesSingle env realpath path w =
     (case realpath path of
        None \<Rightarrow> w
      | Some realPath \<Rightarrow>
          (case GetFilePlaceholderState (pe_xerr env) (pw_attr w) realPath of
             (ret, None) \<Rightarrow> w
           | (ret, Some placeholderState) \<Rightarrow>
               if IsPlaceholderState placeholderState \<and> pe_unlink env = 0 then unlink_file realPath w else w))"

fun RemovePlaceholderFilesBatch :: "ops_env \<Rightarrow> (string \<Rightarrow> string option) \<Rightarrow> string \<Rightarrow> fsnode \<Rightarrow> ph_world \<Rightarrow> ph_world"
  and remove_entries :: "ops_env \<Rightarrow> (string \<Rightarrow> string option) \<Rightarrow> string \<Rightarrow> (string \<times> fsnode) list \<Rightarrow> ph_world \<Rightarrow> ph_world" where
  "RemovePlaceholderFilesBatch env realpath path (DirNode err entries) w =
     (if err \<noteq> 0 then w else remove_entries env realpath path entries w)"
| "RemovePlaceholderFilesBatch env realpath path FileNode w = w"
| "RemovePlaceholderFilesBatch env realpath path (NoNode err) w = w"
| "remove_entries env realpath path [] w = w"
| "remove_entries env realpath path ((d_name, node) # entries) w =
     remove_entries env realpath path entries
       (if d_name = ''.'' \<or> d_name = ''..'' then w
        else case node of
          NoNode err \<Rightarrow> w
        | FileNode \<Rightarrow> RemovePlaceholderFilesSingle env realpath (path @ ''/'' @ d_name) w
        | DirNode err below \<Rightarrow> RemovePlaceholderFilesBatch env realpath (path @ ''/'' @ d_name) (DirNode err below) w)"


section \<open>The counts of a sync folder\<close>

text \<open>The directories below a root and what they hold, and the root's counts being right.\<close>

definition tree_of :: "string \<Rightarrow> ph_world \<Rightarrow> ph_tree" where
  "tree_of root w =
     \<lparr>pt_dirs = {d \<in> pw_dirs w. IsSameOrUnderPath root d},
      pt_kids = (\<lambda>d. {c. (c \<in> pw_dirs w \<or> pw_data w c \<noteq> None) \<and> GetParentPath c = d \<and> c \<noteq> d \<and> c \<noteq> root})\<rparr>"

definition world_ok :: "string \<Rightarrow> ph_world \<Rightarrow> bool" where
  "world_ok root w \<longleftrightarrow> tree_ok root (tree_of root w) \<and> counts_ok (tree_of root w) (pw_attr w)"

text \<open>The path names an entry of a directory of the folder, in its canonical spelling.\<close>

definition below :: "string \<Rightarrow> ph_world \<Rightarrow> string \<Rightarrow> bool" where
  "below root w path \<longleftrightarrow> canonical path \<and> GetParentPath path \<in> pw_dirs w \<and> IsSameOrUnderPath root (GetParentPath path)"

lemma tree_of_cong:
  assumes "pw_dirs w' = pw_dirs w" and "\<And>c. (pw_data w' c = None) = (pw_data w c = None)"
  shows "tree_of root w' = tree_of root w"
  using assms by (simp add: tree_of_def)

lemma world_ok_same:
  assumes "world_ok root w" and "pw_dirs w' = pw_dirs w" and "\<And>c. (pw_data w' c = None) = (pw_data w c = None)" and "pw_attr w' = pw_attr w"
  shows "world_ok root w'"
  using assms tree_of_cong [OF assms(2, 3)] by (simp add: world_ok_def)

lemma set_state_quiet:
  assumes "pe_xerr env = no_err" and "IsValidPlaceholderState s" and "set_state env p s w = (ret, old, w1)"
  obtains (failed) "ret \<noteq> E_OK" "w1 = w"
  | (written) attr where "ret = E_OK" "old = ph_of (pw_attr w) p" "w1 = w\<lparr>pw_attr := attr\<rparr>" "ph_of attr p = s" "\<forall>q. q \<noteq> p \<longrightarrow> attr q = pw_attr w q"
proof (cases "ReadFileSyncStateByteNoLock no_err (pw_attr w) p True")
  case (Pair ret0 b)
  show thesis
  proof (cases "ret0 = E_OK")
    case True
    then have b: "b = state_byte (pw_attr w) p"
      using Pair by (auto simp: ReadFileSyncStateByteNoLock_def no_err_def state_byte_def split: option.splits list.splits)
    let ?attr = "(pw_attr w)(p := (pw_attr w p)\<lparr>xa_state := Some [MakeFileSyncState s (GetSyncStateFromFileSyncState b)]\<rparr>)"
    have "ret = E_OK" "old = ph_of (pw_attr w) p" "w1 = w\<lparr>pw_attr := ?attr\<rparr>"
      using assms Pair True b
      by (auto simp: set_state_def SetFilePlaceholderState_def WriteFileSyncStateByteNoLock_def no_err_def ph_of_def)
    moreover have "ph_of ?attr p = s" using assms(2) by (simp add: ph_of_def state_byte_def ph_of_make)
    ultimately show thesis by (intro written) auto
  next
    case False
    then show thesis using assms Pair by (intro failed) (auto simp: set_state_def SetFilePlaceholderState_def)
  qed
qed

text \<open>A file that changes its state by the difference its ancestors are told of.\<close>

lemma refresh_world:
  assumes ok: "world_ok root w" and f: "below root w c" "c \<notin> pw_dirs w" "pw_data w c \<noteq> None" and env: "pe_xerr env = no_err"
    and w1: "pw_dirs w1 = pw_dirs w" "\<And>c. (pw_data w1 c = None) = (pw_data w c = None)" "\<forall>q. q \<noteq> c \<longrightarrow> pw_attr w1 q = pw_attr w q"
    and delta: "delta = of_bool (IsPlaceholderState (ph_of (pw_attr w1) c)) - of_bool (IsPlaceholderState (ph_of (pw_attr w) c))"
  shows "world_ok root (snd (refresh_count env root c delta w1))"
proof -
  let ?T = "tree_of root w" and ?d = "GetParentPath c"
  have T: "tree_ok root ?T" and cnt: "counts_ok ?T (pw_attr w)" using ok by (auto simp: world_ok_def)
  have d: "?d \<in> pt_dirs ?T" using f(1) by (simp add: tree_of_def below_def)
  have "root \<in> pw_dirs w" using T by (simp add: tree_ok_def tree_of_def)
  then have "c \<noteq> root" "c \<noteq> ?d" using f by (auto simp: below_def)
  then have c: "c \<notin> pt_dirs ?T" "c \<in> pt_kids ?T ?d" using f by (auto simp: tree_of_def)
  obtain st2 where st2: "RefreshAncestorPlaceholderCount no_err root c delta (pw_attr w1) = (E_OK, st2)" "counts_ok ?T st2"
    using refresh_correct [OF T cnt c d w1(3) delta] by blast
  let ?w2 = "snd (refresh_count env root c delta w1)"
  have w2: "?w2 = w1\<lparr>pw_attr := st2\<rparr>" using st2(1) env by (simp add: refresh_count_def)
  have "tree_of root ?w2 = ?T" by (rule tree_of_cong) (simp_all add: w2 w1)
  then show ?thesis using T st2(2) by (simp add: world_ok_def w2)
qed

lemma unchanged_world:
  assumes ok: "world_ok root w" and f: "below root w c" "c \<notin> pw_dirs w" "pw_data w c \<noteq> None"
    and w1: "pw_dirs w1 = pw_dirs w" "\<And>c. (pw_data w1 c = None) = (pw_data w c = None)" "\<forall>q. q \<noteq> c \<longrightarrow> pw_attr w1 q = pw_attr w q"
    and same: "IsPlaceholderState (ph_of (pw_attr w1) c) = IsPlaceholderState (ph_of (pw_attr w) c)"
  shows "world_ok root w1"
proof -
  have "world_ok root (snd (refresh_count (undefined\<lparr>pe_recount := (undefined\<lparr>re_xerr := no_err\<rparr>)\<rparr>) root c 0 w1))"
    by (rule refresh_world [OF ok f _ w1]) (simp_all add: same)
  then show ?thesis by (simp add: refresh_count_def RefreshAncestorPlaceholderCount_def)
qed


lemma convert_nonzero [simp]: "ConvertTargetErrnoToCloudDiskError e \<noteq> 0" "ConvertPlaceholderStateErrnoToCloudDiskError e \<noteq> 0"
  by (simp_all add: ConvertTargetErrnoToCloudDiskError_def ConvertPlaceholderStateErrnoToCloudDiskError_def)

lemma set_state_failed: "set_state env p s w = (ret, old, w1) \<Longrightarrow> ret \<noteq> E_OK \<Longrightarrow> w1 = w"
  by (auto simp: set_state_def SetFilePlaceholderState_def WriteFileSyncStateByteNoLock_def split: if_splits prod.splits)

lemma get_state_quiet: "GetFilePlaceholderState no_err st p = (ret, Some s) \<Longrightarrow> s = ph_of st p"
  by (auto simp: GetFilePlaceholderState_def GetFileSyncStateByte_def ReadFileSyncStateByteNoLock_def no_err_def ph_of_def state_byte_def
      split: if_splits option.splits list.splits prod.splits)

lemma open_path_ok: "open_path env p w = 0 \<Longrightarrow> kernel_path p \<notin> pw_dirs w \<and> pw_data w (kernel_path p) \<noteq> None \<and> names_entry p"
  by (auto simp: open_path_def walk_def Let_def split: if_splits)

lemma below_kernel: "below root w p \<Longrightarrow> kernel_path p = p"
  by (simp add: below_def canonical_def)

lemma below_entry: "below root w p \<Longrightarrow> p \<notin> pw_dirs w \<Longrightarrow> names_entry p"
  by (rule canonical_entry) (auto simp: below_def GetParentPath_def)

lemma update_dentry_sel [simp]:
  "pw_dirs (update_dentry env u i p s w) = pw_dirs w" "pw_data (update_dentry env u i p s w) = pw_data w"
  "pw_attr (update_dentry env u i p s w) = pw_attr w" "pw_custom (update_dentry env u i p s w) = pw_custom w"
  by (simp_all add: update_dentry_def)

lemma refresh_count_sel [simp]:
  "pw_dirs (snd (refresh_count env root p d w)) = pw_dirs w" "pw_data (snd (refresh_count env root p d w)) = pw_data w"
  "pw_custom (snd (refresh_count env root p d w)) = pw_custom w"
  by (simp_all add: refresh_count_def split: prod.split)

lemma world_ok_dentry: "world_ok root w \<Longrightarrow> world_ok root (update_dentry env u i p s w)"
  by (erule world_ok_same) simp_all

text \<open>What marking and unmarking come to.\<close>

lemma change_cases:
  assumes "ChangePlaceholderStateOnly env m ctx transition relativePath w = (ret, w')"
  obtains (refused) "ret \<noteq> E_OK" "w' = w"
  | (changed) ret0 old new delta old1 w1 where "ret = E_OK" "kernel_path (cx_hmdfsPath ctx) \<notin> pw_dirs w"
    "pw_data w (kernel_path (cx_hmdfsPath ctx)) \<noteq> None"
    "\<not> (relativePath \<noteq> [] \<and> HasOutstandingTask (cx_syncFolder ctx) relativePath (cx_syncFolderIndex ctx) m)"
    "GetFilePlaceholderState (pe_xerr env) (pw_attr w) (kernel_path (cx_hmdfsPath ctx)) = (ret0, Some old)" "IsValidPlaceholderState old"
    "ResolvePlaceholderStateTransition old transition = (E_OK, new, delta)"
    "set_state env (kernel_path (cx_hmdfsPath ctx)) new w = (E_OK, old1, w1)"
    "w' = update_dentry env (cx_userId ctx) (cx_syncFolderIndex ctx) (cx_hmdfsPath ctx) new
       (snd (refresh_count env (cx_mntSyncFolder ctx) (cx_hmdfsPath ctx) delta w1))" "names_entry (cx_hmdfsPath ctx)"
proof -
  let ?p = "cx_hmdfsPath ctx"
  note d = assms [unfolded ChangePlaceholderStateOnly_def Let_def]
  consider "relativePath \<noteq> [] \<and> HasOutstandingTask (cx_syncFolder ctx) relativePath (cx_syncFolderIndex ctx) m"
    | "CheckPathNotDir env ?p w \<noteq> E_OK" | "open_path env ?p w \<noteq> 0"
    | "\<not> (relativePath \<noteq> [] \<and> HasOutstandingTask (cx_syncFolder ctx) relativePath (cx_syncFolderIndex ctx) m)"
      "CheckPathNotDir env ?p w = E_OK" "open_path env ?p w = 0" by blast
  then show thesis
  proof cases
    case 4
    then show thesis using d open_path_ok [OF 4(3)] set_state_failed refused changed
      by (auto split: prod.splits option.splits if_splits)
  qed (use d refused in \<open>auto split: if_splits\<close>)
qed

lemma transition_delta:
  assumes "ResolvePlaceholderStateTransition old transition = (E_OK, new, delta)"
  shows "IsValidPlaceholderState new" and "delta = of_bool (IsPlaceholderState new) - of_bool (IsPlaceholderState old)"
    and "new = (if transition = MARK then PLACEHOLDER_STATE_FULLY_HYDRATED else PLACEHOLDER_STATE_NONE)"
    and "old = (if transition = MARK then PLACEHOLDER_STATE_NONE else PLACEHOLDER_STATE_FULLY_HYDRATED)"
  using assms by (auto simp: ResolvePlaceholderStateTransition_def IsValidPlaceholderState_def IsPlaceholderState_def split: if_splits)

lemma change_world:
  assumes ok: "world_ok root w" and b: "below root w (cx_hmdfsPath ctx)" and r: "cx_mntSyncFolder ctx = root" and env: "pe_xerr env = no_err"
  shows "world_ok root (snd (ChangePlaceholderStateOnly env m ctx transition relativePath w))"
proof (cases "ChangePlaceholderStateOnly env m ctx transition relativePath w")
  case (Pair ret w')
  from Pair show ?thesis
  proof (cases rule: change_cases)
    case (changed ret0 old new delta old1 w1)
    note t = transition_delta [OF changed(7)] and k = below_kernel [OF b]
    have old: "old = ph_of (pw_attr w) (cx_hmdfsPath ctx)" using get_state_quiet changed(5) [unfolded k] env by metis
    from env t(1) changed(8) [unfolded k] show ?thesis
    proof (cases rule: set_state_quiet)
      case (written attr)
      have "world_ok root (snd (refresh_count env root (cx_hmdfsPath ctx) delta w1))"
        by (rule refresh_world [OF ok b changed(2, 3) [unfolded k] env]) (use written t(2) old in simp_all)
      then show ?thesis using Pair changed(9) r by (simp add: world_ok_dentry)
    qed simp
  qed (use ok Pair in simp)
qed


definition same_nodes :: "ph_world \<Rightarrow> ph_world \<Rightarrow> bool" where
  "same_nodes w w1 \<longleftrightarrow> pw_dirs w1 = pw_dirs w \<and> (\<forall>c. (pw_data w1 c = None) = (pw_data w c = None))"

lemma same_nodes_refl [simp]: "same_nodes w w"
  by (simp add: same_nodes_def)

lemma same_nodes_trans: "same_nodes w w1 \<Longrightarrow> same_nodes w1 w2 \<Longrightarrow> same_nodes w w2"
  by (simp add: same_nodes_def)

lemma truncate_frame:
  assumes "ftruncate env k p n w = (err, w1)" and "pw_data w p \<noteq> None"
  shows "same_nodes w w1" "pw_attr w1 = pw_attr w" "pw_custom w1 = pw_custom w" "pw_data w1 p \<noteq> None"
    "err \<noteq> 0 \<Longrightarrow> w1 = w" "err = 0 \<Longrightarrow> w1 = w\<lparr>pw_data := (pw_data w)(p \<mapsto> set_size n (file_bytes w p))\<rparr>"
  using assms by (auto simp: ftruncate_def same_nodes_def split: if_splits)

lemma extend_frame:
  assumes "extend_loop env p n attempt left w = (done1, w1)" and "pw_data w p \<noteq> None"
  shows "same_nodes w w1 \<and> pw_attr w1 = pw_attr w \<and> pw_custom w1 = pw_custom w \<and>
    (if done1 then w1 = w\<lparr>pw_data := (pw_data w)(p \<mapsto> set_size n (file_bytes w p))\<rparr> else w1 = w)"
  using assms
proof (induction left arbitrary: attempt)
  case (Suc left)
  obtain err w2 where t: "ftruncate env (attempt + 1) p n w = (err, w2)" by (cases "ftruncate env (attempt + 1) p n w")
  note f = truncate_frame [OF t Suc.prems(2)]
  show ?case
  proof (cases "err = 0")
    case True
    then show ?thesis using Suc.prems(1) t f by auto
  next
    case False
    then show ?thesis using Suc.prems t f(5) Suc.IH [of "attempt + 1"] by auto
  qed
qed simp

text \<open>A file keeps being a placeholder, or none, and nothing else is touched.\<close>

lemma world_kept:
  assumes "world_ok root w" "below root w c" "c \<notin> pw_dirs w" "pw_data w c \<noteq> None" "same_nodes w w1"
    and "\<forall>q. q \<noteq> c \<longrightarrow> pw_attr w1 q = pw_attr w q"
    and "IsPlaceholderState (ph_of (pw_attr w1) c) = IsPlaceholderState (ph_of (pw_attr w) c)"
  shows "world_ok root w1"
  by (rule unchanged_world [OF assms(1-4) _ _ assms(6, 7)]) (use assms(5) in \<open>auto simp: same_nodes_def\<close>)

lemma convert_world:
  assumes ok: "world_ok root w" and b: "below root w p" and env: "pe_xerr env = no_err"
  shows "world_ok root (snd (ConvertPlaceholderToEmptyFile env p root userId i w))"
proof (cases "CheckPathNotDir env p w = E_OK \<and> open_path env p w = 0 \<and> CheckPlaceHolderXattr env p w = E_OK")
  case True
  note k = below_kernel [OF b]
  have f: "p \<notin> pw_dirs w" "pw_data w p \<noteq> None" using True open_path_ok [of env p w] k by auto
  have old: "IsPlaceholderState (ph_of (pw_attr w) p)"
    using True env by (auto simp: CheckPlaceHolderXattr_def dest!: get_state_quiet split: prod.splits option.splits if_splits)
  have "root \<noteq> []" using b by (auto simp: below_def IsSameOrUnderPath_def)
  obtain err w1 where t: "ftruncate env 0 p 0 w = (err, w1)" by (cases "ftruncate env 0 p 0 w")
  note tf = truncate_frame [OF t f(2)]
  have w1: "world_ok root w1" by (rule world_kept [OF ok b f tf(1)]) (simp_all add: tf(2))
  obtain ret old1 w2 where s: "set_state env p PLACEHOLDER_STATE_NONE w1 = (ret, old1, w2)" by (cases "set_state env p PLACEHOLDER_STATE_NONE w1")
  have v: "IsValidPlaceholderState PLACEHOLDER_STATE_NONE" by (simp add: IsValidPlaceholderState_def)
  from env v s show ?thesis
  proof (cases rule: set_state_quiet)
    case failed
    then show ?thesis using True t s w1 by (auto simp: ConvertPlaceholderToEmptyFile_def Let_def k)
  next
    case (written attr)
    have "world_ok root (snd (refresh_count env root p (-1) w2))"
      by (rule refresh_world [OF ok b f env]) (use written tf old in \<open>auto simp: same_nodes_def IsPlaceholderState_def\<close>)
    then show ?thesis using True t s w1 written(1, 2) old tf(2) \<open>root \<noteq> []\<close> world_ok_dentry
      by (auto simp: ConvertPlaceholderToEmptyFile_def Let_def k)
  qed
qed (use ok in \<open>auto simp: ConvertPlaceholderToEmptyFile_def Let_def below_kernel [OF b]\<close>)

lemma dehydrate_world:
  assumes ok: "world_ok root w" and b: "below root w (cx_hmdfsPath ctx)" and env: "pe_xerr env = no_err"
  shows "world_ok root (snd (DehydratePlaceholderFile env authorize m ctx relativePath w))"
proof -
  let ?p = "cx_hmdfsPath ctx"
  have main: "world_ok root (snd (DehydrateOpenFile env ?p w))"
    if f: "?p \<notin> pw_dirs w" "pw_data w ?p \<noteq> None" and old: "IsPlaceholderState (ph_of (pw_attr w) ?p)"
  proof -
    obtain err w1 where t: "ftruncate env 0 ?p 0 w = (err, w1)" by (cases "ftruncate env 0 ?p 0 w")
    note tf = truncate_frame [OF t f(2)]
    have w1: "world_ok root w1" by (rule world_kept [OF ok b f tf(1)]) (simp_all add: tf(2))
    obtain e w2 where l: "extend_loop env ?p (length (file_bytes w ?p)) 0 3 w1 = (e, w2)"
      by (cases "extend_loop env ?p (length (file_bytes w ?p)) 0 3 w1")
    note ef = extend_frame [OF l tf(4)]
    have n2: "same_nodes w w2" "pw_attr w2 = pw_attr w" using same_nodes_trans [OF tf(1)] ef tf(2) by auto
    have w2: "world_ok root w2" by (rule world_kept [OF ok b f n2(1)]) (simp_all add: n2(2))
    obtain ret old1 w3 where s: "set_state env ?p PLACEHOLDER_STATE_UNHYDRATED w2 = (ret, old1, w3)"
      by (cases "set_state env ?p PLACEHOLDER_STATE_UNHYDRATED w2")
    have v: "IsValidPlaceholderState PLACEHOLDER_STATE_UNHYDRATED" by (simp add: IsValidPlaceholderState_def)
    from env v s have "world_ok root w3"
    proof (cases rule: set_state_quiet)
      case (written attr)
      have "same_nodes w w3" using n2(1) written(3) by (simp add: same_nodes_def)
      then show ?thesis
        by (rule world_kept [OF ok b f]) (use written n2 old in \<open>simp_all add: IsPlaceholderState_def\<close>)
    qed (simp add: w2)
    then show ?thesis using ok w1 w2 t l s by (simp add: DehydrateOpenFile_def numeral_3_eq_3)
  qed
  note k = below_kernel [OF b]
  show ?thesis using main ok env open_path_ok [of env ?p w, unfolded k]
    by (auto simp: k DehydratePlaceholderFile_def Let_def CheckDehydrateState_def IsPlaceholderState_def
        dest!: get_state_quiet split: prod.splits option.splits)
qed


lemma state_part:
  assumes env: "pe_xerr env = no_err"
    and x: "(if isNew
      then case SetNewFilePlaceholderState (pe_xerr env) (pw_attr w) p PLACEHOLDER_STATE_UNHYDRATED of
             (err, attr) \<Rightarrow> (err, PLACEHOLDER_STATE_NONE, w\<lparr>pw_attr := attr\<rparr>)
      else set_state env p PLACEHOLDER_STATE_UNHYDRATED w) = (ret, old, w1)"
  obtains (failed) "ret \<noteq> E_OK" "w1 = w"
  | (written) attr where "ret = E_OK" "old = (if isNew then PLACEHOLDER_STATE_NONE else ph_of (pw_attr w) p)" "w1 = w\<lparr>pw_attr := attr\<rparr>"
    "ph_of attr p = PLACEHOLDER_STATE_UNHYDRATED" "\<forall>q. q \<noteq> p \<longrightarrow> attr q = pw_attr w q"
proof (cases isNew)
  case True
  have v: "IsValidPlaceholderState PLACEHOLDER_STATE_UNHYDRATED" by (simp add: IsValidPlaceholderState_def)
  let ?attr = "(pw_attr w)(p := (pw_attr w p)\<lparr>xa_state := Some [MakeFileSyncState PLACEHOLDER_STATE_UNHYDRATED 0]\<rparr>)"
  have "ret = E_OK" "old = PLACEHOLDER_STATE_NONE" "w1 = w\<lparr>pw_attr := ?attr\<rparr>"
    using x env True v by (simp_all add: SetNewFilePlaceholderState_def WriteFileSyncStateByteNoLock_def no_err_def)
  moreover have "ph_of ?attr p = PLACEHOLDER_STATE_UNHYDRATED" using v by (simp add: ph_of_def state_byte_def ph_of_make)
  ultimately show thesis using True by (intro written [of ?attr]) auto
next
  case False
  then have "set_state env p PLACEHOLDER_STATE_UNHYDRATED w = (ret, old, w1)" using x by simp
  with env _ show thesis
    by (rule set_state_quiet) (use False failed written in \<open>auto simp: IsValidPlaceholderState_def\<close>)
qed

lemma attributes_quiet:
  assumes s: "SetPlaceholderFileAttributes env k p info isNew custom w = (ret, old, w1)" and d: "pw_data w p \<noteq> None"
    and env: "pe_xerr env = no_err" "custom = [] \<or> pe_setCustom env = 0" "pe_futimens env = 0"
  obtains (failed) "ret \<noteq> E_OK" "pw_attr w1 = pw_attr w" "same_nodes w w1"
  | (set) attr where "ret = E_OK" "old = (if isNew then PLACEHOLDER_STATE_NONE else ph_of (pw_attr w) p)" "same_nodes w w1"
    "pw_attr w1 = attr" "ph_of attr p = PLACEHOLDER_STATE_UNHYDRATED" "\<forall>q. q \<noteq> p \<longrightarrow> attr q = pw_attr w q"
    "pw_data w1 p = Some (set_size (unat (pi_logicalSize info)) (file_bytes w p))"
    "pw_times w1 p = (MillisecondsToTimespec (pi_atimeMs info), MillisecondsToTimespec (pi_mtimeMs info))"
    "pw_custom w1 p = (if custom = [] then pw_custom w p else Some custom)"
proof (cases "pi_logicalSize info > MAX_PLACEHOLDER_LOGICAL_SIZE")
  case True
  then show thesis using s failed by (simp add: SetPlaceholderFileAttributes_def)
next
  case False
  obtain err w2 where t: "ftruncate env k p (unat (pi_logicalSize info)) w = (err, w2)" by (cases "ftruncate env k p (unat (pi_logicalSize info)) w")
  note tf = truncate_frame [OF t d]
  show thesis
  proof (cases "err = 0")
    case ok: True
    obtain r o1 w3 where x: "(if isNew
      then case SetNewFilePlaceholderState (pe_xerr env) (pw_attr w2) p PLACEHOLDER_STATE_UNHYDRATED of
             (err, attr) \<Rightarrow> (err, PLACEHOLDER_STATE_NONE, w2\<lparr>pw_attr := attr\<rparr>)
      else set_state env p PLACEHOLDER_STATE_UNHYDRATED w2) = (r, o1, w3)" by (rule prod_cases3)
    have e: "(ret, old, w1) = (if r \<noteq> E_OK then (r, o1, w3)
        else let w4 = (if custom \<noteq> [] then w3\<lparr>pw_custom := (pw_custom w3)(p \<mapsto> custom)\<rparr> else w3)
             in (E_OK, o1, w4\<lparr>pw_times := (pw_times w4)(p :=
                   (MillisecondsToTimespec (pi_atimeMs info), MillisecondsToTimespec (pi_mtimeMs info)))\<rparr>))"
      using s False t ok env(2, 3) unfolding SetPlaceholderFileAttributes_def
      by (cases "r = E_OK"; cases "custom = []") (simp_all add: x)
    from env(1) x show thesis
    proof (cases rule: state_part)
      case failed
      then show thesis using e tf(1, 2) by (intro that(1)) auto
    next
      case (written attr)
      have "w1 = (if custom \<noteq> [] then w3\<lparr>pw_custom := (pw_custom w3)(p \<mapsto> custom)\<rparr> else w3)\<lparr>pw_times := (pw_times w3)(p :=
                   (MillisecondsToTimespec (pi_atimeMs info), MillisecondsToTimespec (pi_mtimeMs info)))\<rparr>" "ret = E_OK" "old = o1"
        using e written(1) by (auto simp: Let_def)
      then show thesis using written tf(1-3) tf(6) [OF ok] by (intro that(2) [of attr]) (auto simp: same_nodes_def)
    qed
  next
    case err: False
    then show thesis using s t tf failed False by (auto simp: SetPlaceholderFileAttributes_def)
  qed
qed


lemma update_cases:
  assumes u: "UpdatePlaceholderAttr env p info ctx custom w = (ret, w')"
    and k: "kernel_path p = p" and env: "pe_xerr env = no_err" "custom = [] \<or> pe_setCustom env = 0" "pe_futimens env = 0"
  obtains (refused) "ret \<noteq> E_OK" "w' = w"
  | (truncated) "ret \<noteq> E_OK" "p \<notin> pw_dirs w" "pw_data w p \<noteq> None" "same_nodes w w'" "pw_attr w' = pw_attr w"
  | (updated) w2 where "ret = E_OK" "p \<notin> pw_dirs w" "pw_data w p \<noteq> None" "same_nodes w w2"
    "ph_of (pw_attr w2) p = PLACEHOLDER_STATE_UNHYDRATED" "\<forall>q. q \<noteq> p \<longrightarrow> pw_attr w2 q = pw_attr w q"
    "pw_data w2 p = Some (replicate (unat (pi_logicalSize info)) 0)"
    "w' = RefreshUpdatedPlaceholderState env p (ph_of (pw_attr w) p) ctx w2"
proof (cases "pi_logicalSize info > MAX_PLACEHOLDER_LOGICAL_SIZE \<or> CheckPathNotDir env p w \<noteq> E_OK \<or> open_path env p w \<noteq> 0 \<or>
    ValidatePlaceholderForUpdate env p w \<noteq> E_OK")
  case True
  then show thesis using u refused by (auto simp: UpdatePlaceholderAttr_def Let_def k split: if_splits)
next
  case False
  have f: "p \<notin> pw_dirs w" "pw_data w p \<noteq> None" using False open_path_ok [of env p w] k by auto
  obtain err w1 where t: "ftruncate env 0 p 0 w = (err, w1)" by (cases "ftruncate env 0 p 0 w")
  note tf = truncate_frame [OF t f(2)]
  obtain r old w2 where a: "SetPlaceholderFileAttributes env 1 p info False custom w1 = (r, old, w2)" by (rule prod_cases3)
  have e: "(ret, w') = (if err \<noteq> 0 then (ConvertErrnoToCloudDiskError err, w1)
      else if r \<noteq> E_OK then (ConvertErrnoToCloudDiskError r, w2)
      else if \<not> IsValidPlaceholderState old then (E_INVALID_PLACEHOLDER_STATE, w2)
      else (E_OK, RefreshUpdatedPlaceholderState env p old ctx w2))"
    using u False t a by (cases "err = 0"; cases "r = E_OK") (simp_all add: UpdatePlaceholderAttr_def Let_def k del: One_nat_def)
  have v: "IsValidPlaceholderState (ph_of (pw_attr w) p)"
    using False env(1) by (auto simp: ValidatePlaceholderForUpdate_def dest!: get_state_quiet split: prod.splits option.splits if_splits)
  show thesis
  proof (cases "err = 0")
    case ok: True
    from a tf(4) env show thesis
    proof (cases rule: attributes_quiet)
      case failed
      then show thesis using e ok tf(1, 2) same_nodes_trans [OF tf(1)] f by (intro truncated) auto
    next
      case (set attr)
      have "file_bytes w1 p = []" using tf(6) [OF ok] by (simp add: file_bytes_def set_size_def)
      then have "pw_data w2 p = Some (replicate (unat (pi_logicalSize info)) 0)" using set(7) by (simp add: set_size_def)
      then show thesis using e ok set tf(2) same_nodes_trans [OF tf(1) set(3)] f v by (intro updated [of w2]) auto
    qed
  qed (use e tf f truncated in auto)
qed

lemma update_world:
  assumes ok: "world_ok root w" and b: "below root w p" and r: "uc_mntSyncFolder ctx = root"
    and env: "pe_xerr env = no_err" "custom = [] \<or> pe_setCustom env = 0" "pe_futimens env = 0"
  shows "world_ok root (snd (UpdatePlaceholderAttr env p info ctx custom w))"
proof (cases "UpdatePlaceholderAttr env p info ctx custom w")
  case (Pair ret w')
  from Pair below_kernel [OF b] env show ?thesis
  proof (cases rule: update_cases)
    case truncated
    then show ?thesis using Pair world_kept [OF ok b] by simp
  next
    case (updated w2)
    have n: "pw_dirs w2 = pw_dirs w" "\<And>c. (pw_data w2 c = None) = (pw_data w c = None)" using updated(4) by (auto simp: same_nodes_def)
    have "root \<noteq> []" using b by (auto simp: below_def IsSameOrUnderPath_def)
    let ?old = "ph_of (pw_attr w) p"
    have "world_ok root (if \<not> IsPlaceholderState ?old then snd (refresh_count env root p 1 w2) else w2)"
    proof (cases "IsPlaceholderState ?old")
      case True
      then show ?thesis using world_kept [OF ok b updated(2-4, 6)] updated(5) by (simp add: IsPlaceholderState_def)
    next
      case False
      have "world_ok root (snd (refresh_count env root p 1 w2))"
        by (rule refresh_world [OF ok b updated(2, 3) env(1) n updated(6)]) (use False updated(5) in \<open>simp add: IsPlaceholderState_def\<close>)
      then show ?thesis using False by simp
    qed
    then show ?thesis using Pair updated(8) r \<open>root \<noteq> []\<close> world_ok_dentry by (auto simp: RefreshUpdatedPlaceholderState_def Let_def)
  qed (use ok Pair in simp)
qed

lemma find_last_append: "c \<notin> set ys \<Longrightarrow> find_last_of c (xs @ c # ys) = Some (length xs)"
  by (induction xs) (auto simp: find_last_of_None [THEN iffD2])

lemma join_parent:
  assumes "parent \<noteq> []" "last parent \<noteq> CHR ''/''" "CHR ''/'' \<notin> set name"
  shows "GetParentPath (JoinSyncFolderAndRelativePath parent name) = parent"
  using assms find_last_append [of "CHR ''/''" name parent]
  by (simp add: GetParentPath_def JoinSyncFolderAndRelativePath_def)

text \<open>A new file without attributes is one more entry of its directory, and no placeholder.\<close>

lemma new_file_world:
  assumes ok: "world_ok root w" and b: "below root w c" and n: "c \<notin> pw_dirs w" "pw_data w c = None"
    and room: "card (pt_kids (tree_of root w) (GetParentPath c)) + 1 < 4294967295"
  shows "world_ok root (new_file c w)"
proof -
  let ?T = "tree_of root w" and ?w = "new_file c w" and ?d = "GetParentPath c"
  have T: "tree_ok root ?T" and cnt: "counts_ok ?T (pw_attr w)" using ok by (auto simp: world_ok_def)
  have root: "root \<in> pw_dirs w" using T by (simp add: tree_ok_def tree_of_def)
  have ne: "c \<noteq> root" "c \<noteq> ?d" using n root b by (auto simp: below_def)
  have dirs: "pt_dirs (tree_of root ?w) = pt_dirs ?T" by (simp add: tree_of_def new_file_def)
  have kids: "pt_kids (tree_of root ?w) d = (if d = ?d then insert c (pt_kids ?T d) else pt_kids ?T d)" for d
    using n ne by (auto simp: tree_of_def new_file_def)
  have tree: "tree_ok root (tree_of root ?w)"
  proof -
    have "finite (pt_kids ?T ?d)" "c \<notin> pt_kids ?T ?d" using T b n by (auto simp: tree_ok_def tree_of_def below_def)
    then have "finite (pt_kids (tree_of root ?w) ?d) \<and> card (pt_kids (tree_of root ?w) ?d) < 4294967295" using room by (simp add: kids)
    then show ?thesis using T ne unfolding tree_ok_def dirs kids by auto
  qed
  have other: "has_placeholder (tree_of root ?w) (pw_attr ?w) q = has_placeholder ?T (pw_attr w) q" if "q \<noteq> c" for q
    using that by (simp add: has_placeholder_def dirs count_of_def ph_of_def state_byte_def) (simp add: new_file_def)
  have cnot: "\<not> has_placeholder (tree_of root ?w) (pw_attr ?w) c"
    using n by (simp add: has_placeholder_def dirs ph_of_def state_byte_def new_file_def IsPlaceholderState_def GetPlaceholderStateFromFileSyncState_def)
      (simp add: tree_of_def)
  have cn: "c \<notin> pt_kids ?T d" for d using n by (simp add: tree_of_def)
  have "placeholder_kids (tree_of root ?w) (pw_attr ?w) d = placeholder_kids ?T (pw_attr w) d" for d
  proof (rule set_eqI)
    fix x
    show "x \<in> placeholder_kids (tree_of root ?w) (pw_attr ?w) d \<longleftrightarrow> x \<in> placeholder_kids ?T (pw_attr w) d"
      by (cases "x = c") (use other cnot cn in \<open>simp_all add: placeholder_kids_def kids\<close>)
  qed
  moreover have "count_of (pw_attr ?w) d = count_of (pw_attr w) d" "attrs_ok (pw_attr ?w) d = attrs_ok (pw_attr w) d"
    "ph_of (pw_attr ?w) d = ph_of (pw_attr w) d" if "d \<in> pt_dirs ?T" for d
    using that n by (auto simp: count_of_def attrs_ok_def ph_of_def state_byte_def new_file_def tree_of_def)
  ultimately show ?thesis using cnt tree by (simp add: world_ok_def counts_ok_def dir_ok_def dirs)
qed


lemma set_state_frame:
  assumes "set_state env p s w = (ret, old, w1)"
  shows "same_nodes w w1 \<and> pw_data w1 = pw_data w \<and> (\<forall>q. q \<noteq> p \<longrightarrow> pw_attr w1 q = pw_attr w q)"
  using assms by (auto simp: set_state_def SetFilePlaceholderState_def WriteFileSyncStateByteNoLock_def same_nodes_def split: if_splits prod.splits)

lemma attributes_frame:
  assumes s: "SetPlaceholderFileAttributes env k p info isNew custom w = (ret, old, w1)" and d: "pw_data w p \<noteq> None"
  shows "same_nodes w w1 \<and> (\<forall>q. q \<noteq> p \<longrightarrow> pw_attr w1 q = pw_attr w q \<and> pw_data w1 q = pw_data w q)"
proof -
  obtain err w2 where t: "ftruncate env k p (unat (pi_logicalSize info)) w = (err, w2)" by (cases "ftruncate env k p (unat (pi_logicalSize info)) w")
  have t2: "same_nodes w w2 \<and> (\<forall>q. q \<noteq> p \<longrightarrow> pw_attr w2 q = pw_attr w q \<and> pw_data w2 q = pw_data w q)"
    using t d by (auto simp: ftruncate_def same_nodes_def split: if_splits)
  obtain r o1 w3 where x: "(if isNew
      then case SetNewFilePlaceholderState (pe_xerr env) (pw_attr w2) p PLACEHOLDER_STATE_UNHYDRATED of
             (err, attr) \<Rightarrow> (err, PLACEHOLDER_STATE_NONE, w2\<lparr>pw_attr := attr\<rparr>)
      else set_state env p PLACEHOLDER_STATE_UNHYDRATED w2) = (r, o1, w3)" by (rule prod_cases3)
  have "same_nodes w2 w3 \<and> pw_data w3 = pw_data w2 \<and> (\<forall>q. q \<noteq> p \<longrightarrow> pw_attr w3 q = pw_attr w2 q)"
    using x set_state_frame [of env p PLACEHOLDER_STATE_UNHYDRATED w2 r o1 w3]
    by (cases isNew) (auto simp: SetNewFilePlaceholderState_def WriteFileSyncStateByteNoLock_def same_nodes_def split: if_splits prod.splits)
  then have t3: "same_nodes w w3 \<and> (\<forall>q. q \<noteq> p \<longrightarrow> pw_attr w3 q = pw_attr w q \<and> pw_data w3 q = pw_data w q)"
    using t2 same_nodes_trans by metis
  have "w1 \<in> {w, w2, w3} \<or> pw_dirs w1 = pw_dirs w3 \<and> pw_data w1 = pw_data w3 \<and> pw_attr w1 = pw_attr w3"
    using s unfolding SetPlaceholderFileAttributes_def by (auto simp: t x Let_def split: if_splits)
  then show ?thesis using t2 t3 by (auto simp: same_nodes_def)
qed

lemma attributes_calls:
  assumes "SetPlaceholderFileAttributes env k p info isNew custom w = (E_OK, old, w1)"
  shows "custom = [] \<or> pe_setCustom env = 0" and "pe_futimens env = 0"
  using assms unfolding SetPlaceholderFileAttributes_def Let_def by (auto split: prod.splits if_splits)

text \<open>Taking back a file that is in no directory of the tree leaves the folder as it was.\<close>

lemma world_ok_outside:
  assumes ok: "world_ok root w" and c: "c \<notin> pw_dirs w" "pw_data w c = None"
    and w1: "same_nodes w w1" "\<forall>q. q \<noteq> c \<longrightarrow> pw_attr w1 q = pw_attr w q"
  shows "world_ok root w1"
proof -
  have T: "tree_of root w1 = tree_of root w" using w1(1) by (intro tree_of_cong) (auto simp: same_nodes_def)
  have n: "c \<notin> pt_dirs (tree_of root w)" "c \<notin> pt_kids (tree_of root w) d" for d using c by (auto simp: tree_of_def)
  have "placeholder_kids (tree_of root w) (pw_attr w1) d = placeholder_kids (tree_of root w) (pw_attr w) d" for d
  proof (rule placeholder_kids_cong)
    fix q assume "q \<in> pt_kids (tree_of root w) d"
    then have "q \<noteq> c" using n(2) by metis
    then show "has_placeholder (tree_of root w) (pw_attr w1) q = has_placeholder (tree_of root w) (pw_attr w) q"
      by (rule has_placeholder_upd [OF w1(2)])
  qed
  moreover have "count_of (pw_attr w1) d = count_of (pw_attr w) d" "attrs_ok (pw_attr w1) d = attrs_ok (pw_attr w) d"
    "ph_of (pw_attr w1) d = ph_of (pw_attr w) d" if "d \<in> pt_dirs (tree_of root w)" for d
  proof -
    have "pw_attr w1 d = pw_attr w d" using that n(1) w1(2) by metis
    then show "count_of (pw_attr w1) d = count_of (pw_attr w) d" "attrs_ok (pw_attr w1) d = attrs_ok (pw_attr w) d"
      "ph_of (pw_attr w1) d = ph_of (pw_attr w) d" by (simp_all add: count_of_def attrs_ok_def ph_of_def state_byte_def)
  qed
  ultimately show ?thesis using ok by (simp add: world_ok_def T counts_ok_def dir_ok_def)
qed

text \<open>What creating a placeholder comes to.\<close>

lemma create_outcome:
  assumes c: "CreatePlaceholderFileAt env path info custom w = (ret, w')"
    and k: "kernel_path p = p" "kernel_path (cp_parentMntPath path) = cp_parentMntPath path"
    and p_def: "p = JoinSyncFolderAndRelativePath (cp_parentMntPath path) (cp_fileName path)"
  obtains (refused) "ret \<noteq> E_OK" "w' = w"
  | (failed) err old w1 where "ret \<noteq> E_OK" "p \<notin> pw_dirs w" "pw_data w p = None"
    "SetPlaceholderFileAttributes env 0 p info True custom (new_file p w) = (err, old, w1)" "err \<noteq> E_OK"
    "w' = (if pe_unlink env \<noteq> 0 then w1 else unlink_file p w1)"
  | (created) old w1 where "ret = E_OK" "p \<notin> pw_dirs w" "pw_data w p = None" "cp_parentMntPath path \<in> pw_dirs w"
    "SetPlaceholderFileAttributes env 0 p info True custom (new_file p w) = (E_OK, old, w1)"
    "w' = snd (refresh_count env (cp_syncRootMntPath path) p 1 w1)"
proof -
  obtain err old w1 where a: "SetPlaceholderFileAttributes env 0 p info True custom (new_file p w) = (err, old, w1)" by (rule prod_cases3)
  show thesis
  proof (cases "pe_open env (cp_parentMntPath path) \<noteq> 0 \<or> cp_parentMntPath path \<notin> pw_dirs w \<or> pe_openat env \<noteq> 0 \<or>
      p \<in> pw_dirs w \<or> pw_data w p \<noteq> None")
    case True
    then have "ret \<noteq> E_OK \<and> w' = w"
      using c unfolding CreatePlaceholderFileAt_def Let_def p_def [symmetric] k by (auto simp: walk_def Let_def k split: if_splits)
    then show thesis using refused by blast
  next
    case False
    then have "(ret, w') = (if err \<noteq> E_OK then (ConvertErrnoToCloudDiskError err, if pe_unlink env \<noteq> 0 then w1 else unlink_file p w1)
        else (E_OK, snd (refresh_count env (cp_syncRootMntPath path) p 1 w1)))"
      using c a unfolding CreatePlaceholderFileAt_def Let_def p_def [symmetric] k by (simp add: walk_def Let_def k)
    then show thesis using failed [OF _ _ _ a] created [of old w1] a False by (auto split: if_splits)
  qed
qed

lemma create_world:
  assumes ok: "world_ok root w" and r: "cp_syncRootMntPath path = root" and env: "pe_xerr env = no_err" "pe_unlink env = 0"
    and par: "canonical (cp_parentMntPath path)" "cp_parentMntPath path \<noteq> ''/''" "IsSameOrUnderPath root (cp_parentMntPath path)"
    and name: "CHR ''/'' \<notin> set (cp_fileName path)" "proper (cp_fileName path)"
    and room: "card (pt_kids (tree_of root w) (cp_parentMntPath path)) + 1 < 4294967295"
  shows "world_ok root (snd (CreatePlaceholderFileAt env path info custom w))"
proof (cases "CreatePlaceholderFileAt env path info custom w")
  case (Pair ret w')
  let ?p = "JoinSyncFolderAndRelativePath (cp_parentMntPath path) (cp_fileName path)"
  note ends = canonical_ends [OF par(1, 2)]
  have j: "GetParentPath ?p = cp_parentMntPath path" using join_parent ends name by simp
  have cp: "canonical ?p" using canonical_child [OF par(1, 2) name] ends by (simp add: JoinSyncFolderAndRelativePath_def)
  from Pair cp [unfolded canonical_def] par(1) [unfolded canonical_def] refl show ?thesis
  proof (cases rule: create_outcome)
    case (failed err old w1)
    have f: "same_nodes (new_file ?p w) w1 \<and> (\<forall>q. q \<noteq> ?p \<longrightarrow> pw_attr w1 q = pw_attr (new_file ?p w) q)"
      using attributes_frame [OF failed(4)] by (simp add: new_file_def)
    have "same_nodes w (unlink_file ?p w1)" using f failed(3) by (simp add: same_nodes_def new_file_def unlink_file_def)
    then show ?thesis using Pair failed env(2) f world_ok_outside [OF ok failed(2, 3)] by (simp add: new_file_def unlink_file_def)
  next
    case (created old w1)
    have b: "below root w ?p" using j created(4) par(3) cp by (simp add: below_def)
    have n: "world_ok root (new_file ?p w)" using new_file_world [OF ok b created(2, 3)] room j by simp
    have nb: "below root (new_file ?p w) ?p" "?p \<notin> pw_dirs (new_file ?p w)" "pw_data (new_file ?p w) ?p \<noteq> None"
      using b created(2) by (simp_all add: below_def new_file_def)
    note calls = attributes_calls [OF created(5)]
    from created(5) nb(3) env(1) calls show ?thesis
    proof (cases rule: attributes_quiet)
      case (set attr)
      have "world_ok root (snd (refresh_count env root ?p 1 w1))"
      proof (rule refresh_world [OF n nb env(1)])
        show "pw_dirs w1 = pw_dirs (new_file ?p w)" "(pw_data w1 q = None) = (pw_data (new_file ?p w) q = None)" for q
          using set(3) by (auto simp: same_nodes_def)
        show "\<forall>q. q \<noteq> ?p \<longrightarrow> pw_attr w1 q = pw_attr (new_file ?p w) q" using set(4, 6) by simp
        show "(1 :: int) = of_bool (IsPlaceholderState (ph_of (pw_attr w1) ?p)) - of_bool (IsPlaceholderState (ph_of (pw_attr (new_file ?p w)) ?p))"
          using set(4, 5) by (simp add: IsPlaceholderState_def new_file_def ph_of_def state_byte_def GetPlaceholderStateFromFileSyncState_def)
      qed
      then show ?thesis using Pair created(6) r by simp
    qed simp
  qed (use ok Pair in simp)
qed


section \<open>Sequences of operations\<close>

text \<open>
  The operations on one sync folder, with every failure of \<open>stat\<close>, \<open>open\<close>, \<open>fstat\<close>, \<open>ftruncate\<close>, \<open>openat\<close>
  and the provider open, the attribute calls working, the calls of an update after the state is
  set working, and a failed creation taken back. The paths are in their canonical spelling.
\<close>

inductive ph_step :: "string \<Rightarrow> ph_world \<Rightarrow> ph_world \<Rightarrow> bool" for root where
  change: "below root w (cx_hmdfsPath ctx) \<Longrightarrow> cx_mntSyncFolder ctx = root \<Longrightarrow> pe_xerr env = no_err \<Longrightarrow>
    ph_step root w (snd (ChangePlaceholderStateOnly env m ctx transition relativePath w))"
| convert: "below root w p \<Longrightarrow> pe_xerr env = no_err \<Longrightarrow> ph_step root w (snd (ConvertPlaceholderToEmptyFile env p root userId i w))"
| dehydrate: "below root w (cx_hmdfsPath ctx) \<Longrightarrow> pe_xerr env = no_err \<Longrightarrow>
    ph_step root w (snd (DehydratePlaceholderFile env authorize m ctx relativePath w))"
| update: "below root w p \<Longrightarrow> uc_mntSyncFolder uctx = root \<Longrightarrow> pe_xerr env = no_err \<Longrightarrow> custom = [] \<or> pe_setCustom env = 0 \<Longrightarrow>
    pe_futimens env = 0 \<Longrightarrow> ph_step root w (snd (UpdatePlaceholderAttr env p info uctx custom w))"
| create: "cp_syncRootMntPath path = root \<Longrightarrow> pe_xerr env = no_err \<Longrightarrow> pe_unlink env = 0 \<Longrightarrow> canonical (cp_parentMntPath path) \<Longrightarrow>
    cp_parentMntPath path \<noteq> ''/'' \<Longrightarrow> IsSameOrUnderPath root (cp_parentMntPath path) \<Longrightarrow>
    CHR ''/'' \<notin> set (cp_fileName path) \<Longrightarrow> proper (cp_fileName path) \<Longrightarrow>
    card (pt_kids (tree_of root w) (cp_parentMntPath path)) + 1 < 4294967295 \<Longrightarrow>
    ph_step root w (snd (CreatePlaceholderFileAt env path info custom w))"

inductive ph_reach :: "string \<Rightarrow> ph_world \<Rightarrow> ph_world \<Rightarrow> bool" for root w where
  refl: "ph_reach root w w"
| step: "ph_reach root w w1 \<Longrightarrow> ph_step root w1 w2 \<Longrightarrow> ph_reach root w w2"

lemma ph_step_ok: "ph_step root w w' \<Longrightarrow> world_ok root w \<Longrightarrow> world_ok root w'"
  by (erule ph_step.cases) (auto intro: change_world convert_world dehydrate_world update_world create_world)

text \<open>
  C37: The placeholder counts of a sync folder stay right through any sequence of operations on its
  files: creating, updating, marking and unmarking placeholders, turning them into empty files
  and dropping their data, also when stat, open, openat, fstat, ftruncate or the provider fails
  in any of them. The paths of the requests are spelled without empty or dot components and pass
  through no symbolic link. The attribute calls are taken to work, an update to write its custom
  information and times, a failed creation to unlink its file, and no directory to have as many
  entries as a 32-bit count can hold. Every directory goes on counting the entries that are or
  contain placeholders, and its own state says whether there are any.
\<close>

theorem placeholder_counts_kept:
  assumes "world_ok root w" and "ph_reach root w w'"
  shows "world_ok root w'"
  using assms(2, 1) by (induction rule: ph_reach.induct) (auto intro: ph_step_ok)

lemma set_state_done:
  assumes "set_state env p s w = (E_OK, old, w1)"
  shows "ph_of (pw_attr w1) p = s"
proof -
  have v: "IsValidPlaceholderState s" using assms by (auto simp: set_state_def SetFilePlaceholderState_def split: if_splits prod.splits)
  then have "\<exists>b. xa_state (pw_attr w1 p) = Some [MakeFileSyncState s b]"
    using assms by (auto simp: set_state_def SetFilePlaceholderState_def WriteFileSyncStateByteNoLock_def split: if_splits prod.splits)
  then show ?thesis using v by (auto simp: ph_of_def state_byte_def ph_of_make)
qed

lemma refresh_own:
  assumes "names_entry p"
  shows "pw_attr (snd (refresh_count env root p delta w)) (kernel_path p) = pw_attr w (kernel_path p)"
proof (cases "CHR ''/'' \<in> set p")
  case True
  then show ?thesis using assms refresh_ancestors_frame by (auto simp: refresh_count_def split: prod.split)
next
  case False
  then have "GetParentPath p = []" by (simp add: GetParentPath_def find_last_of_None [THEN iffD2])
  then show ?thesis by (simp add: refresh_count_def RefreshAncestorPlaceholderCount_def refresh_loop.simps [of _ _ _ "[]"] IsSameOrUnderPath_def split: prod.split)
qed

text \<open>
  C38: Marking a file as a placeholder and unmarking it either happen or do not: whatever call
  fails, an operation that does not return success leaves the whole store as it was. One that
  succeeds found an ordinary file to mark, or a completely hydrated placeholder to unmark, and
  leaves it completely hydrated when it was marked and an ordinary file when it was unmarked. No
  hydration of the file was outstanding then, except that a request with an empty relative path is
  not asked for one, and the directories, the data and the custom information of every file are as
  before.
\<close>

theorem state_change_atomic:
  assumes "ChangePlaceholderStateOnly env m ctx transition relativePath w = (ret, w')"
  shows "if ret \<noteq> E_OK then w' = w
    else pw_dirs w' = pw_dirs w \<and> pw_data w' = pw_data w \<and> pw_custom w' = pw_custom w \<and>
      pw_data w (kernel_path (cx_hmdfsPath ctx)) \<noteq> None \<and>
      (relativePath = [] \<or> \<not> HasOutstandingTask (cx_syncFolder ctx) relativePath (cx_syncFolderIndex ctx) m) \<and>
      (\<exists>ret0. GetFilePlaceholderState (pe_xerr env) (pw_attr w) (kernel_path (cx_hmdfsPath ctx)) =
        (ret0, Some (if transition = MARK then PLACEHOLDER_STATE_NONE else PLACEHOLDER_STATE_FULLY_HYDRATED))) \<and>
      ph_of (pw_attr w') (kernel_path (cx_hmdfsPath ctx)) =
        (if transition = MARK then PLACEHOLDER_STATE_FULLY_HYDRATED else PLACEHOLDER_STATE_NONE)"
  using assms
proof (cases rule: change_cases)
  case (changed ret0 old new delta old1 w1)
  have w1: "pw_dirs w1 = pw_dirs w" "pw_data w1 = pw_data w" "pw_custom w1 = pw_custom w"
    using changed(8) by (auto simp: set_state_def split: prod.splits)
  have "ph_of (pw_attr w') (kernel_path (cx_hmdfsPath ctx)) = new"
    using set_state_done [OF changed(8)] refresh_own [OF changed(10)] by (simp add: changed(9) ph_of_def state_byte_def)
  then show ?thesis using w1 changed(1, 3, 4, 5, 9) transition_delta(3, 4) [OF changed(7)] by auto
qed simp


lemma dehydrate_open:
  assumes x: "DehydrateOpenFile env p w = (ret, w')" and d: "pw_data w p \<noteq> None"
  shows "(\<forall>q. q \<noteq> p \<longrightarrow> pw_data w' q = pw_data w q \<and> pw_attr w' q = pw_attr w q) \<and>
    (ret = E_OK \<longrightarrow> pw_data w' p = Some (replicate (length (file_bytes w p)) 0) \<and> ph_of (pw_attr w') p = PLACEHOLDER_STATE_UNHYDRATED)"
proof (cases "pe_fstat env = 0")
  case ok: True
  obtain err w1 where t: "ftruncate env 0 p 0 w = (err, w1)" by (cases "ftruncate env 0 p 0 w")
  note tf = truncate_frame [OF t d]
  obtain e w2 where l: "extend_loop env p (length (file_bytes w p)) 0 3 w1 = (e, w2)" by (cases "extend_loop env p (length (file_bytes w p)) 0 3 w1")
  note ef = extend_frame [OF l tf(4)]
  obtain r old w3 where s: "set_state env p PLACEHOLDER_STATE_UNHYDRATED w2 = (r, old, w3)" by (rule prod_cases3)
  note sf = set_state_frame [OF s]
  have q: "pw_data w1 q = pw_data w q" "pw_data w2 q = pw_data w q" "pw_attr w2 = pw_attr w" if "q \<noteq> p" for q
    using that tf ef by (cases "err = 0"; cases e; simp)+
  have z: "pw_data w2 p = Some (replicate (length (file_bytes w p)) 0)" if "err = 0" e
    using tf(6) [OF that(1)] ef that(2) by (simp add: set_size_def file_bytes_def)
  have "(ret, w') = (if err \<noteq> 0 then (ConvertErrnoToCloudDiskError err, w1) else if \<not> e then (E_TRY_AGAIN, w2)
      else if r \<noteq> E_OK then (ConvertPlaceholderStateErrnoToCloudDiskError r, w3) else (E_OK, w3))"
    using x ok t l s by (cases "err = 0"; cases e) (simp_all add: DehydrateOpenFile_def)
  then consider "err \<noteq> 0" "w' = w1" "ret \<noteq> E_OK" | "err = 0" "w' = w2" "ret \<noteq> E_OK" | "err = 0" e "w' = w3" "ret = r \<or> ret \<noteq> E_OK"
    by (auto split: if_splits)
  then show ?thesis
  proof cases
    case 3
    then show ?thesis using q z sf set_state_done s by auto
  qed (use q tf(2) in auto)
qed (use x in \<open>auto simp: DehydrateOpenFile_def\<close>)

text \<open>
  C39: Dropping the data of a placeholder. Nothing changes unless the provider allows it, nor while
  a hydration of the file is outstanding, and no other file is ever touched. When the operation
  reports success, either the file was unhydrated already and nothing changed, or it has the
  size it had, reads as zeros and is in the unhydrated state.
\<close>

theorem dehydrate_result:
  assumes "DehydratePlaceholderFile env authorize m ctx relativePath w = (ret, w')"
  shows "(authorize \<noteq> E_OK \<or> HasOutstandingTask (cx_syncFolder ctx) relativePath (cx_syncFolderIndex ctx) m \<longrightarrow> w' = w) \<and>
    (\<forall>q. q \<noteq> kernel_path (cx_hmdfsPath ctx) \<longrightarrow> pw_data w' q = pw_data w q \<and> pw_attr w' q = pw_attr w q) \<and>
    (ret = E_OK \<longrightarrow>
       w' = w \<and> (\<exists>ret0. GetFilePlaceholderState (pe_xerr env) (pw_attr w) (kernel_path (cx_hmdfsPath ctx)) = (ret0, Some PLACEHOLDER_STATE_UNHYDRATED)) \<or>
       pw_data w' (kernel_path (cx_hmdfsPath ctx)) = Some (replicate (length (file_bytes w (kernel_path (cx_hmdfsPath ctx)))) 0) \<and>
       ph_of (pw_attr w') (kernel_path (cx_hmdfsPath ctx)) = PLACEHOLDER_STATE_UNHYDRATED)"
proof -
  let ?p = "kernel_path (cx_hmdfsPath ctx)"
  consider "w' = w" "ret \<noteq> E_OK" | ret0 where "w' = w" "GetFilePlaceholderState (pe_xerr env) (pw_attr w) ?p = (ret0, Some PLACEHOLDER_STATE_UNHYDRATED)"
    | "authorize = E_OK" "\<not> HasOutstandingTask (cx_syncFolder ctx) relativePath (cx_syncFolderIndex ctx) m" "pw_data w ?p \<noteq> None"
      "DehydrateOpenFile env ?p w = (ret, w')"
    using assms open_path_ok [of env "cx_hmdfsPath ctx" w] unfolding DehydratePlaceholderFile_def Let_def CheckDehydrateState_def
    by (auto split: if_splits prod.splits option.splits)
  then show ?thesis
  proof cases
    case 3
    then show ?thesis using dehydrate_open [OF 3(4, 3)] by simp
  qed auto
qed


section \<open>Where a failure leaves a mark\<close>

text \<open>
  C40: An update that fails late miscounts the folder. Updating an ordinary file of a folder whose
  counts are right, with the attribute calls and ftruncate working but futimens failing, returns
  an error after the file has lost its data and become an unhydrated placeholder; the counts of
  its ancestors are not told, so the folder's counts are wrong afterwards.
\<close>

theorem update_failure_uncounted:
  assumes ok: "world_ok root w" and b: "below root w p" and env: "pe_xerr env = no_err"
    and calls: "pe_stat env p = 0" "pe_open env p = 0" "pe_trunc env 0 = 0" "pe_trunc env 1 = 0" "pe_futimens env \<noteq> 0"
    and f: "p \<notin> pw_dirs w" "pw_data w p \<noteq> None" "attrs_ok (pw_attr w) p" "ph_of (pw_attr w) p = PLACEHOLDER_STATE_NONE"
    and len: "pi_logicalSize info \<le> MAX_PLACEHOLDER_LOGICAL_SIZE"
  shows "\<exists>w'. UpdatePlaceholderAttr env p info uctx [] w = (ConvertErrnoToCloudDiskError (pe_futimens env), w') \<and>
    pw_data w' p = Some (replicate (unat (pi_logicalSize info)) 0) \<and> ph_of (pw_attr w') p = PLACEHOLDER_STATE_UNHYDRATED \<and>
    \<not> world_ok root w'"
proof -
  let ?w1 = "w\<lparr>pw_data := (pw_data w)(p \<mapsto> [])\<rparr>"
  let ?w2 = "w\<lparr>pw_data := (pw_data w)(p \<mapsto> replicate (unat (pi_logicalSize info)) 0)\<rparr>"
  note k = below_kernel [OF b]
  have u: "IsValidPlaceholderState PLACEHOLDER_STATE_UNHYDRATED" by (simp add: IsValidPlaceholderState_def)
  obtain attr where a: "SetFilePlaceholderState no_err (pw_attr w) p PLACEHOLDER_STATE_UNHYDRATED = (E_OK, Some (ph_of (pw_attr w) p), attr)"
    "ph_of attr p = PLACEHOLDER_STATE_UNHYDRATED" "\<forall>q. q \<noteq> p \<longrightarrow> attr q = pw_attr w q"
    using set_state_ok [OF f(3) u] by blast
  let ?w' = "?w2\<lparr>pw_attr := attr\<rparr>"
  have l: "\<not> pi_logicalSize info > MAX_PLACEHOLDER_LOGICAL_SIZE" using len by (simp only: not_less)
  have t1: "ftruncate env 0 p 0 w = (0, ?w1)" using calls(3) by (simp add: ftruncate_def set_size_def)
  have t2: "ftruncate env 1 p (unat (pi_logicalSize info)) ?w1 = (0, ?w2)"
    using calls(4) by (simp add: ftruncate_def set_size_def file_bytes_def del: One_nat_def)
  have s: "set_state env p PLACEHOLDER_STATE_UNHYDRATED ?w2 = (E_OK, PLACEHOLDER_STATE_NONE, ?w')"
    using a(1) env f(4) by (simp add: set_state_def)
  have at: "SetPlaceholderFileAttributes env 1 p info False [] ?w1 = (pe_futimens env, PLACEHOLDER_STATE_NONE, ?w')"
    using l t2 s calls(5) by (simp add: SetPlaceholderFileAttributes_def del: One_nat_def)
  have "CheckPathNotDir env p w = E_OK" "open_path env p w = 0"
    using calls f below_entry [OF b f(1)] by (auto simp: CheckPathNotDir_def stat_path_def open_path_def walk_def Let_def k)
  moreover have "ValidatePlaceholderForUpdate env p w = E_OK"
    using env f(3, 4) read_state_ok [OF f(3)]
    by (simp add: ValidatePlaceholderForUpdate_def GetFilePlaceholderState_def GetFileSyncStateByte_def ph_of_def IsValidPlaceholderState_def)
  ultimately have r: "UpdatePlaceholderAttr env p info uctx [] w = (ConvertErrnoToCloudDiskError (pe_futimens env), ?w')"
    using l t1 at calls(5) by (simp add: UpdatePlaceholderAttr_def Let_def k del: One_nat_def)
  have T: "tree_of root ?w' = tree_of root w" using f(2) by (intro tree_of_cong) auto
  let ?T = "tree_of root w" and ?d = "GetParentPath p"
  have tr: "tree_ok root ?T" "counts_ok ?T (pw_attr w)" using ok by (auto simp: world_ok_def)
  have d: "?d \<in> pt_dirs ?T" using b by (simp add: tree_of_def below_def)
  have "root \<in> pw_dirs w" using tr(1) by (simp add: tree_ok_def tree_of_def)
  then have p: "p \<notin> pt_dirs ?T" "p \<in> pt_kids ?T ?d" using f b by (auto simp: tree_of_def below_def)
  have "off_by ?T attr ?d 1"
    using set_state_off_by [OF tr p d a(3)] a(2) f(4) by (simp add: IsPlaceholderState_def)
  then have "int (card (placeholder_kids ?T attr ?d)) = int (unat (count_of attr ?d)) + 1" by (simp only: off_by_def)
  then have "\<not> dir_ok ?T attr ?d" unfolding dir_ok_def by linarith
  then have "\<not> world_ok root ?w'" using d T by (auto simp: world_ok_def counts_ok_def)
  then show ?thesis using r a(2) by (intro exI [of _ ?w']) simp
qed


section \<open>A folder\<close>

text \<open>A folder with one ordinary file, and calls that all work.\<close>

definition ex_world :: ph_world where
  "ex_world = \<lparr>pw_dirs = {''/r''}, pw_data = [''/r/a'' \<mapsto> [1, 2, 3]], pw_attr = (\<lambda>_. \<lparr>xa_state = None, xa_count = None\<rparr>),
     pw_custom = Map.empty, pw_times = (\<lambda>_. ((0, 0), (0, 0))), pw_svc = \<lparr>sw_disk = Map.empty, sw_cache = mgr_empty\<rparr>\<rparr>"

definition ex_env :: ops_env where
  "ex_env = \<lparr>pe_recount = renv_w, pe_stat = (\<lambda>_. 0), pe_open = (\<lambda>_. 0), pe_openat = 0, pe_fstat = 0, pe_trunc = (\<lambda>_. 0), pe_setCustom = 0,
     pe_getCustom = (\<lambda>_. 0), pe_futimens = 0, pe_unlink = 0\<rparr>"

definition ex_context :: PlaceholderStatePathContext where
  "ex_context = no_context\<lparr>cx_hmdfsPath := ''/r/a'', cx_mntSyncFolder := ''/r'', cx_userId := 100, cx_syncFolder := ''/s'', cx_bundleName := ''app''\<rparr>"

definition ex_info :: PlaceholderInfo where
  "ex_info = \<lparr>pi_logicalSize = 4, pi_atimeMs = 1500, pi_mtimeMs = 2500\<rparr>"

definition ex_marked :: ph_world where
  "ex_marked = snd (ChangePlaceholderStateOnly ex_env cb_run_start ex_context MARK ''a'' ex_world)"

lemma ex_below: "below ''/r'' ex_world ''/r/a''" "GetParentPath ''/r/a'' = ''/r''" "GetParentPath ''/r'' = ''/''"
  by code_simp+

lemma ex_canonical: "canonical ''/r''" "kernel_path ''/r/a'' = ''/r/a''"
  by code_simp+

lemma ex_world_ok: "world_ok ''/r'' ex_world"
proof -
  let ?T = "tree_of ''/r'' ex_world"
  have dirs: "pt_dirs ?T = {''/r''}" by (auto simp: tree_of_def ex_world_def IsSameOrUnderPath_def)
  have kids: "pt_kids ?T ''/r'' = {''/r/a''}" using ex_below(2) by (auto simp: tree_of_def ex_world_def split: if_splits)
  have "tree_ok ''/r'' ?T" unfolding tree_ok_def dirs using ex_below(2) ex_canonical(1) by (simp add: kids IsSameOrUnderPath_def)
  moreover have attr: "count_of (pw_attr ex_world) q = 0" "ph_of (pw_attr ex_world) q = 0" "attrs_ok (pw_attr ex_world) q" for q
    by (simp_all add: ex_world_def count_of_def ph_of_def state_byte_def attrs_ok_def GetPlaceholderStateFromFileSyncState_def)
  moreover have "placeholder_kids ?T (pw_attr ex_world) d = {}" for d
    by (auto simp: placeholder_kids_def has_placeholder_def attr IsPlaceholderState_def)
  ultimately show ?thesis by (simp add: world_ok_def counts_ok_def dir_ok_def IsPlaceholderState_def)
qed

lemma ex_env_quiet: "pe_xerr ex_env = no_err"
  by (simp add: ex_env_def renv_w_def)

lemma ex_mark:
  "fst (ChangePlaceholderStateOnly ex_env cb_run_start ex_context MARK ''a'' ex_world) = E_OK"
  "ph_of (pw_attr ex_marked) ''/r/a'' = PLACEHOLDER_STATE_FULLY_HYDRATED" "count_of (pw_attr ex_marked) ''/r'' = 1"
  by code_simp+


theorem placeholder_counts_kept_witness:
  "world_ok ''/r'' ex_marked \<and> count_of (pw_attr ex_marked) ''/r'' = 1"
proof -
  have "ph_step ''/r'' ex_world ex_marked" unfolding ex_marked_def
    by (rule ph_step.change [OF _ _ ex_env_quiet]) (use ex_below(1) in \<open>simp_all add: ex_context_def\<close>)
  then have "ph_reach ''/r'' ex_world ex_marked" by (rule ph_reach.step [OF ph_reach.refl])
  from placeholder_counts_kept [OF ex_world_ok this] show ?thesis using ex_mark(3) by simp
qed

theorem state_change_atomic_witness:
  "pw_data ex_marked = pw_data ex_world \<and> pw_custom ex_marked = pw_custom ex_world \<and>
    ph_of (pw_attr ex_marked) ''/r/a'' = PLACEHOLDER_STATE_FULLY_HYDRATED"
proof -
  have p: "cx_hmdfsPath ex_context = ''/r/a''" by (simp add: ex_context_def)
  have "ChangePlaceholderStateOnly ex_env cb_run_start ex_context MARK ''a'' ex_world = (E_OK, ex_marked)"
    using ex_mark(1) by (metis ex_marked_def prod.collapse)
  from state_change_atomic [OF this] show ?thesis unfolding p ex_canonical(2) by simp
qed

theorem dehydrate_result_witness:
  "pw_data (snd (DehydratePlaceholderFile ex_env E_OK cb_run_start ex_context ''a'' ex_marked)) ''/r/a'' = Some (replicate 3 0)"
proof -
  let ?x = "DehydratePlaceholderFile ex_env E_OK cb_run_start ex_context ''a'' ex_marked"
  have p: "cx_hmdfsPath ex_context = ''/r/a''" by (simp add: ex_context_def)
  have r: "fst ?x = E_OK" by code_simp
  have g: "GetFilePlaceholderState (pe_xerr ex_env) (pw_attr ex_marked) ''/r/a'' = (0, Some 3)" by code_simp
  have l: "length (file_bytes ex_marked ''/r/a'') = 3" by code_simp
  have "?x = (E_OK, snd ?x)" using r by (metis prod.collapse)
  from dehydrate_result [OF this] show ?thesis unfolding p ex_canonical(2) l g by simp
qed

theorem update_failure_uncounted_witness:
  "\<exists>w'. UpdatePlaceholderAttr (ex_env\<lparr>pe_futimens := EIO\<rparr>) ''/r/a'' ex_info \<lparr>uc_mntSyncFolder = ''/r'', uc_userId = 100, uc_syncFolderIndex = 1\<rparr> [] ex_world =
      (E_TRY_AGAIN, w') \<and> pw_data w' ''/r/a'' = Some (replicate 4 0) \<and> \<not> world_ok ''/r'' w'"
proof -
  let ?env = "ex_env\<lparr>pe_futimens := EIO\<rparr>"
  have env: "pe_xerr ?env = no_err" "pe_stat ?env ''/r/a'' = 0" "pe_open ?env ''/r/a'' = 0" "pe_trunc ?env 0 = 0" "pe_trunc ?env 1 = 0"
    "pe_futimens ?env \<noteq> 0" by (simp_all add: ex_env_def renv_w_def)
  have f: "''/r/a'' \<notin> pw_dirs ex_world" "pw_data ex_world ''/r/a'' \<noteq> None" "attrs_ok (pw_attr ex_world) ''/r/a''"
    "ph_of (pw_attr ex_world) ''/r/a'' = PLACEHOLDER_STATE_NONE"
    by (simp_all add: ex_world_def attrs_ok_def ph_of_def state_byte_def GetPlaceholderStateFromFileSyncState_def)
  have l: "pi_logicalSize ex_info \<le> MAX_PLACEHOLDER_LOGICAL_SIZE" "unat (pi_logicalSize ex_info) = 4" by (simp_all add: ex_info_def)
  have e: "ConvertErrnoToCloudDiskError (pe_futimens ?env) = E_TRY_AGAIN" by (simp add: ConvertErrnoToCloudDiskError_def)
  show ?thesis using update_failure_uncounted [OF ex_world_ok ex_below(1) env f l(1)] l(2) e by metis
qed

text \<open>
  A dehydration that cannot write the state has already dropped the data: the file is still
  marked as completely hydrated and reads as zeros.
\<close>

lemma dehydrate_failure_zeros:
  defines "env \<equiv> ex_env\<lparr>pe_recount := renv_w\<lparr>re_xerr := (\<lambda>call _. if call = SetState then EIO else 0)\<rparr>\<rparr>"
  shows "fst (DehydratePlaceholderFile env E_OK cb_run_start ex_context ''a'' ex_marked) = E_TRY_AGAIN"
    and "pw_data (snd (DehydratePlaceholderFile env E_OK cb_run_start ex_context ''a'' ex_marked)) ''/r/a'' = Some [0, 0, 0]"
    and "ph_of (pw_attr (snd (DehydratePlaceholderFile env E_OK cb_run_start ex_context ''a'' ex_marked))) ''/r/a'' = PLACEHOLDER_STATE_FULLY_HYDRATED"
  unfolding env_def by code_simp+

text \<open>
  The refresh compares strings. A relative path with a doubled slash passes the check on it, the
  kernel creates the file in the directory meant, and the climb then meets that directory's parent
  under two spellings: it is counted twice, though one of its entries contains a placeholder.
\<close>

definition ex_nested :: ph_world where
  "ex_nested = ex_world\<lparr>pw_dirs := {''/r'', ''/r/x'', ''/r/x/a''}\<rparr>"

lemma doubled_slash_miscounts:
  defines "path \<equiv> \<lparr>cp_parentMntPath = JoinSyncFolderAndRelativePath ''/r'' ''x//a'', cp_fileName = ''b'', cp_syncRootMntPath = ''/r''\<rparr>"
  shows "\<not> HasInvalidRelativePathSegment ''x//a/b''"
    and "fst (CreatePlaceholderFileAt ex_env path ex_info [] ex_nested) = E_OK"
    and "pw_data (snd (CreatePlaceholderFileAt ex_env path ex_info [] ex_nested)) ''/r/x/a/b'' = Some [0, 0, 0, 0]"
    and "count_of (pw_attr (snd (CreatePlaceholderFileAt ex_env path ex_info [] ex_nested))) ''/r/x/a'' = 1"
    and "count_of (pw_attr (snd (CreatePlaceholderFileAt ex_env path ex_info [] ex_nested))) ''/r/x'' = 2"
    and "count_of (pw_attr (snd (CreatePlaceholderFileAt ex_env path ex_info [] ex_nested))) ''/r'' = 0"
  unfolding path_def by code_simp+

end
