(* ===== verification/Hydration_Trace.thy ===== *)
theory Hydration_Trace
  imports Hydration_Invariants
begin

text \<open>
  What the subscribers of a task see: the progress reports of one task, in the order they were sent,
  and that they tell a consistent story in every reachable state.
\<close>

definition terminal_state :: "PlaceholderTaskState \<Rightarrow> bool" where
  "terminal_state st \<longleftrightarrow> st = COMPLETED \<or> st = CANCELLED"

type_synonym report = "PlaceholderTaskState \<times> u64 \<times> u64"

definition report_of :: "nat \<Rightarrow> task_event \<Rightarrow> report list" where
  "report_of t e = (case e of Progress u w st processed all \<Rightarrow> if u = t then [(st, processed, all)] else [] | _ \<Rightarrow> [])"

definition progress_of :: "nat \<Rightarrow> task_event list \<Rightarrow> report list" where
  "progress_of t es = concat (map (report_of t) es)"

text \<open>
  A legal story: the first report and no other is pending, a final state comes last, completion
  follows a report in progress, and the processed size never shrinks and never exceeds the total.
\<close>

definition legal_progress :: "report list \<Rightarrow> bool" where
  "legal_progress ps \<longleftrightarrow>
     (\<forall>i < length ps. (fst (ps ! i) = PENDING \<longleftrightarrow> i = 0) \<and> (terminal_state (fst (ps ! i)) \<longrightarrow> Suc i = length ps) \<and>
        (fst (ps ! i) = COMPLETED \<longrightarrow> fst (ps ! (i - 1)) = IN_PROGRESS) \<and> fst (snd (ps ! i)) \<le> snd (snd (ps ! i))) \<and>
     sorted (map (\<lambda>p. fst (snd p)) ps)"

definition task_trace :: "PlaceholderTaskRecord \<Rightarrow> report list \<Rightarrow> bool" where
  "task_trace r ps \<longleftrightarrow> ps \<noteq> [] \<and> legal_progress ps \<and> fst (last ps) = t_state r \<and> fst (snd (last ps)) = t_cachedSize r \<and>
     t_cachedSize r \<le> t_totalSize r \<and> t_terminalProgressSent r = terminal_state (t_state r) \<and> (t_state r = PENDING \<longrightarrow> t_cachedSize r = 0)"

definition trace_ok :: "task_mgr \<Rightarrow> bool" where
  "trace_ok m \<longleftrightarrow> (\<forall>t. tm_new m \<le> t \<longrightarrow> progress_of t (tm_events m) = []) \<and>
     (\<forall>t < tm_new m. task_trace (tm_obj m t) (progress_of t (tm_events m)))"

section \<open>Reports\<close>

lemma progress_of_simps [simp]: "progress_of t [] = []" "progress_of t (e # es) = report_of t e @ progress_of t es"
  "progress_of t (es @ es') = progress_of t es @ progress_of t es'"
  by (simp_all add: progress_of_def)

lemma report_of_simps [simp]:
  "report_of t (Progress u w st p n) = (if u = t then [(st, p, n)] else [])" "report_of t (FetchData u) = []" "report_of t (CancelFetchData u) = []"
  by (simp_all add: report_of_def)

lemma legal_first: "legal_progress [(PENDING, 0, n)]"
  by (simp add: legal_progress_def terminal_state_def)

lemma legal_snoc:
  assumes "legal_progress ps" "ps \<noteq> []" "\<not> terminal_state (fst (last ps))" "st \<noteq> PENDING" "st = COMPLETED \<longrightarrow> fst (last ps) = IN_PROGRESS"
    "fst (snd (last ps)) \<le> p" "p \<le> n"
  shows "legal_progress (ps @ [(st, p, n)])"
proof -
  have l: "last ps = ps ! (length ps - 1)" using assms(2) by (simp add: last_conv_nth)
  have nt: "\<not> terminal_state (fst (ps ! i))" if "i < length ps" for i
  proof (cases "Suc i = length ps")
    case True
    then have "i = length ps - 1" by simp
    then show ?thesis using assms(3) l by simp
  qed (use assms(1) that in \<open>auto simp: legal_progress_def\<close>)
  have "x \<le> p" if x: "x \<in> set (map (\<lambda>p. fst (snd p)) ps)" for x
  proof -
    obtain i where i: "i < length ps" "x = fst (snd (ps ! i))" using x by (auto simp: in_set_conv_nth)
    have "sorted (map (\<lambda>p. fst (snd p)) ps)" using assms(1) by (simp add: legal_progress_def)
    from sorted_nth_mono [OF this, of i "length ps - 1"] have "x \<le> fst (snd (last ps))" using i by (simp add: l)
    then show ?thesis using assms(6) by simp
  qed
  then have "sorted (map (\<lambda>p. fst (snd p)) (ps @ [(st, p, n)]))" using assms(1) by (simp add: legal_progress_def sorted_append)
  moreover have "(fst ((ps @ [(st, p, n)]) ! i) = PENDING \<longleftrightarrow> i = 0) \<and> (terminal_state (fst ((ps @ [(st, p, n)]) ! i)) \<longrightarrow> Suc i = Suc (length ps)) \<and>
        (fst ((ps @ [(st, p, n)]) ! i) = COMPLETED \<longrightarrow> fst ((ps @ [(st, p, n)]) ! (i - 1)) = IN_PROGRESS) \<and>
        fst (snd ((ps @ [(st, p, n)]) ! i)) \<le> snd (snd ((ps @ [(st, p, n)]) ! i))" if "i < Suc (length ps)" for i
  proof (cases "i = length ps")
    case True
    then show ?thesis using assms(2,4,5,7) l by (simp add: nth_append)
  next
    case False
    then have "i < length ps" using that by simp
    then show ?thesis using nt assms(1) by (auto simp: nth_append legal_progress_def)
  qed
  ultimately show ?thesis by (simp add: legal_progress_def)
qed

lemma task_trace_report:
  assumes "task_trace r ps" "\<not> terminal_state (t_state r)" "t_state r' \<noteq> PENDING" "t_state r' = COMPLETED \<longrightarrow> t_state r = IN_PROGRESS"
    "t_cachedSize r \<le> t_cachedSize r'" "t_cachedSize r' \<le> t_totalSize r'" "t_terminalProgressSent r' = terminal_state (t_state r')"
  shows "task_trace r' (ps @ [(t_state r', t_cachedSize r', t_totalSize r')])"
  using assms legal_snoc [of ps "t_state r'" "t_cachedSize r'" "t_totalSize r'"] by (simp add: task_trace_def)

lemma trace_step:
  assumes "trace_ok m" "t < tm_new m" "tm_new m' = tm_new m" "\<And>u. u \<noteq> t \<Longrightarrow> tm_obj m' u = tm_obj m u" "tm_events m' = tm_events m @ es"
    "\<And>u. u \<noteq> t \<Longrightarrow> progress_of u es = []" "task_trace (tm_obj m' t) (progress_of t (tm_events m) @ progress_of t es)"
  shows "trace_ok m'"
  unfolding trace_ok_def
proof (intro conjI allI impI)
  fix u assume "tm_new m' \<le> u"
  then show "progress_of u (tm_events m') = []" using assms(1-3,5,6) by (cases "u = t") (simp_all add: trace_ok_def)
next
  fix u assume "u < tm_new m'"
  then show "task_trace (tm_obj m' u) (progress_of u (tm_events m'))" using assms by (cases "u = t") (simp_all add: trace_ok_def)
qed

lemma traceD: "trace_ok m \<Longrightarrow> t < tm_new m \<Longrightarrow> task_trace (tm_obj m t) (progress_of t (tm_events m))"
  by (simp add: trace_ok_def)

text \<open>Changes that report nothing and leave what reports are about.\<close>

definition same_report :: "PlaceholderTaskRecord \<Rightarrow> PlaceholderTaskRecord \<Rightarrow> bool" where
  "same_report r r' \<longleftrightarrow> t_state r' = t_state r \<and> t_cachedSize r' = t_cachedSize r \<and> t_totalSize r' = t_totalSize r \<and>
     t_terminalProgressSent r' = t_terminalProgressSent r"

lemma same_report_refl [simp]: "same_report r r"
  by (simp add: same_report_def)

lemma trace_frame:
  assumes "trace_ok m" "tm_new m' = tm_new m" "\<And>u. same_report (tm_obj m u) (tm_obj m' u)" "tm_events m' = tm_events m @ es" "\<And>u. progress_of u es = []"
  shows "trace_ok m'"
proof -
  have "task_trace (tm_obj m' u) ps = task_trace (tm_obj m u) ps" for u ps using assms(3) [of u] by (simp add: same_report_def task_trace_def)
  then show ?thesis using assms by (simp add: trace_ok_def)
qed

lemma notify_events:
  "tm_events (NotifyProgressLocked w t m) = (if t_terminalProgressSent (tm_obj m t) then tm_events m
     else tm_events m @ [Progress t (if ow_accessorId w \<noteq> 0 then w else t_owner (tm_obj m t)) (task_state m t) (t_cachedSize (tm_obj m t)) (t_totalSize (tm_obj m t))])"
  by (simp add: NotifyProgressLocked_def Let_def)

lemma trace_notify:
  assumes ok: "trace_ok m" "t < tm_new m" and t: "\<not> terminal_state (task_state m t)"
    and m1: "tm_new m1 = tm_new m" "\<And>u. u \<noteq> t \<Longrightarrow> tm_obj m1 u = tm_obj m u" "tm_events m1 = tm_events m"
    and r: "task_state m1 t \<noteq> PENDING" "task_state m1 t = COMPLETED \<longrightarrow> task_state m t = IN_PROGRESS"
      "t_cachedSize (tm_obj m t) \<le> t_cachedSize (tm_obj m1 t)" "t_cachedSize (tm_obj m1 t) \<le> t_totalSize (tm_obj m1 t)"
      "t_terminalProgressSent (tm_obj m1 t) = t_terminalProgressSent (tm_obj m t)"
  shows "trace_ok (NotifyProgressLocked w t m1)"
proof -
  let ?m = "NotifyProgressLocked w t m1"
  note tr = traceD [OF ok]
  have sent: "\<not> t_terminalProgressSent (tm_obj m1 t)" using tr t r(5) by (simp add: task_trace_def)
  have "task_trace (tm_obj ?m t) (progress_of t (tm_events m) @ [(task_state m1 t, t_cachedSize (tm_obj m1 t), t_totalSize (tm_obj m1 t))])"
    using task_trace_report [OF tr t, of "tm_obj ?m t"] r sent by (simp add: notify_obj terminal_state_def)
  moreover have "tm_events ?m = tm_events m @ [Progress t (if ow_accessorId w \<noteq> 0 then w else t_owner (tm_obj m1 t)) (task_state m1 t)
      (t_cachedSize (tm_obj m1 t)) (t_totalSize (tm_obj m1 t))]" (is "_ = _ @ [?e]")
    using sent m1(3) by (simp add: notify_events)
  ultimately show ?thesis using m1(1,2) by (intro trace_step [OF ok, of ?m "[?e]"]) (simp_all add: notify_frame notify_obj)
qed

lemma trace_cancel:
  assumes ok: "trace_ok m" "t < tm_new m" and out: "outstanding (tm_obj m t)"
  shows "trace_ok (CancelTaskRecordLocked now reason w t m)"
proof -
  let ?m2 = "NotifyProgressLocked w t (upd_task t (\<lambda>r. r\<lparr>t_state := CANCELLED\<rparr>) m)"
  have m2: "trace_ok ?m2"
    by (rule trace_notify [OF ok]) (use out traceD [OF ok] in \<open>auto simp: outstanding_def terminal_state_def task_trace_def\<close>)
  have e: "tm_events (CancelTaskRecordLocked now reason w t m) = tm_events ?m2 @
      (if \<not> t_cancelCallbackAttempted (tm_obj m t) \<and> ShouldNotifyCancellation reason then [CancelFetchData t] else [])" (is "_ = _ @ ?es")
    using out by (simp add: CancelTaskRecordLocked_def Let_def task_frame)
  have r: "same_report (tm_obj ?m2 u) (tm_obj (CancelTaskRecordLocked now reason w t m) u)" for u
    using out by (simp add: CancelTaskRecordLocked_def Let_def task_frame same_report_def)
  have "tm_new (CancelTaskRecordLocked now reason w t m) = tm_new ?m2" using out by (simp add: cancel_effect(1) task_frame)
  then show ?thesis by (rule trace_frame [OF m2 _ r e]) simp
qed


lemma trace_new:
  assumes ok: "trace_ok m" and r: "t_state r = PENDING" "t_cachedSize r = 0" "\<not> t_terminalProgressSent r"
    and m1: "tm_obj m1 = (tm_obj m)(tm_new m := r)" "tm_new m1 = tm_new m + 1" "tm_events m1 = tm_events m"
  shows "trace_ok (NotifyProgressLocked w (tm_new m) m1)"
proof -
  let ?m = "NotifyProgressLocked w (tm_new m) m1"
  have e: "tm_events ?m = tm_events m @ [Progress (tm_new m) (if ow_accessorId w \<noteq> 0 then w else t_owner r) PENDING 0 (t_totalSize r)]"
    using r by (simp add: notify_events m1)
  have "progress_of (tm_new m) (tm_events m) = []" using ok by (simp add: trace_ok_def)
  then have t: "task_trace (tm_obj ?m (tm_new m)) (progress_of (tm_new m) (tm_events ?m))"
    unfolding e by (simp add: task_trace_def legal_first terminal_state_def notify_obj m1 r)
  show ?thesis unfolding trace_ok_def
  proof (intro conjI allI impI)
    fix u assume "tm_new ?m \<le> u"
    then show "progress_of u (tm_events ?m) = []" using ok unfolding e by (simp add: trace_ok_def notify_frame m1)
  next
    fix u assume u: "u < tm_new ?m"
    show "task_trace (tm_obj ?m u) (progress_of u (tm_events ?m))"
    proof (cases "u = tm_new m")
      case False
      then have "tm_obj ?m u = tm_obj m u" "u < tm_new m" using u by (simp_all add: notify_obj notify_frame m1)
      then show ?thesis using ok False unfolding e by (simp add: trace_ok_def)
    qed (use t in simp)
  qed
qed

lemma trace_quiet:
  assumes ok: "trace_ok m" "t < tm_new m" and "task_state m t = IN_PROGRESS" "t_cachedSize (tm_obj m t) \<le> n" and q: "quiet_upd t m m' n"
  shows "trace_ok m'"
proof -
  obtain r where r: "m' = upd_task t (\<lambda>_. r) m" "quiet (tm_obj m t) r" "t_totalSize r = n" using q by (auto simp: quiet_upd_def)
  then have "task_trace r (progress_of t (tm_events m))" using traceD [OF ok] assms(3,4) by (auto simp: task_trace_def quiet_def)
  then show ?thesis by (intro trace_step [OF ok, of m' "[]"]) (simp_all add: r)
qed

interpretation progress: task_invariant trace_ok
proof unfold_locales
  show "trace_ok (mgr_init objs)" for objs by (simp add: trace_ok_def mgr_init_def)
  show "trace_ok (NotifyProgressLocked no_owner t (RefreshDeadlineLocked now t
         (upd_task t (\<lambda>r. r\<lparr>t_outputFd := Some f, t_totalSize := n, t_fetchDispatched := True, t_state := IN_PROGRESS\<rparr>) m)))"
    if "trace_ok m" "t < tm_new m" "task_state m t = PENDING" for m t now f n
    by (rule trace_notify [OF that(1,2)]) (use that(3) traceD [OF that(1,2)] in \<open>simp_all add: terminal_state_def task_trace_def task_frame\<close>)
  show "trace_ok (NotifyProgressLocked no_owner t (RefreshDeadlineLocked now t (upd_task t (\<lambda>r. r\<lparr>t_cachedSize := c\<rparr>) m)))"
    if "trace_ok m" "t < tm_new m" "task_state m t = IN_PROGRESS" "t_cachedSize (tm_obj m t) \<le> c" "c \<le> t_totalSize (tm_obj m t)" for m t now c
    by (rule trace_notify [OF that(1,2)]) (use that(3-5) in \<open>simp_all add: terminal_state_def task_frame\<close>)
  show "trace_ok (EraseTaskLocked t (NotifyProgressLocked no_owner t (upd_task t (\<lambda>r. r\<lparr>t_cachedSize := c, t_state := COMPLETED\<rparr>) m)))"
    if "trace_ok m" "t < tm_new m" "task_state m t = IN_PROGRESS" "t_cachedSize (tm_obj m t) \<le> c" "c \<le> t_totalSize (tm_obj m t)" for m t c
  proof -
    have "trace_ok (NotifyProgressLocked no_owner t (upd_task t (\<lambda>r. r\<lparr>t_cachedSize := c, t_state := COMPLETED\<rparr>) m))"
      by (rule trace_notify [OF that(1,2)]) (use that(3-5) in \<open>simp_all add: terminal_state_def\<close>)
    then show ?thesis by (rule trace_frame [where es = "[]"]) (simp_all add: task_frame same_report_def)
  qed
  show "trace_ok (NotifyProgressLocked no_owner (tm_new m) (m\<lparr>tm_obj := (tm_obj m)(tm_new m := r), tm_new := tm_new m + 1, tm_nextCreateSeq := q,
           tm_taskMap := omap_put key (tm_new m) (tm_taskMap m)\<rparr>))"
    if "trace_ok m" "t_state r = PENDING" "t_cachedSize r = 0" "\<not> t_terminalProgressSent r" for m r q key
    by (rule trace_new [OF that]) simp_all
qed ((rule trace_cancel; assumption) | (rule trace_quiet; assumption) | simp add: trace_ok_def task_frame ClearCancellationRecords_def)+

text \<open>
  C29: The progress reports of a task tell its true story: in every reachable state the reports sent
  for a task start with the pending report, move on to reports in progress, end with at most one
  final report, which is a completion only after a report in progress, and their processed sizes never
  shrink and never exceed the total; the last report gives the state and the size the task has.\<close>

theorem progress_legal:
  assumes "hyd_reach s" and "t < tm_new (hs_mgr s)"
  shows "progress_of t (tm_events (hs_mgr s)) \<noteq> [] \<and> legal_progress (progress_of t (tm_events (hs_mgr s))) \<and>
    fst (last (progress_of t (tm_events (hs_mgr s)))) = task_state (hs_mgr s) t \<and>
    fst (snd (last (progress_of t (tm_events (hs_mgr s))))) = t_cachedSize (tm_obj (hs_mgr s) t)"
  using traceD [OF progress.inv_reach [OF assms(1)] assms(2)] by (simp add: task_trace_def)

theorem progress_legal_witness:
  "fst (last (progress_of 1 (tm_events (hs_mgr run_active)))) = IN_PROGRESS \<and> legal_progress (progress_of 1 (tm_events (hs_mgr run_active)))"
proof -
  have "1 < tm_new (hs_mgr run_active)" "task_state (hs_mgr run_active) 1 = IN_PROGRESS" by code_simp+
  then show ?thesis using progress_legal [OF run_active_reach, of 1] by simp
qed

end
