(* ===== verification/Hydration_Deadlines.thy ===== *)
theory Hydration_Deadlines
  imports Hydration_Invariants
begin

text \<open>
  The idle timeout: a task has a deadline exactly while it is in progress, and a round of the deadline
  loop ends the tasks whose deadline has passed and no other.
\<close>

definition deadline_ok :: "task_mgr \<Rightarrow> bool" where
  "deadline_ok m \<longleftrightarrow> omap_ok (tm_deadlineMap m) \<and>
     (\<forall>k. map_of (tm_deadlineMap m) k \<noteq> None \<longleftrightarrow> (\<exists>t. map_of (tm_taskMap m) k = Some t \<and> task_state m t = IN_PROGRESS))"

lemma deadline_frame [task_frame]:
  "tm_deadlineMap (PurgeExpiredCancellationRecordsLocked now m) = tm_deadlineMap m" "tm_deadlineMap (AddCancellationRecordLocked now t m) = tm_deadlineMap m"
  "tm_deadlineMap (NotifyProgressLocked w t m) = tm_deadlineMap m" "tm_deadlineMap (ScheduleDispatch m) = tm_deadlineMap m"
  "tm_deadlineMap (EraseTaskLocked t m) = omap_del (t_reqKey (tm_obj m t)) (tm_deadlineMap m)"
  by (simp_all add: PurgeExpiredCancellationRecordsLocked_def AddCancellationRecordLocked_def NotifyProgressLocked_def ScheduleDispatch_def
      EraseTaskLocked_def Let_def split: prod.split)

lemma cancel_deadlines:
  "outstanding (tm_obj m t) \<Longrightarrow> tm_deadlineMap (CancelTaskRecordLocked now reason w t m) = omap_del (t_reqKey (tm_obj m t)) (tm_deadlineMap m)"
  by (simp add: CancelTaskRecordLocked_def Let_def task_frame notify_obj)

lemma live_map_of: "tasks_ok m \<Longrightarrow> t < tm_new m \<Longrightarrow> outstanding (tm_obj m t) \<Longrightarrow> map_of (tm_taskMap m) (t_reqKey (tm_obj m t)) = Some t"
  by (simp add: map_of_iff tasks_ok_def)

lemma map_of_key: "tasks_ok m \<Longrightarrow> map_of (tm_taskMap m) k = Some t \<Longrightarrow> t < tm_new m \<and> t_reqKey (tm_obj m t) = k \<and> outstanding (tm_obj m t)"
  using tasks_ok_mem map_of_SomeD by metis

lemma other_task: "tasks_ok m \<Longrightarrow> map_of (tm_taskMap m) k = Some u \<Longrightarrow> k \<noteq> t_reqKey (tm_obj m t) \<Longrightarrow> u \<noteq> t"
  using map_of_key by blast

lemma deadline_end:
  assumes ok: "deadline_ok m" "tasks_ok m" and t: "t < tm_new m" "outstanding (tm_obj m t)"
    and m': "\<And>u. u \<noteq> t \<Longrightarrow> tm_obj m' u = tm_obj m u" "tm_taskMap m' = omap_del (t_reqKey (tm_obj m t)) (tm_taskMap m)"
      "tm_deadlineMap m' = omap_del (t_reqKey (tm_obj m t)) (tm_deadlineMap m)"
  shows "deadline_ok m'"
proof -
  have "task_state m' u = task_state m u" if "map_of (tm_taskMap m) k = Some u" "k \<noteq> t_reqKey (tm_obj m t)" for k u
    using other_task [OF ok(2) that] m'(1) by simp
  then have "(\<exists>u. map_of (tm_taskMap m') k = Some u \<and> task_state m' u = IN_PROGRESS) \<longleftrightarrow>
      k \<noteq> t_reqKey (tm_obj m t) \<and> (\<exists>u. map_of (tm_taskMap m) k = Some u \<and> task_state m u = IN_PROGRESS)" for k
    by (auto simp: m'(2) map_of_del)
  then show ?thesis using ok(1) by (simp add: deadline_ok_def m'(3) map_of_del omap_ok_del)
qed

lemma deadline_run:
  assumes ok: "deadline_ok m" "tasks_ok m" and t: "t < tm_new m" "outstanding (tm_obj m t)"
    and m1: "\<And>u. u \<noteq> t \<Longrightarrow> tm_obj m1 u = tm_obj m u" "t_reqKey (tm_obj m1 t) = t_reqKey (tm_obj m t)" "task_state m1 t = IN_PROGRESS"
      "tm_taskMap m1 = tm_taskMap m" "tm_deadlineMap m1 = tm_deadlineMap m"
  shows "deadline_ok (NotifyProgressLocked w t (RefreshDeadlineLocked now t m1))"
proof -
  let ?m = "NotifyProgressLocked w t (RefreshDeadlineLocked now t m1)"
  let ?k = "t_reqKey (tm_obj m t)"
  have k: "map_of (tm_taskMap m) ?k = Some t" by (rule live_map_of [OF ok(2) t])
  have d: "tm_deadlineMap ?m = omap_put ?k (now + HYDRATION_IDLE_TIMEOUT) (tm_deadlineMap m)"
    by (simp add: task_frame RefreshDeadlineLocked_def Let_def m1 k)
  have st: "task_state ?m u = (if u = t then IN_PROGRESS else task_state m u)" for u using m1(1,3) by (simp add: notify_obj task_frame)
  have "(\<exists>u. map_of (tm_taskMap ?m) k = Some u \<and> task_state ?m u = IN_PROGRESS) \<longleftrightarrow>
      k = ?k \<or> (\<exists>u. map_of (tm_taskMap m) k = Some u \<and> task_state m u = IN_PROGRESS)" for k
  proof (cases "k = ?k")
    case False
    then have "u \<noteq> t" if "map_of (tm_taskMap m) k = Some u" for u using other_task [OF ok(2) that] by blast
    then show ?thesis using False by (auto simp: st task_frame m1(4))
  qed (simp add: st task_frame m1(4) k)
  then show ?thesis using ok(1) by (simp add: deadline_ok_def d map_of_put omap_ok_put)
qed


lemma task_inv_ok: "task_inv m \<Longrightarrow> tasks_ok m"
  by (simp add: task_inv_def)

lemma deadline_same:
  "deadline_ok m \<Longrightarrow> tm_taskMap m' = tm_taskMap m \<Longrightarrow> tm_deadlineMap m' = tm_deadlineMap m \<Longrightarrow> (\<And>u. task_state m' u = task_state m u) \<Longrightarrow> deadline_ok m'"
  by (simp add: deadline_ok_def)

lemma deadline_new:
  assumes ok: "deadline_ok m" "tasks_ok m" and k: "map_of (tm_taskMap m) key = None" and r: "t_state r = PENDING"
    and m': "tm_obj m' = (tm_obj m)(tm_new m := r)" "tm_taskMap m' = omap_put key (tm_new m) (tm_taskMap m)" "tm_deadlineMap m' = tm_deadlineMap m"
  shows "deadline_ok m'"
proof -
  have "u \<noteq> tm_new m" if "map_of (tm_taskMap m) k = Some u" for k u using map_of_key [OF ok(2) that] by auto
  then have "(\<exists>u. map_of (tm_taskMap m') k = Some u \<and> task_state m' u = IN_PROGRESS) \<longleftrightarrow>
      (\<exists>u. map_of (tm_taskMap m) k = Some u \<and> task_state m u = IN_PROGRESS)" for k
    using r k by (auto simp: m')
  then show ?thesis using ok(1) by (simp add: deadline_ok_def m'(3))
qed

interpretation deadline: task_invariant deadline_ok
proof unfold_locales
  show "deadline_ok (mgr_init objs)" for objs by (simp add: deadline_ok_def mgr_init_def omap_ok_Nil)
  show "deadline_ok (m\<lparr>tm_deadlineMap := []\<rparr>)" if "tm_taskMap m = []" for m using that by (simp add: deadline_ok_def omap_ok_Nil)
  show "deadline_ok (CancelTaskRecordLocked now reason w t m)" if "task_inv m" "deadline_ok m" "t < tm_new m" "outstanding (tm_obj m t)" for m t now reason w
    by (rule deadline_end [OF that(2) task_inv_ok [OF that(1)] that(3,4)])
      (use that live_map_of [OF task_inv_ok] in \<open>simp_all add: cancel_effect cancel_deadlines\<close>)
  show "deadline_ok (EraseTaskLocked t (NotifyProgressLocked no_owner t (upd_task t (\<lambda>r. r\<lparr>t_cachedSize := c, t_state := COMPLETED\<rparr>) m)))"
    if "task_inv m" "deadline_ok m" "t < tm_new m" "task_state m t = IN_PROGRESS" for m t c
    by (rule deadline_end [OF that(2) task_inv_ok [OF that(1)] that(3)])
      (use that live_map_of [OF task_inv_ok] in \<open>simp_all add: outstanding_def task_frame notify_obj\<close>)
  show "deadline_ok (NotifyProgressLocked no_owner t (RefreshDeadlineLocked now t
         (upd_task t (\<lambda>r. r\<lparr>t_outputFd := Some f, t_totalSize := n, t_fetchDispatched := True, t_state := IN_PROGRESS\<rparr>) m)))"
    if "task_inv m" "deadline_ok m" "t < tm_new m" "task_state m t = PENDING" for m t now f n
    by (rule deadline_run [OF that(2) task_inv_ok [OF that(1)] that(3)]) (use that(4) in \<open>simp_all add: outstanding_def\<close>)
  show "deadline_ok (NotifyProgressLocked no_owner t (RefreshDeadlineLocked now t (upd_task t (\<lambda>r. r\<lparr>t_cachedSize := c\<rparr>) m)))"
    if "task_inv m" "deadline_ok m" "t < tm_new m" "task_state m t = IN_PROGRESS" for m t now c
    by (rule deadline_run [OF that(2) task_inv_ok [OF that(1)] that(3)]) (use that(4) in \<open>simp_all add: outstanding_def\<close>)
  show "deadline_ok (NotifyProgressLocked no_owner (tm_new m) (m\<lparr>tm_obj := (tm_obj m)(tm_new m := r), tm_new := tm_new m + 1, tm_nextCreateSeq := q,
           tm_taskMap := omap_put key (tm_new m) (tm_taskMap m)\<rparr>))"
    if "task_inv m" "deadline_ok m" "map_of (tm_taskMap m) key = None" "t_state r = PENDING" for m key r q
  proof -
    have "deadline_ok (m\<lparr>tm_obj := (tm_obj m)(tm_new m := r), tm_new := tm_new m + 1, tm_nextCreateSeq := q,
           tm_taskMap := omap_put key (tm_new m) (tm_taskMap m)\<rparr>)"
      by (rule deadline_new [OF that(2) task_inv_ok [OF that(1)] that(3,4)]) simp_all
    then show ?thesis by (rule deadline_same) (simp_all add: task_frame notify_obj)
  qed
  show "deadline_ok m'" if "deadline_ok m" "quiet_upd t m m' n" for m t m' n
    by (rule deadline_same [OF that(1)]) (use that(2) in \<open>auto simp: quiet_upd_def quiet_def\<close>)
qed (erule deadline_same; simp add: task_frame ClearCancellationRecords_def)+


section \<open>A round of the deadline loop\<close>

definition expire_one :: "int \<Rightarrow> RequestKey \<Rightarrow> task_mgr \<Rightarrow> task_mgr" where
  "expire_one later k m =
     (case map_of (tm_taskMap m) k of
        None \<Rightarrow> m
      | Some t \<Rightarrow> (case map_of (tm_deadlineMap m) k of
          None \<Rightarrow> m | Some deadline \<Rightarrow> if deadline \<le> later then CancelTaskRecordLocked later TIMEOUT no_owner t m else m))"

lemma expire_each_Cons: "expire_each later (k # ks) m = expire_each later ks (expire_one later k m)"
  by (simp add: expire_one_def)

lemma expire_one_ok: "tasks_ok m \<Longrightarrow> tasks_ok (expire_one later k m)"
  using shrinks_expire_each [of m later "[k]"] shrinks_ok by (fastforce simp: expire_one_def)

lemma expire_one_other:
  assumes ok: "tasks_ok m" and t: "map_of (tm_taskMap m) k = Some t" and k: "k' \<noteq> k"
  shows "tm_obj (expire_one later k' m) t = tm_obj m t" "map_of (tm_taskMap (expire_one later k' m)) k = Some t"
    "map_of (tm_deadlineMap (expire_one later k' m)) k = map_of (tm_deadlineMap m) k"
proof -
  have "tm_obj (CancelTaskRecordLocked later TIMEOUT no_owner u m) t = tm_obj m t \<and>
      map_of (tm_taskMap (CancelTaskRecordLocked later TIMEOUT no_owner u m)) k = Some t \<and>
      map_of (tm_deadlineMap (CancelTaskRecordLocked later TIMEOUT no_owner u m)) k = map_of (tm_deadlineMap m) k"
    if "map_of (tm_taskMap m) k' = Some u" for u
  proof -
    have u: "outstanding (tm_obj m u)" "t_reqKey (tm_obj m u) = k'" "t \<noteq> u" using map_of_key [OF ok that] map_of_key [OF ok t] k by auto
    show ?thesis using u k t that by (simp add: cancel_effect cancel_deadlines)
  qed
  then have "tm_obj (expire_one later k' m) t = tm_obj m t \<and> map_of (tm_taskMap (expire_one later k' m)) k = Some t \<and>
      map_of (tm_deadlineMap (expire_one later k' m)) k = map_of (tm_deadlineMap m) k"
    using t by (simp add: expire_one_def split: option.split)
  then show "tm_obj (expire_one later k' m) t = tm_obj m t" "map_of (tm_taskMap (expire_one later k' m)) k = Some t"
    "map_of (tm_deadlineMap (expire_one later k' m)) k = map_of (tm_deadlineMap m) k" by blast+
qed

lemma expire_each_spared:
  "tasks_ok m \<Longrightarrow> map_of (tm_taskMap m) k = Some t \<Longrightarrow> k \<notin> set ks \<Longrightarrow>
   tm_obj (expire_each later ks m) t = tm_obj m t \<and> map_of (tm_taskMap (expire_each later ks m)) k = Some t"
proof (induction ks arbitrary: m)
  case (Cons k' ks)
  then have k: "k' \<noteq> k" "k \<notin> set ks" by auto
  note o = expire_one_other [OF Cons.prems(1,2) k(1), where later = later]
  show ?case unfolding expire_each_Cons using Cons.IH [OF expire_one_ok [OF Cons.prems(1)] o(2) k(2)] o(1) by simp
qed simp

lemma expire_each_ended:
  "\<not> outstanding (tm_obj m t) \<Longrightarrow> tasks_ok m \<Longrightarrow> task_state (expire_each later ks m) t = task_state m t"
proof (induction ks arbitrary: m)
  case (Cons k ks)
  have "tm_obj (expire_one later k m) t = tm_obj m t"
  proof (cases "map_of (tm_taskMap m) k")
    case (Some u)
    then have "outstanding (tm_obj m u)" "t \<noteq> u" using map_of_key [OF Cons.prems(2) Some] Cons.prems(1) by auto
    then show ?thesis using Some by (simp add: expire_one_def cancel_effect split: option.split)
  qed (simp add: expire_one_def)
  then show ?case unfolding expire_each_Cons using Cons expire_one_ok by simp
qed simp

lemma expire_each_expired:
  assumes "tasks_ok m" "map_of (tm_taskMap m) k = Some t" "k \<in> set ks" "map_of (tm_deadlineMap m) k = Some d" "d \<le> later"
  shows "task_state (expire_each later ks m) t = CANCELLED"
  using assms
proof (induction ks arbitrary: m)
  case (Cons k' ks)
  note ok = expire_one_ok [OF Cons.prems(1), of later k']
  show ?case
  proof (cases "k' = k")
    case True
    have "outstanding (tm_obj m t)" using map_of_key [OF Cons.prems(1,2)] by simp
    then have "task_state (expire_one later k' m) t = CANCELLED" using Cons.prems True by (simp add: expire_one_def cancel_effect)
    then show ?thesis unfolding expire_each_Cons using expire_each_ended [OF _ ok] by (simp add: outstanding_def)
  next
    case False
    note o = expire_one_other [OF Cons.prems(1,2) False, where later = later]
    show ?thesis unfolding expire_each_Cons by (rule Cons.IH [OF ok o(2)]) (use Cons.prems False o(3) in simp_all)
  qed
qed simp

text \<open>
  C30: An idle provider does not hold a task: in every reachable state a task in progress has a
  deadline; a round of the deadline loop of the running service, looking at a time when it has passed,
  cancels the task, and leaves it unchanged when it has not.\<close>

theorem idle_task_ends:
  assumes "hyd_reach s" and "tm_running (hs_mgr s)" and "map_of (tm_taskMap (hs_mgr s)) k = Some t" and "task_state (hs_mgr s) t = IN_PROGRESS"
    and "now \<le> later"
  shows "\<exists>d. map_of (tm_deadlineMap (hs_mgr s)) k = Some d \<and>
    (if d \<le> now then task_state (deadline_round now later (hs_mgr s)) t = CANCELLED
     else tm_obj (deadline_round now later (hs_mgr s)) t = tm_obj (hs_mgr s) t)"
proof -
  let ?m = "hs_mgr s"
  let ?ks = "map fst (filter (\<lambda>(_, deadline). deadline \<le> now) (tm_deadlineMap ?m))"
  have ok: "tasks_ok ?m" and dl: "deadline_ok ?m" using reach_task_inv [OF assms(1)] deadline.inv_reach [OF assms(1)] by (simp_all add: task_inv_def)
  obtain d where d: "map_of (tm_deadlineMap ?m) k = Some d" using dl assms(3,4) by (force simp: deadline_ok_def)
  have "k \<in> set ?ks \<longleftrightarrow> d \<le> now" using d map_of_iff [of "tm_deadlineMap ?m" k] dl by (force simp: deadline_ok_def)
  then show ?thesis
    using d assms(2,5) expire_each_expired [OF ok assms(3), of ?ks d later] expire_each_spared [OF ok assms(3), of ?ks later]
    by (intro exI [of _ d]) (auto simp: deadline_round_def Let_def task_frame)
qed

lemma run_idle: "tm_running (hs_mgr run_active)" "map_of (tm_taskMap (hs_mgr run_active)) (request_key 2) = Some 1"
  "task_state (hs_mgr run_active) 1 = IN_PROGRESS" "map_of (tm_deadlineMap (hs_mgr run_active)) (request_key 2) = Some HYDRATION_IDLE_TIMEOUT"
  by code_simp+

theorem idle_task_ends_witness:
  "task_state (deadline_round HYDRATION_IDLE_TIMEOUT HYDRATION_IDLE_TIMEOUT (hs_mgr run_active)) 1 = CANCELLED"
  using idle_task_ends [OF run_active_reach run_idle(1-3), of HYDRATION_IDLE_TIMEOUT HYDRATION_IDLE_TIMEOUT] run_idle(4) by simp

end
