(* ===== verification/Hydration_Cancel.thy ===== *)
theory Hydration_Cancel
  imports Hydration_Deadlines
begin

text \<open>
  The memory of cancelled tasks: the records and their order describe the same cancellations, they
  stay within their limits, and, a cancellation being one step, their request keys are never those
  of tasks.
\<close>

definition order_ok :: "(RequestKey \<times> CancelledTaskRecord) list \<Rightarrow> (RequestKey \<times> u64) list \<Rightarrow> bool" where
  "order_ok recs order \<longleftrightarrow> omap_ok recs \<and> distinct (map fst order) \<and> set order = (\<lambda>(k, r). (k, c_createSeq r)) ` set recs"

definition records_ok :: "task_mgr \<Rightarrow> bool" where
  "records_ok m \<longleftrightarrow> order_ok (tm_cancellationRecordMap m) (tm_cancellationOrder m) \<and>
     length (tm_cancellationRecordMap m) \<le> MAX_CANCELLATION_RECORDS_GLOBAL \<and>
     (\<forall>b. count_app b (tm_cancellationRecordMap m) \<le> MAX_CANCELLATION_RECORDS_PER_APP) \<and>
     fst ` set (tm_taskMap m) \<inter> fst ` set (tm_cancellationRecordMap m) = {}"

lemma order_ok_omap: "order_ok recs order \<Longrightarrow> omap_ok recs"
  by (simp add: order_ok_def)

lemma order_ok_entry: "order_ok recs order \<Longrightarrow> e \<in> set order \<Longrightarrow> \<exists>r. map_of recs (fst e) = Some r \<and> c_createSeq r = snd e"
  using map_of_iff by (fastforce simp: order_ok_def)

lemma is_record_iff: "order_ok recs order \<Longrightarrow> e \<in> set order \<Longrightarrow> is_record recs P e \<longleftrightarrow> (\<exists>r. map_of recs (fst e) = Some r \<and> P r)"
  using order_ok_entry by (fastforce simp: is_record_def)

lemma order_ok_del:
  assumes ok: "order_ok recs order" and e: "e \<in> set order"
  shows "order_ok (omap_del (fst e) recs) (remove1 e order)"
proof -
  have d: "distinct order" "distinct (map fst order)" using ok by (auto simp: order_ok_def distinct_map)
  have "set (remove1 e order) = {x \<in> set order. fst x \<noteq> fst e}"
    using d e by (auto simp: distinct_map inj_on_def)
  also have "\<dots> = (\<lambda>(k, r). (k, c_createSeq r)) ` set (omap_del (fst e) recs)"
    using ok by (force simp: order_ok_def set_del)
  finally have "set (remove1 e order) = (\<lambda>(k, r). (k, c_createSeq r)) ` set (omap_del (fst e) recs)" .
  moreover have "distinct (map fst (remove1 e order))" using d by (metis distinct_map distinct_remove1 inj_on_subset set_remove1_subset)
  ultimately show ?thesis using ok by (simp add: order_ok_def omap_ok_del)
qed

lemma length_del: "omap_ok recs \<Longrightarrow> map_of recs k = Some r \<Longrightarrow> Suc (length (omap_del k recs)) = length recs"
proof (induction recs)
  case (Cons x xs)
  then show ?case
  proof (cases "fst x = k")
    case True
    then have "omap_del k xs = xs" using Cons.prems(1) by (auto simp: omap_del_def omap_ok_def intro!: filter_True)
    then show ?thesis using True by (simp add: omap_del_def)
  next
    case False
    then show ?thesis using Cons by (auto simp: omap_del_def omap_ok_def)
  qed
qed simp

lemma count_del: "omap_ok recs \<Longrightarrow> map_of recs k = Some r \<Longrightarrow> count_app b (omap_del k recs) + of_bool (c_bundleName r = b) = count_app b recs"
proof (induction recs)
  case (Cons x xs)
  then show ?case
  proof (cases "fst x = k")
    case True
    then have "omap_del k xs = xs" using Cons.prems(1) by (auto simp: omap_del_def omap_ok_def intro!: filter_True)
    then show ?thesis using True Cons.prems(2) by (auto simp: omap_del_def count_app_def split: prod.splits)
  next
    case False
    then have "count_app b (omap_del k xs) + of_bool (c_bundleName r = b) = count_app b xs" using Cons by (auto simp: omap_ok_def split: prod.splits)
    then show ?thesis using False by (auto simp: omap_del_def count_app_def split: prod.splits)
  qed
qed simp

lemma order_ok_filter:
  assumes "order_ok recs order"
  shows "order_ok (filter P recs) (filter (\<lambda>(k, seq). case map_of (filter P recs) k of None \<Rightarrow> False | Some r \<Rightarrow> c_createSeq r = seq) order)"
proof -
  let ?recs = "filter P recs"
  have ok: "omap_ok ?recs" using omap_ok_filter assms by (auto simp: order_ok_def)
  have "{e \<in> set order. case e of (k, seq) \<Rightarrow> case map_of ?recs k of None \<Rightarrow> False | Some r \<Rightarrow> c_createSeq r = seq} =
      (\<lambda>(k, r). (k, c_createSeq r)) ` set ?recs" (is "?l = ?r")
  proof
    show "?l \<subseteq> ?r"
    proof
      fix e assume "e \<in> ?l"
      then obtain k r where "e = (k, c_createSeq r)" "map_of ?recs k = Some r" by (auto split: option.splits)
      then show "e \<in> ?r" by (auto simp: map_of_iff [OF ok] simp del: set_filter intro!: image_eqI [of _ _ "(k, r)"])
    qed
    show "?r \<subseteq> ?l"
    proof
      fix e assume "e \<in> ?r"
      then obtain k r where e: "e = (k, c_createSeq r)" "(k, r) \<in> set ?recs" by auto
      moreover have "e \<in> set order" using e assms by (auto simp: order_ok_def)
      moreover have "map_of ?recs k = Some r" using e(2) by (simp only: map_of_iff [OF ok])
      ultimately show "e \<in> ?l" by simp
    qed
  qed
  moreover have "distinct (map fst (filter Q order))" for Q using assms by (simp add: order_ok_def distinct_map_filter)
  ultimately show ?thesis using ok unfolding order_ok_def set_filter by blast
qed


section \<open>Making room\<close>

text \<open>
  Adding one record to a memory within its limits evicts at most one record per loop, and never the
  new one, which is the last in the order.
\<close>

lemma trim_app_one:
  assumes ok: "order_ok recs order" and c: "count_app b recs \<le> Suc MAX_CANCELLATION_RECORDS_PER_APP"
  shows "trim_app b recs order = (if count_app b recs \<le> MAX_CANCELLATION_RECORDS_PER_APP then (recs, order)
     else case find (is_record recs (\<lambda>r. c_bundleName r = b)) order of None \<Rightarrow> (recs, order)
        | Some oldest \<Rightarrow> (omap_del (fst oldest) recs, remove1 oldest order))"
proof (cases "count_app b recs \<le> MAX_CANCELLATION_RECORDS_PER_APP")
  case False
  show ?thesis
  proof (cases "find (is_record recs (\<lambda>r. c_bundleName r = b)) order")
    case (Some e)
    then have e: "e \<in> set order" "is_record recs (\<lambda>r. c_bundleName r = b) e" by (auto simp: find_Some_iff)
    then obtain r where r: "map_of recs (fst e) = Some r" "c_bundleName r = b" using is_record_iff [OF ok e(1)] by auto
    have "count_app b (omap_del (fst e) recs) \<le> MAX_CANCELLATION_RECORDS_PER_APP"
      using count_del [OF order_ok_omap [OF ok] r(1), of b] r(2) c by simp
    then have "trim_app b (omap_del (fst e) recs) (remove1 e order) = (omap_del (fst e) recs, remove1 e order)" by (subst trim_app.simps) simp
    then show ?thesis using False Some by (subst trim_app.simps) simp
  qed (use False in \<open>subst trim_app.simps; simp\<close>)
qed (subst trim_app.simps; simp)

lemma count_app_pos: "order_ok recs order \<Longrightarrow> count_app b recs > 0 \<Longrightarrow> \<exists>e \<in> set order. is_record recs (\<lambda>r. c_bundleName r = b) e"
proof -
  assume ok: "order_ok recs order" and "count_app b recs > 0"
  then obtain k r where kr: "(k, r) \<in> set recs" "c_bundleName r = b" by (force simp: count_app_def filter_empty_conv)
  then have "(k, c_createSeq r) \<in> set order" "map_of recs k = Some r" using ok map_of_iff [of recs k r] by (force simp: order_ok_def)+
  then show ?thesis using kr(2) by (intro bexI [of _ "(k, c_createSeq r)"]) (auto simp: is_record_def)
qed

lemma trim_global_one:
  assumes ok: "order_ok recs order" and l: "length recs \<le> Suc MAX_CANCELLATION_RECORDS_GLOBAL"
  shows "trim_global recs order = (if length recs \<le> MAX_CANCELLATION_RECORDS_GLOBAL \<or> order = [] then (recs, order)
     else (omap_del (fst (hd order)) recs, tl order))"
proof (cases order)
  case (Cons e es)
  have rec: "is_record recs (\<lambda>_. True) e" using is_record_iff [OF ok, of e] order_ok_entry [OF ok, of e] Cons by auto
  have "length (omap_del (fst e) recs) \<le> MAX_CANCELLATION_RECORDS_GLOBAL" if "\<not> length recs \<le> MAX_CANCELLATION_RECORDS_GLOBAL"
    using length_del [OF order_ok_omap [OF ok], of "fst e"] order_ok_entry [OF ok, of e] Cons l by auto
  then have "trim_global (omap_del (fst e) recs) es = (omap_del (fst e) recs, es)" if "\<not> length recs \<le> MAX_CANCELLATION_RECORDS_GLOBAL"
    using that by (cases es) auto
  then show ?thesis using Cons rec by auto
qed simp

lemma order_length: "order_ok recs order \<Longrightarrow> length order = length recs"
proof -
  assume ok: "order_ok recs order"
  have "set (map fst order) = set (map fst recs)" using ok by (force simp: order_ok_def)
  moreover have "distinct (map fst order)" "distinct (map fst recs)" using ok omap_ok_distinct by (auto simp: order_ok_def)
  ultimately show ?thesis by (metis distinct_card length_map)
qed


definition within :: "(RequestKey \<times> CancelledTaskRecord) list \<Rightarrow> (RequestKey \<times> u64) list \<Rightarrow> RequestKey set \<Rightarrow> RequestKey \<Rightarrow> CancelledTaskRecord \<Rightarrow> bool" where
  "within recs order K k r \<longleftrightarrow> order_ok recs order \<and> order \<noteq> [] \<and> fst (last order) = k \<and> map_of recs k = Some r \<and> fst ` set recs \<subseteq> K"

lemma within_del:
  assumes w: "within recs order K k r" and e: "e \<in> set order" "fst e \<noteq> k"
  shows "within (omap_del (fst e) recs) (remove1 e order) K k r"
proof -
  have l: "last order \<noteq> e" "order \<noteq> []" using w e by (auto simp: within_def)
  then obtain xs x where o: "order = xs @ [x]" by (metis rev_exhaust)
  have "x \<noteq> e" "e \<in> set xs" using l e(1) o by auto
  then have "remove1 e order = remove1 e xs @ [x]" unfolding o by (simp add: remove1_append)
  moreover have "order_ok (omap_del (fst e) recs) (remove1 e order)" using order_ok_del w e(1) by (simp add: within_def)
  ultimately show ?thesis using w e(2) o by (auto simp: within_def set_del)
qed

lemma within_put:
  assumes ok: "order_ok recs0 order0" and k: "k \<notin> fst ` set recs0"
  shows "within (omap_put k r recs0) (order0 @ [(k, c_createSeq r)]) (insert k (fst ` set recs0)) k r"
proof -
  have "k \<notin> fst ` set order0" using ok k by (force simp: order_ok_def)
  then show ?thesis using ok set_put_new [OF k, of r] omap_ok_put by (auto simp: within_def order_ok_def fst_set_put)
qed

lemma count_app_put: "k \<notin> fst ` set recs \<Longrightarrow> count_app b (omap_put k r recs) = count_app b recs + of_bool (c_bundleName r = b)"
  using count_put_new [of k recs "\<lambda>_ r. c_bundleName r = b" r] by (simp add: count_app_def omap_count_def)

lemma length_put: "k \<notin> fst ` set recs \<Longrightarrow> length (omap_put k r recs) = Suc (length recs)"
  by (induction k r recs rule: omap_put.induct) auto

lemma count_del_less: "count_app b (omap_del k recs) \<le> count_app b recs"
  by (induction recs) (auto simp: omap_del_def count_app_def)

lemma length_del_less: "length (omap_del k recs) \<le> length recs"
  by (simp add: omap_del_def)

lemma find_append_first: "e \<in> set xs \<Longrightarrow> P e \<Longrightarrow> \<exists>e'. find P (xs @ ys) = Some e' \<and> e' \<in> set xs \<and> P e'"
  by (induction xs) auto

lemma trim_app_room:
  assumes ok: "order_ok recs0 order0" "\<forall>b. count_app b recs0 \<le> MAX_CANCELLATION_RECORDS_PER_APP"
    and k: "k \<notin> fst ` set recs0"
    and t1: "trim_app (c_bundleName r) (omap_put k r recs0) (order0 @ [(k, c_createSeq r)]) = (recs1, order1)"
  shows "within recs1 order1 (insert k (fst ` set recs0)) k r \<and> (\<forall>b. count_app b recs1 \<le> MAX_CANCELLATION_RECORDS_PER_APP) \<and> length recs1 \<le> Suc (length recs0)"
proof -
  let ?recs = "omap_put k r recs0" and ?order = "order0 @ [(k, c_createSeq r)]" and ?b = "c_bundleName r"
  note w = within_put [OF ok(1) k, of r]
  then have o: "order_ok ?recs ?order" by (simp add: within_def)
  note c = count_app_put [OF k, where r = r] and l = length_put [OF k, where r = r] and lim = ok(2) [rule_format]
  have cb: "count_app ?b ?recs \<le> Suc MAX_CANCELLATION_RECORDS_PER_APP" using lim [of ?b] by (simp add: c)
  note t = t1 [unfolded trim_app_one [OF o cb]]
  show ?thesis
  proof (cases "count_app ?b ?recs \<le> MAX_CANCELLATION_RECORDS_PER_APP")
    case True
    have "count_app b ?recs \<le> MAX_CANCELLATION_RECORDS_PER_APP" for b using True lim [of b] by (cases "b = ?b") (auto simp: c)
    then show ?thesis using t True w l by simp
  next
    case False
    have "count_app ?b recs0 > 0" using False by (simp add: c)
    then obtain e0 where e0: "e0 \<in> set order0" "is_record recs0 (\<lambda>r. c_bundleName r = ?b) e0" using count_app_pos [OF ok(1)] by blast
    have ne: "fst e \<noteq> k" if "e \<in> set order0" for e using that ok(1) k by (force simp: order_ok_def)
    have "is_record ?recs (\<lambda>r. c_bundleName r = ?b) e0" using e0(2) ne [OF e0(1)] by (simp add: is_record_def)
    then obtain e where e: "find (is_record ?recs (\<lambda>r. c_bundleName r = ?b)) ?order = Some e" "e \<in> set order0" "is_record ?recs (\<lambda>r. c_bundleName r = ?b) e"
      using find_append_first [OF e0(1)] by blast
    have eo: "e \<in> set ?order" using e(2) by simp
    obtain r' where r': "map_of ?recs (fst e) = Some r'" "c_bundleName r' = ?b" using e(3) by (auto simp: is_record_iff [OF o eo])
    note cd = count_del [OF order_ok_omap [OF o] r'(1)]
    have cnt: "count_app b (omap_del (fst e) ?recs) \<le> MAX_CANCELLATION_RECORDS_PER_APP" for b
      using cd [of b] r'(2) lim [of b] by (cases "b = ?b") (auto simp: c)
    have "recs1 = omap_del (fst e) ?recs" "order1 = remove1 e ?order" using t False e(1) by auto
    then show ?thesis using within_del [OF w eo ne [OF e(2)]] cnt l length_del_less [of "fst e" ?recs] by simp
  qed
qed

lemma trim_global_room:
  assumes w: "within recs1 order1 K k r" and l: "length recs1 \<le> Suc MAX_CANCELLATION_RECORDS_GLOBAL" and t: "trim_global recs1 order1 = (recs2, order2)"
  shows "within recs2 order2 K k r \<and> length recs2 \<le> MAX_CANCELLATION_RECORDS_GLOBAL \<and> (\<forall>b. count_app b recs2 \<le> count_app b recs1)"
proof -
  have o: "order_ok recs1 order1" "order1 \<noteq> []" using w by (auto simp: within_def)
  note t' = t [unfolded trim_global_one [OF o(1) l]]
  show ?thesis
  proof (cases "length recs1 \<le> MAX_CANCELLATION_RECORDS_GLOBAL")
    case True
    then show ?thesis using t' w by simp
  next
    case False
    then obtain e es where e: "order1 = e # es" "es \<noteq> []" using order_length [OF o(1)] o(2) by (cases order1; cases "tl order1") auto
    have d: "recs2 = omap_del (fst e) recs1" "order2 = remove1 e order1" using t' False o(2) e by auto
    have ne: "fst e \<noteq> k"
    proof
      assume "fst e = k"
      moreover have "fst (last es) = k" "last es \<in> set es" using w e by (auto simp: within_def)
      moreover have "fst e \<notin> fst ` set es" using o(1) e by (simp add: order_ok_def)
      ultimately show False by (metis image_eqI)
    qed
    obtain r' where "map_of recs1 (fst e) = Some r'" using order_ok_entry [OF o(1), of e] e by auto
    then have "Suc (length recs2) = length recs1" unfolding d by (rule length_del [OF order_ok_omap [OF o(1)]])
    moreover have "within recs2 order2 K k r" unfolding d by (rule within_del [OF w _ ne]) (simp add: e)
    ultimately show ?thesis using count_del_less l by (simp add: d(1))
  qed
qed

lemma make_room:
  assumes ok: "order_ok recs0 order0" "length recs0 \<le> MAX_CANCELLATION_RECORDS_GLOBAL" "\<forall>b. count_app b recs0 \<le> MAX_CANCELLATION_RECORDS_PER_APP"
    and k: "k \<notin> fst ` set recs0"
    and t1: "trim_app (c_bundleName r) (omap_put k r recs0) (order0 @ [(k, c_createSeq r)]) = (recs1, order1)"
    and t2: "trim_global recs1 order1 = (recs2, order2)"
  shows "within recs2 order2 (insert k (fst ` set recs0)) k r \<and> length recs2 \<le> MAX_CANCELLATION_RECORDS_GLOBAL \<and>
    (\<forall>b. count_app b recs2 \<le> MAX_CANCELLATION_RECORDS_PER_APP)"
proof -
  note a = trim_app_room [OF ok(1,3) k t1]
  have "length recs1 \<le> Suc MAX_CANCELLATION_RECORDS_GLOBAL" using a ok(2) by simp
  from trim_global_room [OF _ this t2] a show ?thesis by (meson order_trans)
qed


section \<open>The invariant\<close>

lemma records_frame [task_frame]:
  "tm_cancellationRecordMap (upd_task t f m) = tm_cancellationRecordMap m" "tm_cancellationOrder (upd_task t f m) = tm_cancellationOrder m"
  by simp_all

lemma records_same:
  "records_ok m \<Longrightarrow> tm_cancellationRecordMap m' = tm_cancellationRecordMap m \<Longrightarrow> tm_cancellationOrder m' = tm_cancellationOrder m \<Longrightarrow>
   fst ` set (tm_taskMap m') \<inter> fst ` set (tm_cancellationRecordMap m) = {} \<Longrightarrow> records_ok m'"
  by (simp add: records_ok_def)

lemma count_filter: "count_app b (filter P recs) \<le> count_app b recs"
  by (induction recs) (auto simp: count_app_def)

lemma records_purge: "records_ok m \<Longrightarrow> records_ok (PurgeExpiredCancellationRecordsLocked now m)"
proof -
  assume ok: "records_ok m"
  let ?recs = "filter (\<lambda>(_, r). \<not> c_expiresAt r \<le> now) (tm_cancellationRecordMap m)"
  have "length ?recs \<le> length (tm_cancellationRecordMap m)" by simp
  moreover have "fst ` set ?recs \<subseteq> fst ` set (tm_cancellationRecordMap m)" by auto
  moreover have "count_app b ?recs \<le> count_app b (tm_cancellationRecordMap m)" for b by (rule count_filter)
  ultimately show ?thesis using ok order_ok_filter [of "tm_cancellationRecordMap m" "tm_cancellationOrder m"]
    unfolding records_ok_def PurgeExpiredCancellationRecordsLocked_def Let_def by (simp del: length_filter_le) (meson order_trans disjoint_iff subset_iff)
qed

definition record_of :: "int \<Rightarrow> u64 \<Rightarrow> PlaceholderTaskRecord \<Rightarrow> CancelledTaskRecord" where
  "record_of now seq task =
     \<lparr>c_reqKey = t_reqKey task, c_syncFolder = t_syncFolder task, c_filePath = t_filePath task, c_bundleName = t_bundleName task,
      c_syncFolderIndex = t_syncFolderIndex task, c_expiresAt = now + CANCELLATION_RECORD_TTL, c_createSeq = seq\<rparr>"

text \<open>Adding the record of a task that is about to leave the map.\<close>

lemma add_record:
  fixes now :: int
  assumes ok: "records_ok m" and k: "t_reqKey (tm_obj m t) \<notin> fst ` set (tm_cancellationRecordMap m)"
  defines "m' \<equiv> AddCancellationRecordLocked now t m"
  shows "order_ok (tm_cancellationRecordMap m') (tm_cancellationOrder m')" "length (tm_cancellationRecordMap m') \<le> MAX_CANCELLATION_RECORDS_GLOBAL"
    "count_app b (tm_cancellationRecordMap m') \<le> MAX_CANCELLATION_RECORDS_PER_APP"
    "fst ` set (tm_cancellationRecordMap m') \<subseteq> insert (t_reqKey (tm_obj m t)) (fst ` set (tm_cancellationRecordMap m))"
    "\<exists>seq. map_of (tm_cancellationRecordMap m') (t_reqKey (tm_obj m t)) = Some (record_of now seq (tm_obj m t))"
proof -
  let ?m1 = "PurgeExpiredCancellationRecordsLocked now m"
  let ?seq = "if tm_nextCancellationSeq ?m1 = UINT64_MAX then 1 else tm_nextCancellationSeq ?m1"
  let ?r = "record_of now ?seq (tm_obj m t)" and ?k = "t_reqKey (tm_obj m t)"
  have sub: "fst ` set (tm_cancellationRecordMap ?m1) \<subseteq> fst ` set (tm_cancellationRecordMap m)"
    by (auto simp: PurgeExpiredCancellationRecordsLocked_def Let_def)
  have ok1: "records_ok ?m1" by (rule records_purge [OF ok])
  obtain recs1 order1 where t1: "trim_app (c_bundleName ?r) (omap_put ?k ?r (tm_cancellationRecordMap ?m1)) (tm_cancellationOrder ?m1 @ [(?k, c_createSeq ?r)]) = (recs1, order1)"
    by (rule prod.exhaust)
  obtain recs2 order2 where t2: "trim_global recs1 order1 = (recs2, order2)" by (rule prod.exhaust)
  have "m' = ?m1\<lparr>tm_nextCancellationSeq := ?seq + 1, tm_cancellationRecordMap := recs2, tm_cancellationOrder := order2\<rparr>"
    unfolding m'_def AddCancellationRecordLocked_def Let_def using t1 t2 by (simp add: record_of_def)
  then have m': "tm_cancellationRecordMap m' = recs2" "tm_cancellationOrder m' = order2" by simp_all
  have room: "within recs2 order2 (insert ?k (fst ` set (tm_cancellationRecordMap ?m1))) ?k ?r \<and> length recs2 \<le> MAX_CANCELLATION_RECORDS_GLOBAL \<and>
      (\<forall>b. count_app b recs2 \<le> MAX_CANCELLATION_RECORDS_PER_APP)"
    by (rule make_room [OF _ _ _ _ t1 t2]) (use ok1 k sub in \<open>auto simp: records_ok_def\<close>)
  then show "order_ok (tm_cancellationRecordMap m') (tm_cancellationOrder m')" "length (tm_cancellationRecordMap m') \<le> MAX_CANCELLATION_RECORDS_GLOBAL"
    "count_app b (tm_cancellationRecordMap m') \<le> MAX_CANCELLATION_RECORDS_PER_APP"
    "fst ` set (tm_cancellationRecordMap m') \<subseteq> insert ?k (fst ` set (tm_cancellationRecordMap m))"
    "\<exists>seq. map_of (tm_cancellationRecordMap m') ?k = Some (record_of now seq (tm_obj m t))"
    unfolding m' within_def using sub by blast+
qed


definition remembered :: "PlaceholderTaskCancelReason \<Rightarrow> PlaceholderTaskRecord \<Rightarrow> bool" where
  "remembered reason r \<longleftrightarrow> ShouldKeepCancellationRecord reason \<and>
     (t_fetchDispatched r \<or> t_cancelCallbackAttempted r \<or> ShouldNotifyCancellation reason)"

lemma cancel_records:
  assumes out: "outstanding (tm_obj m t)"
  obtains m3 where "tm_cancellationRecordMap m3 = tm_cancellationRecordMap m" "tm_cancellationOrder m3 = tm_cancellationOrder m"
    "tm_taskMap m3 = tm_taskMap m" "ident (tm_obj m3 t) = ident (tm_obj m t)"
    "tm_cancellationRecordMap (CancelTaskRecordLocked now reason w t m) =
       (if remembered reason (tm_obj m t) then tm_cancellationRecordMap (AddCancellationRecordLocked now t m3) else tm_cancellationRecordMap m)"
    "tm_cancellationOrder (CancelTaskRecordLocked now reason w t m) =
       (if remembered reason (tm_obj m t) then tm_cancellationOrder (AddCancellationRecordLocked now t m3) else tm_cancellationOrder m)"
proof -
  let ?m2 = "NotifyProgressLocked w t (upd_task t (\<lambda>r. r\<lparr>t_state := CANCELLED\<rparr>) m)"
  let ?m3 = "if \<not> t_cancelCallbackAttempted (tm_obj m t) \<and> ShouldNotifyCancellation reason
     then upd_task t (\<lambda>r. r\<lparr>t_cancelCallbackAttempted := True\<rparr>) ?m2 else ?m2"
  show thesis
  proof (rule that [of ?m3])
    show "tm_cancellationRecordMap (CancelTaskRecordLocked now reason w t m) =
       (if remembered reason (tm_obj m t) then tm_cancellationRecordMap (AddCancellationRecordLocked now t ?m3) else tm_cancellationRecordMap m)"
      "tm_cancellationOrder (CancelTaskRecordLocked now reason w t m) =
       (if remembered reason (tm_obj m t) then tm_cancellationOrder (AddCancellationRecordLocked now t ?m3) else tm_cancellationOrder m)"
      using out by (auto simp: CancelTaskRecordLocked_def Let_def task_frame notify_obj remembered_def)
  qed (simp_all add: task_frame notify_obj)
qed

lemma record_ident: "ident r = ident r' \<Longrightarrow> record_of now seq r = record_of now seq r'"
  by (simp add: record_of_def ident_def)

lemma records_cancel:
  assumes ok: "records_ok m" "tasks_ok m" and t: "t < tm_new m" "outstanding (tm_obj m t)"
  shows "records_ok (CancelTaskRecordLocked now reason w t m)"
    "remembered reason (tm_obj m t) \<Longrightarrow> \<exists>seq. map_of (tm_cancellationRecordMap (CancelTaskRecordLocked now reason w t m)) (t_reqKey (tm_obj m t)) =
       Some (record_of now seq (tm_obj m t))"
proof -
  let ?m = "CancelTaskRecordLocked now reason w t m" and ?k = "t_reqKey (tm_obj m t)"
  note mem = live_map_of [OF ok(2) t]
  then have map: "tm_taskMap ?m = omap_del ?k (tm_taskMap m)" by (simp add: cancel_effect(6) [OF t(2)])
  have "?k \<in> fst ` set (tm_taskMap m)" using map_of_SomeD [OF mem] by force
  then have fresh: "?k \<notin> fst ` set (tm_cancellationRecordMap m)" using ok(1) by (auto simp: records_ok_def)
  from t(2) show "records_ok ?m"
  proof (cases rule: cancel_records [where now = now and reason = reason and w = w])
    case (1 m3)
    have ok3: "records_ok m3" using ok(1) 1 by (simp add: records_ok_def)
    have k3: "t_reqKey (tm_obj m3 t) = ?k" using identD [OF 1(4)] by simp
    have disj: "fst ` set (tm_taskMap ?m) \<inter> insert ?k (fst ` set (tm_cancellationRecordMap m)) = {}"
      using ok(1) unfolding map records_ok_def by (auto simp: set_del)
    have "t_reqKey (tm_obj m3 t) \<notin> fst ` set (tm_cancellationRecordMap m3)" using fresh k3 1(1) by simp
    note a = add_record [OF ok3 this, where now = now, unfolded k3 1(1)]
    show ?thesis
    proof (cases "remembered reason (tm_obj m t)")
      case True
      then have e: "tm_cancellationRecordMap ?m = tm_cancellationRecordMap (AddCancellationRecordLocked now t m3)"
        "tm_cancellationOrder ?m = tm_cancellationOrder (AddCancellationRecordLocked now t m3)" using 1(5,6) by simp_all
      have "fst ` set (tm_taskMap ?m) \<inter> fst ` set (tm_cancellationRecordMap (AddCancellationRecordLocked now t m3)) = {}" using disj a(4) by blast
      then show ?thesis unfolding records_ok_def e using a(1-3) by blast
    qed (use 1(5,6) disj ok(1) in \<open>auto simp: records_ok_def\<close>)
  qed
  show "\<exists>seq. map_of (tm_cancellationRecordMap ?m) ?k = Some (record_of now seq (tm_obj m t))" if "remembered reason (tm_obj m t)"
    using t(2)
  proof (cases rule: cancel_records [where now = now and reason = reason and w = w])
    case (1 m3)
    have ok3: "records_ok m3" using ok(1) 1 by (simp add: records_ok_def)
    have k3: "t_reqKey (tm_obj m3 t) = ?k" using identD [OF 1(4)] by simp
    have "t_reqKey (tm_obj m3 t) \<notin> fst ` set (tm_cancellationRecordMap m3)" using fresh k3 1(1) by simp
    from add_record(5) [OF ok3 this, where now = now] show ?thesis using 1(5) that by (simp add: k3 record_ident [OF 1(4)])
  qed
qed


interpretation cancellations: task_invariant records_ok
proof unfold_locales
  show "records_ok (mgr_init objs)" for objs by (simp add: records_ok_def mgr_init_def order_ok_def omap_ok_Nil count_app_def)
  show "records_ok (PurgeExpiredCancellationRecordsLocked now m)" if "records_ok m" for now m by (rule records_purge [OF that])
  show "records_ok (ClearCancellationRecords m)" for m by (simp add: records_ok_def ClearCancellationRecords_def order_ok_def omap_ok_Nil count_app_def)
  show "records_ok (CancelTaskRecordLocked now reason w t m)" if "task_inv m" "records_ok m" "t < tm_new m" "outstanding (tm_obj m t)" for m t now reason w
    by (rule records_cancel(1) [OF that(2) task_inv_ok [OF that(1)] that(3,4)])
  show "records_ok (NotifyProgressLocked no_owner (tm_new m) (m\<lparr>tm_obj := (tm_obj m)(tm_new m := r), tm_new := tm_new m + 1, tm_nextCreateSeq := q,
           tm_taskMap := omap_put key (tm_new m) (tm_taskMap m)\<rparr>))"
    if "records_ok m" "map_of (tm_cancellationRecordMap m) key = None" for m key r q
  proof (rule records_same [OF that(1)])
    have "key \<notin> fst ` set (tm_cancellationRecordMap m)" using that(2) by (simp add: map_of_eq_None_iff)
    then show "fst ` set (tm_taskMap (NotifyProgressLocked no_owner (tm_new m) (m\<lparr>tm_obj := (tm_obj m)(tm_new m := r), tm_new := tm_new m + 1,
        tm_nextCreateSeq := q, tm_taskMap := omap_put key (tm_new m) (tm_taskMap m)\<rparr>))) \<inter> fst ` set (tm_cancellationRecordMap m) = {}"
      using that(1) by (simp add: task_frame fst_set_put records_ok_def)
  qed (simp_all add: task_frame)
  show "records_ok (EraseTaskLocked t (NotifyProgressLocked no_owner t (upd_task t (\<lambda>r. r\<lparr>t_cachedSize := c, t_state := COMPLETED\<rparr>) m)))"
    if "records_ok m" for m t c
  proof (rule records_same [OF that])
    show "fst ` set (tm_taskMap (EraseTaskLocked t (NotifyProgressLocked no_owner t (upd_task t (\<lambda>r. r\<lparr>t_cachedSize := c, t_state := COMPLETED\<rparr>) m)))) \<inter>
        fst ` set (tm_cancellationRecordMap m) = {}"
      using that by (auto simp: task_frame records_ok_def set_del)
  qed (simp_all add: task_frame)
  show "records_ok m'" if ok: "records_ok m" and q: "quiet_upd t m m' n" for m t m' n
  proof -
    obtain r where "m' = upd_task t (\<lambda>_. r) m" using q by (auto simp: quiet_upd_def)
    then show ?thesis using ok by (simp add: records_ok_def)
  qed
qed (simp_all add: records_ok_def task_frame)

text \<open>
  C31: The memory of cancellations is bounded and consistent: in every reachable state there are at
  most 32 records with different request keys, at most 16 of one application, and the list of
  eviction names each record exactly once, with its creation number, and nothing else.\<close>

theorem cancellations_bounded:
  assumes "hyd_reach s"
  shows "length (tm_cancellationRecordMap (hs_mgr s)) \<le> 32 \<and> count_app b (tm_cancellationRecordMap (hs_mgr s)) \<le> 16 \<and>
    distinct (map fst (tm_cancellationRecordMap (hs_mgr s))) \<and> distinct (map fst (tm_cancellationOrder (hs_mgr s))) \<and>
    set (tm_cancellationOrder (hs_mgr s)) = {(k, c_createSeq r) |k r. map_of (tm_cancellationRecordMap (hs_mgr s)) k = Some r}"
proof -
  have ok: "records_ok (hs_mgr s)" by (rule cancellations.inv_reach [OF assms])
  then have o: "omap_ok (tm_cancellationRecordMap (hs_mgr s))" by (simp add: records_ok_def order_ok_def)
  show ?thesis using ok map_of_iff [OF o] omap_ok_distinct [OF o] by (auto simp: records_ok_def order_ok_def)
qed

lemma find_no_record:
  assumes "map_of (tm_cancellationRecordMap m) k = None"
  shows "map_of (tm_cancellationRecordMap (PurgeExpiredCancellationRecordsLocked later m)) k = None"
  using assms by (auto simp: PurgeExpiredCancellationRecordsLocked_def Let_def map_of_eq_None_iff)

lemma find_record:
  assumes "omap_ok (tm_cancellationRecordMap m)" "map_of (tm_cancellationRecordMap m) k = Some r" "\<not> c_expiresAt r \<le> later"
  shows "map_of (tm_cancellationRecordMap (PurgeExpiredCancellationRecordsLocked later m)) k = Some r"
proof -
  have "omap_ok (filter (\<lambda>(_, r). \<not> c_expiresAt r \<le> later) (tm_cancellationRecordMap m))" by (rule omap_ok_filter [OF assms(1)])
  then show ?thesis using assms by (simp add: PurgeExpiredCancellationRecordsLocked_def Let_def map_of_iff)
qed

text \<open>
  C32: Late data for a cancelled task is refused and not written. A task of a reachable state is
  cancelled for a reason that is remembered; at any later time before the record expires, in any
  reachable state that still has this record, a delivery with the task's key, folder and path is
  answered by the cancellation error for the task's own application and sync folder and by the
  registration error for any other. Where the record is gone (evicted by later cancellations,
  cleared, or dropped when the service stopped) and no task has the key, the answer is that no
  hydration is in progress. No file changes in any of these cases.\<close>

theorem late_delivery_refused:
  assumes reach: "hyd_reach s" and t: "map_of (tm_taskMap (hs_mgr s)) (rq_reqKey request) = Some t"
    and kept: "remembered reason (tm_obj (hs_mgr s) t)" and time: "later < now + CANCELLATION_RECORD_TTL"
    and valid: "rq_reqKey request \<noteq> []" "length (rq_reqKey request) \<le> 8" "rq_callbackType request = 0 \<or> rq_callbackType request = 1"
    and same: "rq_syncFolder request = t_syncFolder (tm_obj (hs_mgr s) t)" "rq_filePath request = t_filePath (tm_obj (hs_mgr s) t)"
    and reach': "hyd_reach s'"
    and mem: "map_of (tm_cancellationRecordMap (hs_mgr s')) (rq_reqKey request) =
        map_of (tm_cancellationRecordMap (CancelTaskRecordLocked now reason w t (hs_mgr s))) (rq_reqKey request) \<or>
      map_of (tm_cancellationRecordMap (hs_mgr s')) (rq_reqKey request) = None \<and> map_of (tm_taskMap (hs_mgr s')) (rq_reqKey request) = None"
  shows "\<exists>m'. Execute env later b i request (hs_mgr s', fs) =
    (if map_of (tm_cancellationRecordMap (hs_mgr s')) (rq_reqKey request) = None then E_NO_HYDRATION_IN_PROGRESS
     else if b = t_bundleName (tm_obj (hs_mgr s) t) \<and> i = t_syncFolderIndex (tm_obj (hs_mgr s) t) then E_CANCELLED
     else E_CALLBACK_NOT_REGISTERED, m', fs)"
proof -
  let ?m = "CancelTaskRecordLocked now reason w t (hs_mgr s)" and ?r = "tm_obj (hs_mgr s) t" and ?m' = "hs_mgr s'" and ?k = "rq_reqKey request"
  have ok: "tasks_ok (hs_mgr s)" by (rule task_inv_ok [OF reach_task_inv [OF reach]])
  note k = map_of_key [OF ok t]
  note rec = records_cancel [OF cancellations.inv_reach [OF reach] ok, of t, where now = now and reason = reason and w = w]
  have ok': "records_ok ?m'" by (rule cancellations.inv_reach [OF reach'])
  obtain seq where r: "map_of (tm_cancellationRecordMap ?m) ?k = Some (record_of now seq ?r)" using rec(2) k kept by auto
  show ?thesis
  proof (cases "map_of (tm_cancellationRecordMap ?m') ?k")
    case None
    then have "map_of (tm_cancellationRecordMap (PurgeExpiredCancellationRecordsLocked later ?m')) ?k = None"
      by (rule find_no_record)
    then show ?thesis using None mem r valid by (auto simp: Execute_def FindCancellationResultLocked_def Let_def)
  next
    case (Some r')
    then have r': "map_of (tm_cancellationRecordMap ?m') ?k = Some (record_of now seq ?r)" using mem r by auto
    have "?k \<in> fst ` set (tm_cancellationRecordMap ?m')" using map_of_SomeD [OF r'] by force
    then have "?k \<notin> fst ` set (tm_taskMap ?m')" using ok' by (auto simp: records_ok_def)
    then have none: "map_of (tm_taskMap ?m') ?k = None" by (rule map_of_eq_None_iff [THEN iffD2])
    have "map_of (tm_cancellationRecordMap (PurgeExpiredCancellationRecordsLocked later ?m')) ?k = Some (record_of now seq ?r)"
      by (rule find_record [OF _ r']) (use ok' time in \<open>auto simp: records_ok_def order_ok_def record_of_def\<close>)
    then show ?thesis using none r' valid same by (auto simp: Execute_def FindCancellationResultLocked_def Let_def record_of_def)
  qed
qed

definition run_request :: CallbackExecuteRequest where
  "run_request = \<lparr>rq_reqKey = request_key 2, rq_syncFolder = ''/r'', rq_filePath = ''b'', rq_callbackType = 0, rq_offset = 0, rq_size = 3,
     rq_totalSize = 30, rq_data = [1, 2, 3], rq_isComplete = False\<rparr>"

definition run_exec :: exec_env where
  "run_exec = \<lparr>xe_xerr = (\<lambda>_ _. 0), xe_fsync = 0, xe_pwrite = []\<rparr>"

lemma run_request_valid:
  "map_of (tm_taskMap (hs_mgr run_active)) (rq_reqKey run_request) = Some 1" "remembered USER_REQUEST (tm_obj (hs_mgr run_active) 1)"
  "rq_reqKey run_request \<noteq> []" "length (rq_reqKey run_request) \<le> 8" "rq_callbackType run_request = 0 \<or> rq_callbackType run_request = 1"
  "rq_syncFolder run_request = t_syncFolder (tm_obj (hs_mgr run_active) 1)" "rq_filePath run_request = t_filePath (tm_obj (hs_mgr run_active) 1)"
  "t_bundleName (tm_obj (hs_mgr run_active) 1) = ''app''" "t_syncFolderIndex (tm_obj (hs_mgr run_active) 1) = 7"
  by code_simp+

definition run_cancelled :: hyd_sys where
  "run_cancelled = run_active\<lparr>hs_mgr := snd (CancelTask 0 ''/r'' ''b'' 7 no_owner (hs_mgr run_active))\<rparr>"

lemma run_cancelled_reach: "hyd_reach run_cancelled"
  unfolding run_cancelled_def by (rule hyd_reach.step [OF run_active_reach hyd_step.cancel [OF prod.collapse [symmetric]]])

lemma run_cancelled_record:
  "map_of (tm_cancellationRecordMap (hs_mgr run_cancelled)) (rq_reqKey run_request) =
     map_of (tm_cancellationRecordMap (CancelTaskRecordLocked 0 USER_REQUEST no_owner 1 (hs_mgr run_active))) (rq_reqKey run_request)"
  "map_of (tm_cancellationRecordMap (hs_mgr run_cancelled)) (rq_reqKey run_request) \<noteq> None"
  "map fst (tm_cancellationOrder (hs_mgr run_cancelled)) = [rq_reqKey run_request]"
  by code_simp+

theorem cancellations_bounded_witness:
  "length (tm_cancellationRecordMap (hs_mgr run_cancelled)) \<le> 32 \<and> map fst (tm_cancellationOrder (hs_mgr run_cancelled)) = [rq_reqKey run_request] \<and>
   distinct (map fst (tm_cancellationRecordMap (hs_mgr run_cancelled)))"
  using cancellations_bounded [OF run_cancelled_reach] run_cancelled_record(3) by simp

theorem late_delivery_refused_witness:
  "\<exists>m'. Execute run_exec 1 ''app'' 7 run_request (hs_mgr run_cancelled, run_files) = (E_CANCELLED, m', run_files)"
  using late_delivery_refused [OF run_active_reach run_request_valid(1,2) _ run_request_valid(3-7) run_cancelled_reach disjI1 [OF run_cancelled_record(1)],
      of 1 run_exec "''app''" 7 run_files] run_request_valid(8,9) run_cancelled_record(2) by simp

end
