(* ===== verification/Hydration_Delivery.thy ===== *)
theory Hydration_Delivery
  imports Hydration_Cancel
begin

text \<open>
  What a successful delivery does to the files: the bytes are at their offset in the task's file, its
  placeholder state follows, and nothing else changes.
\<close>

definition only_file :: "file_id \<Rightarrow> hyd_files \<Rightarrow> hyd_files \<Rightarrow> bool" where
  "only_file f fs fs' \<longleftrightarrow> (\<forall>g. g \<noteq> f \<longrightarrow> hf_data fs' g = hf_data fs g \<and> hf_attr fs' g = hf_attr fs g)"

lemma only_file_refl [simp]: "only_file f fs fs"
  by (simp add: only_file_def)

lemma only_file_trans: "only_file f fs fs1 \<Longrightarrow> only_file f fs1 fs2 \<Longrightarrow> only_file f fs fs2"
  by (simp add: only_file_def)

lemma read_ph: "GetFilePlaceholderState err st f = (E_OK, Some p) \<Longrightarrow> p \<noteq> 0 \<Longrightarrow> ph_of st f = p"
  by (auto simp: GetFilePlaceholderState_def GetFileSyncStateByte_def ReadFileSyncStateByteNoLock_def ph_of_def state_byte_def
      GetPlaceholderStateFromFileSyncState_def split: if_splits option.splits list.splits)

lemma set_ph:
  assumes "SetFilePlaceholderState err st f p = (ret, old, st')"
  shows "\<forall>g. g \<noteq> f \<longrightarrow> st' g = st g" "ret = E_OK \<Longrightarrow> ph_of st' f = p"
proof -
  have "(\<forall>g. g \<noteq> f \<longrightarrow> st' g = st g) \<and> (ret = E_OK \<longrightarrow> IsValidPlaceholderState p \<and> (\<exists>b. xa_state (st' f) = Some [MakeFileSyncState p b]))"
    using assms unfolding SetFilePlaceholderState_def WriteFileSyncStateByteNoLock_def by (auto split: if_splits prod.splits)
  then show "\<forall>g. g \<noteq> f \<longrightarrow> st' g = st g" "ret = E_OK \<Longrightarrow> ph_of st' f = p" by (auto simp: ph_of_def state_byte_def ph_of_make)
qed

lemma write_state_effect:
  assumes "write_state env fs (Some f) p = (ret, fs')"
  shows "only_file f fs fs' \<and> hf_data fs' = hf_data fs \<and> (ret = E_OK \<longrightarrow> ph_of (hf_attr fs') f = p)"
proof -
  obtain r old attr where s: "SetFilePlaceholderState (xe_xerr env) (hf_attr fs) f p = (r, old, attr)" by (metis prod.exhaust)
  have "fs' = fs\<lparr>hf_attr := attr\<rparr>" "ret = E_OK \<Longrightarrow> r = E_OK" using assms s by (auto simp: write_state_def split: if_splits)
  then show ?thesis using set_ph [OF s] by (simp add: only_file_def)
qed

lemma hydration_state_ph: "hydration_state env fs (Some f) = Inr p \<Longrightarrow> p \<noteq> 0 \<Longrightarrow> ph_of (hf_attr fs) f = p"
proof -
  assume h: "hydration_state env fs (Some f) = Inr p" "p \<noteq> 0"
  then have "fst (GetFilePlaceholderState (xe_xerr env) (hf_attr fs) f) = E_OK" "snd (GetFilePlaceholderState (xe_xerr env) (hf_attr fs) f) = Some p"
    by (auto simp: hydration_state_def GetFilePlaceholderState_def split: if_splits prod.splits option.splits)
  then show ?thesis using read_ph [of "xe_xerr env" "hf_attr fs" f p] h(2) by (metis prod.collapse)
qed

lemma ensure_effect:
  assumes "EnsurePartialStateLocked env t (m, fs) = (ret, m', fs')" and f: "t_outputFd (tm_obj m t) = Some f"
  shows "only_file f fs fs' \<and> hf_data fs' = hf_data fs \<and> t_outputFd (tm_obj m' t) = Some f \<and>
    (ret = E_OK \<longrightarrow> t_hasPartialState (tm_obj m t) \<or> ph_of (hf_attr fs') f = PLACEHOLDER_STATE_PARTIALLY_HYDRATED)"
proof (cases "t_hasPartialState (tm_obj m t)")
  case False
  show ?thesis
  proof (cases "hydration_state env fs (Some f)")
    case (Inr p)
    obtain r1 fs1 where w: "write_state env fs (Some f) PLACEHOLDER_STATE_PARTIALLY_HYDRATED = (r1, fs1)" by (rule prod.exhaust)
    show ?thesis using assms False Inr w write_state_effect [OF w] hydration_state_ph [OF Inr]
      by (auto simp: EnsurePartialStateLocked_def Let_def split: if_splits)
  qed (use assms False in \<open>auto simp: EnsurePartialStateLocked_def Let_def\<close>)
qed (use assms in \<open>auto simp: EnsurePartialStateLocked_def Let_def\<close>)

lemma complete_effect:
  assumes "SetCompleteStateLocked env t (m, fs) = (ret, m', fs')" and f: "t_outputFd (tm_obj m t) = Some f"
  shows "only_file f fs fs' \<and> hf_data fs' = hf_data fs \<and> (ret = E_OK \<longrightarrow> ph_of (hf_attr fs') f = PLACEHOLDER_STATE_FULLY_HYDRATED)"
proof (cases "hydration_state env fs (Some f)")
  case (Inr p)
  obtain r1 fs1 where w: "write_state env fs (Some f) PLACEHOLDER_STATE_FULLY_HYDRATED = (r1, fs1)" by (rule prod.exhaust)
  show ?thesis using assms Inr w write_state_effect [OF w] by (auto simp: SetCompleteStateLocked_def Let_def split: if_splits)
qed (use assms in \<open>auto simp: SetCompleteStateLocked_def Let_def\<close>)


lemma commit_effect:
  assumes c: "CommitFetchDataLocked env t request (m, fs) = (E_OK, m', fs')" and f: "t_outputFd (tm_obj m t) = Some f"
  shows "only_file f fs fs' \<and> hf_data fs' = hf_data fs \<and>
    (if rq_isComplete request then ph_of (hf_attr fs') f = PLACEHOLDER_STATE_FULLY_HYDRATED
     else t_hasPartialState (tm_obj m t) \<or> ph_of (hf_attr fs') f = PLACEHOLDER_STATE_PARTIALLY_HYDRATED)"
proof -
  obtain r1 m1 fs1 where e: "EnsurePartialStateLocked env t (m, fs) = (r1, m1, fs1)" by (metis prod.exhaust)
  note e1 = ensure_effect [OF e f]
  consider "\<not> rq_isComplete request" "(r1, m1, fs1) = (E_OK, m', fs')"
    | "rq_isComplete request" "r1 = E_OK" "SetCompleteStateLocked env t (m1, fs1) = (E_OK, m', fs')"
    | "rq_isComplete request" "SetCompleteStateLocked env t (m, fs) = (E_OK, m', fs')"
    using c e unfolding CommitFetchDataLocked_def by (auto simp: hydration_errors_nonzero split: if_splits)
  then show ?thesis
  proof cases
    case 1 then show ?thesis using e1 by simp
  next
    case 2 then show ?thesis using e1 complete_effect [OF 2(3)] only_file_trans [of f fs fs1 fs'] by simp
  next
    case 3 then show ?thesis using complete_effect [OF 3(2) f] by simp
  qed
qed

lemma write_from_start:
  "write_loop rs data off 0 c = (E_OK, c') \<Longrightarrow> data \<noteq> [] \<Longrightarrow> c' = pwrite_bytes c off data"
proof (induction rs)
  case (Cons r rs)
  show ?case
  proof (cases "0 < r")
    case True
    let ?w = "min (nat r) (length data)"
    have "write_loop rs data off ?w (pwrite_bytes c off (take ?w data)) = (E_OK, c')" using Cons.prems True by (simp add: Let_def)
    then show ?thesis by (rule write_loop_ok) simp_all
  next
    case False
    then have "write_loop rs data off 0 c = (E_OK, c')" using Cons.prems by (simp split: if_splits)
    then show ?thesis using Cons by blast
  qed
qed simp

lemma write_effect:
  assumes "WriteHydrationData rs f request fs = (E_OK, fs')"
  shows "only_file f fs fs' \<and> hf_attr fs' = hf_attr fs \<and>
    hf_data fs' f = (if rq_data request = [] then hf_data fs f else pwrite_bytes (hf_data fs f) (unat (rq_offset request)) (rq_data request))"
proof -
  obtain r c where w: "write_loop rs (rq_data request) (unat (rq_offset request)) 0 (hf_data fs f) = (r, c)" by (rule prod.exhaust)
  then have e: "fs' = fs\<lparr>hf_data := (hf_data fs)(f := c)\<rparr>" "r = E_OK" using assms by (simp_all add: WriteHydrationData_def)
  show ?thesis
  proof (cases "rq_data request = []")
    case True
    then have "c = hf_data fs f" using w by (cases rs) auto
    then show ?thesis using e True by (simp add: only_file_def)
  next
    case False
    have "c = pwrite_bytes (hf_data fs f) (unat (rq_offset request)) (rq_data request)"
      using write_from_start [OF w [unfolded e(2)] False] .
    then show ?thesis using e False by (simp add: only_file_def)
  qed
qed


lemma capped_value:
  fixes c n s :: u64
  assumes "c \<le> n"
  shows "unat (c + min s (if c < n then n - c else 0)) = min (unat c + unat s) (unat n)"
proof -
  let ?d = "min s (if c < n then n - c else 0)"
  have cn: "unat c \<le> unat n" "unat n < 2 ^ 64" using assms unsigned_less [of n] by (simp_all add: word_le_nat_alt)
  have "?d = min s (n - c)" using assms by auto
  moreover have "unat (n - c) = unat n - unat c" using assms by (rule unat_sub)
  ultimately have "unat ?d = min (unat s) (unat n - unat c)" by (simp add: min_def word_le_nat_alt)
  then show ?thesis using cn by (simp add: unat_word_ariths)
qed

text \<open>
  C33: A delivery that succeeds does what it says: for a task in progress, the delivered bytes stand at
  their offset in the task's file and the rest of the file and all other files keep their content and
  attributes; the file is marked fully hydrated when the delivery completes the task, and partially
  hydrated when a first part arrives; the task is then completed or still in progress, and its
  processed size has grown by the delivered size, up to the total.\<close>

theorem data_delivered:
  assumes valid: "t_outputFd (tm_obj m t) = Some f"
    and x: "ExecuteFetchDataLocked env now t request (m, fs) = (E_OK, m', fs')" and st: "task_state m t = IN_PROGRESS"
  shows "only_file f fs fs' \<and>
    hf_data fs' f = (if rq_data request = [] then hf_data fs f else pwrite_bytes (hf_data fs f) (unat (rq_offset request)) (rq_data request)) \<and>
    (if rq_isComplete request then ph_of (hf_attr fs') f = PLACEHOLDER_STATE_FULLY_HYDRATED
     else t_hasPartialState (tm_obj m t) \<or> ph_of (hf_attr fs') f = PLACEHOLDER_STATE_PARTIALLY_HYDRATED) \<and>
    task_state m' t = (if rq_isComplete request then COMPLETED else IN_PROGRESS) \<and>
    unat (t_cachedSize (tm_obj m' t)) = min (unat (t_cachedSize (tm_obj m t)) + unat (rq_size request)) (unat (rq_totalSize request))"
  using x
proof (cases rule: fetch_cases)
  case (delivered g fs1 m1 m2)
  have g: "g = f" using delivered(3) valid by simp
  have f1: "t_outputFd (tm_obj m1 t) = Some f" "t_hasPartialState (tm_obj m1 t) = t_hasPartialState (tm_obj m t)" using valid by (simp_all add: delivered(6))
  note w = write_effect [OF delivered(4) [unfolded g]] and c = commit_effect [OF delivered(5) f1(1), unfolded f1(2)]
  have only: "only_file f fs fs'" using w c only_file_trans by blast
  have r2: "t_cachedSize (tm_obj m2 t) = t_cachedSize (tm_obj m t)" "t_totalSize (tm_obj m2 t) = rq_totalSize request" "task_state m2 t = IN_PROGRESS"
    using delivered(7) st by (auto simp: quiet_upd_def quiet_def)
  have size0: "t_cachedSize (tm_obj m t) \<le> rq_totalSize request"
    using delivered(1) unfolding IsInvalidFetchDataRequest_def Let_def not_less [symmetric] by blast
  have "t_cachedSize (tm_obj m' t) = t_cachedSize (tm_obj m t) + min (rq_size request)
      (if t_cachedSize (tm_obj m t) < rq_totalSize request then rq_totalSize request - t_cachedSize (tm_obj m t) else 0)"
    "task_state m' t = (if rq_isComplete request then COMPLETED else IN_PROGRESS)"
    unfolding delivered(8) Let_def by (simp_all add: task_frame notify_obj r2)
  then show ?thesis using only w c capped_value [OF size0, of "rq_size request"] by simp
qed (use valid in \<open>auto simp: ExecuteFetchDataLocked_def\<close>)


lemma run_delivery:
  "t_outputFd (tm_obj (hs_mgr run_active) 1) = Some (1, 2)" "task_state (hs_mgr run_active) 1 = IN_PROGRESS"
  "fst (ExecuteFetchDataLocked run_exec 0 1 run_request (hs_mgr run_active, run_files)) = E_OK"
  "pwrite_bytes (hf_data run_files (1, 2)) (unat (rq_offset run_request)) (rq_data run_request) = [1, 2, 3]" "rq_data run_request \<noteq> []"
  "\<not> rq_isComplete run_request"
  by code_simp+

theorem data_delivered_witness:
  "\<exists>m' fs'. ExecuteFetchDataLocked run_exec 0 1 run_request (hs_mgr run_active, run_files) = (E_OK, m', fs') \<and>
     hf_data fs' (1, 2) = [1, 2, 3] \<and> task_state m' 1 = IN_PROGRESS"
proof -
  obtain m' fs' where x: "ExecuteFetchDataLocked run_exec 0 1 run_request (hs_mgr run_active, run_files) = (E_OK, m', fs')"
    using run_delivery(3) by (metis prod.collapse)
  show ?thesis using data_delivered [OF run_delivery(1) x run_delivery(2)] x run_delivery(4-6) by auto
qed

end
