(* ===== verification/Spec2Isabelle.thy ===== *)
theory Spec2Isabelle
  imports File_Transfer Cloud_Disk_Recycle Meta_File_Mgr Placeholder_Ops Hydration_Trace Hydration_Delivery
begin

text \<open>
  A verification development for the distributed file service of OpenHarmony
  (\<open>filemanagement_dfs_service\<close>). It models the parts that decide what is stored and who may change
  it: the dentry files in which the cloud file daemon, the cloud disk and the sync-folder service
  keep their directories, the placeholder state of files in sync folders, and the task manager that
  hydrates placeholders. All paths below are relative to \<open>src/\<close>.

  \<^bold>\<open>The program.\<close> A directory of cloud files is a \<^emph>\<open>dentry file\<close>: a hash-indexed file of 4096-byte
  blocks with a slot bitmap, fixed-size entries and name slots. Three classes implement it over the
  same geometry: \<open>MetaFile\<close> (\<open>utils/dentry/src/meta_file.cpp\<close>), \<open>CloudDiskMetaFile\<close>
  (\<open>utils/dentry/src/meta_file_clouddisk.cpp\<close>), which adds POSIX record locks and a flag byte, and
  \<open>CloudDiskServiceMetaFile\<close>
  (\<open>services/clouddiskservice/sync_folder/src/cloud_disk_service_metafile.cpp\<close>), which keeps removed
  entries until they are flushed because a change log refers to their positions. Each has a manager
  that caches its objects. A file of a sync folder may be a \<^emph>\<open>placeholder\<close> whose data is elsewhere;
  its state is an extended attribute byte, and directories count the placeholders below them
  (\<open>services/clouddiskservice/ipc/src/placeholder_helper.cpp\<close>). Fetching the data is a \<^emph>\<open>hydration
  task\<close>: the task manager (\<open>services/clouddiskservice/ipc/src/placeholder_task_manager.cpp\<close>) queues
  the tasks, asks the provider for the data, writes what it delivers, reports progress and handles
  cancellation, timeouts, limits and restarts. The provider of a folder registers a
  callback table (\<open>placeholder_callback_manager.cpp\<close>); losing it cancels its tasks. The service
  itself (\<open>cloud_disk_service.cpp\<close>) finds the folder a request is about in the table of sync folders
  (\<open>cloud_disk_sync_folder.cpp\<close>), checks that the caller owns it, and creates, updates, marks,
  converts and dehydrates placeholders.

  \<^bold>\<open>Conventions.\<close> Structs are records, enumerations datatypes, \<open>uintN_t\<close> values words of that width,
  byte buffers and \<open>std::string\<close> lists, \<open>std::map\<close> an association list in key order. An operation is
  a function from the state to its result and the new state, with one branch per return of the
  source. The outcome of every system call is an argument (records \<open>io_env\<close>, \<open>cd_env\<close>, \<open>open_env\<close>,
  \<open>exec_env\<close>, \<open>activate_env\<close>, \<open>caller_env\<close>, \<open>ops_env\<close> and functions \<open>xerr\<close>), so no theorem assumes that calls succeed unless
  it says so. Loops are structural recursion, or \<open>function\<close> with a measure; the walk to the sync root
  that the code does not bound is a \<open>partial_function\<close>, and its divergence is a theorem. Code that
  may abort (a division by zero) has a result \<open>Trap\<close>. No fuel is used.

  \<^bold>\<open>Theories.\<close>
  \<^item> \<open>Dfs_Prelude\<close>: machine types, errno values, block reads and writes, decimal rendering.
  \<^item> \<open>File_Transfer\<close>: \<open>ReadFile\<close> and \<open>WriteFile\<close> of \<open>utils/dentry/src/file_utils.cpp\<close>, the loops of calls
    behind every block of a dentry file. A single call that moves the block, and a first call that
    fails, do what the dentry files rely on; a block moved in two calls is corrupted, because the
    loops do not advance the buffer. The theories below take a block to be moved whole or not at all.
  \<^item> \<open>Bit_Ops\<close>, \<open>Bucket_Levels\<close>, \<open>Dentry_Group\<close>, \<open>Dentry_File\<close>: the bitmap, the level geometry, one
    block, and the file with its two searches (\<open>FindDentry\<close>, \<open>GetCreateInfo\<close>), polymorphic in the entry
    type because the three classes repeat the code. They show that the searches are sound and
    complete, that growing a file keeps its entries, and how a file changes as a map from names.
  \<^item> \<open>Directory_Spec\<close>: the contract of a dentry store as the locale \<open>directory_store\<close>, interpreted on
    the three classes.
  \<^item> \<open>Cloud_File_Utils\<close>: the name hash \<open>DentryHash\<close> and path helpers of
    \<open>utils/cloud_disk/src/cloud_file_utils.cpp\<close>.
  \<^item> \<open>Meta_File\<close>: \<open>MetaFile\<close>. Creation, removal and update refine the map; rename with its roll-back;
    listing equals the map; a name that is too long makes creation trap.
  \<^item> \<open>Cloud_Disk_Meta_File\<close>, \<open>Cloud_Disk_Recycle\<close>: \<open>CloudDiskMetaFile\<close> with its locks, the moves into
    and out of the recycle directory and the search for a free name. Every lock is released on every
    path; a move there and back restores the entry; failures roll back, except where the code does not.
  \<^item> \<open>Service_Meta_File\<close>, \<open>Service_Meta_Ops\<close>, \<open>Convertor\<close>: \<open>CloudDiskServiceMetaFile\<close> and its histories;
    an entry keeps its position until it is flushed.
  \<^item> \<open>Lru_Cache\<close>, \<open>Record_Id\<close>, \<open>Meta_File_Mgr\<close>, \<open>Service_Meta_Mgr\<close>: the managers, the record id codecs
    and the walks to the root of a sync folder. The caches meet the locale \<open>lru_cache\<close>.
  \<^item> \<open>Path_Resolution\<close>: which node a path names. Empty and \<open>.\<close> components do not count, so different
    spellings name one node, written canonically (\<open>kernel_path\<close>, \<open>canonical\<close>); there are no links.
  \<^item> \<open>Placeholder_State\<close>: the attribute bytes, kept by node, the refresh of the counts of ancestors,
    which climbs over the string of a path, and the recount.
  \<^item> \<open>Disk_Service_Utils\<close>: path checks and error codes of the service.
  \<^item> \<open>Hydration_File\<close>, \<open>Hydration_Tasks\<close>: the task manager, every operation of the class.
  \<^item> \<open>Ordered_Map\<close>, \<open>Hydration_Limits\<close>, \<open>Hydration_Reach\<close>: the service as interleaved steps
    (\<open>hyd_step\<close>, \<open>hyd_reach\<close>) and its first invariants: limits, one task per file, the order of
    dispatch, and that the dispatch loop ends with the service busy.
  \<^item> \<open>Hydration_Invariants\<close>: the locale \<open>task_invariant\<close>, which reduces an invariant of the reachable
    states to the elementary changes of the manager, and its interpretations in \<open>Hydration_Trace\<close>
    (the progress reports of a task) and \<open>Hydration_Deadlines\<close> (the idle timeout).
  \<^item> \<open>Hydration_Cancel\<close>, \<open>Hydration_Delivery\<close>: the cancellation records stay within their limits and
    refuse a delivery that comes late; a successful delivery puts its bytes at their offset in the
    file of the task and changes nothing else.
  \<^item> \<open>Callback_Manager\<close>: the callback tables and, as a step relation \<open>cb_step\<close> over the tables and the
    task manager together, that no task outlives its table and what the death of a provider undoes.
    Removing a table, a user switch and the stop of the service are single steps there, and also
    two each, with the tables gone and the tasks not yet cancelled in between (\<open>cs_closing\<close>).
  \<^item> \<open>Sync_Folder\<close>: the table of folders, the translation of paths, and the checks by which a request
    finds its folder; starting and cancelling a hydration by path name the same task when the path
    is as \<open>realpath\<close> gives it.
  \<^item> \<open>Placeholder_Ops\<close>: the operations on placeholder files over a store of directories, data and
    attributes (\<open>ph_world\<close>). While the attribute calls work, the counts of a folder stay right
    through any sequence of operations (\<open>ph_step\<close>, \<open>ph_reach\<close>); marking is all or nothing;
    dehydration leaves zeros of the same size. Two failures that leave a mark are theorems too, and
    so is the miscount after a path with a doubled slash, which the counts theorem leaves out.

  \<^bold>\<open>Not modelled.\<close> IPC stubs and proxies, NAPI and C bindings (\<open>interfaces\<close>, \<open>frameworks\<close>) only
  marshal arguments to other processes. The FUSE handlers of \<open>services/cloudfiledaemon\<close> and
  \<open>services/clouddiskservice/fuse\<close>, the relational store of \<open>services/clouddisk_database\<close>, the cloud
  sync service and the distributed file daemon (device management, sockets, soft bus) consist of
  calls to libraries whose code is not in the repository; a model of them would be a model of those
  libraries. Of \<open>cloud_disk_service.cpp\<close>, the registration of folders and change listeners, the sync
  states, the progress callbacks and the life cycle of the service are left out for that reason, and
  \<open>RemoveXattr\<close> of \<open>cloud_disk_sync_folder.cpp\<close>. The per-file mutex of the placeholder operations makes
  each of them one step on its file. Symbolic links are not represented. Inside the modelled classes, waiting on condition variables, and the interleaving of two
  operations between the locks of one of them, are not represented: an operation is one step, also
  the cancellation of a task, which the code does with the task's mutex held but releases the map's
  mutex in between. The choice and the activation of a task by the dispatcher, the two halves of
  stopping and those of losing a callback table are steps of their own. Memory allocation failure and logging are omitted.
\<close>

end
